(* ===== verification/Lab_Prelude.thy ===== *)
theory Lab_Prelude
  imports Main "HOL-Library.Word" "HOL-Library.Monad_Syntax"
begin

text \<open>
  What every component of the model shares: the machine types of the C sources, the byte
  buffers the C code indexes and the four routines of \<open>string.h\<close> it calls on them, and the
  generic list, option and word lemmas the component proofs rest on.

  A C array is a \<^typ>\<open>8 word list\<close> of the declared length. An access outside it has no meaning
  in C; here every access is checked and an access outside the array is \<^term>\<open>None\<close>, so that a
  theorem which gives \<^term>\<open>Some\<close> also shows that the code stays inside its buffers.
\<close>

unbundle bit_operations_syntax

type_synonym u8 = "8 word"
type_synonym u16 = "16 word"
type_synonym u32 = "32 word"

text \<open>Facts that unfold one checked access, and facts that compute on buffers.\<close>

named_theorems buffer_simps
named_theorems screen_simps

subsection \<open>Characters\<close>

text \<open>The character constants the C sources use, as bytes.\<close>

abbreviation (input) NUL :: u8 where "NUL \<equiv> 0"
abbreviation (input) BACKSPACE :: u8 where "BACKSPACE \<equiv> 8"
abbreviation (input) NEWLINE :: u8 where "NEWLINE \<equiv> 10"
abbreviation (input) RETURN :: u8 where "RETURN \<equiv> 13"
abbreviation (input) SPACE :: u8 where "SPACE \<equiv> 32"
abbreviation (input) DASH :: u8 where "DASH \<equiv> 45"
abbreviation (input) GREATER :: u8 where "GREATER \<equiv> 62"
abbreviation (input) UNDERSCORE :: u8 where "UNDERSCORE \<equiv> 95"

text \<open>A character constant of the source, and a string literal as its bytes without the terminator.\<close>

definition chr :: "char \<Rightarrow> u8" where
  "chr c = of_char c"

definition bytes_of :: "string \<Rightarrow> u8 list" where
  "bytes_of s = map of_char s"

subsection \<open>Checked access to byte buffers\<close>

definition peek :: "u8 list \<Rightarrow> int \<Rightarrow> u8 option" where
  "peek buf i = (if 0 \<le> i \<and> i < int (length buf) then Some (buf ! nat i) else None)"

definition poke :: "u8 list \<Rightarrow> int \<Rightarrow> u8 \<Rightarrow> u8 list option" where
  "poke buf i v =
     (if 0 \<le> i \<and> i < int (length buf) then Some (buf[nat i := v]) else None)"

text \<open>\<open>memset(&buf[0], v, n)\<close>.\<close>

definition memset :: "u8 list \<Rightarrow> u8 \<Rightarrow> int \<Rightarrow> u8 list option" where
  "memset buf v n =
     (if 0 \<le> n \<and> n \<le> int (length buf)
      then Some (replicate (nat n) v @ drop (nat n) buf) else None)"

text \<open>\<open>memcpy(&dst[d], &src[s], n)\<close> between two different arrays.\<close>

definition memcpy :: "u8 list \<Rightarrow> int \<Rightarrow> u8 list \<Rightarrow> int \<Rightarrow> int \<Rightarrow> u8 list option" where
  "memcpy dst d src s n =
     (if 0 \<le> n \<and> 0 \<le> d \<and> 0 \<le> s \<and> d + n \<le> int (length dst) \<and> s + n \<le> int (length src)
      then Some (take (nat d) dst @ take (nat n) (drop (nat s) src) @ drop (nat (d + n)) dst)
      else None)"

text \<open>\<open>memmove(&buf[d], &buf[s], n)\<close> inside one array.\<close>

definition memmove :: "u8 list \<Rightarrow> int \<Rightarrow> int \<Rightarrow> int \<Rightarrow> u8 list option" where
  "memmove buf d s n = memcpy buf d buf s n"

text \<open>The characters of a C string: the bytes before the first zero byte.\<close>

definition c_string :: "u8 list \<Rightarrow> u8 list" where
  "c_string s = takeWhile (\<lambda>c. c \<noteq> NUL) s"

text \<open>\<open>strncpy\<close>: at most \<open>n\<close> characters, padded with zero bytes up to \<open>n\<close>.\<close>

definition strncpy_bytes :: "u8 list \<Rightarrow> nat \<Rightarrow> u8 list" where
  "strncpy_bytes src n = (let s = take n (c_string src) in s @ replicate (n - length s) NUL)"

definition strncpy :: "u8 list \<Rightarrow> u8 list \<Rightarrow> nat \<Rightarrow> u8 list option" where
  "strncpy dst src n =
     (if n \<le> length dst \<and> (NUL \<in> set src \<or> n \<le> length src)
      then Some (strncpy_bytes src n @ drop n dst) else None)"

definition strnlen :: "u8 list \<Rightarrow> nat \<Rightarrow> nat" where
  "strnlen s n = length (c_string (take n s))"

subsection \<open>Lemmas on buffers\<close>

lemma peek_Some [buffer_simps]: "0 \<le> i \<Longrightarrow> i < int (length buf) \<Longrightarrow> peek buf i = Some (buf ! nat i)"
  by (simp add: peek_def)

lemma poke_Some [buffer_simps]: "0 \<le> i \<Longrightarrow> i < int (length buf) \<Longrightarrow> poke buf i v = Some (buf[nat i := v])"
  by (simp add: poke_def)

lemma length_poke: "poke buf i v = Some buf' \<Longrightarrow> length buf' = length buf"
  by (auto simp: poke_def split: if_splits)

lemma memset_all [buffer_simps]: "n = int (length buf) \<Longrightarrow> memset buf v n = Some (replicate (length buf) v)"
  by (simp add: memset_def)

lemma length_memset: "memset buf v n = Some buf' \<Longrightarrow> length buf' = length buf"
  by (auto simp: memset_def split: if_splits)

lemma length_memcpy: "memcpy dst d src s n = Some buf' \<Longrightarrow> length buf' = length dst"
  by (auto simp: memcpy_def split: if_splits)

lemma length_memmove: "memmove buf d s n = Some buf' \<Longrightarrow> length buf' = length buf"
  by (simp add: memmove_def length_memcpy)

text \<open>
  The two moves of the line editor. Opening a gap at \<open>p\<close> shifts the tail one place right;
  closing it shifts the tail one place left. Both are stated with the tail \<open>t\<close> that moves,
  which includes the terminator, so nothing is said about the bytes behind it.
\<close>

lemma memmove_open_gap:
  assumes "buf = l @ t @ z # rest"
  shows "memmove buf (int (length l) + 1) (int (length l)) (int (length t)) =
    Some (l @ (t @ [z]) ! 0 # t @ rest)"
proof -
  have n1: "nat (int (length l) + 1) = Suc (length l)" by simp
  have n2: "nat (int (length l) + 1 + int (length t)) = Suc (length l + length t)" by simp
  have "take (Suc (length l)) buf = l @ [(t @ [z]) ! 0]"
    using assms by (cases t) auto
  moreover have "drop (Suc (length l + length t)) buf = rest"
    using assms by simp
  moreover have "take (length t) (drop (length l) buf) = t"
    using assms by simp
  ultimately show ?thesis
    using assms by (simp add: memmove_def memcpy_def n1 n2)
qed

lemma memmove_close_gap:
  assumes "buf = l @ c # t @ rest"
  shows "memmove buf (int (length l)) (int (length l) + 1) (int (length t)) =
    Some (l @ t @ (last (c # t) # rest))"
proof -
  have n1: "nat (int (length l) + 1) = Suc (length l)" by simp
  have n2: "nat (int (length l) + int (length t)) = length l + length t" by simp
  have "drop (length l + length t) buf = last (c # t) # rest"
    using assms by (induction t arbitrary: c l buf) (auto simp: drop_Cons')
  moreover have "take (length t) (drop (Suc (length l)) buf) = t"
    using assms by simp
  ultimately show ?thesis
    using assms by (simp add: memmove_def memcpy_def n1 n2)
qed

lemma c_string_append_NUL [simp]: "NUL \<notin> set s \<Longrightarrow> c_string (s @ NUL # t) = s"
  by (simp add: c_string_def takeWhile_append)

lemma c_string_no_NUL [simp]: "NUL \<notin> set s \<Longrightarrow> c_string s = s"
  by (simp add: c_string_def takeWhile_eq_all_conv) blast

lemma c_string_NUL_free [simp]: "NUL \<notin> set (c_string s)"
  by (auto simp: c_string_def dest: set_takeWhileD)

lemma c_string_Nil [simp]: "c_string [] = []"
  by (simp add: c_string_def)

lemma c_string_Cons: "c_string (c # cs) = (if c = NUL then [] else c # c_string cs)"
  by (simp add: c_string_def)

lemma length_strncpy_bytes [simp]: "length (strncpy_bytes s n) = n"
  by (simp add: strncpy_bytes_def Let_def)

subsection \<open>Words\<close>

lemma unat_of_nat_u32 [simp]: "n < 4294967296 \<Longrightarrow> unat (of_nat n :: u32) = n"
  by (simp add: unat_of_nat)

text \<open>
  A statement about every byte, as a check of the 256 of them (an \<open>int\<close> interval, because its
  numerals are binary when the kernel evaluates it).
\<close>

definition all_bytes :: "u8 list" where
  "all_bytes = map word_of_int [0..255]"

lemma nth_all_bytes: "all_bytes ! unat w = w"
proof -
  have "unat w < 256" using unsigned_less [of w] by simp
  moreover have "uint w < 256" using unsigned_less [of w, where 'a = int] by simp
  ultimately have "[0..255] ! unat w = int (unat w)" by (subst nth_upto) simp_all
  with \<open>unat w < 256\<close> show ?thesis by (simp add: all_bytes_def nth_map)
qed

lemma length_all_bytes [simp]: "length all_bytes = 256"
  by (simp add: all_bytes_def)

lemma set_all_bytes [simp]: "set all_bytes = UNIV"
proof -
  have "w \<in> set all_bytes" for w
    using nth_mem [of "unat w" all_bytes] unsigned_less [of w] nth_all_bytes [of w] by simp
  then show ?thesis by blast
qed

lemma all_u8_iff: "(\<forall>w :: u8. P w) \<longleftrightarrow> list_all P all_bytes"
  by (simp add: list_all_iff)

lemma div_mod_unique:
  fixes a a' b b' m :: nat
  assumes "a * m + b = a' * m + b'" and "b < m" and "b' < m"
  shows "a = a' \<and> b = b'"
proof -
  have "a = (a * m + b) div m" using assms(2) by simp
  moreover have "a' = (a' * m + b') div m" using assms(3) by simp
  ultimately have "a = a'" using assms(1) by simp
  with assms(1) show ?thesis by simp
qed

end
