(* ===== verification/Framebuffer.thy ===== *)
theory Framebuffer
  imports Font
begin

text \<open>
  \<open>lab2/fbputchar.c\<close>: the framebuffer character generator. The mapped video memory is a byte
  list of \<open>smem_len\<close> bytes and every store of the drawing loops is checked against it;
  addresses are computed in the 32-bit unsigned arithmetic the C expression has (its operands
  are \<open>__u32\<close> fields). The plain \<open>char\<close> of the target (ARM) is unsigned; with a signed
  \<open>char\<close> the same bytes would index in front of the font instead of behind it.
\<close>

subsection \<open>State\<close>

record fb_var_screeninfo =
  xoffset :: u32
  yoffset :: u32
  bits_per_pixel :: u32

record fb_fix_screeninfo =
  smem_len :: u32
  line_length :: u32

text \<open>The three globals of the file; \<open>framebuffer\<close> holds the bytes of the mapping.\<close>

record fb_state =
  fb_vinfo :: fb_var_screeninfo
  fb_finfo :: fb_fix_screeninfo
  framebuffer :: "u8 list"

subsection \<open>Opening and clearing\<close>

text \<open>What the kernel answers to the calls of \<open>fbopen\<close>, in the order they are made.\<close>

record fb_env =
  open_result :: int
  fscreeninfo_result :: int
  fscreeninfo :: fb_fix_screeninfo
  vscreeninfo_result :: int
  vscreeninfo :: fb_var_screeninfo
  mmap_result :: "u8 list option"

abbreviation (input) FBOPEN_DEV :: int where "FBOPEN_DEV \<equiv> -1"
abbreviation (input) FBOPEN_FSCREENINFO :: int where "FBOPEN_FSCREENINFO \<equiv> -2"
abbreviation (input) FBOPEN_VSCREENINFO :: int where "FBOPEN_VSCREENINFO \<equiv> -3"
abbreviation (input) FBOPEN_MMAP :: int where "FBOPEN_MMAP \<equiv> -4"
abbreviation (input) FBOPEN_BPP :: int where "FBOPEN_BPP \<equiv> -5"

definition fbopen :: "fb_env \<Rightarrow> fb_state \<Rightarrow> int \<times> fb_state" where
  "fbopen env st =
     (if open_result env = -1 then (FBOPEN_DEV, st)
      else if fscreeninfo_result env \<noteq> 0 then (FBOPEN_FSCREENINFO, st)
      else let st1 = st\<lparr>fb_finfo := fscreeninfo env\<rparr> in
        if vscreeninfo_result env \<noteq> 0 then (FBOPEN_VSCREENINFO, st1)
        else let st2 = st1\<lparr>fb_vinfo := vscreeninfo env\<rparr> in
          if bits_per_pixel (fb_vinfo st2) \<noteq> 32 then (FBOPEN_BPP, st2)
          else (case mmap_result env of
                  None \<Rightarrow> (FBOPEN_MMAP, st2\<lparr>framebuffer := []\<rparr>)
                | Some m \<Rightarrow> (0, st2\<lparr>framebuffer := m\<rparr>)))"

definition fbclear :: "fb_state \<Rightarrow> fb_state option" where
  "fbclear st = do {
     m \<leftarrow> memset (framebuffer st) 0 (int (unat (smem_len (fb_finfo st))));
     Some (st\<lparr>framebuffer := m\<rparr>) }"

subsection \<open>Drawing a character\<close>

text \<open>One pixel: red, green and blue are all \<open>v\<close>, the fourth byte is cleared.\<close>

definition put_pixel :: "u8 list \<Rightarrow> nat \<Rightarrow> bool \<Rightarrow> u8 list option" where
  "put_pixel m p on = do {
     let v = (if on then 255 else 0);
     m \<leftarrow> poke m (int p) v;
     m \<leftarrow> poke m (int (p + 1)) v;
     m \<leftarrow> poke m (int (p + 2)) v;
     poke m (int (p + 3)) 0 }"

text \<open>The inner loop over \<open>x\<close>, with \<open>n\<close> iterations left: each bit is two pixels wide.\<close>

fun draw_row :: "u8 list \<Rightarrow> u8 \<Rightarrow> u8 \<Rightarrow> nat \<Rightarrow> nat \<Rightarrow> u8 list option" where
  "draw_row m pixels msk p 0 = Some m"
| "draw_row m pixels msk p (Suc n) = do {
     let on = (pixels AND msk \<noteq> 0);
     m \<leftarrow> put_pixel m p on;
     m \<leftarrow> put_pixel m (p + 4) on;
     draw_row m pixels (drop_bit 1 msk) (p + 8) n }"

text \<open>The outer loop over \<open>y\<close>: each row of the glyph is drawn on two lines.\<close>

fun draw_rows :: "u8 list \<Rightarrow> int \<Rightarrow> nat \<Rightarrow> nat \<Rightarrow> nat \<Rightarrow> nat \<Rightarrow> u8 list option" where
  "draw_rows m pixelp left ll y 0 = Some m"
| "draw_rows m pixelp left ll y (Suc n) = do {
     pixels \<leftarrow> peek font pixelp;
     m \<leftarrow> draw_row m pixels 0x80 left FONT_WIDTH;
     draw_rows m (if odd y then pixelp + 1 else pixelp) (left + ll) ll (y + 1) n }"

text \<open>
  The two summands of \<open>left\<close>, both unsigned 32-bit:
  \<open>(row * FONT_HEIGHT * 2 + yoffset) * line_length\<close> and
  \<open>(col * FONT_WIDTH * 2 + xoffset) * BITS_PER_PIXEL / 8\<close>.
\<close>

definition row_offset :: "fb_state \<Rightarrow> int \<Rightarrow> u32" where
  "row_offset st row =
     (word_of_int (row * 16 * 2) + yoffset (fb_vinfo st)) * line_length (fb_finfo st)"

definition col_offset :: "fb_state \<Rightarrow> int \<Rightarrow> u32" where
  "col_offset st col = (word_of_int (col * 8 * 2) + xoffset (fb_vinfo st)) * 32 div 8"

definition fbputchar :: "fb_state \<Rightarrow> u8 \<Rightarrow> int \<Rightarrow> int \<Rightarrow> fb_state option" where
  "fbputchar st c row col = do {
     m \<leftarrow> draw_rows (framebuffer st) (int FONT_HEIGHT * uint c)
            (unat (row_offset st row) + unat (col_offset st col))
            (unat (line_length (fb_finfo st))) 0 (FONT_HEIGHT * 2);
     Some (st\<lparr>framebuffer := m\<rparr>) }"

text \<open>
  A C string is the bytes of its buffer from the pointer on: running off the end of the
  buffer without meeting a zero byte is an access outside it.
\<close>

fun fbputs :: "fb_state \<Rightarrow> u8 list \<Rightarrow> int \<Rightarrow> int \<Rightarrow> fb_state option" where
  "fbputs st [] row col = None"
| "fbputs st (c # s) row col =
     (if c = NUL then Some st
      else do { st \<leftarrow> fbputchar st c row col; fbputs st s row (col + 1) })"

subsection \<open>What the drawing loops write\<close>

text \<open>
  Byte \<open>b\<close> of line \<open>y\<close> of a drawn character: two bytes of lines and two pixels of four bytes
  for every bit of the glyph, so \<open>y div 2\<close> is the glyph row and \<open>b div 8\<close> the bit.
\<close>

definition raster :: "u8 \<Rightarrow> nat \<Rightarrow> nat \<Rightarrow> u8" where
  "raster c y b =
     (if b mod 4 < 3 \<and> bit (glyph_row (unat c) (y div 2)) (7 - b div 8) then 255 else 0)"

definition pixel_byte :: "bool \<Rightarrow> nat \<Rightarrow> u8" where
  "pixel_byte on k = (if on \<and> k < 3 then 255 else 0)"

lemma put_pixel_Some:
  assumes "p + 4 \<le> length m"
  shows "\<exists>m'. put_pixel m p on = Some m' \<and> length m' = length m \<and>
    (\<forall>i < length m. m' ! i = (if p \<le> i \<and> i < p + 4 then pixel_byte on (i - p) else m ! i))"
proof -
  let ?v = "if on then 255 else (0 :: u8)"
  let ?m = "m[p := ?v, p + 1 := ?v, p + 2 := ?v, p + 3 := 0]"
  have "put_pixel m p on = Some ?m"
    using assms by (simp add: put_pixel_def Let_def poke_def nat_add_distrib)
  moreover have "?m ! i = (if p \<le> i \<and> i < p + 4 then pixel_byte on (i - p) else m ! i)"
    if "i < length m" for i
    using that assms by (auto simp: nth_list_update pixel_byte_def)
  ultimately show ?thesis by (intro exI [of _ ?m]) simp
qed

text \<open>The mask walks down from the most significant bit: at \<open>n\<close> bits left it is bit \<open>n - 1\<close>.\<close>

lemma and_single_bit_u8:
  "n < 8 \<Longrightarrow> ((w :: u8) AND push_bit n 1 \<noteq> 0) = bit w n"
  by (simp add: and_exp_eq_0_iff_not_bit push_bit_eq_mult)

lemma drop_bit_single_bit_u8:
  "drop_bit 1 (push_bit (Suc n) (1 :: u8)) = (if n < 7 then push_bit n 1 else 0)"
  by (rule bit_word_eqI) (auto simp: bit_simps)

lemma split_pixel_pair:
  fixes i p :: nat
  shows "i < p \<or> (\<exists>d. i = p + d \<and> d < 4) \<or> (\<exists>d. i = p + 4 + d \<and> d < 4) \<or> (\<exists>d. i = p + 8 + d)"
  by presburger

lemma draw_row_Some:
  assumes "n \<le> 8" and "p + 8 * n \<le> length m" and "n = 0 \<or> msk = push_bit (n - 1) 1"
  shows "\<exists>m'. draw_row m pixels msk p n = Some m' \<and> length m' = length m \<and>
    (\<forall>i < length m. m' ! i =
       (if p \<le> i \<and> i < p + 8 * n
        then pixel_byte (bit pixels (n - 1 - (i - p) div 8)) ((i - p) mod 4) else m ! i))"
  using assms
proof (induction n arbitrary: m msk p)
  case 0
  then show ?case by auto
next
  case (Suc n)
  let ?on = "pixels AND msk \<noteq> 0"
  have on: "?on = bit pixels n"
    using Suc.prems and_single_bit_u8 [of n pixels] by simp
  obtain m1 where m1: "put_pixel m p ?on = Some m1" "length m1 = length m"
    "\<forall>i < length m. m1 ! i = (if p \<le> i \<and> i < p + 4 then pixel_byte ?on (i - p) else m ! i)"
    using put_pixel_Some [of p m ?on] Suc.prems by auto
  obtain m2 where m2: "put_pixel m1 (p + 4) ?on = Some m2" "length m2 = length m1"
    "\<forall>i < length m1. m2 ! i =
       (if p + 4 \<le> i \<and> i < p + 4 + 4 then pixel_byte ?on (i - (p + 4)) else m1 ! i)"
    using put_pixel_Some [of "p + 4" m1 ?on] Suc.prems m1(2) by auto
  have msk: "n = 0 \<or> drop_bit 1 msk = push_bit (n - 1) 1"
    using Suc.prems drop_bit_single_bit_u8 [of "n - 1"] by (cases n) auto
  obtain m3 where m3: "draw_row m2 pixels (drop_bit 1 msk) (p + 8) n = Some m3"
    "length m3 = length m2"
    "\<forall>i < length m2. m3 ! i =
       (if p + 8 \<le> i \<and> i < p + 8 + 8 * n
        then pixel_byte (bit pixels (n - 1 - (i - (p + 8)) div 8)) ((i - (p + 8)) mod 4)
        else m2 ! i)"
    using Suc.IH [of "p + 8" m2 "drop_bit 1 msk"] Suc.prems msk m1(2) m2(2) by auto
  have "m3 ! i = (if p \<le> i \<and> i < p + 8 * Suc n
        then pixel_byte (bit pixels (Suc n - 1 - (i - p) div 8)) ((i - p) mod 4) else m ! i)"
    if i: "i < length m" for i
  proof -
    consider "i < p" | d where "i = p + d" "d < 4" | d where "i = p + 4 + d" "d < 4"
      | d where "i = p + 8 + d"
      using split_pixel_pair by blast
    then show ?thesis
    proof cases
      case 1
      then show ?thesis using i m1(2,3) m2(2,3) m3(2,3) by simp
    next
      case 2
      then show ?thesis using i m1(2,3) m2(2,3) m3(2,3) on by simp
    next
      case 3
      then show ?thesis using i m1(2,3) m2(2,3) m3(2,3) on by simp
    next
      case 4
      moreover have "(8 + d) div 8 = Suc (d div 8)" "(8 + d) mod 4 = d mod 4" by presburger+
      ultimately show ?thesis using i m1(2,3) m2(2,3) m3(2,3) by simp
    qed
  qed
  with m1 m2 m3 show ?case by (intro exI [of _ m3]) (simp add: Let_def)
qed

lemma peek_font:
  assumes "c < 128" and "k < 16"
  shows "peek font (16 * int c + int k) = Some (glyph_row c k)"
proof -
  have "nat (16 * int c + int k) = 16 * c + k" by (simp add: nat_add_distrib nat_mult_distrib)
  then show ?thesis using assms by (simp add: peek_def glyph_row_def)
qed

lemma div_mod_step:
  fixes d ll :: nat
  assumes "0 < ll" and "ll \<le> d"
  shows "d div ll = Suc ((d - ll) div ll)" and "d mod ll = (d - ll) mod ll"
  using assms by (simp_all add: le_div_geq le_mod_geq)

lemma draw_rows_Some:
  assumes "unat c < 128" and "y + n \<le> 32" and "64 \<le> ll"
    and "n = 0 \<or> left + (n - 1) * ll + 64 \<le> length m"
    and "pixelp = 16 * int (unat c) + int (y div 2)"
  shows "\<exists>m'. draw_rows m pixelp left ll y n = Some m' \<and> length m' = length m \<and>
    (\<forall>i < length m. m' ! i =
       (if left \<le> i \<and> (i - left) div ll < n \<and> (i - left) mod ll < 64
        then raster c (y + (i - left) div ll) ((i - left) mod ll) else m ! i))"
  using assms
proof (induction n arbitrary: m pixelp left y)
  case 0
  then show ?case by simp
next
  case (Suc n)
  have px: "peek font pixelp = Some (glyph_row (unat c) (y div 2))"
    using Suc.prems peek_font [of "unat c" "y div 2"] by simp
  let ?g = "glyph_row (unat c) (y div 2)"
  have fits: "left + 64 \<le> length m" using Suc.prems(4) by auto
  have msk: "8 = (0 :: nat) \<or> (0x80 :: u8) = push_bit (8 - 1) 1" by simp
  obtain m1 where m1: "draw_row m ?g 0x80 left 8 = Some m1" "length m1 = length m"
    "\<forall>i < length m. m1 ! i =
       (if left \<le> i \<and> i < left + 64
        then pixel_byte (bit ?g (7 - (i - left) div 8)) ((i - left) mod 4) else m ! i)"
    using draw_row_Some [OF order_refl _ msk, of left m ?g] fits by auto
  let ?pp = "if odd y then pixelp + 1 else pixelp"
  have pp: "?pp = 16 * int (unat c) + int ((y + 1) div 2)"
    using Suc.prems(5) by (auto elim!: oddE evenE)
  have fits': "n = 0 \<or> left + ll + (n - 1) * ll + 64 \<le> length m1"
    using Suc.prems(4) m1(2) by (cases n) auto
  obtain m2 where m2: "draw_rows m1 ?pp (left + ll) ll (y + 1) n = Some m2"
    "length m2 = length m1"
    "\<forall>i < length m1. m2 ! i =
       (if left + ll \<le> i \<and> (i - (left + ll)) div ll < n \<and> (i - (left + ll)) mod ll < 64
        then raster c (y + 1 + (i - (left + ll)) div ll) ((i - (left + ll)) mod ll)
        else m1 ! i)"
    using Suc.IH [of "y + 1" "left + ll" m1 ?pp] Suc.prems(1-3) pp fits' by auto
  have "m2 ! i = (if left \<le> i \<and> (i - left) div ll < Suc n \<and> (i - left) mod ll < 64
        then raster c (y + (i - left) div ll) ((i - left) mod ll) else m ! i)"
    if i: "i < length m" for i
  proof (cases "left + ll \<le> i")
    case True
    then have "(i - left) div ll = Suc ((i - (left + ll)) div ll)"
      "(i - left) mod ll = (i - (left + ll)) mod ll"
      using div_mod_step [of ll "i - left"] Suc.prems(3) by simp_all
    with True show ?thesis using i m1(2,3) m2(3) Suc.prems(3) by auto
  next
    case False
    then have "left \<le> i \<Longrightarrow> (i - left) div ll = 0 \<and> (i - left) mod ll = i - left"
      by simp
    with False show ?thesis
      using i m1(2,3) m2(3) by (auto simp: raster_def pixel_byte_def)
  qed
  with px m1 m2 show ?case by (intro exI [of _ m2]) simp
qed

subsection \<open>The screen as a grid of character cells\<close>

text \<open>
  The text layout of the clients is 24 rows of 64 cells, each 32 lines high and 16 pixels (64
  bytes) wide. \<open>fb_ok\<close> is the geometry of a framebuffer that has room for it: 32-bit pixels,
  a line that holds 64 cells to the right of \<open>xoffset\<close>, and 24 rows of cells below
  \<open>yoffset\<close> within the mapping.
\<close>

abbreviation (input) screen_rows :: nat where "screen_rows \<equiv> 24"
abbreviation (input) screen_cols :: nat where "screen_cols \<equiv> 64"

definition ll_of :: "fb_state \<Rightarrow> nat" where
  "ll_of st = unat (line_length (fb_finfo st))"

definition fb_ok :: "fb_state \<Rightarrow> bool" where
  "fb_ok st \<longleftrightarrow>
     length (framebuffer st) = unat (smem_len (fb_finfo st)) \<and>
     (16 * screen_cols + unat (xoffset (fb_vinfo st))) * 4 \<le> ll_of st \<and>
     (32 * screen_rows + unat (yoffset (fb_vinfo st))) * ll_of st \<le> unat (smem_len (fb_finfo st))"

text \<open>Address of byte \<open>b\<close> of line \<open>y\<close> of the cell in row \<open>r\<close>, column \<open>c\<close>.\<close>

definition cell_addr :: "fb_state \<Rightarrow> nat \<Rightarrow> nat \<Rightarrow> nat \<Rightarrow> nat \<Rightarrow> nat" where
  "cell_addr st r c y b =
     (32 * r + unat (yoffset (fb_vinfo st)) + y) * ll_of st
     + ((16 * c + unat (xoffset (fb_vinfo st))) * 4 + b)"

definition cell_shows :: "fb_state \<Rightarrow> nat \<Rightarrow> nat \<Rightarrow> u8 \<Rightarrow> bool" where
  "cell_shows st r c ch \<longleftrightarrow>
     (\<forall>y < 32. \<forall>b < 64. framebuffer st ! cell_addr st r c y b = raster ch y b)"

definition same_geometry :: "fb_state \<Rightarrow> fb_state \<Rightarrow> bool" where
  "same_geometry st st' \<longleftrightarrow> fb_vinfo st' = fb_vinfo st \<and> fb_finfo st' = fb_finfo st \<and>
     length (framebuffer st') = length (framebuffer st)"

lemma fb_ok_bounds:
  assumes "fb_ok st"
  shows "(768 + unat (yoffset (fb_vinfo st))) * ll_of st < 2 ^ 32"
    and "(1024 + unat (xoffset (fb_vinfo st))) * 32 < 2 ^ 32"
proof -
  let ?x = "unat (xoffset (fb_vinfo st))" and ?y = "unat (yoffset (fb_vinfo st))"
  have len: "(768 + ?y) * ll_of st \<le> unat (smem_len (fb_finfo st))"
    using assms by (simp add: fb_ok_def)
  also have "\<dots> < 2 ^ 32" using unsigned_less [of "smem_len (fb_finfo st)"] by simp
  finally show a: "(768 + ?y) * ll_of st < 2 ^ 32" .
  have "(1024 + ?x) * 32 \<le> 8 * ll_of st" using assms by (simp add: fb_ok_def)
  also have "\<dots> \<le> (768 + ?y) * ll_of st" by (rule mult_le_mono1) simp
  finally show "(1024 + ?x) * 32 < 2 ^ 32" using a by linarith
qed

lemma unat_add_small: "unat (a :: u32) + unat b < 2 ^ 32 \<Longrightarrow> unat (a + b) = unat a + unat b"
  by (simp add: unat_word_ariths)

lemma unat_mult_small: "unat (a :: u32) * unat b < 2 ^ 32 \<Longrightarrow> unat (a * b) = unat a * unat b"
  by (simp add: unat_word_ariths)

lemma unat_word_of_int_small: "n < 2 ^ 32 \<Longrightarrow> unat (word_of_int (int n) :: u32) = n"
  by simp

lemma unat_row_offset:
  assumes "fb_ok st" and "r < 24"
  shows "unat (row_offset st (int r)) = (32 * r + unat (yoffset (fb_vinfo st))) * ll_of st"
proof -
  let ?y = "yoffset (fb_vinfo st)"
  have ri: "int r * 16 * 2 = int (32 * r)" by simp
  have w: "unat (word_of_int (int r * 16 * 2) :: u32) = 32 * r"
    unfolding ri using assms(2) by (intro unat_word_of_int_small) simp
  have le: "(32 * r + unat ?y) * ll_of st \<le> (768 + unat ?y) * ll_of st"
    using assms(2) by (intro mult_le_mono1) simp
  have ll: "0 < ll_of st" using assms(1) by (simp add: fb_ok_def)
  then have "32 * r + unat ?y \<le> (32 * r + unat ?y) * ll_of st" by simp
  then have sum: "unat (word_of_int (int r * 16 * 2) + ?y) = 32 * r + unat ?y"
    using le fb_ok_bounds(1) [OF assms(1)] w by (subst unat_add_small) linarith+
  have "(32 * r + unat ?y) * ll_of st < 2 ^ 32"
    using le fb_ok_bounds(1) [OF assms(1)] by (rule le_less_trans)
  then have "unat (word_of_int (int r * 16 * 2) + ?y) * unat (line_length (fb_finfo st)) < 2 ^ 32"
    unfolding sum ll_of_def .
  then have "unat (row_offset st (int r)) =
      unat (word_of_int (int r * 16 * 2) + ?y) * unat (line_length (fb_finfo st))"
    unfolding row_offset_def by (rule unat_mult_small)
  then show ?thesis by (simp only: sum ll_of_def)
qed

lemma unat_col_offset:
  assumes "fb_ok st" and "c < 64"
  shows "unat (col_offset st (int c)) = (16 * c + unat (xoffset (fb_vinfo st))) * 4"
proof -
  let ?x = "xoffset (fb_vinfo st)"
  have ci: "int c * 8 * 2 = int (16 * c)" by simp
  have w: "unat (word_of_int (int c * 8 * 2) :: u32) = 16 * c"
    unfolding ci using assms(2) by (intro unat_word_of_int_small) simp
  have lt: "(16 * c + unat ?x) * 32 < 2 ^ 32"
    using fb_ok_bounds(2) [OF assms(1)] assms(2) by simp
  then have sum: "unat (word_of_int (int c * 8 * 2) + ?x) = 16 * c + unat ?x"
    unfolding w [symmetric] by (intro unat_add_small) simp
  have "unat ((word_of_int (int c * 8 * 2) + ?x) * 32) = (16 * c + unat ?x) * 32"
    using sum lt by (subst unat_mult_small) simp_all
  then show ?thesis by (simp add: col_offset_def unat_div)
qed

lemma cell_addr_less:
  assumes "fb_ok st" and "r < 24" and "c < 64" and "y < 32" and "b < 64"
  shows "cell_addr st r c y b < length (framebuffer st)"
proof -
  let ?x = "unat (xoffset (fb_vinfo st))" and ?y = "unat (yoffset (fb_vinfo st))"
  have col: "(16 * c + ?x) * 4 + b < ll_of st" using assms by (simp add: fb_ok_def)
  have "cell_addr st r c y b < (32 * r + ?y + y) * ll_of st + ll_of st"
    using col by (simp add: cell_addr_def)
  also have "\<dots> = (32 * r + ?y + y + 1) * ll_of st" by (simp add: algebra_simps)
  also have "\<dots> \<le> (768 + ?y) * ll_of st" using assms(2,4) by (intro mult_le_mono1) simp
  finally show ?thesis using assms(1) by (simp add: fb_ok_def)
qed

lemma cell_addr_inject:
  assumes ok: "fb_ok st" and "c < 64" and "c' < 64" and "y < 32" and "y' < 32"
    and "b < 64" and "b' < 64" and eq: "cell_addr st r c y b = cell_addr st r' c' y' b'"
  shows "r = r' \<and> c = c' \<and> y = y' \<and> b = b'"
proof -
  let ?x = "unat (xoffset (fb_vinfo st))" and ?y = "unat (yoffset (fb_vinfo st))"
  have "(16 * c + ?x) * 4 + b < ll_of st" "(16 * c' + ?x) * 4 + b' < ll_of st"
    using assms by (simp_all add: fb_ok_def)
  then have "32 * r + ?y + y = 32 * r' + ?y + y' \<and> (16 * c + ?x) * 4 + b = (16 * c' + ?x) * 4 + b'"
    using eq unfolding cell_addr_def by (intro div_mod_unique)
  then have "r * 32 + y = r' * 32 + y'" "c * 64 + b = c' * 64 + b'" by simp_all
  then show ?thesis
    using div_mod_unique [of r 32 y r' y'] div_mod_unique [of c 64 b c' b'] assms(4-7) by simp
qed

text \<open>
  \<open>fbputchar\<close> on a cell of the screen: every byte of the cell becomes the raster of the
  character and no other byte of the mapping changes.
\<close>

lemma fbputchar_cell:
  assumes ok: "fb_ok st" and r: "r < 24" and c: "c < 64" and ch: "unat ch < 128"
  shows "\<exists>st'. fbputchar st ch (int r) (int c) = Some st' \<and> same_geometry st st' \<and>
    cell_shows st' r c ch \<and>
    (\<forall>i < length (framebuffer st). (\<forall>y < 32. \<forall>b < 64. i \<noteq> cell_addr st r c y b) \<longrightarrow>
       framebuffer st' ! i = framebuffer st ! i)"
proof -
  let ?left = "unat (row_offset st (int r)) + unat (col_offset st (int c))"
  let ?fb = "framebuffer st"
  have left: "?left = cell_addr st r c 0 0"
    using unat_row_offset [OF ok r] unat_col_offset [OF ok c] by (simp add: cell_addr_def)
  have addr: "cell_addr st r c y b = ?left + y * ll_of st + b" for y b
    unfolding left by (simp add: cell_addr_def algebra_simps)
  have ll: "64 \<le> ll_of st" using ok by (simp add: fb_ok_def)
  have fits: "32 = (0 :: nat) \<or> ?left + (32 - 1) * ll_of st + 64 \<le> length ?fb"
    using cell_addr_less [OF ok r c, of 31 63] addr [of 31 63] by simp
  have px: "int FONT_HEIGHT * uint ch = 16 * int (unat ch) + int (0 div 2)" by simp
  obtain m where m: "draw_rows ?fb (int FONT_HEIGHT * uint ch) ?left (ll_of st) 0 32 = Some m"
    "length m = length ?fb"
    "\<forall>i < length ?fb. m ! i =
       (if ?left \<le> i \<and> (i - ?left) div ll_of st < 32 \<and> (i - ?left) mod ll_of st < 64
        then raster ch (0 + (i - ?left) div ll_of st) ((i - ?left) mod ll_of st) else ?fb ! i)"
    using draw_rows_Some [OF ch _ ll fits px] by auto
  let ?st = "st\<lparr>framebuffer := m\<rparr>"
  have put: "fbputchar st ch (int r) (int c) = Some ?st"
    using m(1) by (simp add: fbputchar_def ll_of_def)
  have geo: "same_geometry st ?st" using m(2) by (simp add: same_geometry_def)
  have addr': "cell_addr ?st = cell_addr st"
    by (intro ext) (simp add: cell_addr_def ll_of_def)
  have dm: "(cell_addr st r c y b - ?left) div ll_of st = y"
    "(cell_addr st r c y b - ?left) mod ll_of st = b" if "b < 64" for y b
    using that ll by (simp_all add: addr)
  have "m ! cell_addr st r c y b = raster ch y b" if "y < 32" "b < 64" for y b
    using m(3) cell_addr_less [OF ok r c that] that dm [OF that(2)] addr by simp
  then have shown: "cell_shows ?st r c ch" by (simp add: cell_shows_def addr')
  have frame: "m ! i = ?fb ! i"
    if i: "i < length ?fb" and out: "\<forall>y < 32. \<forall>b < 64. i \<noteq> cell_addr st r c y b" for i
  proof (cases "?left \<le> i \<and> (i - ?left) div ll_of st < 32 \<and> (i - ?left) mod ll_of st < 64")
    case True
    let ?y = "(i - ?left) div ll_of st" and ?b = "(i - ?left) mod ll_of st"
    have "i = cell_addr st r c ?y ?b" unfolding addr using True by simp
    with out True show ?thesis by blast
  next
    case False
    then show ?thesis using m(3) i by auto
  qed
  from put geo shown frame show ?thesis by auto
qed

end
