(* ===== verification/Text_Screen.thy ===== *)
theory Text_Screen
  imports Framebuffer
begin

text \<open>
  What \<open>fbputchar\<close> and \<open>fbputs\<close> promise their callers: a screen of 24 rows of 64 character
  cells. The locale \<open>text_display\<close> is that interface; it is interpreted on the model of
  \<open>lab2/fbputchar.c\<close>, and the drawing code of \<open>lab2/lab2.c\<close> is verified through the
  interpretation, over the grid of characters and not over bytes of video memory.
\<close>

type_synonym grid = "nat \<Rightarrow> nat \<Rightarrow> u8"

definition set_cell :: "grid \<Rightarrow> nat \<Rightarrow> nat \<Rightarrow> u8 \<Rightarrow> grid" where
  "set_cell g r c ch = (\<lambda>r' c'. if r' = r \<and> c' = c then ch else g r' c')"

definition write_row :: "grid \<Rightarrow> nat \<Rightarrow> nat \<Rightarrow> u8 list \<Rightarrow> grid" where
  "write_row g r c s =
     (\<lambda>r' c'. if r' = r \<and> c \<le> c' \<and> c' < c + length s then s ! (c' - c) else g r' c')"

definition printable_font :: "u8 \<Rightarrow> bool" where
  "printable_font ch \<longleftrightarrow> ch \<noteq> NUL \<and> unat ch < 128"

lemma write_row_Nil [simp]: "write_row g r c [] = g"
  by (intro ext) (auto simp: write_row_def)

lemma write_row_Cons: "write_row g r c (ch # s) = write_row (set_cell g r c ch) r (Suc c) s"
  by (intro ext) (auto simp: write_row_def set_cell_def nth_Cons' Suc_diff_Suc le_less)

lemma write_row_other_row [screen_simps]: "r' \<noteq> r \<Longrightarrow> write_row g r c s r' c' = g r' c'"
  by (simp add: write_row_def)

lemma write_row_full [screen_simps]: "c' < length s \<Longrightarrow> write_row g r 0 s r c' = s ! c'"
  by (simp add: write_row_def)

lemma set_cell_apply [screen_simps]:
  "set_cell g r c ch r' c' = (if r' = r \<and> c' = c then ch else g r' c')"
  by (simp add: set_cell_def)

subsection \<open>The interface\<close>

locale text_display =
  fixes ok :: "'d \<Rightarrow> bool"
    and displays :: "'d \<Rightarrow> grid \<Rightarrow> bool"
    and put :: "'d \<Rightarrow> u8 \<Rightarrow> int \<Rightarrow> int \<Rightarrow> 'd option"
    and puts :: "'d \<Rightarrow> u8 list \<Rightarrow> int \<Rightarrow> int \<Rightarrow> 'd option"
  assumes put_cell: "ok d \<Longrightarrow> displays d g \<Longrightarrow> r < screen_rows \<Longrightarrow> c < screen_cols \<Longrightarrow>
      unat ch < 128 \<Longrightarrow>
      \<exists>d'. put d ch (int r) (int c) = Some d' \<and> ok d' \<and> displays d' (set_cell g r c ch)"
    and puts_end: "puts d (NUL # s) row col = Some d"
    and puts_step: "ch \<noteq> NUL \<Longrightarrow>
      puts d (ch # s) row col = Option.bind (put d ch row col) (\<lambda>d'. puts d' s row (col + 1))"
begin

text \<open>A string of font characters that fits its row appears in its cells, and only there.\<close>

lemma puts_row:
  assumes "ok d" and "displays d g" and "r < screen_rows" and "c + length s \<le> screen_cols"
    and "\<forall>ch \<in> set s. printable_font ch"
  shows "\<exists>d'. puts d (s @ NUL # t) (int r) (int c) = Some d' \<and> ok d' \<and>
    displays d' (write_row g r c s)"
  using assms
proof (induction s arbitrary: d g c)
  case Nil
  then show ?case by (simp add: puts_end)
next
  case (Cons ch s)
  then have ch: "ch \<noteq> NUL" "unat ch < 128" by (auto simp: printable_font_def)
  obtain d1 where d1: "put d ch (int r) (int c) = Some d1" "ok d1"
    "displays d1 (set_cell g r c ch)"
    using put_cell [OF Cons.prems(1-3) _ ch(2), of c] Cons.prems(4) by auto
  have fits: "Suc c + length s \<le> screen_cols" using Cons.prems(4) by simp
  have font: "\<forall>ch \<in> set s. printable_font ch" using Cons.prems(5) by simp
  have "\<exists>d'. puts d1 (s @ NUL # t) (int r) (int (Suc c)) = Some d' \<and> ok d' \<and>
    displays d' (write_row (set_cell g r c ch) r (Suc c) s)"
    by (rule Cons.IH [OF d1(2,3) Cons.prems(3) fits font])
  then show ?case using d1(1) ch(1) by (simp add: puts_step write_row_Cons add.commute)
qed

text \<open>The callers of \<open>lab2.c\<close> always write whole rows of 64 characters.\<close>

lemma puts_full_row:
  assumes "ok d" and "displays d g" and "r < screen_rows" and "length s = screen_cols"
    and "\<forall>ch \<in> set s. printable_font ch"
  shows "\<exists>d'. puts d (s @ [NUL]) (int r) 0 = Some d' \<and> ok d' \<and> displays d' (write_row g r 0 s)"
  using puts_row [OF assms(1-3) _ assms(5), of 0 "[]"] assms(4) by simp

end

subsection \<open>\<open>fbputchar.c\<close> provides it\<close>

text \<open>\<open>st\<close> shows the grid: the bytes of every cell are the raster of the cell's character.\<close>

definition displays :: "fb_state \<Rightarrow> grid \<Rightarrow> bool" where
  "displays st g \<longleftrightarrow> (\<forall>r < screen_rows. \<forall>c < screen_cols. cell_shows st r c (g r c))"

lemma same_geometry_ok: "same_geometry st st' \<Longrightarrow> fb_ok st \<Longrightarrow> fb_ok st'"
  by (simp add: same_geometry_def fb_ok_def ll_of_def)

lemma same_geometry_addr: "same_geometry st st' \<Longrightarrow> cell_addr st' = cell_addr st"
  by (intro ext) (simp add: same_geometry_def cell_addr_def ll_of_def)

lemma fbputchar_displays:
  assumes ok: "fb_ok st" and g: "displays st g" and r: "r < screen_rows" and c: "c < screen_cols"
    and ch: "unat ch < 128"
  shows "\<exists>st'. fbputchar st ch (int r) (int c) = Some st' \<and> fb_ok st' \<and>
    displays st' (set_cell g r c ch)"
proof -
  obtain st' where put: "fbputchar st ch (int r) (int c) = Some st'"
    and geo: "same_geometry st st'" and shown: "cell_shows st' r c ch"
    and frame: "\<And>i. i < length (framebuffer st) \<Longrightarrow>
      (\<forall>y < 32. \<forall>b < 64. i \<noteq> cell_addr st r c y b) \<Longrightarrow> framebuffer st' ! i = framebuffer st ! i"
    using fbputchar_cell [OF ok r c ch] by blast
  have "cell_shows st' r' c' (set_cell g r c ch r' c')"
    if r': "r' < screen_rows" and c': "c' < screen_cols" for r' c'
  proof (cases "r' = r \<and> c' = c")
    case True
    then show ?thesis using shown by (simp add: set_cell_def)
  next
    case False
    have "framebuffer st' ! cell_addr st r' c' y b = framebuffer st ! cell_addr st r' c' y b"
      if "y < 32" "b < 64" for y b
      using False cell_addr_inject [OF ok] that c c'
      by (intro frame cell_addr_less [OF ok r' c']) blast+
    then have "cell_shows st' r' c' (g r' c')"
      using g r' c' by (simp add: displays_def cell_shows_def same_geometry_addr [OF geo])
    then show ?thesis using False by (auto simp: set_cell_def)
  qed
  then have "displays st' (set_cell g r c ch)" by (simp add: displays_def)
  with put same_geometry_ok [OF geo ok] show ?thesis by blast
qed

interpretation fb: text_display fb_ok displays fbputchar fbputs
  by unfold_locales (auto dest: fbputchar_displays)

text \<open>A cleared screen shows spaces: the glyph of the space is empty.\<close>

lemma raster_space: "y < 32 \<Longrightarrow> raster SPACE y b = 0"
proof -
  have "glyph_row 32 k = 0" if "k < 16" for k
  proof -
    have "\<forall>k \<in> set [0..<16]. font ! (512 + k) = 0"
      by (simp add: font_def font_rows_def upt_rec)
    then show ?thesis using that by (simp add: glyph_row_def)
  qed
  then show "y < 32 \<Longrightarrow> raster SPACE y b = 0" by (simp add: raster_def)
qed

definition blank_grid :: grid where
  "blank_grid = (\<lambda>r c. SPACE)"

lemma fbclear_displays:
  assumes ok: "fb_ok st"
  shows "\<exists>st'. fbclear st = Some st' \<and> fb_ok st' \<and> displays st' blank_grid"
proof -
  let ?n = "length (framebuffer st)"
  let ?st = "st\<lparr>framebuffer := replicate ?n 0\<rparr>"
  have clear: "fbclear st = Some ?st"
    using ok by (simp add: fbclear_def buffer_simps fb_ok_def)
  have geo: "same_geometry st ?st" by (simp add: same_geometry_def)
  have "cell_shows ?st r c SPACE" if "r < screen_rows" "c < screen_cols" for r c
    using cell_addr_less [OF ok that]
    by (simp add: cell_shows_def raster_space same_geometry_addr [OF geo])
  then have "displays ?st blank_grid" by (simp add: displays_def blank_grid_def)
  with clear same_geometry_ok [OF geo ok] show ?thesis by blast
qed

subsection \<open>Properties of the character generator\<close>

text \<open>
  The 1024 x 768 console of the board: 4096 bytes a line, no panning. It is the concrete
  framebuffer of the witnesses; \<open>fb_ok\<close> holds for it.
\<close>

definition console_bytes :: "u8 list" where
  "console_bytes = replicate 3145728 0"

definition console :: fb_state where
  "console = \<lparr>fb_vinfo = \<lparr>xoffset = 0, yoffset = 0, bits_per_pixel = 32\<rparr>,
     fb_finfo = \<lparr>smem_len = 3145728, line_length = 4096\<rparr>, framebuffer = console_bytes\<rparr>"

lemma length_console_bytes: "length console_bytes = 3145728"
  unfolding console_bytes_def by (rule length_replicate)

lemma fb_ok_console: "fb_ok console"
  by (simp add: fb_ok_def ll_of_def console_def length_console_bytes)

lemma fbputchar_non_ascii_None:
  assumes "128 \<le> unat ch"
  shows "fbputchar st ch row col = None"
proof -
  have "int 128 \<le> int (unat ch)" using assms by (rule of_nat_mono)
  then have "int (length font) \<le> int FONT_HEIGHT * uint ch" by simp
  then have "peek font (int FONT_HEIGHT * uint ch) = None" by (simp add: peek_def)
  moreover have "FONT_HEIGHT * 2 = Suc 31" by simp
  ultimately show ?thesis unfolding fbputchar_def by (simp only: draw_rows.simps) simp
qed

lemma fbputs_non_ascii_None:
  "c \<in> set s \<Longrightarrow> 128 \<le> unat c \<Longrightarrow> NUL \<notin> set s \<Longrightarrow> fbputs st (s @ t) row col = None"
proof (induction s arbitrary: st col)
  case Nil
  then show ?case by simp
next
  case (Cons d s)
  then show ?case
    using fbputchar_non_ascii_None [of d st row col] by (cases "fbputchar st d row col") auto
qed

text \<open>
  C8. Drawing a font character in a cell of the text screen succeeds (no access outside the
  font or the mapped memory), sets every byte of that cell to the glyph doubled in both
  directions, white on black, and changes no byte outside the cell.
\<close>

theorem fbputchar_draws_glyph:
  assumes "fb_ok st" and "r < screen_rows" and "c < screen_cols" and "unat ch < 128"
  shows "\<exists>st'. fbputchar st ch (int r) (int c) = Some st' \<and> fb_ok st' \<and>
    (\<forall>y < 32. \<forall>b < 64. framebuffer st' ! cell_addr st r c y b =
       (if b mod 4 < 3 \<and> bit (font ! (16 * unat ch + y div 2)) (7 - b div 8) then 255 else 0)) \<and>
    (\<forall>i < length (framebuffer st). (\<forall>y < 32. \<forall>b < 64. i \<noteq> cell_addr st r c y b) \<longrightarrow>
       framebuffer st' ! i = framebuffer st ! i)"
proof -
  obtain st' where st': "fbputchar st ch (int r) (int c) = Some st'" "same_geometry st st'"
    "cell_shows st' r c ch"
    "\<forall>i < length (framebuffer st). (\<forall>y < 32. \<forall>b < 64. i \<noteq> cell_addr st r c y b) \<longrightarrow>
       framebuffer st' ! i = framebuffer st ! i"
    using fbputchar_cell [OF assms] by blast
  have "\<forall>y < 32. \<forall>b < 64. framebuffer st' ! cell_addr st r c y b =
       (if b mod 4 < 3 \<and> bit (font ! (16 * unat ch + y div 2)) (7 - b div 8) then 255 else 0)"
    using st'(3) by (simp add: cell_shows_def same_geometry_addr [OF st'(2)] raster_def glyph_row_def)
  with st' same_geometry_ok [OF st'(2) assms(1)] show ?thesis by blast
qed

theorem fbputchar_draws_glyph_witness:
  "\<exists>st'. fbputchar console 65 (int 3) (int 10) = Some st' \<and> fb_ok st'"
proof -
  have a: "3 < screen_rows" and b: "10 < screen_cols" and c: "unat (65 :: u8) < 128" by simp_all
  show ?thesis
    by (rule ex_forward [OF fbputchar_draws_glyph [OF fb_ok_console a b c]])
      (elim conjE, intro conjI)
qed

text \<open>
  The font has 128 glyphs and the code does not check its character: for a byte of 128 or
  more the very first read of the glyph lies outside the table, whatever the position.
\<close>

theorem fbputchar_non_ascii_faults:
  assumes "128 \<le> unat ch"
  shows "fbputchar st ch row col = None"
  using assms by (rule fbputchar_non_ascii_None)

theorem fbputchar_non_ascii_faults_witness: "fbputchar console 0xE9 0 0 = None"
  by (rule fbputchar_non_ascii_faults) simp

text \<open>
  \<open>fbputs\<close> on a terminated string of font characters that fits in its row writes the
  characters into consecutive cells of that row and leaves every other cell of the screen as
  it was.
\<close>

theorem fbputs_writes_row:
  assumes "fb_ok st" and "displays st g" and "r < screen_rows"
    and "c + length s \<le> screen_cols" and "\<forall>ch \<in> set s. printable_font ch"
  shows "\<exists>st'. fbputs st (s @ NUL # t) (int r) (int c) = Some st' \<and> fb_ok st' \<and>
    displays st' (\<lambda>r' c'. if r' = r \<and> c \<le> c' \<and> c' < c + length s then s ! (c' - c) else g r' c')"
  using fb.puts_row [OF assms] by (simp add: write_row_def)

theorem fbputs_writes_row_witness:
  "\<exists>st st'. fbputs st ([72, 105] @ NUL # []) (int 4) (int 10) = Some st' \<and> fb_ok st'"
proof -
  obtain st where st: "fb_ok st" "displays st blank_grid"
    using fbclear_displays [OF fb_ok_console] by blast
  have "\<forall>ch \<in> set [72, 105]. printable_font ch" by (simp add: printable_font_def)
  then show ?thesis using fbputs_writes_row [OF st, of 4 10 "[72, 105]" "[]"] by auto
qed

end
