(* ===== verification/Editor.thy ===== *)
theory Editor
  imports Lab_Prelude
begin

text \<open>
  The input line of \<open>lab2/lab2.c\<close>: the globals \<open>input_buf\<close>, \<open>input_len\<close>, \<open>cursor_pos\<close> and
  \<open>last_sent\<close>, the editing operations the main loop performs on them, and \<open>send_input_line\<close>.
  Every store is checked against the declared array lengths. The specification is a text with
  a cursor, as the characters before it and those behind it; \<open>edits\<close> relates the two.
\<close>

abbreviation (input) INPUT_MAX_LEN :: int where "INPUT_MAX_LEN \<equiv> 126"

record editor =
  input_buf :: "u8 list"
  input_len :: int
  cursor_pos :: int
  last_sent :: "u8 list"

text \<open>Static storage is zero: \<open>char input_buf[127]\<close>, \<open>char last_sent[128]\<close>.\<close>

definition editor_init :: editor where
  "editor_init = \<lparr>input_buf = replicate 127 0, input_len = 0, cursor_pos = 0,
     last_sent = replicate 128 0\<rparr>"

subsection \<open>Operations\<close>

definition cursor_left :: "editor \<Rightarrow> editor" where
  "cursor_left e = (if cursor_pos e > 0 then e\<lparr>cursor_pos := cursor_pos e - 1\<rparr> else e)"

definition cursor_right :: "editor \<Rightarrow> editor" where
  "cursor_right e = (if cursor_pos e < input_len e then e\<lparr>cursor_pos := cursor_pos e + 1\<rparr> else e)"

definition backspace :: "editor \<Rightarrow> editor option" where
  "backspace e =
     (if cursor_pos e > 0 then do {
        b \<leftarrow> memmove (input_buf e) (cursor_pos e - 1) (cursor_pos e)
               (input_len e - cursor_pos e + 1);
        Some (e\<lparr>input_buf := b, input_len := input_len e - 1, cursor_pos := cursor_pos e - 1\<rparr>) }
      else Some e)"

definition insert_char :: "editor \<Rightarrow> u8 \<Rightarrow> editor option" where
  "insert_char e ch =
     (if input_len e < INPUT_MAX_LEN then do {
        b \<leftarrow> memmove (input_buf e) (cursor_pos e + 1) (cursor_pos e)
               (input_len e - cursor_pos e + 1);
        b \<leftarrow> poke b (cursor_pos e) ch;
        Some (e\<lparr>input_buf := b, input_len := input_len e + 1, cursor_pos := cursor_pos e + 1\<rparr>) }
      else Some e)"

text \<open>
  The loop that writes the line to the socket. \<open>ws\<close> is what the successive calls of \<open>write\<close>
  return (a call past the end of \<open>ws\<close> fails); \<open>rest\<close> is \<open>sendBuf[sent..sendLen)\<close>. The result
  is the bytes the socket took.
\<close>

fun send_loop :: "int list \<Rightarrow> u8 list \<Rightarrow> u8 list" where
  "send_loop ws [] = []"
| "send_loop [] (b # rest) = []"
| "send_loop (w # ws) (b # rest) =
     (if w \<le> 0 then []
      else take (nat w) (b # rest) @ send_loop ws (drop (nat w) (b # rest)))"

definition send_input_line :: "editor \<Rightarrow> int list \<Rightarrow> (editor \<times> u8 list) option" where
  "send_input_line e ws =
     (if input_len e \<le> 0 then Some (e, [])
      else do {
        sendBuf \<leftarrow> memcpy (replicate 128 0) 0 (input_buf e) 0 (input_len e);
        sendBuf \<leftarrow> poke sendBuf (input_len e) NEWLINE;
        let sendLen = input_len e + 1;
        ls \<leftarrow> memcpy (last_sent e) 0 sendBuf 0 sendLen;
        ls \<leftarrow> poke ls sendLen NUL;
        let out = send_loop ws (take (nat sendLen) sendBuf);
        b \<leftarrow> memset (input_buf e) 0 127;
        Some (e\<lparr>input_buf := b, input_len := 0, cursor_pos := 0, last_sent := ls\<rparr>, out) })"

subsection \<open>Specification: a text with a cursor\<close>

text \<open>\<open>edits e l r\<close>: the editor holds the text \<open>l @ r\<close> with the cursor between the two parts.\<close>

definition edits :: "editor \<Rightarrow> u8 list \<Rightarrow> u8 list \<Rightarrow> bool" where
  "edits e l r \<longleftrightarrow>
     length (input_buf e) = 127 \<and> length (last_sent e) = 128 \<and>
     take (length l + length r + 1) (input_buf e) = l @ r @ [NUL] \<and>
     input_len e = int (length l + length r) \<and> cursor_pos e = int (length l) \<and>
     length l + length r \<le> 126"

definition editor_inv :: "editor \<Rightarrow> bool" where
  "editor_inv e \<longleftrightarrow> (\<exists>l r. edits e l r \<and> (\<forall>c \<in> set (l @ r). 32 \<le> c \<and> c \<le> 126))"

lemma edits_bufE:
  assumes "edits e l r"
  obtains rest where "input_buf e = l @ r @ NUL # rest"
    and "length rest = 126 - (length l + length r)"
proof -
  let ?n = "length l + length r + 1"
  have "input_buf e = take ?n (input_buf e) @ drop ?n (input_buf e)" by simp
  also have "\<dots> = l @ r @ NUL # drop ?n (input_buf e)" using assms by (simp add: edits_def)
  finally have "input_buf e = l @ r @ NUL # drop ?n (input_buf e)" .
  moreover have "length (drop ?n (input_buf e)) = 126 - (length l + length r)"
    using assms by (simp add: edits_def)
  ultimately show thesis by (rule that)
qed

lemma edits_init: "edits editor_init [] []"
  by (simp add: edits_def editor_init_def take_Suc)

lemma edits_left: "edits e (l @ [c]) r \<Longrightarrow> edits (cursor_left e) l (c # r)"
  by (simp add: edits_def cursor_left_def)

lemma edits_left_end: "edits e [] r \<Longrightarrow> cursor_left e = e"
  by (simp add: edits_def cursor_left_def)

lemma edits_right: "edits e l (c # r) \<Longrightarrow> edits (cursor_right e) (l @ [c]) r"
  by (simp add: edits_def cursor_right_def)

lemma edits_right_end: "edits e l [] \<Longrightarrow> cursor_right e = e"
  by (simp add: edits_def cursor_right_def)

lemma edits_backspace:
  assumes "edits e (l @ [c]) r"
  shows "\<exists>e'. backspace e = Some e' \<and> edits e' l r"
proof -
  obtain rest where buf: "input_buf e = (l @ [c]) @ r @ NUL # rest"
    using assms by (rule edits_bufE)
  have idx: "cursor_pos e - 1 = int (length l)" "cursor_pos e = int (length l) + 1"
    "input_len e - cursor_pos e + 1 = int (length (r @ [NUL]))" "0 < cursor_pos e"
    using assms by (simp_all add: edits_def)
  have "memmove (input_buf e) (int (length l)) (int (length l) + 1) (int (length (r @ [NUL]))) =
      Some (l @ (r @ [NUL]) @ last (c # r @ [NUL]) # rest)"
    by (rule memmove_close_gap) (simp add: buf)
  then have "memmove (input_buf e) (cursor_pos e - 1) (cursor_pos e)
      (input_len e - cursor_pos e + 1) = Some (l @ (r @ [NUL]) @ last (c # r @ [NUL]) # rest)"
    by (simp only: idx(1,3)) (simp only: idx(2))
  then show ?thesis
    using assms buf idx(4) by (simp add: backspace_def edits_def)
qed

lemma edits_backspace_end: "edits e [] r \<Longrightarrow> backspace e = Some e"
  by (simp add: backspace_def edits_def)

lemma edits_insert:
  assumes "edits e l r" and "length l + length r < 126"
  shows "\<exists>e'. insert_char e ch = Some e' \<and> edits e' (l @ [ch]) r"
proof -
  obtain rest where buf: "input_buf e = l @ r @ NUL # rest"
    and "length rest = 126 - (length l + length r)"
    using assms(1) by (rule edits_bufE)
  then obtain z rest' where rest: "rest = z # rest'" using assms(2) by (cases rest) auto
  let ?b = "l @ ((r @ [NUL]) @ [z]) ! 0 # (r @ [NUL]) @ rest'"
  have idx: "cursor_pos e = int (length l)" "input_len e < 126"
    "input_len e - int (length l) + 1 = int (length (r @ [NUL]))"
    using assms by (simp_all add: edits_def)
  have "memmove (input_buf e) (int (length l) + 1) (int (length l)) (int (length (r @ [NUL]))) =
      Some ?b"
    by (rule memmove_open_gap) (simp add: buf rest)
  then have mm: "memmove (input_buf e) (cursor_pos e + 1) (cursor_pos e)
      (input_len e - cursor_pos e + 1) = Some ?b"
    by (simp only: idx)
  have pk: "poke ?b (cursor_pos e) ch = Some (l @ ch # r @ NUL # rest')"
    by (simp add: poke_def idx)
  show ?thesis
    unfolding insert_char_def mm using assms buf rest idx(2) pk by (simp add: edits_def)
qed

lemma edits_insert_full:
  "edits e l r \<Longrightarrow> length l + length r = 126 \<Longrightarrow> insert_char e ch = Some e"
  by (simp add: insert_char_def edits_def)

subsection \<open>Sending\<close>

lemma send_loop_prefix: "\<exists>rest. line = send_loop ws line @ rest"
proof (induction ws line rule: send_loop.induct)
  case (3 w ws b rest)
  show ?case
  proof (cases "w \<le> 0")
    case False
    then obtain r where "drop (nat w) (b # rest) = send_loop ws (drop (nat w) (b # rest)) @ r"
      using "3.IH" by blast
    then have "b # rest = take (nat w) (b # rest) @ send_loop ws (drop (nat w) (b # rest)) @ r"
      by (metis append_take_drop_id)
    with False show ?thesis by (intro exI [of _ r]) simp
  qed simp
qed simp_all

text \<open>Every call of \<open>write\<close> makes progress and enough calls succeed: the whole line goes out.\<close>

lemma send_loop_complete:
  "list_all (\<lambda>w. 0 < w) ws \<Longrightarrow> length line \<le> length ws \<Longrightarrow> send_loop ws line = line"
proof (induction ws line rule: send_loop.induct)
  case (3 w ws b rest)
  then have "send_loop ws (drop (nat w) (b # rest)) = drop (nat w) (b # rest)" by auto
  with 3 show ?case by simp
qed simp_all

lemma edits_send:
  assumes "edits e l r" and "l @ r \<noteq> []"
  shows "\<exists>e'. send_input_line e ws = Some (e', send_loop ws (l @ r @ [NEWLINE])) \<and> edits e' [] [] \<and>
    take (length (l @ r) + 2) (last_sent e') = l @ r @ [NEWLINE, NUL]"
proof -
  obtain rest where buf: "input_buf e = l @ r @ NUL # rest"
    and len: "length rest = 126 - (length l + length r)"
    using assms(1) by (rule edits_bufE)
  let ?n = "length l + length r"
  have e: "input_len e = int ?n" "?n \<le> 126" "length (last_sent e) = 128"
    "length (input_buf e) = 127"
    using assms(1) by (simp_all add: edits_def)
  have "0 < length (l @ r)" using assms(2) length_greater_0_conv by blast
  then have pos: "0 < int ?n" by (simp only: length_append of_nat_0_less_iff)
  have il: "nat (input_len e) = ?n" "nat (input_len e + 1) = Suc ?n" "0 \<le> input_len e"
    "input_len e \<le> 126"
    using e(1,2) by simp_all
  have np: "\<not> input_len e \<le> 0" unfolding e(1) not_le by (rule pos)
  let ?z = "replicate (128 - ?n) (0 :: u8)"
  have z: "?z = 0 # replicate (127 - ?n) 0" 
  proof -
    have "128 - ?n = Suc (127 - ?n)" using e(2) by simp
    then show ?thesis by (simp only: replicate_Suc)
  qed
  have c1: "memcpy (replicate 128 0) 0 (input_buf e) 0 (input_len e) = Some (l @ r @ ?z)"
    using e buf by (simp add: memcpy_def)
  have p1: "poke (l @ r @ ?z) (input_len e) NEWLINE =
      Some (l @ r @ NEWLINE # replicate (127 - ?n) 0)"
    unfolding z using e(2) il by (simp add: poke_def list_update_append)
  let ?ls = "l @ r @ NEWLINE # drop (Suc ?n) (last_sent e)"
  have c2: "memcpy (last_sent e) 0 (l @ r @ NEWLINE # replicate (127 - ?n) 0) 0 (input_len e + 1) =
      Some ?ls"
    using e by (simp add: memcpy_def nat_add_distrib)
  have tl: "drop (Suc ?n) (last_sent e) = last_sent e ! (Suc ?n) # drop (Suc (Suc ?n)) (last_sent e)"
    using e by (subst Cons_nth_drop_Suc [symmetric]) simp_all
  have p2: "poke ?ls (input_len e + 1) NUL =
      Some (l @ r @ NEWLINE # NUL # drop (Suc (Suc ?n)) (last_sent e))"
    unfolding tl using e(2,3) il by (simp add: poke_def list_update_append)
  have ms: "memset (input_buf e) 0 127 = Some (replicate 127 0)"
    using e by (simp add: memset_def)
  let ?e = "e\<lparr>input_buf := replicate 127 0, input_len := 0, cursor_pos := 0,
    last_sent := l @ r @ NEWLINE # NUL # drop (Suc (Suc ?n)) (last_sent e)\<rparr>"
  have "send_input_line e ws = Some (?e, send_loop ws (l @ r @ [NEWLINE]))"
    using np by (simp add: send_input_line_def c1 p1 c2 p2 ms il(2) Let_def)
  moreover have "edits ?e [] []" using e by (simp add: edits_def take_Suc)
  moreover have "take (length (l @ r) + 2) (last_sent ?e) = l @ r @ [NEWLINE, NUL]" by simp
  ultimately show ?thesis by blast
qed

lemma edits_send_empty: "edits e [] [] \<Longrightarrow> send_input_line e ws = Some (e, [])"
  by (simp add: send_input_line_def edits_def)

subsection \<open>Properties\<close>

definition printable_text :: "u8 list \<Rightarrow> bool" where
  "printable_text s \<longleftrightarrow> (\<forall>c \<in> set s. 32 \<le> c \<and> c \<le> 126)"

text \<open>
  C5. The line editor implements editing a text at a cursor. From a buffer that holds
  \<open>l @ r\<close> with the cursor between them, every operation stays inside its arrays and leaves
  the buffer holding, terminated and with the matching length and cursor: the text with the
  character inserted at the cursor (or unchanged when the line is full), with the character
  before the cursor deleted, with the cursor moved by one place, or nothing to do at an end.
\<close>

theorem editor_refines_text:
  assumes "edits e l r"
  shows "(\<exists>e'. insert_char e ch = Some e' \<and>
           (if length l + length r < 126 then edits e' (l @ [ch]) r else e' = e)) \<and>
    (\<exists>e'. backspace e = Some e' \<and> edits e' (butlast l) r) \<and>
    (if l = [] then cursor_left e = e else edits (cursor_left e) (butlast l) (last l # r)) \<and>
    (if r = [] then cursor_right e = e else edits (cursor_right e) (l @ [hd r]) (tl r))"
proof (intro conjI)
  have full: "\<not> length l + length r < 126 \<Longrightarrow> length l + length r = 126"
    using assms by (simp add: edits_def)
  show "\<exists>e'. insert_char e ch = Some e' \<and>
      (if length l + length r < 126 then edits e' (l @ [ch]) r else e' = e)"
    using edits_insert [OF assms, of ch] edits_insert_full [OF assms full, of ch] by auto
  show "\<exists>e'. backspace e = Some e' \<and> edits e' (butlast l) r"
    using assms edits_backspace edits_backspace_end by (cases l rule: rev_cases) auto
  show "if l = [] then cursor_left e = e else edits (cursor_left e) (butlast l) (last l # r)"
    using assms edits_left edits_left_end by (cases l rule: rev_cases) auto
  show "if r = [] then cursor_right e = e else edits (cursor_right e) (l @ [hd r]) (tl r)"
    using assms edits_right edits_right_end by (cases r) auto
qed

theorem editor_refines_text_witness: "\<exists>e'. insert_char editor_init 65 = Some e' \<and> edits e' [65] []"
  using editor_refines_text [OF edits_init, of 65] by simp

text \<open>
  Sending a non-empty line writes a prefix of the text followed by a newline to the socket,
  records exactly that line in \<open>last_sent\<close> and empties the editor; the whole line is written
  if every call of \<open>write\<close> makes progress and the calls last. A call that fails ends the loop
  and the rest of the line is lost: the buffer is cleared all the same.
\<close>

theorem send_input_line_delivers:
  assumes "edits e l r" and "l @ r \<noteq> []"
  shows "\<exists>e' out. send_input_line e ws = Some (e', out) \<and> edits e' [] [] \<and>
    (\<exists>rest. l @ r @ [NEWLINE] = out @ rest) \<and>
    (list_all (\<lambda>w. 0 < w) ws \<and> length (l @ r) < length ws \<longrightarrow> out = l @ r @ [NEWLINE]) \<and>
    take (length (l @ r) + 2) (last_sent e') = l @ r @ [NEWLINE, NUL]"
proof -
  obtain e' where e': "send_input_line e ws = Some (e', send_loop ws (l @ r @ [NEWLINE]))"
    "edits e' [] []" "take (length (l @ r) + 2) (last_sent e') = l @ r @ [NEWLINE, NUL]"
    using edits_send [OF assms] by blast
  moreover have "\<exists>rest. l @ r @ [NEWLINE] = send_loop ws (l @ r @ [NEWLINE]) @ rest"
    by (rule send_loop_prefix)
  moreover have "list_all (\<lambda>w. 0 < w) ws \<and> length (l @ r) < length ws \<longrightarrow>
      send_loop ws (l @ r @ [NEWLINE]) = l @ r @ [NEWLINE]"
    using send_loop_complete [of ws "l @ r @ [NEWLINE]"] by auto
  ultimately show ?thesis by blast
qed

theorem send_input_line_delivers_witness:
  "\<exists>e' e'' out. insert_char editor_init 65 = Some e' \<and>
     send_input_line e' [1, 1] = Some (e'', out) \<and> out = [65, NEWLINE]"
proof -
  obtain e' where e': "insert_char editor_init 65 = Some e'" "edits e' [65] []"
    using edits_insert [OF edits_init, of 65] by auto
  show ?thesis using e'(1) send_input_line_delivers [OF e'(2), of "[1, 1]"] by auto
qed

end
