(* ===== verification/Chat.thy ===== *)
theory Chat
  imports Lab_Prelude
begin

text \<open>
  The scrollback of \<open>lab2/lab2.c\<close>: the array \<open>chat_lines\<close> of 20 rows of 65 bytes, its fill
  count, and the part of \<open>chat_print_line\<close> that breaks a received string into rows of at most
  64 characters. The specification is an unbounded log of lines of which the last 20 are kept.
  \<open>scrollback\<close> is the interface between storing a line and breaking a string into lines.
\<close>

abbreviation (input) SCREEN_COLS :: nat where "SCREEN_COLS \<equiv> 64"
abbreviation (input) MAX_CHAT_LINES :: nat where "MAX_CHAT_LINES \<equiv> 20"

record chat =
  chat_lines :: "u8 list list"
  chat_line_count :: nat

definition chat_init :: chat where
  "chat_init = \<lparr>chat_lines = replicate 20 (replicate 65 0), chat_line_count = 0\<rparr>"

subsection \<open>Storing one line\<close>

text \<open>\<open>strncpy(row, cur, SCREEN_COLS); row[SCREEN_COLS] = 0;\<close>\<close>

definition copy_line :: "u8 list \<Rightarrow> u8 list \<Rightarrow> u8 list option" where
  "copy_line row cur = do { row \<leftarrow> strncpy row cur SCREEN_COLS; poke row (int SCREEN_COLS) NUL }"

text \<open>
  The block that stores the finished chunk \<open>cur\<close>: append while there is room, otherwise move
  the rows up by one and use the last. It occurs three times in the source, identically.
\<close>

definition flush_chunk :: "chat \<Rightarrow> u8 list \<Rightarrow> chat option" where
  "flush_chunk ch cur =
     (if chat_line_count ch < MAX_CHAT_LINES
      then (if chat_line_count ch < length (chat_lines ch)
            then do {
              row \<leftarrow> copy_line (chat_lines ch ! chat_line_count ch) cur;
              Some (ch\<lparr>chat_lines := (chat_lines ch)[chat_line_count ch := row],
                       chat_line_count := chat_line_count ch + 1\<rparr>) }
            else None)
      else (if MAX_CHAT_LINES \<le> length (chat_lines ch)
            then do {
              let moved = take (MAX_CHAT_LINES - 1) (drop 1 (chat_lines ch)) @
                          drop (MAX_CHAT_LINES - 1) (chat_lines ch);
              row \<leftarrow> copy_line (moved ! (MAX_CHAT_LINES - 1)) cur;
              Some (ch\<lparr>chat_lines := moved[MAX_CHAT_LINES - 1 := row]\<rparr>) }
            else None))"

subsection \<open>Breaking a string into chunks\<close>

text \<open>
  The loop over the string, with \<open>cur\<close> and \<open>idx\<close> as in the source; it ends at the zero byte.
  A string that is not terminated is read past its end.
\<close>

fun chunk_loop :: "chat \<Rightarrow> u8 list \<Rightarrow> nat \<Rightarrow> u8 list \<Rightarrow> (chat \<times> u8 list \<times> nat) option" where
  "chunk_loop ch cur idx [] = None"
| "chunk_loop ch cur idx (c # s) =
     (if c = NUL then Some (ch, cur, idx)
      else if c = RETURN then chunk_loop ch cur idx s
      else if c = NEWLINE then do {
        cur \<leftarrow> poke cur (int idx) NUL;
        ch \<leftarrow> flush_chunk ch cur;
        chunk_loop ch cur 0 s }
      else do {
        cur \<leftarrow> poke cur (int idx) c;
        let idx = idx + 1;
        if idx \<ge> SCREEN_COLS then do {
          cur \<leftarrow> poke cur (int idx) NUL;
          ch \<leftarrow> flush_chunk ch cur;
          chunk_loop ch cur 0 s }
        else chunk_loop ch cur idx s })"

text \<open>The loop and the flush of a partial last chunk; \<open>cur\<close> starts uninitialised.\<close>

definition store_text :: "chat \<Rightarrow> u8 list \<Rightarrow> u8 list \<Rightarrow> chat option" where
  "store_text ch junk s = do {
     (ch, cur, idx) \<leftarrow> chunk_loop ch junk 0 s;
     if idx > 0 then do {
       cur \<leftarrow> poke cur (int idx) NUL;
       flush_chunk ch cur }
     else Some ch }"

subsection \<open>Specification: a log of lines\<close>

definition lastn :: "nat \<Rightarrow> 'a list \<Rightarrow> 'a list" where
  "lastn n xs = drop (length xs - n) xs"

lemma length_lastn [simp]: "length (lastn n xs) = min n (length xs)"
  by (auto simp: lastn_def)

lemma lastn_all [simp]: "length xs \<le> n \<Longrightarrow> lastn n xs = xs"
  by (simp add: lastn_def)

lemma lastn_append_lastn [simp]: "lastn n (lastn n xs @ ys) = lastn n (xs @ ys)"
proof (cases "length xs \<le> n")
  case False
  then have "length xs + length ys - n = (length xs - n) + length ys"
    and "length (lastn n xs) + length ys - n = length ys" by simp_all
  then show ?thesis
    using False by (auto simp: lastn_def add.commute)
qed simp

lemma set_lastn: "set (lastn n xs) \<subseteq> set xs"
  by (simp add: lastn_def set_drop_subset)

text \<open>
  The lines of a string: carriage returns are dropped, a newline ends a line, and so does the
  64th character. What is left at the end of the string is a line of its own.
\<close>

fun wrap :: "u8 list \<Rightarrow> u8 list \<Rightarrow> u8 list list" where
  "wrap acc [] = (if acc = [] then [] else [acc])"
| "wrap acc (c # s) =
     (if c = RETURN then wrap acc s
      else if c = NEWLINE then acc # wrap [] s
      else if length acc + 1 \<ge> SCREEN_COLS then (acc @ [c]) # wrap [] s
      else wrap (acc @ [c]) s)"

definition chat_view :: "chat \<Rightarrow> u8 list list" where
  "chat_view ch = map c_string (take (chat_line_count ch) (chat_lines ch))"

text \<open>Rows have their declared length and end in a zero byte.\<close>

definition chat_inv :: "chat \<Rightarrow> bool" where
  "chat_inv ch \<longleftrightarrow> length (chat_lines ch) = MAX_CHAT_LINES \<and> chat_line_count ch \<le> MAX_CHAT_LINES \<and>
     (\<forall>row \<in> set (chat_lines ch). length row = SCREEN_COLS + 1 \<and> row ! SCREEN_COLS = NUL)"

definition line_ok :: "u8 list \<Rightarrow> bool" where
  "line_ok l \<longleftrightarrow> length l \<le> SCREEN_COLS \<and> NUL \<notin> set l"

subsection \<open>The interface\<close>

locale scrollback =
  fixes inv :: "'c \<Rightarrow> bool" and view :: "'c \<Rightarrow> 'l list" and cap :: nat
    and storable :: "'b \<Rightarrow> bool" and content :: "'b \<Rightarrow> 'l" and push :: "'c \<Rightarrow> 'b \<Rightarrow> 'c option"
  assumes push_view: "inv c \<Longrightarrow> storable b \<Longrightarrow>
      \<exists>c'. push c b = Some c' \<and> inv c' \<and> view c' = lastn cap (view c @ [content b])"
begin

text \<open>\<open>c\<close> shows the end of \<open>log\<close>: pushing appends to the log.\<close>

lemma push_log:
  assumes "inv c" and "view c = lastn cap log" and "storable b"
  shows "\<exists>c'. push c b = Some c' \<and> inv c' \<and> view c' = lastn cap (log @ [content b])"
  using push_view [OF assms(1,3)] assms(2) by simp

end

subsection \<open>\<open>flush_chunk\<close> provides it\<close>

definition chunk_ok :: "u8 list \<Rightarrow> bool" where
  "chunk_ok cur \<longleftrightarrow> NUL \<in> set cur \<and> length (c_string cur) \<le> SCREEN_COLS"

lemma copy_line_content:
  assumes "length row = 65" and "chunk_ok cur"
  shows "\<exists>row'. copy_line row cur = Some row' \<and> length row' = 65 \<and> row' ! 64 = NUL \<and>
    c_string row' = c_string cur"
proof -
  let ?l = "c_string cur"
  let ?row = "(?l @ replicate (64 - length ?l) NUL) @ [NUL]"
  have l: "length ?l \<le> 64" using assms(2) by (simp add: chunk_ok_def)
  have bytes: "strncpy_bytes cur 64 = ?l @ replicate (64 - length ?l) NUL"
    using l by (simp add: strncpy_bytes_def Let_def)
  obtain z where z: "drop 64 row = [z]"
    using assms(1) by (cases "drop 64 row") (auto dest: arg_cong [of _ _ length])
  have "copy_line row cur = Some ?row"
    using assms l by (simp add: copy_line_def strncpy_def chunk_ok_def bytes z poke_def
        list_update_append)
  moreover have "?row ! 64 = NUL" using l by (simp only: nth_append) simp
  moreover have "c_string ?row = ?l"
    using c_string_append_NUL [of ?l] c_string_no_NUL [of ?l]
    by (cases "64 - length ?l") simp_all
  ultimately show ?thesis using l by (intro exI [of _ ?row]) simp
qed

lemma chat_view_length: "chat_inv ch \<Longrightarrow> length (chat_view ch) = chat_line_count ch"
  by (simp add: chat_view_def chat_inv_def)

lemma flush_chunk_room:
  assumes "chat_inv ch" and "chunk_ok cur" and "chat_line_count ch < 20"
  shows "\<exists>ch'. flush_chunk ch cur = Some ch' \<and> chat_inv ch' \<and>
    chat_view ch' = chat_view ch @ [c_string cur]"
proof -
  let ?k = "chat_line_count ch" and ?ls = "chat_lines ch"
  have k: "?k < length ?ls" using assms by (simp add: chat_inv_def)
  then have "length (?ls ! ?k) = 65" using assms(1) nth_mem [of ?k ?ls] by (auto simp: chat_inv_def)
  then obtain row where row: "copy_line (?ls ! ?k) cur = Some row" "length row = 65"
    "row ! 64 = NUL" "c_string row = c_string cur"
    using copy_line_content [OF _ assms(2)] by blast
  let ?ch = "ch\<lparr>chat_lines := ?ls[?k := row], chat_line_count := ?k + 1\<rparr>"
  have "flush_chunk ch cur = Some ?ch" using row(1) k assms(3) by (simp add: flush_chunk_def)
  moreover have "chat_inv ?ch"
    using assms(1,3) row(2,3) by (auto simp: chat_inv_def dest!: set_update_subset_insert [THEN subsetD])
  moreover have "chat_view ?ch = chat_view ch @ [c_string cur]"
    using k row(4) by (simp add: chat_view_def take_Suc_conv_app_nth)
  ultimately show ?thesis by blast
qed

lemma flush_chunk_full:
  assumes "chat_inv ch" and "chunk_ok cur" and "\<not> chat_line_count ch < 20"
  shows "\<exists>ch'. flush_chunk ch cur = Some ch' \<and> chat_inv ch' \<and>
    chat_view ch' = tl (chat_view ch) @ [c_string cur]"
proof -
  let ?ls = "chat_lines ch"
  have n: "chat_line_count ch = 20" "length ?ls = 20"
    using assms(1,3) by (simp_all add: chat_inv_def)
  obtain l0 ls where ls: "?ls = l0 # ls" using n(2) by (cases ?ls) auto
  then have len: "length ls = 19" using n(2) by simp
  let ?moved = "take 19 (drop 1 ?ls) @ drop 19 ?ls"
  have moved: "?moved = ls @ [last ls]"
  proof -
    obtain b x where "ls = b @ [x]" "length b = 18" using len by (cases ls rule: rev_cases) auto
    then show ?thesis using len ls by simp
  qed
  have "last ls \<in> set ?ls" using len ls by (cases ls rule: rev_cases) auto
  then have "length (?moved ! 19) = 65"
    unfolding moved using assms(1) len by (simp add: chat_inv_def nth_append)
  then obtain row where row: "copy_line (?moved ! 19) cur = Some row" "length row = 65"
    "row ! 64 = NUL" "c_string row = c_string cur"
    using copy_line_content [OF _ assms(2)] by blast
  let ?ch = "ch\<lparr>chat_lines := ls @ [row]\<rparr>"
  have upd: "?moved[19 := row] = ls @ [row]"
    unfolding moved using len by (simp add: list_update_append)
  have "flush_chunk ch cur = Some ?ch"
    using row(1) n upd by (simp add: flush_chunk_def Let_def)
  moreover have "chat_inv ?ch"
    using assms(1) row(2,3) len ls by (auto simp: chat_inv_def)
  moreover have "chat_view ?ch = tl (chat_view ch) @ [c_string cur]"
    using n len ls row(4) by (simp add: chat_view_def)
  ultimately show ?thesis by blast
qed

lemma flush_chunk_view:
  assumes "chat_inv ch" and "chunk_ok cur"
  shows "\<exists>ch'. flush_chunk ch cur = Some ch' \<and> chat_inv ch' \<and>
    chat_view ch' = lastn 20 (chat_view ch @ [c_string cur])"
proof (cases "chat_line_count ch < 20")
  case True
  then show ?thesis
    using flush_chunk_room [OF assms] chat_view_length [OF assms(1)] by simp
next
  case False
  then have "length (chat_view ch) = 20"
    using assms(1) chat_view_length [OF assms(1)] by (simp add: chat_inv_def)
  then have "lastn 20 (chat_view ch @ [c_string cur]) = tl (chat_view ch) @ [c_string cur]"
    by (simp add: lastn_def drop_Suc)
  then show ?thesis using flush_chunk_full [OF assms False] by simp
qed

interpretation chatlog: scrollback chat_inv chat_view 20 chunk_ok c_string flush_chunk
  by unfold_locales (rule flush_chunk_view)

subsection \<open>The loop\<close>

lemma chunk_ok_poked:
  assumes "length cur = 65" and "i \<le> 64" and "NUL \<notin> set (take i cur)"
  shows "chunk_ok (cur[i := NUL]) \<and> c_string (cur[i := NUL]) = take i cur"
proof -
  have "cur[i := NUL] = take i cur @ NUL # drop (Suc i) cur"
    using assms(1,2) by (simp add: upd_conv_take_nth_drop)
  then show ?thesis using assms by (simp add: chunk_ok_def)
qed

lemma flush_at:
  assumes "chat_inv ch" and "chat_view ch = lastn 20 log"
    and "length cur = 65" and "i \<le> 64" and "NUL \<notin> set (take i cur)"
  shows "\<exists>ch'. poke cur (int i) NUL = Some (cur[i := NUL]) \<and> flush_chunk ch (cur[i := NUL]) = Some ch' \<and>
    chat_inv ch' \<and> chat_view ch' = lastn 20 (log @ [take i cur])"
  using chatlog.push_log [OF assms(1,2), of "cur[i := NUL]"] chunk_ok_poked [OF assms(3-5)] assms(3,4)
  by (simp add: buffer_simps)

definition partial_line :: "u8 list \<Rightarrow> u8 list list" where
  "partial_line l = (if l = [] then [] else [l])"

lemma chunk_loop_wrap:
  assumes "chat_inv ch" and "chat_view ch = lastn 20 log"
    and "length cur = 65" and "idx < 64" and "NUL \<notin> set (take idx cur)" and "NUL \<notin> set s"
  shows "\<exists>ch' cur' idx' log'. chunk_loop ch cur idx (s @ NUL # t) = Some (ch', cur', idx') \<and>
    chat_inv ch' \<and> chat_view ch' = lastn 20 log' \<and> length cur' = 65 \<and> idx' < 64 \<and>
    NUL \<notin> set (take idx' cur') \<and>
    log' @ partial_line (take idx' cur') = log @ wrap (take idx cur) s"
  using assms
proof (induction s arbitrary: ch log cur idx)
  case Nil
  then show ?case
    by (intro exI [of _ ch] exI [of _ cur] exI [of _ idx] exI [of _ log]) (simp add: partial_line_def)
next
  case (Cons c s)
  note inv = Cons.prems(1-5)
  have c: "c \<noteq> NUL" and s: "NUL \<notin> set s" using Cons.prems(6) by auto
  have idx: "length (take idx cur) = idx" using Cons.prems(3,4) by simp
  consider "c = RETURN" | "c \<noteq> RETURN" "c = NEWLINE" | "c \<noteq> RETURN" "c \<noteq> NEWLINE" by blast
  then show ?case
  proof cases
    case 1
    then show ?thesis using Cons.IH [OF inv s] c by simp
  next
    case 2
    obtain ch1 where ch1: "poke cur (int idx) NUL = Some (cur[idx := NUL])"
      "flush_chunk ch (cur[idx := NUL]) = Some ch1" "chat_inv ch1"
      "chat_view ch1 = lastn 20 (log @ [take idx cur])"
      using flush_at [OF inv(1-3) _ inv(5)] inv(4) by auto
    have "length (cur[idx := NUL]) = 65" using inv(3) by simp
    from Cons.IH [OF ch1(3,4) this, of 0] s
    show ?thesis using 2 c ch1(1,2) by simp
  next
    case 3
    let ?cur = "cur[idx := c]"
    have poke: "poke cur (int idx) c = Some ?cur" using inv(3,4) by (simp add: buffer_simps)
    have take: "take (idx + 1) ?cur = take idx cur @ [c]"
      using inv(3,4) by (simp add: take_Suc_conv_app_nth)
    have len: "length ?cur = 65" using inv(3) by simp
    have nul: "NUL \<notin> set (take (idx + 1) ?cur)" unfolding take using inv(5) c by simp
    show ?thesis
    proof (cases "idx + 1 \<ge> 64")
      case True
      obtain ch1 where ch1: "poke ?cur (int (idx + 1)) NUL = Some (?cur[idx + 1 := NUL])"
        "flush_chunk ch (?cur[idx + 1 := NUL]) = Some ch1" "chat_inv ch1"
        "chat_view ch1 = lastn 20 (log @ [take (idx + 1) ?cur])"
        using flush_at [OF inv(1,2) len _ nul] inv(4) by auto
      have "length (?cur[idx + 1 := NUL]) = 65" using len by simp
      from Cons.IH [OF ch1(3,4) this, of 0] s
      show ?thesis using 3 c ch1(1,2) poke take True idx by (simp add: Let_def)
    next
      case False
      from Cons.IH [OF inv(1,2) len, of "idx + 1"] False nul s
      show ?thesis using 3 c poke take idx by (simp add: Let_def)
    qed
  qed
qed

lemma store_text_log:
  assumes "chat_inv ch" and "chat_view ch = lastn 20 log" and "length junk = 65"
    and "NUL \<notin> set s"
  shows "\<exists>ch'. store_text ch junk (s @ NUL # t) = Some ch' \<and> chat_inv ch' \<and>
    chat_view ch' = lastn 20 (log @ wrap [] s)"
proof -
  have "NUL \<notin> set (take 0 junk)" by simp
  then obtain ch1 cur idx log1 where l: "chunk_loop ch junk 0 (s @ NUL # t) = Some (ch1, cur, idx)"
    "chat_inv ch1" "chat_view ch1 = lastn 20 log1" "length cur = 65" "idx < 64"
    "NUL \<notin> set (take idx cur)" "log1 @ partial_line (take idx cur) = log @ wrap (take 0 junk) s"
    using chunk_loop_wrap [OF assms(1-3) _ _ assms(4), of 0 t] by auto
  show ?thesis
  proof (cases "idx = 0")
    case True
    then show ?thesis using l by (simp add: store_text_def partial_line_def)
  next
    case False
    then have p: "partial_line (take idx cur) = [take idx cur]"
      using l(4) by (auto simp: partial_line_def)
    obtain ch2 where "poke cur (int idx) NUL = Some (cur[idx := NUL])"
      "flush_chunk ch1 (cur[idx := NUL]) = Some ch2" "chat_inv ch2"
      "chat_view ch2 = lastn 20 (log1 @ [take idx cur])"
      using flush_at [OF l(2-4) _ l(6)] l(5) by auto
    with l(1,7) p False show ?thesis by (simp add: store_text_def)
  qed
qed

subsection \<open>Properties\<close>

lemma concat_wrap: "concat (wrap acc s) = acc @ filter (\<lambda>c. c \<noteq> RETURN \<and> c \<noteq> NEWLINE) s"
  by (induction acc s rule: wrap.induct) auto

lemma wrap_width: "length acc < 64 \<Longrightarrow> l \<in> set (wrap acc s) \<Longrightarrow> length l \<le> 64"
  by (induction acc s rule: wrap.induct) (auto split: if_splits)

lemma wrap_full: "length acc + length s = 64 \<Longrightarrow> s \<noteq> [] \<Longrightarrow> RETURN \<notin> set s \<Longrightarrow> NEWLINE \<notin> set s \<Longrightarrow>
  wrap acc (s @ u) = (acc @ s) # wrap [] u"
proof (induction s arbitrary: acc)
  case (Cons c s)
  then have "s \<noteq> [] \<Longrightarrow> length acc < 63" by (cases s) simp_all
  then show ?case using Cons by (cases "s = []") auto
qed simp

lemma chat_view_lastn: "chat_inv ch \<Longrightarrow> chat_view ch = lastn 20 (chat_view ch)"
  using chat_view_length [of ch] by (simp add: chat_inv_def)

text \<open>
  C36. Storing a text in the chat stays inside the line buffers and loses no character: the new
  lines, each at most 64 wide, joined give the text without its carriage returns and newlines,
  and the chat keeps the last 20 lines. The contents of the uninitialised line buffer do not
  matter.
\<close>

theorem store_text_keeps_characters:
  assumes "chat_inv ch" and "length junk = 65" and "NUL \<notin> set s"
  shows "\<exists>ch' lines. store_text ch junk (s @ NUL # t) = Some ch' \<and> chat_inv ch' \<and>
    chat_view ch' = lastn 20 (chat_view ch @ lines) \<and>
    concat lines = filter (\<lambda>c. c \<noteq> RETURN \<and> c \<noteq> NEWLINE) s \<and> (\<forall>l \<in> set lines. length l \<le> 64)"
  using store_text_log [OF assms(1) chat_view_lastn [OF assms(1)] assms(2,3), of t]
    concat_wrap [of "[]" s] wrap_width [of "[]" _ s] by auto

lemma chat_inv_init: "chat_inv chat_init"
  by (simp add: chat_inv_def chat_init_def)

theorem store_text_keeps_characters_witness:
  "\<exists>ch'. store_text chat_init (replicate 65 7) ([72, 105, 10] @ NUL # []) = Some ch'"
  using store_text_keeps_characters [OF chat_inv_init, of "replicate 65 7" "[72, 105, 10]" "[]"] by auto

text \<open>
  A line of exactly 64 characters that ends in a newline takes two rows of the chat: the
  64th character ends the row, and the newline then ends an empty one.
\<close>

theorem full_line_adds_blank:
  assumes "chat_inv ch" and "length junk = 65" and "length s = 64"
    and "NUL \<notin> set s" and "RETURN \<notin> set s" and "NEWLINE \<notin> set s"
  shows "\<exists>ch'. store_text ch junk ((s @ [NEWLINE]) @ NUL # t) = Some ch' \<and>
    chat_view ch' = lastn 20 (chat_view ch @ [s, []])"
proof -
  have "s \<noteq> []" using assms(3) by auto
  then have "wrap [] (s @ [NEWLINE]) = [s, []]"
    using wrap_full [of "[]" s "[NEWLINE]"] assms(3,5,6) by auto
  then show ?thesis
    using store_text_log [OF assms(1) chat_view_lastn [OF assms(1)] assms(2), of "s @ [NEWLINE]" t] assms(4)
    by auto
qed

theorem full_line_adds_blank_witness:
  "\<exists>ch'. store_text chat_init (replicate 65 0) ((replicate 64 97 @ [NEWLINE]) @ NUL # []) = Some ch' \<and>
    chat_view ch' = lastn 20 (chat_view chat_init @ [replicate 64 97, []])"
  by (rule full_line_adds_blank [OF chat_inv_init]) simp_all

end
