(* ===== verification/Client_Screen.thy ===== *)
theory Client_Screen
  imports Text_Screen Editor Chat
begin

text \<open>
  The drawing code of \<open>lab2/lab2.c\<close>: the divider, the chat area and the two input rows with the
  cursor. Rows are written with \<open>fbputs\<close> from local buffers of 65 bytes. The specification is
  the grid of characters each routine leaves on the screen.
\<close>

abbreviation (input) DIVIDER_ROW :: nat where "DIVIDER_ROW \<equiv> 21"
abbreviation (input) CHAT_TOP :: nat where "CHAT_TOP \<equiv> 1"
abbreviation (input) CHAT_BOTTOM :: nat where "CHAT_BOTTOM \<equiv> 20"
abbreviation (input) INPUT_ROW1 :: nat where "INPUT_ROW1 \<equiv> 22"
abbreviation (input) INPUT_ROW2 :: nat where "INPUT_ROW2 \<equiv> 23"

subsection \<open>Routines\<close>

text \<open>\<open>char line[SCREEN_COLS + 1]; memset(line, v, SCREEN_COLS); line[SCREEN_COLS] = 0;\<close>\<close>

definition filled_line :: "u8 \<Rightarrow> u8 list option" where
  "filled_line v = do {
     line \<leftarrow> memset (replicate 65 0) v (int SCREEN_COLS);
     poke line (int SCREEN_COLS) NUL }"

definition clear_row :: "fb_state \<Rightarrow> nat \<Rightarrow> fb_state option" where
  "clear_row scr row = do { blank \<leftarrow> filled_line SPACE; fbputs scr blank (int row) 0 }"

definition draw_divider :: "fb_state \<Rightarrow> fb_state option" where
  "draw_divider scr = do { line \<leftarrow> filled_line DASH; fbputs scr line (int DIVIDER_ROW) 0 }"

text \<open>The redraw loop of \<open>chat_print_line\<close>, at row \<open>i\<close> with \<open>n\<close> rows left.\<close>

definition chat_row :: "chat \<Rightarrow> nat \<Rightarrow> u8 list option" where
  "chat_row ch i = do {
     out \<leftarrow> filled_line SPACE;
     if i < chat_line_count ch then
       (let l = strnlen (chat_lines ch ! i) SCREEN_COLS in
        if l > 0 then memcpy out 0 (chat_lines ch ! i) 0 (int l) else Some out)
     else Some out }"

fun draw_chat :: "fb_state \<Rightarrow> chat \<Rightarrow> nat \<Rightarrow> nat \<Rightarrow> fb_state option" where
  "draw_chat scr ch i 0 = Some scr"
| "draw_chat scr ch i (Suc n) = do {
     out \<leftarrow> chat_row ch i;
     scr \<leftarrow> fbputs scr out (int (CHAT_TOP + i)) 0;
     draw_chat scr ch (i + 1) n }"

definition input_line1 :: "editor \<Rightarrow> u8 list option" where
  "input_line1 e = do {
     let first_len = (if input_len e > 62 then 62 else input_len e);
     line1 \<leftarrow> filled_line SPACE;
     line1 \<leftarrow> poke line1 0 GREATER;
     line1 \<leftarrow> poke line1 1 SPACE;
     if first_len > 0 then memcpy line1 2 (input_buf e) 0 first_len else Some line1 }"

definition input_line2 :: "editor \<Rightarrow> u8 list option" where
  "input_line2 e = do {
     let first_len = (if input_len e > 62 then 62 else input_len e);
     line2 \<leftarrow> filled_line SPACE;
     let remaining = input_len e - first_len;
     if remaining > 0 then
       (let copy_len = (if remaining > 64 then 64 else remaining) in
        memcpy line2 0 (input_buf e) first_len copy_len)
     else Some line2 }"

text \<open>The cell the cursor is drawn in.\<close>

definition cursor_cell :: "int \<Rightarrow> int \<times> int" where
  "cursor_cell p =
     (let first_cap = 62 in
      if p \<le> first_cap
      then (int INPUT_ROW1, (let col = 2 + p in if col \<ge> 64 then 63 else col))
      else (int INPUT_ROW2, (let col = p - first_cap in if col \<ge> 64 then 63 else col)))"

definition under_cursor :: "editor \<Rightarrow> u8 option" where
  "under_cursor e =
     (if cursor_pos e \<ge> 0 \<and> cursor_pos e < input_len e
      then peek (input_buf e) (cursor_pos e) else Some SPACE)"

definition refresh_input_area :: "fb_state \<Rightarrow> editor \<Rightarrow> bool \<Rightarrow> fb_state option" where
  "refresh_input_area scr e vis = do {
     scr \<leftarrow> clear_row scr INPUT_ROW1;
     scr \<leftarrow> clear_row scr INPUT_ROW2;
     line1 \<leftarrow> input_line1 e;
     scr \<leftarrow> fbputs scr line1 (int INPUT_ROW1) 0;
     line2 \<leftarrow> input_line2 e;
     scr \<leftarrow> fbputs scr line2 (int INPUT_ROW2) 0;
     let (row, col) = cursor_cell (cursor_pos e);
     under \<leftarrow> under_cursor e;
     fbputchar scr (if vis then UNDERSCORE else under) row col }"

subsection \<open>What they draw\<close>

definition pad64 :: "u8 list \<Rightarrow> u8 list" where
  "pad64 s = s @ replicate (64 - length s) SPACE"

definition font_text :: "u8 list \<Rightarrow> bool" where
  "font_text s \<longleftrightarrow> (\<forall>ch \<in> set s. printable_font ch)"

lemma length_pad64 [simp]: "length s \<le> 64 \<Longrightarrow> length (pad64 s) = 64"
  by (simp add: pad64_def)

lemma font_text_pad64 [simp]: "font_text (pad64 s) = font_text s"
  by (auto simp: pad64_def font_text_def printable_font_def)

lemma font_text_append [simp]: "font_text (s @ t) \<longleftrightarrow> font_text s \<and> font_text t"
  by (auto simp: font_text_def)

lemma font_text_take_drop: "font_text s \<Longrightarrow> font_text (take n s) \<and> font_text (drop n s)"
  by (auto simp: font_text_def dest: in_set_takeD in_set_dropD)

lemma filled_line_Some: "filled_line v = Some (replicate 64 v @ [NUL])"
  by (simp add: filled_line_def memset_def poke_def list_update_append)

text \<open>Copying a text into a blank line after a prefix of it.\<close>

lemma memcpy_into_line:
  assumes "length p + length s \<le> 64" and "src = q @ s @ t" and "length base = 64"
    and "take (length p) base = p" and "drop (length p) base = replicate (64 - length p) SPACE"
  shows "memcpy (base @ [NUL]) (int (length p)) src (int (length q)) (int (length s)) =
    Some (pad64 (p @ s) @ [NUL])"
proof -
  have n: "nat (int (length p) + int (length s)) = length p + length s" by simp
  have "drop (length p + length s) base = drop (length s) (drop (length p) base)"
    by (simp add: add.commute)
  then have d: "drop (length p + length s) base = replicate (64 - (length p + length s)) SPACE"
    using assms(5) by simp
  show ?thesis
    using assms d by (simp add: memcpy_def n pad64_def)
qed

lemma c_string_snoc_NUL: "c_string (b @ [NUL]) = c_string b"
  by (induction b) (simp_all add: c_string_Cons)

lemma length_c_string_le: "length (c_string s) \<le> length s"
  by (simp add: c_string_def length_takeWhile_le)

lemma c_string_prefix: "c_string s @ drop (length (c_string s)) s = s"
  unfolding c_string_def by (simp flip: dropWhile_eq_drop)

lemma chat_row_Some:
  assumes "chat_inv ch" and "i < 20"
  shows "chat_row ch i =
    Some (pad64 (if i < length (chat_view ch) then chat_view ch ! i else []) @ [NUL])"
proof (cases "i < chat_line_count ch")
  case True
  let ?row = "chat_lines ch ! i"
  have i: "i < length (chat_lines ch)" using assms by (simp add: chat_inv_def)
  then have "?row \<in> set (chat_lines ch)" by (rule nth_mem)
  then have row: "length ?row = 65" "?row ! 64 = NUL" using assms(1) by (auto simp: chat_inv_def)
  let ?s = "c_string ?row"
  obtain b where b: "?row = b @ [NUL]" "length b = 64"
    using row by (cases ?row rule: rev_cases) (auto simp: nth_append)
  then have c: "c_string (take 64 ?row) = ?s" by (simp add: c_string_snoc_NUL)
  have view: "chat_view ch ! i = ?s" "i < length (chat_view ch)"
    using True i by (simp_all add: chat_view_def)
  have "strnlen ?row 64 = length ?s" by (simp add: strnlen_def c)
  moreover have "?row = [] @ ?s @ drop (length ?s) ?row"
    using c_string_prefix [of ?row] by simp
  moreover have "length ?s \<le> 64"
    using b length_c_string_le [of b] by (simp add: c_string_snoc_NUL)
  ultimately show ?thesis
    using True view memcpy_into_line [of "[]" ?s ?row "[]" "drop (length ?s) ?row" "replicate 64 SPACE"]
    by (auto simp: chat_row_def filled_line_Some pad64_def)
next
  case False
  then show ?thesis
    using chat_view_length [OF assms(1)] by (simp add: chat_row_def filled_line_Some pad64_def)
qed

lemma edits_text:
  assumes "edits e l r"
  obtains rest where "input_buf e = (l @ r) @ rest" and "length (l @ r) \<le> 126"
    and "input_len e = int (length (l @ r))" and "cursor_pos e = int (length l)"
proof -
  obtain rest where "input_buf e = l @ r @ NUL # rest" using assms by (rule edits_bufE)
  then have "input_buf e = (l @ r) @ (NUL # rest)" by simp
  then show thesis using assms that by (simp add: edits_def)
qed

lemma prompt_line:
  "poke (replicate 64 SPACE @ [NUL]) 0 GREATER = Some (GREATER # replicate 63 SPACE @ [NUL])"
  "poke (GREATER # replicate 63 SPACE @ [NUL]) 1 SPACE =
     Some (([GREATER, SPACE] @ replicate 62 SPACE) @ [NUL])"
  by (simp_all add: poke_def eval_nat_numeral)

lemma input_line1_text:
  assumes buf: "input_buf e = text @ rest" and len: "input_len e = int (length text)"
  shows "input_line1 e = Some (pad64 ([GREATER, SPACE] @ take 62 text) @ [NUL])"
proof -
  define s where "s = take 62 text"
  have n: "(if input_len e > 62 then 62 else input_len e) = int (length s)"
    unfolding len s_def length_take by simp
  have src: "input_buf e = [] @ s @ (drop 62 text @ rest)" by (simp add: buf s_def)
  have "length s \<le> 62" by (simp add: s_def)
  then have c: "memcpy (([GREATER, SPACE] @ replicate 62 SPACE) @ [NUL]) 2 (input_buf e) 0
      (int (length s)) = Some (pad64 ([GREATER, SPACE] @ s) @ [NUL])"
    using memcpy_into_line [of "[GREATER, SPACE]" s _ "[]", OF _ src,
        of "[GREATER, SPACE] @ replicate 62 SPACE"]
    by simp
  show ?thesis
    unfolding input_line1_def n filled_line_Some s_def [symmetric]
    using c prompt_line by (cases "s = []") (simp_all add: Let_def pad64_def)
qed

lemma input_line2_text:
  assumes buf: "input_buf e = text @ rest" and len: "input_len e = int (length text)"
    and le: "length text \<le> 126"
  shows "input_line2 e = Some (pad64 (drop 62 text) @ [NUL])"
proof -
  define p s where "p = take 62 text" and "s = drop 62 text"
  have n: "(if input_len e > 62 then 62 else input_len e) = int (length p)"
    unfolding len p_def length_take by simp
  have rem: "input_len e - int (length p) = int (length s)"
    unfolding len p_def s_def length_take length_drop by simp
  have src: "input_buf e = p @ s @ rest" by (simp add: buf p_def s_def)
  have l: "length s \<le> 64" using le by (simp add: s_def)
  have c: "memcpy (replicate 64 SPACE @ [NUL]) 0 (input_buf e) (int (length p))
      (int (length s)) = Some (pad64 s @ [NUL])"
    using memcpy_into_line [of "[]" s _ p, OF _ src, of "replicate 64 SPACE"] l by simp
  have cap: "\<not> int (length s) > 64" using l by simp
  have pos: "int (length p) < input_len e \<longleftrightarrow> s \<noteq> []"
    unfolding length_greater_0_conv [symmetric] using rem by linarith
  show ?thesis
    unfolding input_line2_def n filled_line_Some s_def [symmetric]
    using c cap pos by (cases "s = []") (simp_all add: Let_def rem pad64_def)
qed

subsection \<open>The grid after a redraw\<close>

text \<open>The cell and the character of the cursor, over the text and the cursor's index in it.\<close>

definition cursor_at :: "nat \<Rightarrow> nat \<times> nat" where
  "cursor_at k = (if k \<le> 62 then (INPUT_ROW1, min 63 (k + 2)) else (INPUT_ROW2, min 63 (k - 62)))"

definition cursor_char :: "u8 list \<Rightarrow> nat \<Rightarrow> bool \<Rightarrow> u8" where
  "cursor_char text k vis = (if vis then UNDERSCORE else if k < length text then text ! k else SPACE)"

definition input_rows :: "grid \<Rightarrow> u8 list \<Rightarrow> grid" where
  "input_rows g text =
     write_row (write_row g INPUT_ROW1 0 (pad64 ([GREATER, SPACE] @ take 62 text)))
       INPUT_ROW2 0 (pad64 (drop 62 text))"

definition input_over :: "grid \<Rightarrow> u8 list \<Rightarrow> nat \<Rightarrow> bool \<Rightarrow> grid" where
  "input_over g text k vis =
     set_cell (input_rows g text) (fst (cursor_at k)) (snd (cursor_at k)) (cursor_char text k vis)"

definition chat_over :: "grid \<Rightarrow> u8 list list \<Rightarrow> grid" where
  "chat_over g view = (\<lambda>r c.
     if CHAT_TOP \<le> r \<and> r \<le> CHAT_BOTTOM \<and> c < 64
     then pad64 (if r - 1 < length view then view ! (r - 1) else []) ! c else g r c)"

lemma cursor_cell_at:
  "cursor_cell (int k) = (int (fst (cursor_at k)), int (snd (cursor_at k)))"
  by (auto simp: cursor_cell_def cursor_at_def Let_def)

lemma cursor_at_bounds: "fst (cursor_at k) < screen_rows" "snd (cursor_at k) < screen_cols"
  by (auto simp: cursor_at_def)

lemma clear_row_displays:
  assumes "fb_ok scr" and "displays scr g" and "r < screen_rows"
  shows "\<exists>scr'. clear_row scr r = Some scr' \<and> fb_ok scr' \<and>
    displays scr' (write_row g r 0 (replicate 64 SPACE))"
  using fb.puts_full_row [OF assms, of "replicate 64 SPACE"]
  by (simp add: clear_row_def filled_line_Some printable_font_def)

lemma draw_divider_displays:
  assumes "fb_ok scr" and "displays scr g"
  shows "\<exists>scr'. draw_divider scr = Some scr' \<and> fb_ok scr' \<and>
    displays scr' (write_row g DIVIDER_ROW 0 (replicate 64 DASH))"
  using fb.puts_full_row [OF assms, of DIVIDER_ROW "replicate 64 DASH"]
  by (simp add: draw_divider_def filled_line_Some printable_font_def)

lemma displays_cong:
  "(\<And>r c. r < 24 \<Longrightarrow> c < 64 \<Longrightarrow> g r c = g' r c) \<Longrightarrow> displays scr g = displays scr g'"
  by (simp add: displays_def)

lemma write_row_twice:
  "length s = length s' \<Longrightarrow> write_row (write_row g r c s) r c s' = write_row g r c s'"
  by (intro ext) (auto simp: write_row_def)

lemma write_row_swap:
  "r \<noteq> r' \<Longrightarrow> write_row (write_row g r c s) r' c' s' = write_row (write_row g r' c' s') r c s"
  by (intro ext) (auto simp: write_row_def)

text \<open>The text the editor holds, its index form: what the drawing code reads from it.\<close>

definition holds :: "editor \<Rightarrow> u8 list \<Rightarrow> nat \<Rightarrow> bool" where
  "holds e text k \<longleftrightarrow> k \<le> length text \<and> edits e (take k text) (drop k text)"

lemma holds_text:
  assumes "holds e text k"
  obtains rest where "input_buf e = text @ rest" and "length text \<le> 126" and "k \<le> length text"
    and "input_len e = int (length text)" and "cursor_pos e = int k"
proof -
  from assms have k: "k \<le> length text" and "edits e (take k text) (drop k text)"
    by (simp_all add: holds_def)
  then obtain rest where "input_buf e = (take k text @ drop k text) @ rest"
    "length (take k text @ drop k text) \<le> 126"
    "input_len e = int (length (take k text @ drop k text))" "cursor_pos e = int (length (take k text))"
    by (elim edits_text)
  with k show thesis by (intro that) (simp_all only: append_take_drop_id length_take min_absorb2)
qed

lemma holds_edits: "edits e l r \<Longrightarrow> holds e (l @ r) (length l)"
  by (simp add: holds_def)

lemma under_cursor_char:
  assumes "holds e text k"
  shows "under_cursor e = Some (cursor_char text k False)"
  using assms
  by (elim holds_text) (auto simp: under_cursor_def cursor_char_def peek_def nth_append)

lemma font_text_cursor_char:
  "font_text text \<Longrightarrow> unat (cursor_char text k vis) < 128"
  using nth_mem [of k "text"] by (auto simp: cursor_char_def font_text_def printable_font_def)

lemma refresh_displays:
  assumes ok: "fb_ok scr" and g: "displays scr g" and e: "holds e text k" and f: "font_text text"
  shows "\<exists>scr'. refresh_input_area scr e vis = Some scr' \<and> fb_ok scr' \<and>
    displays scr' (input_over g text k vis)"
proof -
  obtain rest where buf: "input_buf e = text @ rest" and le: "length text \<le> 126"
    and k: "k \<le> length text"
    and len: "input_len e = int (length text)" and cur: "cursor_pos e = int k"
    using e by (rule holds_text)
  let ?blank = "replicate 64 SPACE"
  let ?l1 = "pad64 ([GREATER, SPACE] @ take 62 text)" and ?l2 = "pad64 (drop 62 text)"
  have f1: "\<forall>ch \<in> set ?l1. printable_font ch" "\<forall>ch \<in> set ?l2. printable_font ch"
    using font_text_pad64 [of "[GREATER, SPACE] @ take 62 text"] font_text_pad64 [of "drop 62 text"]
      font_text_take_drop [OF f, of 62]
    by (simp_all add: font_text_def printable_font_def)
  have n: "length ?l1 = 64" "length ?l2 = 64" using le by simp_all
  obtain s1 where s1: "clear_row scr 22 = Some s1" "fb_ok s1" "displays s1 (write_row g 22 0 ?blank)"
    using clear_row_displays [OF ok g, of 22] by auto
  obtain s2 where s2: "clear_row s1 23 = Some s2" "fb_ok s2"
    "displays s2 (write_row (write_row g 22 0 ?blank) 23 0 ?blank)"
    using clear_row_displays [OF s1(2,3), of 23] by auto
  obtain s3 where s3: "fbputs s2 (?l1 @ [NUL]) (int 22) 0 = Some s3" "fb_ok s3"
    "displays s3 (write_row (write_row (write_row g 22 0 ?blank) 23 0 ?blank) 22 0 ?l1)"
    using fb.puts_full_row [OF s2(2,3) _ n(1) f1(1), of 22] by auto
  obtain s4 where s4: "fbputs s3 (?l2 @ [NUL]) (int 23) 0 = Some s4" "fb_ok s4"
    "displays s4 (write_row (write_row (write_row (write_row g 22 0 ?blank) 23 0 ?blank) 22 0 ?l1) 23 0 ?l2)"
    using fb.puts_full_row [OF s3(2,3) _ n(2) f1(2), of 23] by auto
  have "write_row (write_row (write_row (write_row g 22 0 ?blank) 23 0 ?blank) 22 0 ?l1) 23 0 ?l2
      = input_rows g text"
    using n by (intro ext) (auto simp: input_rows_def write_row_def)
  with s4(3) have d: "displays s4 (input_rows g text)" by simp
  let ?c = "cursor_char text k vis"
  have ch: "(if vis then UNDERSCORE else cursor_char text k False) = ?c"
    by (simp add: cursor_char_def)
  obtain s5 where s5: "fbputchar s4 ?c (int (fst (cursor_at k))) (int (snd (cursor_at k))) = Some s5"
    "fb_ok s5" "displays s5 (set_cell (input_rows g text) (fst (cursor_at k)) (snd (cursor_at k)) ?c)"
    using fb.put_cell [OF s4(2) d cursor_at_bounds [of k] font_text_cursor_char [OF f]] by blast
  have "refresh_input_area scr e vis = Some s5"
    unfolding refresh_input_area_def
    using s1(1) s2(1) s3(1) s4(1) s5(1) ch input_line1_text [OF buf len] input_line2_text [OF buf len le]
    by (simp add: cur cursor_cell_at under_cursor_char [OF e])
  with s5 show ?thesis by (auto simp: input_over_def)
qed

definition chat_line :: "u8 list list \<Rightarrow> nat \<Rightarrow> u8 list" where
  "chat_line view i = (if i < length view then view ! i else [])"

definition font_view :: "u8 list list \<Rightarrow> bool" where
  "font_view view \<longleftrightarrow> (\<forall>l \<in> set view. length l \<le> 64 \<and> font_text l)"

lemma chat_line_font: "font_view view \<Longrightarrow> length (chat_line view i) \<le> 64 \<and> font_text (chat_line view i)"
  by (auto simp: chat_line_def font_view_def) (simp add: font_text_def)

lemma draw_chat_displays:
  assumes "fb_ok scr" and "displays scr g" and "chat_inv ch" and "font_view (chat_view ch)"
    and "i + n \<le> 20"
  shows "\<exists>scr'. draw_chat scr ch i n = Some scr' \<and> fb_ok scr' \<and>
    displays scr' (\<lambda>r c. if 1 + i \<le> r \<and> r < 1 + i + n \<and> c < 64
      then pad64 (chat_line (chat_view ch) (r - 1)) ! c else g r c)"
  using assms
proof (induction n arbitrary: scr g i)
  case 0
  have "(\<lambda>r c. if 1 + i \<le> r \<and> r < 1 + i + 0 \<and> c < 64
      then pad64 (chat_line (chat_view ch) (r - 1)) ! c else g r c) = g"
    by (intro ext) auto
  with 0 show ?case by simp
next
  case (Suc n)
  let ?l = "pad64 (chat_line (chat_view ch) i)"
  have i: "i < 20" "1 + i < screen_rows" using Suc.prems(5) by simp_all
  have l: "length ?l = 64" "\<forall>x \<in> set ?l. printable_font x"
    using chat_line_font [OF Suc.prems(4), of i] font_text_pad64 [of "chat_line (chat_view ch) i"]
    by (simp_all add: font_text_def)
  have row: "chat_row ch i = Some (?l @ [NUL])"
    using chat_row_Some [OF Suc.prems(3) i(1)] by (simp add: chat_line_def)
  obtain s1 where s1: "fbputs scr (?l @ [NUL]) (int (1 + i)) 0 = Some s1" "fb_ok s1"
    "displays s1 (write_row g (1 + i) 0 ?l)"
    using fb.puts_full_row [OF Suc.prems(1,2) i(2) l] by blast
  let ?g1 = "write_row g (1 + i) 0 ?l"
  obtain s2 where s2: "draw_chat s1 ch (i + 1) n = Some s2" "fb_ok s2"
    "displays s2 (\<lambda>r c. if 1 + (i + 1) \<le> r \<and> r < 1 + (i + 1) + n \<and> c < 64
      then pad64 (chat_line (chat_view ch) (r - 1)) ! c else ?g1 r c)"
    using Suc.IH [OF s1(2,3) Suc.prems(3,4), of "i + 1"] Suc.prems(5) by auto
  have "displays s2 (\<lambda>r c. if 1 + i \<le> r \<and> r < 1 + i + Suc n \<and> c < 64
      then pad64 (chat_line (chat_view ch) (r - 1)) ! c else g r c)"
    using s2(3)
    by (rule iffD1 [OF displays_cong, rotated]) (use l(1) in \<open>auto simp: write_row_def\<close>)
  with row s1(1) s2(1,2) show ?case by simp
qed

lemma draw_chat_over:
  assumes "fb_ok scr" and "displays scr g" and "chat_inv ch" and "font_view (chat_view ch)"
  shows "\<exists>scr'. draw_chat scr ch 0 MAX_CHAT_LINES = Some scr' \<and> fb_ok scr' \<and>
    displays scr' (chat_over g (chat_view ch))"
proof -
  obtain scr' where "draw_chat scr ch 0 20 = Some scr'" "fb_ok scr'"
    "displays scr' (\<lambda>r c. if 1 + 0 \<le> r \<and> r < 1 + 0 + 20 \<and> c < 64
      then pad64 (chat_line (chat_view ch) (r - 1)) ! c else g r c)"
    using draw_chat_displays [OF assms, of 0 20] by auto
  moreover have "(\<lambda>r c. if 1 + 0 \<le> r \<and> r < 1 + 0 + 20 \<and> c < 64
      then pad64 (chat_line (chat_view ch) (r - 1)) ! c else g r c) = chat_over g (chat_view ch)"
    by (intro ext) (auto simp: chat_over_def chat_line_def)
  ultimately show ?thesis by auto
qed

subsection \<open>Properties\<close>

text \<open>Where the character at index \<open>i\<close> of the input text is drawn.\<close>

definition text_cell :: "nat \<Rightarrow> nat \<times> nat" where
  "text_cell i = (if i < 62 then (INPUT_ROW1, i + 2) else (INPUT_ROW2, i - 62))"

lemma input_rows_text_cell:
  assumes "i < length text" and "length text \<le> 126"
  shows "input_rows g text (fst (text_cell i)) (snd (text_cell i)) = text ! i"
  using assms
  by (auto simp: text_cell_def input_rows_def write_row_def pad64_def nth_append nth_Cons' min_def)

lemma font_text_printable: "printable_text s \<Longrightarrow> font_text s"
  by (auto simp: printable_text_def font_text_def printable_font_def word_le_nat_alt)

lemma refresh_grid:
  assumes "fb_ok scr" and "displays scr g" and "edits e l r" and "printable_text (l @ r)"
  shows "\<exists>scr'. refresh_input_area scr e vis = Some scr' \<and> fb_ok scr' \<and>
    displays scr' (input_over g (l @ r) (length l) vis)"
  by (rule refresh_displays [OF assms(1,2) holds_edits [OF assms(3)] font_text_printable [OF assms(4)]])

text \<open>
  C9. Redrawing the input area of a consistent editor stays inside the buffers, the font and
  the mapped memory, leaves the rows above the input rows alone, and shows every character of
  the text in its own cell (62 on the first row behind the prompt, the others on the second),
  except for the one cell the cursor is drawn in, which shows an underscore or, in the blink
  phase that hides it, the character at the cursor.
\<close>

theorem refresh_shows_text:
  assumes "fb_ok scr" and "displays scr g" and "edits e l r" and "printable_text (l @ r)"
  shows "\<exists>scr' g'. refresh_input_area scr e vis = Some scr' \<and> fb_ok scr' \<and> displays scr' g' \<and>
    (\<forall>row < INPUT_ROW1. \<forall>c. g' row c = g row c) \<and> g' INPUT_ROW1 0 = GREATER \<and>
    (\<forall>i < length (l @ r). g' (fst (text_cell i)) (snd (text_cell i)) =
       (if text_cell i = cursor_at (length l) then cursor_char (l @ r) (length l) vis
        else (l @ r) ! i))"
proof -
  let ?g = "input_over g (l @ r) (length l) vis"
  obtain scr' where scr': "refresh_input_area scr e vis = Some scr'" "fb_ok scr'" "displays scr' ?g"
    using refresh_grid [OF assms] by blast
  have le: "length (l @ r) \<le> 126" using assms(3) by (simp add: edits_def)
  have above: "\<forall>row < INPUT_ROW1. \<forall>c. ?g row c = g row c"
    by (auto simp: input_over_def input_rows_def set_cell_def write_row_def cursor_at_def)
  have prompt: "?g INPUT_ROW1 0 = GREATER"
    by (simp add: input_over_def input_rows_def set_cell_def write_row_def cursor_at_def pad64_def)
  have cells: "?g (fst (text_cell i)) (snd (text_cell i)) =
       (if text_cell i = cursor_at (length l) then cursor_char (l @ r) (length l) vis
        else (l @ r) ! i)" if "i < length (l @ r)" for i
    using input_rows_text_cell [OF that le, of g]
    by (auto simp: input_over_def set_cell_def prod_eq_iff)
  from scr' above prompt cells show ?thesis by blast
qed

text \<open>Two editors for the witnesses: \<open>Hi\<close> with the cursor on the \<open>i\<close>, and 63 characters with it on the last.\<close>

definition editor_hi :: editor where
  "editor_hi = \<lparr>input_buf = 72 # 105 # replicate 125 0, input_len = 2, cursor_pos = 1,
     last_sent = replicate 128 0\<rparr>"

definition editor_63 :: editor where
  "editor_63 = \<lparr>input_buf = replicate 62 97 @ 98 # replicate 64 0, input_len = 63, cursor_pos = 62,
     last_sent = replicate 128 0\<rparr>"

lemma edits_hi: "edits editor_hi [72] [105]"
  by (simp add: edits_def editor_hi_def take_Suc)

lemma edits_63: "edits editor_63 (replicate 62 97) [98]"
  by (simp add: edits_def editor_63_def)

theorem refresh_shows_text_witness:
  "\<exists>scr scr' g'. refresh_input_area scr editor_hi True = Some scr' \<and> displays scr' g' \<and>
     g' 22 2 = 72 \<and> g' 22 3 = UNDERSCORE"
proof -
  obtain scr where scr: "fb_ok scr" "displays scr blank_grid"
    using fbclear_displays [OF fb_ok_console] by blast
  have pr: "printable_text ([72] @ [105])" by (simp add: printable_text_def)
  obtain scr' g' where s: "refresh_input_area scr editor_hi True = Some scr'" "displays scr' g'"
    "\<forall>i < length ([72] @ [105 :: u8]). g' (fst (text_cell i)) (snd (text_cell i)) =
       (if text_cell i = cursor_at (length [72 :: u8]) then cursor_char ([72] @ [105]) (length [72 :: u8]) True
        else ([72] @ [105]) ! i)"
    using refresh_shows_text [OF scr edits_hi pr, of True] by blast
  have "g' 22 2 = 72" "g' 22 3 = UNDERSCORE"
    using s(3) [rule_format, of 0] s(3) [rule_format, of 1]
    by (simp_all add: text_cell_def cursor_at_def cursor_char_def numeral_2_eq_2 numeral_3_eq_3)
  with s(1,2) show ?thesis by blast
qed

text \<open>
  The cursor's cell is the cell of the character it stands on, with two exceptions: behind
  62 characters the code keeps the cursor on the first row and clamps it to the last column,
  and at the end of a full line it clamps it to the last column of the second row. There the
  cursor covers the character in front of it: that cell never shows its own character, not
  even in the blink phase that hides the cursor.
\<close>

theorem cursor_covers_previous:
  assumes "fb_ok scr" and "displays scr g" and "edits e l r" and "printable_text (l @ r)"
  shows "(length l \<noteq> 62 \<and> length l \<noteq> 126 \<longrightarrow> cursor_at (length l) = text_cell (length l)) \<and>
    (length l = 62 \<or> length l = 126 \<longrightarrow>
      cursor_at (length l) = text_cell (length l - 1) \<and>
      (\<exists>scr' g'. refresh_input_area scr e vis = Some scr' \<and> displays scr' g' \<and>
         g' (fst (text_cell (length l - 1))) (snd (text_cell (length l - 1))) =
           (if vis then UNDERSCORE else if r = [] then SPACE else hd r)))"
proof -
  let ?g = "input_over g (l @ r) (length l) vis"
  obtain scr' where scr': "refresh_input_area scr e vis = Some scr'" "displays scr' ?g"
    using refresh_grid [OF assms] by blast
  have le: "length l \<le> 126" using assms(3) by (simp add: edits_def)
  have at: "length l \<noteq> 62 \<and> length l \<noteq> 126 \<Longrightarrow> cursor_at (length l) = text_cell (length l)"
    using le by (auto simp: cursor_at_def text_cell_def)
  have prev: "length l = 62 \<or> length l = 126 \<Longrightarrow> cursor_at (length l) = text_cell (length l - 1)"
    by (auto simp: cursor_at_def text_cell_def)
  have "?g (fst (cursor_at (length l))) (snd (cursor_at (length l))) =
      (if vis then UNDERSCORE else if r = [] then SPACE else hd r)"
    by (simp add: input_over_def set_cell_def cursor_char_def nth_append hd_conv_nth)
  with at prev scr' show ?thesis by metis
qed

theorem cursor_covers_previous_witness:
  "\<exists>scr scr' g'. refresh_input_area scr editor_63 False = Some scr' \<and> displays scr' g' \<and>
     input_buf editor_63 ! 61 = 97 \<and> text_cell 61 = (22, 63) \<and> g' 22 63 = 98"
proof -
  obtain scr where scr: "fb_ok scr" "displays scr blank_grid"
    using fbclear_displays [OF fb_ok_console] by blast
  have pr: "printable_text (replicate 62 97 @ [98])" by (simp add: printable_text_def)
  have n: "length (replicate 62 (97 :: u8)) = 62" by (rule length_replicate)
  obtain scr' g' where s: "refresh_input_area scr editor_63 False = Some scr'" "displays scr' g'"
    "g' (fst (text_cell (62 - 1))) (snd (text_cell (62 - 1))) =
       (if False then UNDERSCORE else if [98 :: u8] = [] then SPACE else hd [98])"
    using cursor_covers_previous [OF scr edits_63 pr, of False] unfolding n by blast
  have "input_buf editor_63 ! 61 = 97" by (simp add: editor_63_def nth_append)
  with s show ?thesis by (auto simp: text_cell_def)
qed

end
