(* ===== verification/Keyboard.thy ===== *)
theory Keyboard
  imports Lab_Prelude
begin

text \<open>
  The keyboard side of the chat client: the USB HID boot packet of \<open>lab2/usbkeyboard.h\<close>, the
  key translation \<open>hid_to_ascii\<close> and the de-repeat filter \<open>should_accept_key\<close> of
  \<open>lab2/lab2.c\<close>. Characters are bytes; 0 stands for "no character", as in the code.
\<close>

record usb_keyboard_packet =
  modifiers :: u8
  reserved :: u8
  keycode :: "u8 list"

subsection \<open>Translation\<close>

definition is_shift_pressed :: "u8 \<Rightarrow> bool" where
  "is_shift_pressed m \<longleftrightarrow> m AND 0x02 \<noteq> 0 \<or> m AND 0x20 \<noteq> 0"

definition unshift :: "u8 list" where
  "unshift = map chr ''1234567890''"

definition shifted :: "u8 list" where
  "shifted = map chr ''!@#$%^&*()''"

definition punctuation :: "bool \<Rightarrow> u8 \<Rightarrow> u8" where
  "punctuation shift key =
     (if key = 0x2D then (if shift then chr CHR ''_'' else chr CHR ''-'')
      else if key = 0x2E then (if shift then chr CHR ''+'' else chr CHR ''='')
      else if key = 0x2F then (if shift then chr CHR ''{'' else chr CHR ''['')
      else if key = 0x30 then (if shift then chr CHR ''}'' else chr CHR '']'')
      else if key = 0x31 then (if shift then chr CHR ''|'' else chr CHR 0x5C)
      else if key = 0x33 then (if shift then chr CHR '':'' else chr CHR '';'')
      else if key = 0x34 then (if shift then chr CHR 0x22 else chr CHR 0x27)
      else if key = 0x35 then (if shift then chr CHR ''~'' else chr CHR 0x60)
      else if key = 0x36 then (if shift then chr CHR ''<'' else chr CHR '','')
      else if key = 0x37 then (if shift then chr CHR ''>'' else chr CHR ''.'')
      else if key = 0x38 then (if shift then chr CHR ''?'' else chr CHR ''/'')
      else 0)"

text \<open>\<open>caps\<close> is the global \<open>caps_lock_on\<close>; \<open>shift ^ caps_lock_on\<close> of two 0/1 flags.\<close>

definition hid_to_ascii :: "bool \<Rightarrow> u8 \<Rightarrow> u8 \<Rightarrow> u8" where
  "hid_to_ascii caps key mods =
     (let shift = is_shift_pressed mods in
      if key = 0x28 then NEWLINE
      else if key = 0x2A then BACKSPACE
      else if key = 0x2C then SPACE
      else if 0x04 \<le> key \<and> key \<le> 0x1D then
        let base = chr CHR ''a'' + (key - 0x04) in
        if shift \<noteq> caps then base - chr CHR ''a'' + chr CHR ''A'' else base
      else if 0x1E \<le> key \<and> key \<le> 0x27 then
        let idx = unat (key - 0x1E) in
        if shift then shifted ! idx else unshift ! idx
      else punctuation shift key)"

subsection \<open>De-repeat filter\<close>

text \<open>
  The result and the new value of \<open>last_kc\<close>. \<open>last_mod\<close> is never read or written by the
  source.
\<close>

definition should_accept_key :: "u8 \<Rightarrow> u8 \<Rightarrow> u8 \<Rightarrow> bool \<times> u8" where
  "should_accept_key last_kc kc mods =
     (if kc = 0 then (False, 0)
      else if kc = last_kc then (False, last_kc)
      else (True, kc))"

text \<open>The keys a sequence of key codes lets through, starting from \<open>last_kc\<close>.\<close>

fun accepted_keys :: "u8 \<Rightarrow> u8 list \<Rightarrow> u8 list" where
  "accepted_keys last_kc [] = []"
| "accepted_keys last_kc (kc # kcs) =
     (let (ok, l) = should_accept_key last_kc kc 0 in
      (if ok then [kc] else []) @ accepted_keys l kcs)"

subsection \<open>Checking all key codes\<close>

text \<open>
  \<open>hid_to_ascii\<close> depends on the modifiers through \<open>is_shift_pressed\<close> only and is 0 outside the
  key codes 0x04 to 0x38; inside, what it computes is a finite table for each state of shift and
  Caps Lock.
\<close>

definition key_codes :: "u8 list" where
  "key_codes = map word_of_int [0x04..0x38]"

definition key_table :: "bool \<Rightarrow> bool \<Rightarrow> u8 list" where
  "key_table caps shift = map (\<lambda>kc. hid_to_ascii caps kc (if shift then 2 else 0)) key_codes"

lemma is_shift_pressed_2 [simp]: "is_shift_pressed 2"
  by (simp add: is_shift_pressed_def)

lemma is_shift_pressed_0 [simp]: "\<not> is_shift_pressed 0"
  by (simp add: is_shift_pressed_def)

lemma hid_to_ascii_shift:
  "hid_to_ascii caps kc (if is_shift_pressed m then 2 else 0) = hid_to_ascii caps kc m"
  by (simp add: hid_to_ascii_def)

lemma hid_to_ascii_outside: "kc < 0x04 \<or> 0x38 < kc \<Longrightarrow> hid_to_ascii caps kc m = 0"
  by (auto simp: hid_to_ascii_def punctuation_def Let_def word_less_nat_alt word_le_nat_alt)

lemma length_key_codes [simp]: "length key_codes = 53"
  by (simp add: key_codes_def)

lemma length_key_table [simp]: "length (key_table caps shift) = 53"
  by (simp add: key_table_def)

lemma nth_key_codes:
  assumes "0x04 \<le> kc" and "kc \<le> 0x38"
  shows "unat kc - 4 < 53" and "key_codes ! (unat kc - 4) = kc"
proof -
  have b: "4 \<le> unat kc" "unat kc \<le> 56" using assms by (simp_all add: word_le_nat_alt)
  then show "unat kc - 4 < 53" by simp
  have "4 \<le> uint kc" "uint kc \<le> 56" using assms by (simp_all add: word_le_def)
  then have up: "[0x04..0x38] ! (unat kc - 4) = int (unat kc)" using b by (subst nth_upto) auto
  have "key_codes ! (unat kc - 4) = word_of_int ([0x04..0x38] ! (unat kc - 4))"
    unfolding key_codes_def using b by (intro nth_map) auto
  then show "key_codes ! (unat kc - 4) = kc" unfolding up by simp
qed

lemma hid_to_ascii_table:
  assumes "0x04 \<le> kc" and "kc \<le> 0x38"
  shows "hid_to_ascii caps kc m = key_table caps (is_shift_pressed m) ! (unat kc - 4)"
  using nth_key_codes [OF assms] by (simp add: key_table_def hid_to_ascii_shift)

lemma key_table_False_False: "key_table False False =
  map chr ''abcdefghijklmnopqrstuvwxyz1234567890'' @ [10, 0, 8, 0, 32] @
  map chr [CHR ''-'', CHR ''='', CHR ''['', CHR '']'', CHR 0x5C] @ [0] @
  map chr [CHR '';'', CHR 0x27, CHR 0x60, CHR '','', CHR ''.'', CHR ''/'']"
  by code_simp

lemma key_table_True_False: "key_table True False =
  map chr ''ABCDEFGHIJKLMNOPQRSTUVWXYZ1234567890'' @ [10, 0, 8, 0, 32] @
  map chr [CHR ''-'', CHR ''='', CHR ''['', CHR '']'', CHR 0x5C] @ [0] @
  map chr [CHR '';'', CHR 0x27, CHR 0x60, CHR '','', CHR ''.'', CHR ''/'']"
  by code_simp

lemma key_table_False_True: "key_table False True =
  map chr ''ABCDEFGHIJKLMNOPQRSTUVWXYZ!@#$%^&*()'' @ [10, 0, 8, 0, 32] @
  map chr ''_+{}|'' @ [0] @
  map chr [CHR '':'', CHR 0x22, CHR ''~'', CHR ''<'', CHR ''>'', CHR ''?'']"
  by code_simp

lemma key_table_True_True: "key_table True True =
  map chr ''abcdefghijklmnopqrstuvwxyz!@#$%^&*()'' @ [10, 0, 8, 0, 32] @
  map chr ''_+{}|'' @ [0] @
  map chr [CHR '':'', CHR 0x22, CHR ''~'', CHR ''<'', CHR ''>'', CHR ''?'']"
  by code_simp

lemmas key_tables =
  key_table_False_False key_table_True_False key_table_False_True key_table_True_True

text \<open>The characters of a table that are not 0, all different.\<close>

lemma distinct_key_table: "distinct (filter (\<lambda>c. c \<noteq> 0) (key_table caps shift))"
  by (cases caps; cases shift) (simp_all add: key_tables chr_def)

lemma distinct_filter_nth:
  assumes "P (table ! i)" and "table ! i = table ! j" and "distinct (filter P table)"
    and "j < length table" and "i < length table"
  shows "i = j"
  using assms
proof (induction table arbitrary: i j)
  case Nil
  then show ?case by simp
next
  case (Cons entry table)
  then show ?case
    by (cases i; cases j) (auto split: if_splits dest: nth_mem)
qed

lemma hid_to_ascii_nonzero:
  "hid_to_ascii caps kc m \<noteq> 0 \<Longrightarrow> 0x04 \<le> kc \<and> kc \<le> 0x38"
  using hid_to_ascii_outside [of kc caps m] by (meson linorder_not_le)

lemma hid_to_ascii_in_table:
  "hid_to_ascii caps kc m \<noteq> 0 \<Longrightarrow> hid_to_ascii caps kc m \<in> set (key_table caps (is_shift_pressed m))"
  using hid_to_ascii_nonzero [of caps kc m] hid_to_ascii_table [of kc caps m] nth_key_codes [of kc]
  by simp

definition text_or_control :: "u8 \<Rightarrow> bool" where
  "text_or_control c \<longleftrightarrow> c = 0 \<or> c = NEWLINE \<or> c = BACKSPACE \<or> 32 \<le> c \<and> c \<le> 126"

lemma key_table_range: "list_all text_or_control (key_table caps shift)"
  by (cases caps; cases shift) (simp_all add: key_tables chr_def text_or_control_def)

lemma key_for_printable:
  assumes "32 \<le> ch" and "ch \<le> 126"
  shows "\<exists>kc m. (m = 0 \<or> m = 2) \<and> hid_to_ascii caps kc m = ch"
proof -
  have all: "list_all (\<lambda>c. c \<in> set (key_table caps False) \<union> set (key_table caps True))
      (map word_of_int [32..126])"
    by (cases caps) (simp_all add: key_tables chr_def)
  have "uint ch \<in> set [32..126]" 
    using assms by (simp only: set_upto atLeastAtMost_iff) (simp add: word_le_def)
  then have "word_of_int (uint ch) \<in> set (map word_of_int [32..126] :: u8 list)"
    by (simp only: set_map image_eqI)
  then have "ch \<in> set (key_table caps False) \<union> set (key_table caps True)"
    using all by (simp only: list_all_iff word_of_int_uint)
  then obtain shift where "ch \<in> set (key_table caps shift)" by blast
  then obtain kc where "hid_to_ascii caps kc (if shift then 2 else 0) = ch"
    by (auto simp: key_table_def)
  then show ?thesis by (intro exI [of _ kc] exI [of _ "if shift then 2 else 0"] conjI) auto
qed

subsection \<open>Properties\<close>

text \<open>
  Whatever byte the keyboard reports, the translation is 0 (ignored), newline, backspace or
  a printable ASCII character, so it is always a glyph of the font; and with the modifiers and
  Caps Lock fixed, two different keys never give the same character.
\<close>

theorem hid_to_ascii_sound:
  "text_or_control (hid_to_ascii caps kc m) \<and>
   (hid_to_ascii caps kc m = hid_to_ascii caps kc' m \<and> hid_to_ascii caps kc m \<noteq> 0 \<longrightarrow> kc = kc')"
proof (rule conjI)
  show "text_or_control (hid_to_ascii caps kc m)"
  proof (cases "hid_to_ascii caps kc m = 0")
    case True
    then show ?thesis by (simp add: text_or_control_def)
  next
    case False
    then show ?thesis
      using hid_to_ascii_in_table [OF False] key_table_range [of caps "is_shift_pressed m"]
      by (simp add: list_all_iff)
  qed
  show "hid_to_ascii caps kc m = hid_to_ascii caps kc' m \<and> hid_to_ascii caps kc m \<noteq> 0 \<longrightarrow> kc = kc'"
  proof
    assume eq: "hid_to_ascii caps kc m = hid_to_ascii caps kc' m \<and> hid_to_ascii caps kc m \<noteq> 0"
    then have n: "hid_to_ascii caps kc m \<noteq> 0" "hid_to_ascii caps kc' m \<noteq> 0" by auto
    have r: "0x04 \<le> kc" "kc \<le> 0x38" "0x04 \<le> kc'" "kc' \<le> 0x38"
      using hid_to_ascii_nonzero [OF n(1)] hid_to_ascii_nonzero [OF n(2)] by simp_all
    have "unat kc - 4 = unat kc' - 4"
      by (rule distinct_filter_nth [OF _ _ distinct_key_table [of caps "is_shift_pressed m"]])
        (use eq n r nth_key_codes hid_to_ascii_table [of _ caps m] in simp_all)
    then have "key_codes ! (unat kc - 4) = key_codes ! (unat kc' - 4)" by simp
    then show "kc = kc'" using nth_key_codes(2) r by simp
  qed
qed

theorem hid_to_ascii_sound_witness:
  "text_or_control (hid_to_ascii True 0x04 0) \<and> (0x04 :: u8) = 0x04"
  using hid_to_ascii_sound [of True "0x04" 0 "0x04"] by simp

text \<open>
  Every printable ASCII character can be typed: with either state of Caps Lock there is a
  key, pressed with or without shift, that \<open>hid_to_ascii\<close> translates to it.
\<close>

theorem hid_to_ascii_complete:
  assumes "32 \<le> ch" and "ch \<le> 126"
  shows "\<exists>kc m. (m = 0 \<or> m = 2) \<and> hid_to_ascii caps kc m = ch"
  using assms by (rule key_for_printable)

theorem hid_to_ascii_complete_witness: "\<exists>kc m. (m = 0 \<or> m = 2) \<and> hid_to_ascii True kc m = 0x7E"
  by (rule hid_to_ascii_complete) simp_all

text \<open>
  Caps Lock changes exactly the 26 letter keys, and on them it acts as shift does: pressing
  both cancels out.
\<close>

theorem caps_lock_letters_only:
  "(hid_to_ascii True kc m \<noteq> hid_to_ascii False kc m \<longleftrightarrow> 0x04 \<le> kc \<and> kc \<le> 0x1D) \<and>
   (0x04 \<le> kc \<and> kc \<le> 0x1D \<longrightarrow>
      hid_to_ascii True kc m = hid_to_ascii False kc (if is_shift_pressed m then 0 else 2))"
proof (cases "0x04 \<le> kc \<and> kc \<le> 0x1D")
  case True
  then have "kc \<noteq> 0x28" "kc \<noteq> 0x2A" "kc \<noteq> 0x2C" by (auto simp: word_le_nat_alt)
  with True show ?thesis by (simp add: hid_to_ascii_def Let_def chr_def)
next
  case False
  then have "hid_to_ascii True kc m = hid_to_ascii False kc m"
    unfolding hid_to_ascii_def by (simp only: Let_def if_False)
  with False show ?thesis by auto
qed

theorem caps_lock_letters_only_witness:
  "hid_to_ascii True 0x10 2 = hid_to_ascii False 0x10 0 \<and> (0x04 :: u8) \<le> 0x10"
  using caps_lock_letters_only [of "0x10" 2] by simp

text \<open>
  The de-repeat filter accepts a key exactly when it is pressed anew: over any sequence of
  reports, the accepted keys are the non-zero codes of the sequence with each run of equal
  reports counted once.
\<close>

theorem accepted_keys_edges:
  "accepted_keys last_kc kcs = filter (\<lambda>k. k \<noteq> 0) (tl (remdups_adj (last_kc # kcs)))"
proof (induction kcs arbitrary: last_kc)
  case Nil
  then show ?case by simp
next
  case (Cons kc kcs)
  obtain t where t: "remdups_adj (kc # kcs) = kc # t"
    using hd_remdups_adj [of "kc # kcs"] by (cases "remdups_adj (kc # kcs)") auto
  then show ?case
    using Cons.IH [of kc]
    by (cases "kc = last_kc") (auto simp: should_accept_key_def Let_def)
qed

end
