(* ===== verification/Client.thy ===== *)
theory Client
  imports Client_Screen Keyboard
begin

text \<open>
  The chat client of \<open>lab2/lab2.c\<close> as a whole: the shared globals, the key handler of \<open>main\<close>,
  \<open>chat_print_line\<close>, the network thread and the blinking cursor, and the three threads as a
  step relation. Handlers are atomic here; \<open>Client_Race\<close> looks inside the one that is not
  protected by \<open>fb_lock\<close>.
\<close>

subsection \<open>State\<close>

record client =
  screen :: fb_state
  editor_of :: editor
  chat_of :: chat
  chat_cursor :: int
  cursor_visible :: bool
  caps_lock_on :: bool
  last_kc :: u8
  sent :: "u8 list"

subsection \<open>Handlers\<close>

text \<open>The first two statements of \<open>chat_print_line\<close>.\<close>

definition clamp_cursor :: "editor \<Rightarrow> editor" where
  "clamp_cursor e =
     (let e = (if cursor_pos e < 0 then e\<lparr>cursor_pos := 0\<rparr> else e) in
      if cursor_pos e > input_len e then e\<lparr>cursor_pos := input_len e\<rparr> else e)"

text \<open>\<open>junk\<close> is the uninitialised local array \<open>cur\<close>, \<open>s\<close> the buffer with the C string.\<close>

definition chat_print_line :: "u8 list \<Rightarrow> client \<Rightarrow> u8 list \<Rightarrow> client option" where
  "chat_print_line junk cl s = do {
     let e = clamp_cursor (editor_of cl);
     ch \<leftarrow> store_text (chat_of cl) junk s;
     scr \<leftarrow> draw_chat (screen cl) ch 0 MAX_CHAT_LINES;
     let cc = int CHAT_TOP + int (chat_line_count ch);
     let cc = (if cc > int CHAT_BOTTOM + 1 then int CHAT_BOTTOM + 1 else cc);
     Some (cl\<lparr>editor_of := e, chat_of := ch, screen := scr, chat_cursor := cc\<rparr>) }"

text \<open>\<open>refresh_input_area\<close> on the globals.\<close>

definition refresh :: "client \<Rightarrow> client option" where
  "refresh cl = do {
     scr \<leftarrow> refresh_input_area (screen cl) (editor_of cl) (cursor_visible cl);
     Some (cl\<lparr>screen := scr\<rparr>) }"

text \<open>One round of \<open>cursor_thread_f\<close> after its sleep.\<close>

definition cursor_blink :: "client \<Rightarrow> client option" where
  "cursor_blink cl = refresh (cl\<lparr>cursor_visible := \<not> cursor_visible cl\<rparr>)"

text \<open>
  One round of \<open>network_thread_f\<close> on the \<open>n\<close> bytes \<open>read\<close> stored at the start of \<open>recvBuf\<close>:
  terminate them and print. The rest of the 128-byte buffer is \<open>old\<close>.
\<close>

definition network_receive :: "u8 list \<Rightarrow> client \<Rightarrow> u8 list \<Rightarrow> u8 list \<Rightarrow> client option" where
  "network_receive junk cl bytes old = do {
     recvBuf \<leftarrow> memcpy old 0 bytes 0 (int (length bytes));
     recvBuf \<leftarrow> poke recvBuf (int (length bytes)) NUL;
     chat_print_line junk cl recvBuf }"

text \<open>\<open>send_input_line\<close> with its redraw; \<open>ws\<close> are the results of its calls of \<open>write\<close>.\<close>

definition send_line :: "client \<Rightarrow> int list \<Rightarrow> client option" where
  "send_line cl ws =
     (if input_len (editor_of cl) \<le> 0 then Some cl
      else do {
        (e, out) \<leftarrow> send_input_line (editor_of cl) ws;
        refresh (cl\<lparr>editor_of := e, sent := sent cl @ out\<rparr>) })"

text \<open>What the loop of \<open>main\<close> does with a translated character.\<close>

definition handle_char :: "client \<Rightarrow> u8 \<Rightarrow> int list \<Rightarrow> client option" where
  "handle_char cl ch ws =
     (if ch = 0 then Some cl
      else if ch = NEWLINE then send_line cl ws
      else if ch = BACKSPACE then
        (if cursor_pos (editor_of cl) > 0
         then do { e \<leftarrow> backspace (editor_of cl); refresh (cl\<lparr>editor_of := e\<rparr>) }
         else Some cl)
      else if 32 \<le> ch \<and> ch \<le> 126 then
        (if input_len (editor_of cl) < INPUT_MAX_LEN
         then do { e \<leftarrow> insert_char (editor_of cl) ch; refresh (cl\<lparr>editor_of := e\<rparr>) }
         else Some cl)
      else Some cl)"

datatype loop_result = Quit | Continue client

text \<open>One iteration of the loop of \<open>main\<close> on a packet of which \<open>transferred\<close> bytes arrived.\<close>

definition handle_packet ::
  "client \<Rightarrow> usb_keyboard_packet \<Rightarrow> int \<Rightarrow> int list \<Rightarrow> loop_result option" where
  "handle_packet cl packet transferred ws =
     (if transferred \<noteq> 8 then Some (Continue cl)
      else do {
        kc \<leftarrow> peek (keycode packet) 0;
        let mods = modifiers packet;
        if kc = 0x29 then Some Quit
        else do {
          let (ok, l) = should_accept_key (last_kc cl) kc mods;
          let cl = cl\<lparr>last_kc := l\<rparr>;
          if \<not> ok then Some (Continue cl)
          else if kc = 0x50 then
            map_option Continue (refresh (cl\<lparr>editor_of := cursor_left (editor_of cl)\<rparr>))
          else if kc = 0x4F then
            map_option Continue (refresh (cl\<lparr>editor_of := cursor_right (editor_of cl)\<rparr>))
          else if kc = 0x39 then
            map_option Continue (refresh (cl\<lparr>caps_lock_on := \<not> caps_lock_on cl\<rparr>))
          else map_option Continue (handle_char cl (hid_to_ascii (caps_lock_on cl) kc mods) ws) } })"

subsection \<open>Start of \<open>main\<close>\<close>

text \<open>
  Everything \<open>main\<close> does before the threads run, up to the failure of a call: \<open>Inl\<close> is
  \<open>exit(1)\<close>. The results of \<open>openkeyboard\<close>, \<open>socket\<close>, \<open>inet_pton\<close> and \<open>connect\<close> are
  given.
\<close>

record main_env =
  fb_results :: fb_env
  keyboard_found :: bool
  socket_result :: int
  inet_pton_result :: int
  connect_result :: int

definition globals_init :: "fb_state \<Rightarrow> client" where
  "globals_init scr = \<lparr>screen = scr, editor_of = editor_init, chat_of = chat_init, chat_cursor = 1,
     cursor_visible = True, caps_lock_on = False, last_kc = 0, sent = []\<rparr>"

definition main_start :: "main_env \<Rightarrow> fb_state \<Rightarrow> (int + client) option" where
  "main_start env scr0 =
     (let (err, scr) = fbopen (fb_results env) scr0 in
      if err \<noteq> 0 then Some (Inl 1)
      else do {
        scr \<leftarrow> fbclear scr;
        scr \<leftarrow> draw_divider scr;
        let cl = globals_init scr;
        b \<leftarrow> poke (input_buf (editor_of cl)) 0 NUL;
        let cl = cl\<lparr>chat_cursor := int CHAT_TOP,
                    editor_of := (editor_of cl)\<lparr>input_len := 0, input_buf := b\<rparr>\<rparr>;
        cl \<leftarrow> refresh cl;
        let cl = cl\<lparr>editor_of := (editor_of cl)\<lparr>cursor_pos := 0\<rparr>\<rparr>;
        Some (if \<not> keyboard_found env then Inl 1
              else if socket_result env < 0 then Inl 1
              else if inet_pton_result env \<le> 0 then Inl 1
              else if connect_result env < 0 then Inl 1
              else Inr cl) })"

subsection \<open>The consistent states\<close>

text \<open>
  The screen of a chat view, an input text with cursor index \<open>k\<close>, and a blink phase: blank top
  row, chat rows, divider, input rows.
\<close>

definition client_grid :: "u8 list list \<Rightarrow> u8 list \<Rightarrow> nat \<Rightarrow> bool \<Rightarrow> grid" where
  "client_grid view text k vis =
     input_over (chat_over (write_row blank_grid DIVIDER_ROW 0 (replicate 64 DASH)) view) text k vis"

definition client_ok :: "client \<Rightarrow> u8 list \<Rightarrow> u8 list \<Rightarrow> bool" where
  "client_ok cl l r \<longleftrightarrow>
     edits (editor_of cl) l r \<and> printable_text (l @ r) \<and>
     chat_inv (chat_of cl) \<and> font_view (chat_view (chat_of cl)) \<and>
     fb_ok (screen cl) \<and>
     displays (screen cl)
       (client_grid (chat_view (chat_of cl)) (l @ r) (length l) (cursor_visible cl))"

lemma input_over_again:
  "input_over (input_over g text k vis) text' k' vis' r c = input_over g text' k' vis' r c"
  if "r < 24" "c < 64" and "length text \<le> 126" and "length text' \<le> 126"
  using that
  by (auto simp: input_over_def input_rows_def set_cell_def write_row_def cursor_at_def)

lemma input_over_client_grid:
  assumes "length text \<le> 126" and "length text' \<le> 126"
  shows "displays scr (input_over (client_grid view text k vis) text' k' vis') =
    displays scr (client_grid view text' k' vis')"
  by (rule displays_cong) (simp add: client_grid_def input_over_again assms)

lemma chat_over_client_grid:
  "displays scr (chat_over (client_grid view text k vis) view') =
   displays scr (client_grid view' text k vis)"
proof (rule displays_cong)
  fix r c :: nat
  assume "r < 24" and "c < 64"
  then show "chat_over (client_grid view text k vis) view' r c = client_grid view' text k vis r c"
    by (auto simp: client_grid_def chat_over_def input_over_def input_rows_def set_cell_def
        write_row_def cursor_at_def)
qed

lemma edits_length: "edits e l r \<Longrightarrow> length (l @ r) \<le> 126"
  by (simp add: edits_def)

text \<open>Redrawing after a change of the editor or the blink phase.\<close>

lemma refresh_ok:
  assumes ok: "client_ok cl l r" and e: "edits e l' r'" and p: "printable_text (l' @ r')"
    and cl': "screen cl' = screen cl" "chat_of cl' = chat_of cl" "editor_of cl' = e"
  shows "\<exists>scr. refresh cl' = Some (cl'\<lparr>screen := scr\<rparr>) \<and> client_ok (cl'\<lparr>screen := scr\<rparr>) l' r'"
proof -
  let ?g = "client_grid (chat_view (chat_of cl)) (l @ r) (length l) (cursor_visible cl)"
  have s: "fb_ok (screen cl)" "displays (screen cl) ?g"
    using ok by (simp_all add: client_ok_def)
  obtain scr where scr: "refresh_input_area (screen cl) e (cursor_visible cl') = Some scr"
    "fb_ok scr" "displays scr (input_over ?g (l' @ r') (length l') (cursor_visible cl'))"
    using refresh_grid [OF s e p] by blast
  have n: "length (l @ r) \<le> 126" "length (l' @ r') \<le> 126"
    using ok edits_length [of "editor_of cl" l r] edits_length [OF e] by (simp_all add: client_ok_def)
  have "displays scr (client_grid (chat_view (chat_of cl)) (l' @ r') (length l') (cursor_visible cl'))"
    using scr(3) input_over_client_grid [OF n] by simp
  then show ?thesis
    using ok e p cl' scr(1,2) by (auto simp: refresh_def client_ok_def)
qed

subsection \<open>Every handler keeps them\<close>

lemma blink_ok:
  assumes "client_ok cl l r"
  shows "\<exists>cl'. cursor_blink cl = Some cl' \<and> client_ok cl' l r \<and>
    cursor_visible cl' = (\<not> cursor_visible cl) \<and> chat_of cl' = chat_of cl \<and> sent cl' = sent cl"
proof -
  let ?cl = "cl\<lparr>cursor_visible := \<not> cursor_visible cl\<rparr>"
  have "\<exists>scr. refresh ?cl = Some (?cl\<lparr>screen := scr\<rparr>) \<and> client_ok (?cl\<lparr>screen := scr\<rparr>) l r"
    by (rule refresh_ok [OF assms]) (use assms in \<open>simp_all add: client_ok_def\<close>)
  then show ?thesis by (auto simp: cursor_blink_def)
qed

text \<open>The effect of a character on the text around the cursor.\<close>

definition text_effect :: "u8 \<Rightarrow> u8 list \<Rightarrow> u8 list \<Rightarrow> u8 list \<times> u8 list" where
  "text_effect ch l r =
     (if ch = NEWLINE then ([], [])
      else if ch = BACKSPACE then (butlast l, r)
      else if 32 \<le> ch \<and> ch \<le> 126 \<and> length l + length r < 126 then (l @ [ch], r)
      else (l, r))"

lemma printable_text_append [simp]: "printable_text (s @ t) \<longleftrightarrow> printable_text s \<and> printable_text t"
  by (auto simp: printable_text_def)

lemma printable_text_Cons [simp]: "printable_text (c # s) \<longleftrightarrow> 32 \<le> c \<and> c \<le> 126 \<and> printable_text s"
  by (auto simp: printable_text_def)

lemma printable_text_butlast: "printable_text l \<Longrightarrow> printable_text (butlast l)"
  by (auto simp: printable_text_def dest: in_set_butlastD)

lemma refresh_editor_ok:
  assumes "client_ok cl l r" and "edits e l' r'" and "printable_text (l' @ r')"
  shows "\<exists>cl'. refresh (cl\<lparr>editor_of := e\<rparr>) = Some cl' \<and> client_ok cl' l' r' \<and>
    chat_of cl' = chat_of cl \<and> cursor_visible cl' = cursor_visible cl \<and> sent cl' = sent cl"
  using refresh_ok [OF assms, of "cl\<lparr>editor_of := e\<rparr>"] by auto

lemma send_line_ok:
  assumes ok: "client_ok cl l r"
  shows "\<exists>cl'. send_line cl ws = Some cl' \<and> client_ok cl' [] [] \<and> chat_of cl' = chat_of cl \<and>
    cursor_visible cl' = cursor_visible cl \<and>
    sent cl' = sent cl @ (if l @ r = [] then [] else send_loop ws (l @ r @ [NEWLINE]))"
proof (cases "l @ r = []")
  case True
  then show ?thesis using ok by (auto simp: send_line_def client_ok_def edits_def)
next
  case False
  have e: "edits (editor_of cl) l r" using ok by (simp add: client_ok_def)
  obtain e' where e': "send_input_line (editor_of cl) ws = Some (e', send_loop ws (l @ r @ [NEWLINE]))"
    "edits e' [] []"
    using edits_send [OF e False] by blast
  let ?cl = "cl\<lparr>editor_of := e', sent := sent cl @ send_loop ws (l @ r @ [NEWLINE])\<rparr>"
  have "\<not> input_len (editor_of cl) \<le> 0"
    using e False by (cases l) (auto simp: edits_def)
  moreover have "\<exists>scr. refresh ?cl = Some (?cl\<lparr>screen := scr\<rparr>) \<and> client_ok (?cl\<lparr>screen := scr\<rparr>) [] []"
    by (rule refresh_ok [OF ok e'(2)]) (simp_all add: printable_text_def)
  ultimately show ?thesis using e'(1) False by (auto simp: send_line_def)
qed

lemma handle_char_ok:
  assumes ok: "client_ok cl l r"
  shows "\<exists>cl'. handle_char cl ch ws = Some cl' \<and> chat_of cl' = chat_of cl \<and>
    cursor_visible cl' = cursor_visible cl \<and>
    client_ok cl' (fst (text_effect ch l r)) (snd (text_effect ch l r)) \<and>
    sent cl' = sent cl @
      (if ch = NEWLINE \<and> l @ r \<noteq> [] then send_loop ws (l @ r @ [NEWLINE]) else [])"
proof -
  have e: "edits (editor_of cl) l r" and p: "printable_text (l @ r)"
    using ok by (simp_all add: client_ok_def)
  consider "ch = 0" | "ch = NEWLINE" | "ch = BACKSPACE" "l = []" | l0 c where "ch = BACKSPACE" "l = l0 @ [c]"
    | "32 \<le> ch" "ch \<le> 126" "length l + length r < 126"
    | "32 \<le> ch" "ch \<le> 126" "\<not> length l + length r < 126"
    | "ch \<noteq> 0" "ch \<noteq> NEWLINE" "ch \<noteq> BACKSPACE" "\<not> (32 \<le> ch \<and> ch \<le> 126)"
    by (metis rev_exhaust)
  then show ?thesis
  proof cases
    case 1
    then show ?thesis using ok by (simp add: handle_char_def text_effect_def)
  next
    case 2
    then show ?thesis using send_line_ok [OF ok, of ws] by (auto simp: handle_char_def text_effect_def)
  next
    case 3
    then show ?thesis using ok e by (simp add: handle_char_def text_effect_def edits_def)
  next
    case 4
    obtain e' where e': "backspace (editor_of cl) = Some e'" "edits e' l0 r"
      using edits_backspace e 4(2) by blast
    have "printable_text (l0 @ r)" using p 4(2) by simp
    moreover have "0 < cursor_pos (editor_of cl)" using e 4(2) by (simp add: edits_def)
    ultimately show ?thesis
      using refresh_editor_ok [OF ok e'(2)] 4 e'(1) by (auto simp: handle_char_def text_effect_def)
  next
    case 5
    then have ch: "ch \<noteq> 0" "ch \<noteq> NEWLINE" "ch \<noteq> BACKSPACE" by auto
    obtain e' where e': "insert_char (editor_of cl) ch = Some e'" "edits e' (l @ [ch]) r"
      using edits_insert [OF e 5(3)] by blast
    have "printable_text ((l @ [ch]) @ r)" using p 5(1,2) by (simp add: printable_text_def)
    moreover have "input_len (editor_of cl) < 126" using e 5(3) by (simp add: edits_def)
    ultimately show ?thesis
      using refresh_editor_ok [OF ok e'(2)] 5 ch e'(1) by (auto simp: handle_char_def text_effect_def)
  next
    case 6
    then have ch: "ch \<noteq> 0" "ch \<noteq> NEWLINE" "ch \<noteq> BACKSPACE" by auto
    have "\<not> input_len (editor_of cl) < 126" using e 6(3) by (simp add: edits_def)
    then show ?thesis using ok 6 ch by (simp add: handle_char_def text_effect_def)
  next
    case 7
    then show ?thesis using ok by (auto simp: handle_char_def text_effect_def)
  qed
qed

lemma client_ok_last_kc [simp]: "client_ok (cl\<lparr>last_kc := k\<rparr>) l r = client_ok cl l r"
  by (simp add: client_ok_def)

lemma cursor_left_ok:
  assumes ok: "client_ok cl l r"
  shows "\<exists>cl' l' r'. refresh (cl\<lparr>editor_of := cursor_left (editor_of cl)\<rparr>) = Some cl' \<and>
    client_ok cl' l' r' \<and> l' @ r' = l @ r \<and> length l' = length l - 1 \<and> chat_of cl' = chat_of cl"
proof (cases l rule: rev_cases)
  case Nil
  have e: "edits (editor_of cl) l r" and p: "printable_text (l @ r)"
    using ok by (simp_all add: client_ok_def)
  then have "cursor_left (editor_of cl) = editor_of cl" using Nil edits_left_end by simp
  then show ?thesis using refresh_editor_ok [OF ok e p] Nil by auto
next
  case (snoc l0 c)
  then have e: "edits (cursor_left (editor_of cl)) l0 (c # r)" and p: "printable_text (l0 @ c # r)"
    using ok by (simp_all add: client_ok_def edits_left printable_text_def)
  obtain cl' where "refresh (cl\<lparr>editor_of := cursor_left (editor_of cl)\<rparr>) = Some cl'"
    "client_ok cl' l0 (c # r)" "chat_of cl' = chat_of cl"
    using refresh_editor_ok [OF ok e p] by blast
  with snoc show ?thesis by (intro exI [of _ cl'] exI [of _ l0] exI [of _ "c # r"]) simp
qed

lemma cursor_right_ok:
  assumes ok: "client_ok cl l r"
  shows "\<exists>cl' l' r'. refresh (cl\<lparr>editor_of := cursor_right (editor_of cl)\<rparr>) = Some cl' \<and>
    client_ok cl' l' r' \<and> l' @ r' = l @ r \<and> length l' = min (length l + 1) (length (l @ r)) \<and>
    chat_of cl' = chat_of cl"
proof (cases r)
  case Nil
  have e: "edits (editor_of cl) l r" and p: "printable_text (l @ r)"
    using ok by (simp_all add: client_ok_def)
  then have "cursor_right (editor_of cl) = editor_of cl" using Nil edits_right_end by simp
  then show ?thesis using refresh_editor_ok [OF ok e p] Nil by auto
next
  case (Cons c r0)
  then have e: "edits (cursor_right (editor_of cl)) (l @ [c]) r0"
    and p: "printable_text ((l @ [c]) @ r0)"
    using ok by (simp_all add: client_ok_def edits_right printable_text_def)
  obtain cl' where "refresh (cl\<lparr>editor_of := cursor_right (editor_of cl)\<rparr>) = Some cl'"
    "client_ok cl' (l @ [c]) r0" "chat_of cl' = chat_of cl"
    using refresh_editor_ok [OF ok e p] by blast
  with Cons show ?thesis by (intro exI [of _ cl'] exI [of _ "l @ [c]"] exI [of _ r0]) simp
qed

lemma caps_toggle_ok:
  assumes ok: "client_ok cl l r"
  shows "\<exists>cl'. refresh (cl\<lparr>caps_lock_on := b\<rparr>) = Some cl' \<and> client_ok cl' l r \<and>
    chat_of cl' = chat_of cl"
proof -
  have e: "edits (editor_of cl) l r" and p: "printable_text (l @ r)"
    using ok by (simp_all add: client_ok_def)
  show ?thesis using refresh_ok [OF ok e p, of "cl\<lparr>caps_lock_on := b\<rparr>"] by auto
qed

definition consistent :: "client \<Rightarrow> bool" where
  "consistent cl \<longleftrightarrow> (\<exists>l r. client_ok cl l r)"

lemma consistentI: "client_ok cl l r \<Longrightarrow> consistent cl"
  unfolding consistent_def by blast

lemma cursor_left_consistent:
  assumes ok: "client_ok cl l r"
  shows "\<exists>cl'. refresh (cl\<lparr>editor_of := cursor_left (editor_of cl)\<rparr>) = Some cl' \<and>
    consistent cl' \<and> chat_of cl' = chat_of cl"
  using cursor_left_ok [OF ok] consistentI by metis

lemma cursor_right_consistent:
  assumes ok: "client_ok cl l r"
  shows "\<exists>cl'. refresh (cl\<lparr>editor_of := cursor_right (editor_of cl)\<rparr>) = Some cl' \<and>
    consistent cl' \<and> chat_of cl' = chat_of cl"
  using cursor_right_ok [OF ok] consistentI by metis

text \<open>A key report of the declared size is handled without a fault and keeps the state consistent.\<close>

lemma handle_packet_ok:
  assumes ok: "client_ok cl l r" and packet: "length (keycode packet) = 6"
  shows "\<exists>res. handle_packet cl packet n ws = Some res \<and>
    (\<forall>cl'. res = Continue cl' \<longrightarrow> consistent cl' \<and> chat_of cl' = chat_of cl)"
proof (cases "n = 8")
  case False
  then show ?thesis using ok by (auto simp: handle_packet_def consistent_def)
next
  case True
  obtain kc where kc: "peek (keycode packet) 0 = Some kc" using packet by (simp add: peek_def)
  obtain b k where acc: "should_accept_key (last_kc cl) kc (modifiers packet) = (b, k)"
    by (cases "should_accept_key (last_kc cl) kc (modifiers packet)")
  let ?cl = "cl\<lparr>last_kc := k\<rparr>"
  have ok': "client_ok ?cl l r" using ok by simp
  then have c0: "consistent (cl\<lparr>last_kc := k\<rparr>)" unfolding consistent_def by blast
  let ?ch = "hid_to_ascii (caps_lock_on cl) kc (modifiers packet)"
  obtain c1 where c1: "refresh (?cl\<lparr>editor_of := cursor_left (editor_of cl)\<rparr>) = Some c1"
    "consistent c1" "chat_of c1 = chat_of cl"
    using cursor_left_consistent [OF ok'] by auto
  obtain c2 where c2: "refresh (?cl\<lparr>editor_of := cursor_right (editor_of cl)\<rparr>) = Some c2"
    "consistent c2" "chat_of c2 = chat_of cl"
    using cursor_right_consistent [OF ok'] by auto
  obtain c3 where c3: "refresh (?cl\<lparr>caps_lock_on := \<not> caps_lock_on cl\<rparr>) = Some c3"
    "consistent c3" "chat_of c3 = chat_of ?cl"
    using caps_toggle_ok [OF ok'] unfolding consistent_def by blast
  obtain c4 where c4: "handle_char ?cl ?ch ws = Some c4" "consistent c4" "chat_of c4 = chat_of ?cl"
    using handle_char_ok [OF ok'] unfolding consistent_def by blast
  show ?thesis
    unfolding handle_packet_def
    using True kc acc c0 c1 c2 c3 c4 by (simp add: Let_def)
qed

subsection \<open>Receiving\<close>

lemma clamp_cursor_id: "edits e l r \<Longrightarrow> clamp_cursor e = e"
  by (simp add: clamp_cursor_def edits_def Let_def)

lemma wrap_lines:
  "length acc < 64 \<Longrightarrow> font_text acc \<Longrightarrow> \<forall>c \<in> set s. c \<noteq> NUL \<and> unat c < 128 \<Longrightarrow>
   font_view (wrap acc s)"
proof (induction acc s rule: wrap.induct)
  case (1 acc)
  then show ?case by (simp add: font_view_def)
next
  case (2 acc c s)
  have c: "printable_font c" using "2.prems"(3) by (simp add: printable_font_def)
  have s: "\<forall>c \<in> set s. c \<noteq> NUL \<and> unat c < 128" using "2.prems"(3) by simp
  have snoc: "font_text (acc @ [c])" using c "2.prems"(2) by (simp add: font_text_def)
  have nil: "font_text []" by (simp add: font_text_def)
  consider "c = RETURN" | "c \<noteq> RETURN" "c = NEWLINE"
    | "c \<noteq> RETURN" "c \<noteq> NEWLINE" "length acc + 1 \<ge> 64"
    | "c \<noteq> RETURN" "c \<noteq> NEWLINE" "\<not> length acc + 1 \<ge> 64" by blast
  then show ?case
  proof cases
    case 1
    then show ?thesis using "2.IH"(1) "2.prems" s by simp
  next
    case 2
    then show ?thesis using "2.IH"(2) "2.prems"(1,2) s nil by (simp add: font_view_def)
  next
    case 3
    then show ?thesis using "2.IH"(3) "2.prems"(1) s nil snoc by (simp add: font_view_def)
  next
    case 4
    then show ?thesis using "2.IH"(4) s snoc by simp
  qed
qed

lemma font_view_lastn: "font_view v \<Longrightarrow> font_view (lastn n v)"
  using set_lastn [of n v] by (auto simp: font_view_def)

lemma c_string_append_NUL_any: "c_string (b @ NUL # t) = c_string b"
  by (induction b) (simp_all add: c_string_Cons)

lemma c_string_split: "NUL \<in> set b \<Longrightarrow> \<exists>t. b = c_string b @ NUL # t"
  by (induction b) (auto simp: c_string_Cons)

definition ascii :: "u8 list \<Rightarrow> bool" where
  "ascii s \<longleftrightarrow> (\<forall>c \<in> set s. unat c < 128)"

lemma set_c_string: "set (c_string s) \<subseteq> set s"
  by (auto simp: c_string_def dest: set_takeWhileD)

lemma chat_print_line_ok:
  assumes ok: "client_ok cl l r" and junk: "length junk = 65" and nul: "NUL \<in> set s"
    and asc: "ascii (c_string s)"
  shows "\<exists>cl'. chat_print_line junk cl s = Some cl' \<and> client_ok cl' l r \<and>
    chat_view (chat_of cl') = lastn 20 (chat_view (chat_of cl) @ wrap [] (c_string s)) \<and>
    cursor_visible cl' = cursor_visible cl \<and> sent cl' = sent cl \<and>
    chat_cursor cl' = 1 + int (length (chat_view (chat_of cl')))"
proof -
  let ?view = "chat_view (chat_of cl)" and ?line = "c_string s"
  have e: "edits (editor_of cl) l r" and inv: "chat_inv (chat_of cl)" and font: "font_view ?view"
    and scr: "fb_ok (screen cl)"
    "displays (screen cl) (client_grid ?view (l @ r) (length l) (cursor_visible cl))"
    using ok by (simp_all add: client_ok_def)
  obtain t where t: "s = ?line @ NUL # t" using c_string_split [OF nul] by blast
  have "length ?view \<le> 20" using inv chat_view_length [OF inv] by (simp add: chat_inv_def)
  then have v: "?view = lastn 20 ?view" by simp
  obtain ch where ch: "store_text (chat_of cl) junk s = Some ch" "chat_inv ch"
    "chat_view ch = lastn 20 (?view @ wrap [] ?line)"
    using store_text_log [OF inv v junk, of ?line t] t by auto
  have "font_view (wrap [] ?line)"
    using asc c_string_NUL_free [of s] by (intro wrap_lines) (auto simp: font_text_def ascii_def)
  then have "font_view (?view @ wrap [] ?line)" using font by (auto simp: font_view_def)
  then have font': "font_view (chat_view ch)" unfolding ch(3) by (rule font_view_lastn)
  obtain scr' where scr': "draw_chat (screen cl) ch 0 20 = Some scr'" "fb_ok scr'"
    "displays scr' (client_grid (chat_view ch) (l @ r) (length l) (cursor_visible cl))"
    using draw_chat_over [OF scr ch(2) font'] chat_over_client_grid by blast
  have n: "chat_line_count ch \<le> 20" "length (chat_view ch) = chat_line_count ch"
    using ch(2) chat_view_length [OF ch(2)] by (simp_all add: chat_inv_def)
  let ?cl = "cl\<lparr>editor_of := editor_of cl, chat_of := ch, screen := scr',
    chat_cursor := 1 + int (chat_line_count ch)\<rparr>"
  have "chat_print_line junk cl s = Some ?cl"
    using ch(1) scr'(1) n(1) by (simp add: chat_print_line_def clamp_cursor_id [OF e] Let_def)
  moreover have "client_ok ?cl l r"
    using ok ch(2) font' scr'(2,3) by (simp add: client_ok_def)
  ultimately show ?thesis using ch(3) n(2) by (intro exI [of _ ?cl]) simp
qed

lemma network_receive_print:
  assumes old: "length old = 128" and n: "length bytes \<le> 127"
  shows "\<exists>t. network_receive junk cl bytes old = chat_print_line junk cl (c_string bytes @ NUL # t)"
proof -
  let ?k = "length bytes"
  have "memcpy old 0 bytes 0 (int ?k) = Some (bytes @ drop ?k old)"
    using old n by (simp add: memcpy_def)
  moreover have "drop ?k old = old ! ?k # drop (Suc ?k) old"
    using old n by (simp add: Cons_nth_drop_Suc)
  then have "poke (bytes @ drop ?k old) (int ?k) NUL = Some (bytes @ NUL # drop (Suc ?k) old)"
    by (simp add: poke_def)
  ultimately have r: "network_receive junk cl bytes old =
      chat_print_line junk cl (bytes @ NUL # drop (Suc ?k) old)"
    by (simp add: network_receive_def)
  obtain t where "bytes @ NUL # drop (Suc ?k) old =
      c_string (bytes @ NUL # drop (Suc ?k) old) @ NUL # t"
    using c_string_split [of "bytes @ NUL # drop (Suc ?k) old"] by auto
  then show ?thesis unfolding r using c_string_append_NUL_any [of bytes] by metis
qed

lemma network_receive_ok:
  assumes ok: "client_ok cl l r" and junk: "length junk = 65" and old: "length old = 128"
    and n: "length bytes \<le> 127" and asc: "ascii (c_string bytes)"
  shows "\<exists>cl'. network_receive junk cl bytes old = Some cl' \<and> client_ok cl' l r \<and>
    chat_view (chat_of cl') = lastn 20 (chat_view (chat_of cl) @ wrap [] (c_string bytes)) \<and>
    cursor_visible cl' = cursor_visible cl \<and> sent cl' = sent cl \<and>
    chat_cursor cl' = 1 + int (length (chat_view (chat_of cl')))"
proof -
  obtain t where r: "network_receive junk cl bytes old =
      chat_print_line junk cl (c_string bytes @ NUL # t)"
    using network_receive_print [OF old n] by blast
  show ?thesis
    unfolding r using chat_print_line_ok [OF ok junk, of "c_string bytes @ NUL # t"] asc by simp
qed

subsection \<open>The start\<close>

definition fb_env_ok :: "fb_env \<Rightarrow> bool" where
  "fb_env_ok env \<longleftrightarrow> (\<forall>m. mmap_result env = Some m \<longrightarrow>
     fb_ok \<lparr>fb_vinfo = vscreeninfo env, fb_finfo = fscreeninfo env, framebuffer = m\<rparr>)"

lemma fbopen_ok:
  assumes "fb_env_ok env" and "fbopen env scr0 = (0, scr)"
  shows "fb_ok scr"
proof -
  have "fb_vinfo scr = vscreeninfo env \<and> fb_finfo scr = fscreeninfo env \<and>
      mmap_result env = Some (framebuffer scr)"
    using assms(2) by (auto simp: fbopen_def Let_def split: if_splits option.splits)
  then show ?thesis using assms(1) by (simp add: fb_env_ok_def fb_ok_def ll_of_def)
qed

lemma poke_zeros: "0 < n \<Longrightarrow> poke (replicate n NUL) 0 NUL = Some (replicate n NUL)"
  by (cases n) (simp_all add: poke_def)

lemma poke_editor_init: "poke (input_buf editor_init) 0 NUL = Some (input_buf editor_init)"
  by (simp only: editor_init_def editor.select_convs) (rule poke_zeros, simp)

lemma editor_init_update:
  "editor_init\<lparr>input_len := 0, input_buf := input_buf editor_init\<rparr> = editor_init"
  "editor_init\<lparr>cursor_pos := 0\<rparr> = editor_init"
  by (simp_all add: editor_init_def)

lemma chat_init_ok: "chat_inv chat_init" "chat_view chat_init = []"
  by (simp_all add: chat_inv_def chat_init_def chat_view_def)

lemma chat_over_empty:
  assumes "r < 24" and "c < 64"
  shows "chat_over (write_row blank_grid DIVIDER_ROW 0 (replicate 64 DASH)) [] r c =
    write_row blank_grid DIVIDER_ROW 0 (replicate 64 DASH) r c"
  using assms by (simp add: chat_over_def write_row_def blank_grid_def pad64_def)

lemma input_over_cong:
  assumes "g r c = g' r c"
  shows "input_over g text k vis r c = input_over g' text k vis r c"
  using assms by (auto simp: input_over_def set_cell_def input_rows_def write_row_def)

definition startup_succeeds :: "main_env \<Rightarrow> fb_state \<Rightarrow> bool" where
  "startup_succeeds env scr0 \<longleftrightarrow> fst (fbopen (fb_results env) scr0) = 0 \<and> keyboard_found env \<and>
     0 \<le> socket_result env \<and> 0 < inet_pton_result env \<and> 0 \<le> connect_result env"

definition fresh_client :: "client \<Rightarrow> bool" where
  "fresh_client cl \<longleftrightarrow> client_ok cl [] [] \<and> chat_view (chat_of cl) = [] \<and> last_kc cl = 0 \<and>
     sent cl = [] \<and> cursor_visible cl \<and> \<not> caps_lock_on cl"

lemma main_start_ok:
  assumes env: "fb_env_ok (fb_results env)"
  shows "\<exists>cl. fresh_client cl \<and>
    main_start env scr0 = Some (if startup_succeeds env scr0 then Inr cl else Inl 1) \<or>
    \<not> startup_succeeds env scr0 \<and> main_start env scr0 = Some (Inl 1)"
proof -
  obtain err scr1 where open1: "fbopen (fb_results env) scr0 = (err, scr1)"
    by (cases "fbopen (fb_results env) scr0")
  show ?thesis
  proof (cases "err = 0")
    case False
    then show ?thesis by (simp add: main_start_def startup_succeeds_def open1)
  next
    case True
    have ok1: "fb_ok scr1" using fbopen_ok [OF env] open1 True by simp
    obtain scr2 where s2: "fbclear scr1 = Some scr2" "fb_ok scr2" "displays scr2 blank_grid"
      using fbclear_displays [OF ok1] by blast
    obtain scr3 where s3: "draw_divider scr2 = Some scr3" "fb_ok scr3"
      "displays scr3 (write_row blank_grid DIVIDER_ROW 0 (replicate 64 DASH))"
      using draw_divider_displays [OF s2(2,3)] by blast
    have pr: "printable_text ([] @ [])" by (simp add: printable_text_def)
    obtain scr4 where s4: "refresh_input_area scr3 editor_init True = Some scr4" "fb_ok scr4"
      "displays scr4 (input_over (write_row blank_grid DIVIDER_ROW 0 (replicate 64 DASH))
         ([] @ []) (length ([] :: u8 list)) True)"
      using refresh_grid [OF s3(2,3) edits_init pr] by blast
    have "displays scr4 (client_grid [] [] 0 True) =
        displays scr4 (input_over (write_row blank_grid DIVIDER_ROW 0 (replicate 64 DASH)) [] 0 True)"
      unfolding client_grid_def by (intro displays_cong input_over_cong chat_over_empty)
    then have grid: "displays scr4 (client_grid [] [] 0 True)" using s4(3) by simp
    let ?cl = "globals_init scr4"
    have "main_start env scr0 = Some (if \<not> keyboard_found env then Inl 1
              else if socket_result env < 0 then Inl 1
              else if inet_pton_result env \<le> 0 then Inl 1
              else if connect_result env < 0 then Inl 1
              else Inr ?cl)"
      using True s2(1) s3(1) s4(1)
      by (simp add: main_start_def open1 globals_init_def poke_editor_init editor_init_update
          refresh_def Let_def)
    then have "main_start env scr0 = Some (if startup_succeeds env scr0 then Inr ?cl else Inl 1)"
      using True by (auto simp: startup_succeeds_def open1)
    moreover have "client_ok ?cl [] []"
      using edits_init pr chat_init_ok s4(2) grid
      by (simp add: client_ok_def globals_init_def font_view_def)
    then have "fresh_client ?cl"
      using chat_init_ok by (simp add: fresh_client_def) (simp add: globals_init_def)
    ultimately show ?thesis by blast
  qed
qed

subsection \<open>The threads\<close>

text \<open>
  One step of one of the three threads, each holding \<open>fb_lock\<close> where it draws: the main thread
  handles a report of six key codes, the cursor thread blinks, the network thread prints what
  it received. \<open>ascii\<close> restricts the bytes received to the 128 the font has.
\<close>

inductive client_step :: "client \<Rightarrow> client \<Rightarrow> bool" where
  key: "length (keycode packet) = 6 \<Longrightarrow> handle_packet cl packet n ws = Some (Continue cl') \<Longrightarrow>
    client_step cl cl'"
| blink: "cursor_blink cl = Some cl' \<Longrightarrow> client_step cl cl'"
| receive: "length junk = 65 \<Longrightarrow> length old = 128 \<Longrightarrow> length bytes \<le> 127 \<Longrightarrow>
    ascii (c_string bytes) \<Longrightarrow> network_receive junk cl bytes old = Some cl' \<Longrightarrow>
    client_step cl cl'"

inductive client_reachable :: "main_env \<Rightarrow> fb_state \<Rightarrow> client \<Rightarrow> bool" for env scr0 where
  start: "main_start env scr0 = Some (Inr cl) \<Longrightarrow> client_reachable env scr0 cl"
| step: "client_reachable env scr0 cl \<Longrightarrow> client_step cl cl' \<Longrightarrow> client_reachable env scr0 cl'"

inductive_cases client_stepE: "client_step cl cl'"

lemma client_step_consistent:
  assumes "client_step cl cl'" and "consistent cl"
  shows "consistent cl'"
proof -
  obtain l r where ok: "client_ok cl l r" using assms(2) by (auto simp: consistent_def)
  from assms(1) show ?thesis
  proof (cases rule: client_step.cases)
    case (key packet n ws)
    then show ?thesis using handle_packet_ok [OF ok key(1), of n ws] by auto
  next
    case blink
    then show ?thesis using blink_ok [OF ok] by (auto simp: consistent_def)
  next
    case (receive junk old bytes)
    then show ?thesis
      using network_receive_ok [OF ok receive(1-4)] by (auto simp: consistent_def)
  qed
qed

lemma client_reachable_consistent:
  assumes "client_reachable env scr0 cl" and "fb_env_ok (fb_results env)"
  shows "consistent cl"
  using assms
proof (induction rule: client_reachable.induct)
  case (start cl)
  then show ?case
    using main_start_ok [of env scr0] by (auto simp: fresh_client_def intro: consistentI split: if_splits)
next
  case (step cl cl')
  then show ?case by (blast intro: client_step_consistent)
qed

end
