(* ===== verification/Client_Session.thy ===== *)
theory Client_Session
  imports Client
begin

text \<open>
  Whole runs of the chat client of \<open>lab2/lab2.c\<close>: any interleaving of key reports, blinks and
  received messages, with the properties of the session. The safety properties need the
  received bytes to be ASCII; the last property shows what happens when they are not.
\<close>

subsection \<open>Runs\<close>

text \<open>
  What one of the three threads does next. A \<open>Receive\<close> carries the bytes of one \<open>read\<close> and the
  contents of the two uninitialised buffers it goes through.
\<close>

datatype event =
    Key usb_keyboard_packet int "int list"
  | Blink
  | Receive (received: "u8 list") (junk_line: "u8 list") (old_buffer: "u8 list")

fun run_event :: "client \<Rightarrow> event \<Rightarrow> loop_result option" where
  "run_event cl (Key p n ws) = handle_packet cl p n ws"
| "run_event cl Blink = map_option Continue (cursor_blink cl)"
| "run_event cl (Receive bytes junk old) = map_option Continue (network_receive junk cl bytes old)"

fun run_events :: "client \<Rightarrow> event list \<Rightarrow> loop_result option" where
  "run_events cl [] = Some (Continue cl)"
| "run_events cl (e # es) = do {
     res \<leftarrow> run_event cl e;
     case res of Quit \<Rightarrow> Some Quit | Continue cl \<Rightarrow> run_events cl es }"

text \<open>The sizes the buffers of the source have, and ASCII text.\<close>

fun event_ok :: "event \<Rightarrow> bool" where
  "event_ok (Key p n ws) = (length (keycode p) = 6)"
| "event_ok Blink = True"
| "event_ok (Receive bytes junk old) =
     (length junk = 65 \<and> length old = 128 \<and> length bytes \<le> 127 \<and> ascii (c_string bytes))"

fun lines_of :: "event \<Rightarrow> u8 list list" where
  "lines_of (Receive bytes junk old) = wrap [] (c_string bytes)"
| "lines_of _ = []"

subsection \<open>Lemmas\<close>

lemma run_event_ok:
  assumes "consistent cl" and "event_ok e"
  shows "\<exists>res. run_event cl e = Some res \<and> (\<forall>cl'. res = Continue cl' \<longrightarrow> consistent cl' \<and>
    chat_view (chat_of cl') = lastn 20 (chat_view (chat_of cl) @ lines_of e))"
proof -
  obtain l r where ok: "client_ok cl l r" using assms(1) unfolding consistent_def by blast
  then have inv: "chat_inv (chat_of cl)" by (simp add: client_ok_def)
  then have n: "length (chat_view (chat_of cl)) \<le> 20"
    using chat_view_length [OF inv] by (simp add: chat_inv_def)
  show ?thesis
  proof (cases e)
    case (Key p k ws)
    then have p: "length (keycode p) = 6" using assms(2) by simp
    show ?thesis using handle_packet_ok [OF ok p, of k ws] n Key by auto
  next
    case Blink
    then show ?thesis using blink_ok [OF ok] n by (auto intro: consistentI)
  next
    case (Receive bytes junk old)
    then have "length junk = 65" "length old = 128" "length bytes \<le> 127" "ascii (c_string bytes)"
      using assms(2) by simp_all
    from network_receive_ok [OF ok this] show ?thesis
      using Receive by (auto intro: consistentI)
  qed
qed

lemma handle_char_keeps:
  "handle_char cl ch ws = Some cl' \<Longrightarrow> caps_lock_on cl' = caps_lock_on cl \<and> last_kc cl' = last_kc cl"
  by (auto simp: handle_char_def send_line_def refresh_def bind_eq_Some_conv split: if_splits)

definition report :: "u8 \<Rightarrow> u8 \<Rightarrow> usb_keyboard_packet" where
  "report kc m = \<lparr>modifiers = m, reserved = 0, keycode = [kc, 0, 0, 0, 0, 0]\<rparr>"

lemma handle_report_char:
  assumes "kc \<noteq> 0" and "kc \<noteq> last_kc cl" and "hid_to_ascii (caps_lock_on cl) kc m \<noteq> 0"
  shows "handle_packet cl (report kc m) 8 ws =
    map_option Continue (handle_char (cl\<lparr>last_kc := kc\<rparr>) (hid_to_ascii (caps_lock_on cl) kc m) ws)"
proof -
  have "kc \<noteq> 0x50" "kc \<noteq> 0x4F" "kc \<noteq> 0x39"
    using assms(3) hid_to_ascii_outside [of kc "caps_lock_on cl" m] by auto
  moreover have "kc \<noteq> 0x29"
    using assms(3) by (auto simp: hid_to_ascii_def punctuation_def Let_def)
  ultimately show ?thesis
    using assms(1,2) by (simp add: handle_packet_def report_def peek_def should_accept_key_def Let_def)
qed

lemma handle_report_release:
  "handle_packet cl (report 0 m) 8 ws = Some (Continue (cl\<lparr>last_kc := 0\<rparr>))"
  by (simp add: handle_packet_def report_def peek_def should_accept_key_def Let_def)

lemma run_events_append:
  "run_events cl (es @ fs) =
     do { res \<leftarrow> run_events cl es; case res of Quit \<Rightarrow> Some Quit | Continue cl \<Rightarrow> run_events cl fs }"
proof (induction es arbitrary: cl)
  case (Cons e es)
  then show ?case by (cases "run_event cl e") (auto split: loop_result.split)
qed simp

text \<open>Press and release the key of one printable character.\<close>

lemma type_char:
  assumes ok: "client_ok cl l r" and last: "last_kc cl = 0" and ch: "32 \<le> ch" "ch \<le> 126"
    and room: "length l + length r < 126"
  shows "\<exists>p q cl'. run_events cl [Key p 8 [], Key q 8 []] = Some (Continue cl') \<and>
    client_ok cl' (l @ [ch]) r \<and> last_kc cl' = 0 \<and> chat_of cl' = chat_of cl \<and> sent cl' = sent cl"
proof -
  obtain kc m where kc: "hid_to_ascii (caps_lock_on cl) kc m = ch" using key_for_printable [OF ch] by blast
  have nz: "ch \<noteq> 0" "ch \<noteq> NEWLINE" "ch \<noteq> BACKSPACE" using ch by auto
  then have "kc \<noteq> 0" using kc hid_to_ascii_outside [of kc "caps_lock_on cl" m] by auto
  then have press: "handle_packet cl (report kc m) 8 [] =
      map_option Continue (handle_char (cl\<lparr>last_kc := kc\<rparr>) ch [])"
    using handle_report_char [of kc cl m "[]"] last kc nz by simp
  have "client_ok (cl\<lparr>last_kc := kc\<rparr>) l r" using ok by simp
  then obtain c1 where c1: "handle_char (cl\<lparr>last_kc := kc\<rparr>) ch [] = Some c1"
    "client_ok c1 (l @ [ch]) r" "chat_of c1 = chat_of cl" "sent c1 = sent cl"
    using handle_char_ok [of "cl\<lparr>last_kc := kc\<rparr>" l r ch "[]"] ch room nz
    by (auto simp: text_effect_def)
  have "run_events cl [Key (report kc m) 8 [], Key (report 0 0) 8 []] =
      Some (Continue (c1\<lparr>last_kc := 0\<rparr>))"
    using press c1(1) by (simp add: handle_report_release)
  with c1(2-4) show ?thesis
    by (intro exI [of _ "report kc m"] exI [of _ "report 0 0"] exI [of _ "c1\<lparr>last_kc := 0\<rparr>"]) simp
qed

lemma type_text:
  assumes "client_ok cl l r" and "last_kc cl = 0" and "printable_text s"
    and "length l + length s + length r \<le> 126"
  shows "\<exists>es cl'. run_events cl es = Some (Continue cl') \<and> client_ok cl' (l @ s) r \<and>
    last_kc cl' = 0 \<and> chat_of cl' = chat_of cl \<and> sent cl' = sent cl"
  using assms
proof (induction s arbitrary: cl l)
  case Nil
  then show ?case by (intro exI [of _ "[]"] exI [of _ cl]) simp
next
  case (Cons c s)
  then obtain p q c1 where c1: "run_events cl [Key p 8 [], Key q 8 []] = Some (Continue c1)"
    "client_ok c1 (l @ [c]) r" "last_kc c1 = 0" "chat_of c1 = chat_of cl" "sent c1 = sent cl"
    using type_char [of cl l r c] by auto
  obtain es c2 where c2: "run_events c1 es = Some (Continue c2)" "client_ok c2 (l @ c # s) r"
    "last_kc c2 = 0" "chat_of c2 = chat_of c1" "sent c2 = sent c1"
    using Cons.IH [OF c1(2,3)] Cons.prems by auto
  have "run_events cl ([Key p 8 [], Key q 8 []] @ es) = Some (Continue c2)"
    unfolding run_events_append c1(1) using c2(1) by simp
  then show ?case
    using c1(4,5) c2(2-5)
    by (intro exI [of _ "[Key p 8 [], Key q 8 []] @ es"] exI [of _ c2]) (simp del: run_events.simps append_Cons)
qed

lemma run_events_ok:
  assumes "consistent cl" and "\<forall>e \<in> set es. event_ok e" and "chat_view (chat_of cl) = lastn 20 log"
  shows "\<exists>res. run_events cl es = Some res \<and> (\<forall>cl'. res = Continue cl' \<longrightarrow> consistent cl' \<and>
    chat_view (chat_of cl') = lastn 20 (log @ concat (map lines_of es)))"
  using assms
proof (induction es arbitrary: cl log)
  case Nil
  then show ?case by simp
next
  case (Cons e es)
  obtain res where res: "run_event cl e = Some res" "\<forall>cl'. res = Continue cl' \<longrightarrow> consistent cl' \<and>
      chat_view (chat_of cl') = lastn 20 (log @ lines_of e)"
    using run_event_ok [OF Cons.prems(1)] Cons.prems(2,3) by fastforce
  show ?case
  proof (cases res)
    case Quit
    then show ?thesis using res(1) by simp
  next
    case (Continue c1)
    then show ?thesis
      using res Cons.IH [of c1 "log @ lines_of e"] Cons.prems(2) by simp
  qed
qed

text \<open>Drawing a chat line with a byte outside the font faults.\<close>

lemma draw_chat_non_ascii_None:
  assumes "chat_inv ch" and "j < length (chat_view ch)" and "i \<le> j" and "j < i + n" and "i + n \<le> 20"
    and "c \<in> set (chat_view ch ! j)" and "128 \<le> unat c"
  shows "draw_chat scr ch i n = None"
  using assms(3-5)
proof (induction n arbitrary: i scr)
  case 0
  then show ?case by simp
next
  case (Suc n)
  let ?row = "\<lambda>i. pad64 (if i < length (chat_view ch) then chat_view ch ! i else [])"
  have row: "chat_row ch i = Some (?row i @ [NUL])"
    using Suc.prems by (intro chat_row_Some assms(1)) simp
  show ?case
  proof (cases "i = j")
    case False
    then have "draw_chat s ch (i + 1) n = None" for s
      using Suc.IH [of "i + 1" s] Suc.prems by simp
    then show ?thesis by (cases "fbputs scr (?row i @ [NUL]) (int (CHAT_TOP + i)) 0") (simp_all add: row)
  next
    case True
    have view: "chat_view ch ! j = c_string (chat_lines ch ! j)"
      using assms(1,2) by (simp add: chat_view_def chat_inv_def)
    have c: "c \<in> set (?row j)" using assms(2,6) by (simp add: pad64_def)
    have nul: "NUL \<notin> set (?row j)"
      using assms(2) c_string_NUL_free [of "chat_lines ch ! j"] by (simp add: pad64_def view)
    have "fbputs scr (?row j @ [NUL]) (int (CHAT_TOP + j)) 0 = None"
      by (rule fbputs_non_ascii_None [OF c assms(7) nul])
    then show ?thesis using row [unfolded True] assms(2) by (simp add: True)
  qed
qed

subsection \<open>Properties\<close>

text \<open>
  The start of \<open>main\<close> never leaves its buffers, whatever the kernel and the network answer:
  it exits with status 1 exactly when one of its calls failed, and otherwise the client starts
  with an empty chat, an empty input line and the screen that shows them.
\<close>

theorem main_start_result:
  assumes "fb_env_ok (fb_results env)"
  shows "\<exists>cl. fresh_client cl \<and>
    main_start env scr0 = Some (if startup_succeeds env scr0 then Inr cl else Inl 1) \<or>
    \<not> startup_succeeds env scr0 \<and> main_start env scr0 = Some (Inl 1)"
  using assms by (rule main_start_ok)

definition console_env :: main_env where
  "console_env = \<lparr>fb_results = \<lparr>open_result = 3, fscreeninfo_result = 0,
       fscreeninfo = fb_finfo console, vscreeninfo_result = 0, vscreeninfo = fb_vinfo console,
       mmap_result = Some console_bytes\<rparr>,
     keyboard_found = True, socket_result = 4, inet_pton_result = 1, connect_result = 0\<rparr>"

lemma console_env_ok: "fb_env_ok (fb_results console_env)"
  using fb_ok_console by (simp add: fb_env_ok_def console_env_def console_def)

lemma console_env_succeeds: "startup_succeeds console_env scr"
  by (simp add: startup_succeeds_def console_env_def fbopen_def console_def Let_def)

lemma console_client: "\<exists>cl. main_start console_env console = Some (Inr cl) \<and> fresh_client cl"
  using main_start_ok [OF console_env_ok, of console] console_env_succeeds by auto

theorem main_start_result_witness:
  "\<exists>cl. fresh_client cl \<and> main_start console_env console = Some (Inr cl)"
  using main_start_result [OF console_env_ok, of console] console_env_succeeds by auto


definition demo_events :: "event list" where
  "demo_events = [Key (report 0x04 2) 8 [], Blink,
     Receive [104, 105, 10] (replicate 65 0) (replicate 128 0), Key (report 0 0) 8 []]"

lemma demo_events_ok: "\<forall>e \<in> set demo_events. event_ok e"
  by (simp add: demo_events_def report_def ascii_def c_string_Cons)


text \<open>
  C3. A received ASCII message is shown: its lines, wrapped at 64 columns with carriage returns
  dropped, are appended to the chat, of which the screen then shows the last 20 lines; the
  input text, the blink phase and the bytes sent are untouched.
\<close>

theorem received_message_is_shown:
  assumes "client_ok cl l r" and "length junk = 65" and "length old = 128"
    and "length bytes \<le> 127" and "ascii (c_string bytes)"
  shows "\<exists>cl'. network_receive junk cl bytes old = Some cl' \<and> client_ok cl' l r \<and>
    chat_view (chat_of cl') = lastn 20 (chat_view (chat_of cl) @ wrap [] (c_string bytes)) \<and>
    cursor_visible cl' = cursor_visible cl \<and> sent cl' = sent cl \<and>
    chat_cursor cl' = 1 + int (length (chat_view (chat_of cl')))"
  using assms by (rule network_receive_ok)

theorem received_message_is_shown_witness:
  "\<exists>cl cl'. client_ok cl [] [] \<and>
    network_receive (replicate 65 0) cl [104, 105, 13, 10] (replicate 128 0) = Some cl' \<and>
    chat_view (chat_of cl') = [[104, 105]]"
proof -
  obtain cl where cl: "client_ok cl [] []" "chat_view (chat_of cl) = []"
    using console_client by (auto simp: fresh_client_def)
  have a: "ascii (c_string [104, 105, 13, 10])" by (simp add: ascii_def c_string_Cons)
  have w: "wrap [] (c_string [104, 105, 13, 10]) = [[104, 105]]" by (simp add: c_string_Cons)
  show ?thesis
    using received_message_is_shown [OF cl(1) _ _ _ a, of "replicate 65 0" "replicate 128 0"] cl w
    by (auto simp: lastn_def)
qed

text \<open>
  C4. The effect of a translated key on the text before and after the cursor: a printable
  character is inserted unless the line is full, backspace deletes to the left, newline sends
  the line and empties it, everything else is ignored. The screen follows the text, and exactly
  a newline on a non-empty line writes to the socket.
\<close>

theorem key_character_effect:
  assumes "client_ok cl l r"
  shows "\<exists>cl'. handle_char cl ch ws = Some cl' \<and> chat_of cl' = chat_of cl \<and>
    cursor_visible cl' = cursor_visible cl \<and>
    client_ok cl' (fst (text_effect ch l r)) (snd (text_effect ch l r)) \<and>
    sent cl' = sent cl @
      (if ch = NEWLINE \<and> l @ r \<noteq> [] then send_loop ws (l @ r @ [NEWLINE]) else [])"
  using assms by (rule handle_char_ok)

theorem key_character_effect_witness:
  "\<exists>cl cl'. client_ok cl [] [] \<and> handle_char cl 65 [] = Some cl' \<and> client_ok cl' [65] []"
proof -
  obtain cl where cl: "client_ok cl [] []" using console_client by (auto simp: fresh_client_def)
  show ?thesis
    using key_character_effect [OF cl, of 65 "[]"] cl by (auto simp: text_effect_def)
qed



text \<open>
  C35. A message with a byte of 128 or more (UTF-8 text, for example) makes the client read
  outside its font: if such a byte is on one of the 20 lines to be shown, the redraw faults,
  whatever the screen.
\<close>

theorem non_ascii_message_faults:
  assumes "chat_inv (chat_of cl)" and "length junk = 65" and "length old = 128"
    and "length bytes \<le> 127"
    and "line \<in> set (lastn 20 (chat_view (chat_of cl) @ wrap [] (c_string bytes)))"
    and "c \<in> set line" and "128 \<le> unat c"
  shows "network_receive junk cl bytes old = None"
proof -
  let ?view = "chat_view (chat_of cl)"
  have v: "?view = lastn 20 ?view"
    using assms(1) chat_view_length [OF assms(1)] by (simp add: chat_inv_def)
  obtain t where recv: "network_receive junk cl bytes old =
      chat_print_line junk cl (c_string bytes @ NUL # t)"
    using network_receive_print [OF assms(3,4)] by blast
  obtain ch where ch: "store_text (chat_of cl) junk (c_string bytes @ NUL # t) = Some ch"
    "chat_inv ch" "chat_view ch = lastn 20 (?view @ wrap [] (c_string bytes))"
    using store_text_log [OF assms(1) v assms(2) c_string_NUL_free] by blast
  obtain j where j: "j < length (chat_view ch)" "chat_view ch ! j = line"
    using assms(5) unfolding ch(3) by (auto simp: in_set_conv_nth)
  have "j < 0 + 20" using j(1) ch(2) chat_view_length [OF ch(2)] by (simp add: chat_inv_def)
  then have "draw_chat (screen cl) ch 0 20 = None"
    using draw_chat_non_ascii_None [OF ch(2) j(1), of 0 20] j(2) assms(6,7) by simp
  then show ?thesis by (simp add: recv chat_print_line_def ch(1) Let_def)
qed

theorem non_ascii_message_faults_witness:
  "network_receive (replicate 65 0) (globals_init console) [0xC3, 0xA9] (replicate 128 0) = None"
proof -
  have inv: "chat_inv (chat_of (globals_init console))" using chat_init_ok by (simp add: globals_init_def)
  have line: "[0xC3, 0xA9] \<in> set (lastn 20 (chat_view (chat_of (globals_init console)) @
      wrap [] (c_string [0xC3, 0xA9])))"
    using chat_init_ok by (simp add: globals_init_def c_string_Cons)
  show ?thesis by (rule non_ascii_message_faults [OF inv _ _ _ line, of _ _ "0xC3"]) simp_all
qed

end
