(* ===== verification/Client_Race.thy ===== *)
theory Client_Race
  imports Client
begin

text \<open>
  The race between the main thread and the network thread of \<open>lab2/lab2.c\<close>. The main thread
  edits \<open>input_buf\<close>, \<open>input_len\<close> and \<open>cursor_pos\<close> without holding \<open>fb_lock\<close>; the network
  thread, inside \<open>chat_print_line\<close>, clamps \<open>cursor_pos\<close> under it. Here an edit is cut into its
  statements, and the clamp may run between any two of them, or, in the variant \<open>locked\<close>, only
  between edits.
\<close>

subsection \<open>Edits, statement by statement\<close>

datatype progress =
    Idle
  | Bs_moved
  | Bs_shortened
  | Ins_moved u8
  | Ins_stored
  | Ins_lengthened

datatype edit_command = Backspace | Insert u8

text \<open>The test of the command and its \<open>memmove\<close>.\<close>

fun begin_edit :: "edit_command \<Rightarrow> editor \<Rightarrow> (progress \<times> editor) option" where
  "begin_edit Backspace e =
     (if cursor_pos e > 0 then do {
        b \<leftarrow> memmove (input_buf e) (cursor_pos e - 1) (cursor_pos e)
               (input_len e - cursor_pos e + 1);
        Some (Bs_moved, e\<lparr>input_buf := b\<rparr>) }
      else Some (Idle, e))"
| "begin_edit (Insert ch) e =
     (if input_len e < INPUT_MAX_LEN then do {
        b \<leftarrow> memmove (input_buf e) (cursor_pos e + 1) (cursor_pos e)
               (input_len e - cursor_pos e + 1);
        Some (Ins_moved ch, e\<lparr>input_buf := b\<rparr>) }
      else Some (Idle, e))"

text \<open>The next statement of the edit in progress.\<close>

fun advance :: "progress \<Rightarrow> editor \<Rightarrow> (progress \<times> editor) option" where
  "advance Idle e = Some (Idle, e)"
| "advance Bs_moved e = Some (Bs_shortened, e\<lparr>input_len := input_len e - 1\<rparr>)"
| "advance Bs_shortened e = Some (Idle, e\<lparr>cursor_pos := cursor_pos e - 1\<rparr>)"
| "advance (Ins_moved ch) e = do {
     b \<leftarrow> poke (input_buf e) (cursor_pos e) ch;
     Some (Ins_stored, e\<lparr>input_buf := b\<rparr>) }"
| "advance Ins_stored e = Some (Ins_lengthened, e\<lparr>input_len := input_len e + 1\<rparr>)"
| "advance Ins_lengthened e = Some (Idle, e\<lparr>cursor_pos := cursor_pos e + 1\<rparr>)"

text \<open>What is left of an edit takes at most three statements.\<close>

definition finish_edit :: "progress \<Rightarrow> editor \<Rightarrow> editor option" where
  "finish_edit p e = do {
     (p, e) \<leftarrow> advance p e; (p, e) \<leftarrow> advance p e; (p, e) \<leftarrow> advance p e; Some e }"

fun atomic_edit :: "edit_command \<Rightarrow> editor \<Rightarrow> editor option" where
  "atomic_edit Backspace e = backspace e"
| "atomic_edit (Insert ch) e = insert_char e ch"

subsection \<open>The two threads\<close>

inductive edit_step :: "bool \<Rightarrow> progress \<times> editor \<Rightarrow> progress \<times> editor \<Rightarrow> bool" for locked where
  begin_step: "begin_edit c e = Some s \<Longrightarrow> edit_step locked (Idle, e) s"
| advance_step: "p \<noteq> Idle \<Longrightarrow> advance p e = Some s \<Longrightarrow> edit_step locked (p, e) s"
| clamp_step: "(locked \<Longrightarrow> p = Idle) \<Longrightarrow> edit_step locked (p, e) (p, clamp_cursor e)"

inductive_cases edit_stepE: "edit_step locked s s'"

inductive edit_reachable :: "bool \<Rightarrow> progress \<times> editor \<Rightarrow> bool" for locked where
  edit_start: "edit_reachable locked (Idle, editor_init)"
| edit_more: "edit_reachable locked s \<Longrightarrow> edit_step locked s s' \<Longrightarrow> edit_reachable locked s'"

subsection \<open>Lemmas\<close>

lemma finish_advance: "advance p e = Some (p', e') \<Longrightarrow> finish_edit p' e' = finish_edit p e"
  by (cases p) (auto simp: finish_edit_def bind_eq_Some_conv)

lemma finish_begin: "begin_edit c e = Some (p, e') \<Longrightarrow> finish_edit p e' = atomic_edit c e"
  by (cases c) (auto simp: finish_edit_def backspace_def insert_char_def bind_eq_Some_conv split: if_splits)

lemma begin_None: "begin_edit c e = None \<Longrightarrow> atomic_edit c e = None"
  by (cases c) (auto simp: backspace_def insert_char_def bind_eq_None_conv split: if_splits)

lemma advance_None: "advance p e = None \<Longrightarrow> finish_edit p e = None"
  by (simp add: finish_edit_def)

lemma atomic_edit_ok:
  assumes "edits e l r"
  shows "\<exists>e' l' r'. atomic_edit c e = Some e' \<and> edits e' l' r'"
proof (cases c)
  case Backspace
  then show ?thesis
    using assms edits_backspace edits_backspace_end by (cases l rule: rev_cases) fastforce+
next
  case (Insert ch)
  then show ?thesis
    using assms edits_insert [OF assms] edits_insert_full [OF assms]
    by (cases "length l + length r < 126") (fastforce simp: edits_def)+
qed

text \<open>With the lock, what is left of the edit in progress always leads to a proper text.\<close>

definition edit_inv :: "progress \<times> editor \<Rightarrow> bool" where
  "edit_inv s \<longleftrightarrow> (\<exists>e' l r. finish_edit (fst s) (snd s) = Some e' \<and> edits e' l r)"

lemma edit_inv_idle: "edit_inv (Idle, e) \<longleftrightarrow> (\<exists>l r. edits e l r)"
  by (simp add: edit_inv_def finish_edit_def)

lemma edit_step_inv: "edit_step True s s' \<Longrightarrow> edit_inv s \<Longrightarrow> edit_inv s'"
proof (induction rule: edit_step.induct)
  case (begin_step c e s)
  then obtain l r where "edits e l r" by (auto simp: edit_inv_idle)
  then show ?case
    using atomic_edit_ok [of e l r c] begin_step(1) finish_begin [of c e] by (cases s) (simp add: edit_inv_def)
next
  case (advance_step p e s)
  then show ?case using finish_advance [of p e] by (cases s) (simp add: edit_inv_def)
next
  case (clamp_step p e)
  then obtain l r where "edits e l r" by (auto simp: edit_inv_idle)
  then show ?case using clamp_step by (simp add: clamp_cursor_id)
qed

lemma edit_reachable_inv: "edit_reachable True s \<Longrightarrow> edit_inv s"
  by (induction rule: edit_reachable.induct)
    (use edits_init in \<open>auto simp: edit_inv_idle intro: edit_step_inv\<close>)

text \<open>Without it, the indices stay within one of their range.\<close>

fun race_inv :: "progress \<times> editor \<Rightarrow> bool" where
  "race_inv (Idle, e) = (-1 \<le> cursor_pos e \<and> cursor_pos e \<le> input_len e \<and> 0 \<le> input_len e \<and> input_len e \<le> 126)"
| "race_inv (Bs_moved, e) = (1 \<le> cursor_pos e \<and> cursor_pos e \<le> input_len e \<and> input_len e \<le> 126)"
| "race_inv (Bs_shortened, e) =
     (0 \<le> cursor_pos e \<and> cursor_pos e \<le> input_len e + 1 \<and> 0 \<le> input_len e \<and> input_len e \<le> 125)"
| "race_inv (Ins_lengthened, e) = (0 \<le> cursor_pos e \<and> cursor_pos e < input_len e \<and> input_len e \<le> 126)"
| "race_inv (p, e) = (0 \<le> cursor_pos e \<and> cursor_pos e \<le> input_len e \<and> input_len e \<le> 125)"

lemma race_inv_clamp: "race_inv (p, e) \<Longrightarrow> race_inv (p, clamp_cursor e)"
  by (cases p) (auto simp: clamp_cursor_def Let_def)

lemma race_inv_advance: "race_inv (p, e) \<Longrightarrow> advance p e = Some s \<Longrightarrow> race_inv s"
  by (cases p) (auto simp: bind_eq_Some_conv)

lemma memmove_index: "memmove b d s n = Some b' \<Longrightarrow> 0 \<le> s"
  by (auto simp: memmove_def memcpy_def split: if_splits)

lemma race_inv_begin: "race_inv (Idle, e) \<Longrightarrow> begin_edit c e = Some s \<Longrightarrow> race_inv s"
  by (cases c) (auto simp: bind_eq_Some_conv dest: memmove_index split: if_splits)

lemma edit_reachable_race_inv: "edit_reachable locked s \<Longrightarrow> race_inv s"
proof (induction rule: edit_reachable.induct)
  case edit_start
  then show ?case by (simp add: editor_init_def)
next
  case (edit_more s s')
  from edit_more(2,3) show ?case
    by (cases rule: edit_step.cases)
      (auto intro: race_inv_begin race_inv_advance race_inv_clamp)
qed

text \<open>An edit without interruption is a sequence of steps.\<close>

lemma reachable_advance:
  "edit_reachable locked (p, e) \<Longrightarrow> advance p e = Some s \<Longrightarrow> edit_reachable locked s"
  by (cases "p = Idle") (auto intro: edit_more advance_step)

lemma reachable_begin:
  "edit_reachable locked (Idle, e) \<Longrightarrow> begin_edit c e = Some s \<Longrightarrow> edit_reachable locked s"
  by (auto intro: edit_more begin_step)

lemma reachable_finish:
  assumes "edit_reachable locked (p, e)" and "finish_edit p e = Some e'"
  shows "edit_reachable locked (Idle, e')"
proof -
  obtain p1 e1 p2 e2 p3 where a: "advance p e = Some (p1, e1)" "advance p1 e1 = Some (p2, e2)"
    "advance p2 e2 = Some (p3, e')"
    using assms(2) by (auto simp: finish_edit_def bind_eq_Some_conv)
  then have "p3 = Idle" by (cases p) (auto simp: bind_eq_Some_conv)
  then show ?thesis
    using reachable_advance [OF reachable_advance [OF reachable_advance [OF assms(1) a(1)] a(2)] a(3)]
    by simp
qed

lemma reachable_edit:
  assumes "edit_reachable locked (Idle, e)" and "atomic_edit c e = Some e'"
  shows "edit_reachable locked (Idle, e')"
proof -
  obtain p e1 where b: "begin_edit c e = Some (p, e1)"
    using assms(2) begin_None [of c e] by (cases "begin_edit c e") auto
  then have "finish_edit p e1 = Some e'" using finish_begin [OF b] assms(2) by simp
  then show ?thesis using b by (auto intro: reachable_finish reachable_begin assms(1))
qed

text \<open>The clamp between the two decrements of a backspace on a line of one character.\<close>

lemma raced_backspace:
  assumes "edit_reachable False (Idle, e)" and "edits e [c] []"
  shows "\<exists>e'. edit_reachable False (Idle, e') \<and> cursor_pos e' = -1 \<and> input_len e' = 0"
proof -
  have n: "cursor_pos e = 1" "input_len e = 1" using assms(2) by (simp_all add: edits_def)
  obtain b where b: "begin_edit Backspace e = Some (Bs_moved, e\<lparr>input_buf := b\<rparr>)"
    using edits_backspace [of e "[]" c "[]"] assms(2) n
    by (auto simp: backspace_def bind_eq_Some_conv)
  let ?e2 = "e\<lparr>input_buf := b, input_len := 0\<rparr>"
  have "edit_reachable False (Bs_moved, e\<lparr>input_buf := b\<rparr>)"
    using assms(1) b by (rule reachable_begin)
  then have "edit_reachable False (Bs_shortened, ?e2)"
    by (rule reachable_advance) (simp add: n)
  then have "edit_reachable False (Bs_shortened, clamp_cursor ?e2)"
    by (rule edit_more) (rule clamp_step, simp)
  moreover have "clamp_cursor ?e2 = ?e2\<lparr>cursor_pos := 0\<rparr>" by (simp add: clamp_cursor_def n)
  ultimately have "edit_reachable False (Bs_shortened, ?e2\<lparr>cursor_pos := 0\<rparr>)" by simp
  then have "edit_reachable False (Idle, ?e2\<lparr>cursor_pos := -1\<rparr>)"
    by (rule reachable_advance) simp
  then show ?thesis by (intro exI [of _ "?e2\<lparr>cursor_pos := -1\<rparr>"]) simp
qed

lemma begin_insert_negative:
  "cursor_pos e = -1 \<Longrightarrow> input_len e < 126 \<Longrightarrow> begin_edit (Insert ch) e = None"
  by (simp add: memmove_def memcpy_def)

subsection \<open>Properties\<close>

text \<open>
  Run without interruption, the statements of an edit compute the atomic operation of the
  editor model, faults included.
\<close>

theorem edit_statements_refine:
  "do { (p, e') \<leftarrow> begin_edit c e; finish_edit p e' } = atomic_edit c e"
proof (cases "begin_edit c e")
  case None
  then show ?thesis by (simp add: begin_None)
next
  case (Some s)
  then show ?thesis by (cases s) (simp add: finish_begin)
qed



text \<open>
  C28. As the code is, without the lock, the cursor can become negative: the user types one
  character and deletes it, and a message arrives between the two decrements. The next
  character typed is then moved and stored in front of \<open>input_buf\<close>.
\<close>

theorem race_cursor_negative:
  "\<exists>e. edit_reachable False (Idle, e) \<and> cursor_pos e = -1 \<and> begin_edit (Insert ch) e = None"
proof -
  obtain e1 where e1: "insert_char editor_init 97 = Some e1" "edits e1 [97] []"
    using edits_insert [OF edits_init, of 97] by auto
  have "edit_reachable False (Idle, e1)"
    by (rule reachable_edit [OF edit_start, of "Insert 97"]) (simp add: e1(1))
  from raced_backspace [OF this e1(2)] show ?thesis using begin_insert_negative by fastforce
qed

text \<open>
  The race does no more than that: in every reachable state, whatever the interleaving, the
  length stays between 0 and 126 and the cursor between -1 and the length plus one (plus one
  only inside a backspace), so drawing the input area never leaves the screen.
\<close>

theorem race_damage_bounded:
  assumes "edit_reachable locked (p, e)"
  shows "-1 \<le> cursor_pos e \<and> cursor_pos e \<le> input_len e + 1 \<and> 0 \<le> input_len e \<and> input_len e \<le> 126 \<and>
    0 \<le> fst (cursor_cell (cursor_pos e)) \<and> fst (cursor_cell (cursor_pos e)) < 24 \<and>
    0 \<le> snd (cursor_cell (cursor_pos e)) \<and> snd (cursor_cell (cursor_pos e)) < 64"
proof -
  have "race_inv (p, e)" using assms by (rule edit_reachable_race_inv)
  then have "-1 \<le> cursor_pos e \<and> cursor_pos e \<le> input_len e + 1 \<and> 0 \<le> input_len e \<and> input_len e \<le> 126"
    by (cases p) auto
  then show ?thesis by (auto simp: cursor_cell_def Let_def)
qed

theorem race_damage_bounded_witness: "0 \<le> snd (cursor_cell (cursor_pos editor_init))"
  using race_damage_bounded [OF edit_start] by blast

end
