(* ===== verification/Usb.thy ===== *)
theory Usb
  imports Lab_Prelude
begin

text \<open>
  \<open>openkeyboard\<close> of \<open>lab2/usbkeyboard.c\<close>: the search for the first USB interface that speaks
  the HID keyboard protocol. libusb is outside the repository: the devices and the results of
  the calls that can fail are data. The counters \<open>i\<close> and \<open>k\<close> are bytes, as in the source, so
  the loops are \<open>partial_function\<close>s whose \<^term>\<open>None\<close> is a search that never returns.
\<close>

subsection \<open>Devices\<close>

record usb_interface_descriptor =
  bInterfaceClass :: u8
  bInterfaceProtocol :: u8
  endpoint_addresses :: "u8 list"

record usb_interface =
  altsetting :: "usb_interface_descriptor list"
  num_altsetting :: int

record usb_config =
  bNumInterfaces :: u8
  interfaces :: "usb_interface list"

text \<open>
  A device with what the calls on it return; \<open>config_descriptor\<close> is \<^term>\<open>None\<close> when
  \<open>libusb_get_config_descriptor\<close> fails and leaves \<open>config\<close> unset.
\<close>

record usb_device =
  bDeviceClass :: u8
  descriptor_result :: int
  config_descriptor :: "usb_config option"
  open_device_result :: int
  claim_interface_result :: int

abbreviation (input) LIBUSB_CLASS_PER_INTERFACE :: u8 where "LIBUSB_CLASS_PER_INTERFACE \<equiv> 0"
abbreviation (input) LIBUSB_CLASS_HID :: u8 where "LIBUSB_CLASS_HID \<equiv> 3"
abbreviation (input) USB_HID_KEYBOARD_PROTOCOL :: u8 where "USB_HID_KEYBOARD_PROTOCOL \<equiv> 1"

text \<open>
  How the search ends: not yet, with the handle of device \<open>d\<close>, its claimed interface and the
  endpoint address, with \<open>exit(1)\<close>, or with an access through an invalid pointer.
\<close>

datatype search =
    Not_found
  | Found nat u8 u8
  | Exit_1
  | Bad_access

subsection \<open>The search\<close>

definition is_keyboard :: "usb_interface_descriptor \<Rightarrow> bool" where
  "is_keyboard alt \<longleftrightarrow> bInterfaceClass alt = LIBUSB_CLASS_HID \<and>
     bInterfaceProtocol alt = USB_HID_KEYBOARD_PROTOCOL"

text \<open>Opening and claiming the interface that was found.\<close>

definition claim :: "nat \<Rightarrow> usb_device \<Rightarrow> u8 \<Rightarrow> usb_interface_descriptor \<Rightarrow> search" where
  "claim d dev i alt =
     (if open_device_result dev \<noteq> 0 then Exit_1
      else if claim_interface_result dev \<noteq> 0 then Exit_1
      else (case endpoint_addresses alt of
              [] \<Rightarrow> Bad_access
            | e # _ \<Rightarrow> Found d i e))"

partial_function (option) scan_altsettings ::
  "nat \<Rightarrow> usb_device \<Rightarrow> u8 \<Rightarrow> usb_interface \<Rightarrow> u8 \<Rightarrow> search option" where
  "scan_altsettings d dev i ifc k =
     (if uint k < num_altsetting ifc then
        (if unat k < length (altsetting ifc) then
           (if is_keyboard (altsetting ifc ! unat k) then Some (claim d dev i (altsetting ifc ! unat k))
            else scan_altsettings d dev i ifc (k + 1))
         else Some Bad_access)
      else Some Not_found)"

partial_function (option) scan_interfaces ::
  "nat \<Rightarrow> usb_device \<Rightarrow> usb_config \<Rightarrow> u8 \<Rightarrow> search option" where
  "scan_interfaces d dev config i =
     (if i < bNumInterfaces config then
        (if unat i < length (interfaces config) then
           do {
             r \<leftarrow> scan_altsettings d dev i (interfaces config ! unat i) 0;
             if r = Not_found then scan_interfaces d dev config (i + 1) else Some r }
         else Some Bad_access)
      else Some Not_found)"

fun scan_devices :: "nat \<Rightarrow> usb_device list \<Rightarrow> search option" where
  "scan_devices d [] = Some Not_found"
| "scan_devices d (dev # devs) =
     (if descriptor_result dev < 0 then Some Exit_1
      else if bDeviceClass dev = LIBUSB_CLASS_PER_INTERFACE then
        (case config_descriptor dev of
           None \<Rightarrow> Some Bad_access
         | Some config \<Rightarrow>
             do {
               r \<leftarrow> scan_interfaces d dev config 0;
               if r = Not_found then scan_devices (Suc d) devs else Some r })
      else scan_devices (Suc d) devs)"

definition openkeyboard :: "int \<Rightarrow> int \<Rightarrow> usb_device list \<Rightarrow> search option" where
  "openkeyboard init_result num_devs devs =
     (if init_result < 0 then Some Exit_1
      else if num_devs < 0 then Some Exit_1
      else scan_devices 0 (take (nat num_devs) devs))"

subsection \<open>Specification\<close>

text \<open>Every keyboard setting of the attached devices, in the order of the search.\<close>

definition settings_of :: "usb_interface \<Rightarrow> usb_interface_descriptor list" where
  "settings_of ifc = filter is_keyboard (altsetting ifc)"

fun candidates_from :: "nat \<Rightarrow> usb_interface list \<Rightarrow> (nat \<times> usb_interface_descriptor) list" where
  "candidates_from i [] = []"
| "candidates_from i (ifc # ifcs) = map (Pair i) (settings_of ifc) @ candidates_from (Suc i) ifcs"

definition candidates :: "usb_device \<Rightarrow> (nat \<times> usb_interface_descriptor) list" where
  "candidates dev =
     (if bDeviceClass dev = LIBUSB_CLASS_PER_INTERFACE
      then (case config_descriptor dev of None \<Rightarrow> [] | Some c \<Rightarrow> candidates_from 0 (interfaces c))
      else [])"

fun first_keyboard :: "nat \<Rightarrow> usb_device list \<Rightarrow> search" where
  "first_keyboard d [] = Not_found"
| "first_keyboard d (dev # devs) =
     (case candidates dev of
        [] \<Rightarrow> first_keyboard (Suc d) devs
      | (i, alt) # _ \<Rightarrow> claim d dev (of_nat i) alt)"

text \<open>Descriptors as libusb delivers them: counts match the arrays and fit in a byte.\<close>

definition interface_ok :: "usb_interface \<Rightarrow> bool" where
  "interface_ok ifc \<longleftrightarrow> num_altsetting ifc = int (length (altsetting ifc)) \<and> length (altsetting ifc) \<le> 255"

definition config_ok :: "usb_config \<Rightarrow> bool" where
  "config_ok c \<longleftrightarrow> unat (bNumInterfaces c) = length (interfaces c) \<and> (\<forall>ifc \<in> set (interfaces c). interface_ok ifc)"

definition device_ok :: "usb_device \<Rightarrow> bool" where
  "device_ok dev \<longleftrightarrow> 0 \<le> descriptor_result dev \<and>
     (bDeviceClass dev = LIBUSB_CLASS_PER_INTERFACE \<longrightarrow> (\<exists>c. config_descriptor dev = Some c \<and> config_ok c))"

subsection \<open>Lemmas\<close>

lemma unat_Suc_u8: "unat (k :: u8) < 255 \<Longrightarrow> unat (k + 1) = Suc (unat k)"
  by (simp add: unat_word_ariths)

lemma claim_not_Not_found [simp]: "claim d dev i alt \<noteq> Not_found"
  by (auto simp: claim_def split: list.split)

lemma scan_altsettings_finds:
  assumes "interface_ok ifc"
  shows "scan_altsettings d dev i ifc k =
    Some (case filter is_keyboard (drop (unat k) (altsetting ifc)) of
            [] \<Rightarrow> Not_found | alt # _ \<Rightarrow> claim d dev i alt)"
proof (induction "length (altsetting ifc) - unat k" arbitrary: k)
  case 0
  then have n: "length (altsetting ifc) \<le> unat k" by simp
  then have "num_altsetting ifc \<le> int (unat k)"
    using assms unfolding interface_ok_def by (metis of_nat_le_iff)
  then have "\<not> uint k < num_altsetting ifc" by simp
  then show ?case using n by (simp add: scan_altsettings.simps [of d dev i ifc k])
next
  case (Suc n)
  then have k1: "unat k < length (altsetting ifc)" by simp
  then have k2: "unat k < 255" using assms by (simp add: interface_ok_def)
  note k = k1 k2
  then have "n = length (altsetting ifc) - unat (k + 1)" using Suc.hyps(2) by (simp add: unat_Suc_u8)
  then have IH: "scan_altsettings d dev i ifc (k + 1) =
      Some (case filter is_keyboard (drop (Suc (unat k)) (altsetting ifc)) of
              [] \<Rightarrow> Not_found | alt # _ \<Rightarrow> claim d dev i alt)"
    using Suc.hyps(1) [of "k + 1"] k(2) by (simp add: unat_Suc_u8)
  have "int (unat k) < num_altsetting ifc"
    using k(1) assms unfolding interface_ok_def by (metis of_nat_less_iff)
  then have lt: "uint k < num_altsetting ifc" by simp
  have d: "drop (unat k) (altsetting ifc) = altsetting ifc ! unat k # drop (Suc (unat k)) (altsetting ifc)"
    using k(1) by (simp add: Cons_nth_drop_Suc)
  show ?case using k lt by (simp add: scan_altsettings.simps [of d dev i ifc k] IH d)
qed

lemma scan_interfaces_finds:
  assumes "config_ok config"
  shows "scan_interfaces d dev config i =
    Some (case candidates_from (unat i) (drop (unat i) (interfaces config)) of
            [] \<Rightarrow> Not_found | (j, alt) # _ \<Rightarrow> claim d dev (of_nat j) alt)"
proof (induction "length (interfaces config) - unat i" arbitrary: i)
  case 0
  then have "\<not> i < bNumInterfaces config" using assms by (simp add: config_ok_def word_less_nat_alt)
  then show ?case using 0 by (simp add: scan_interfaces.simps [of d dev config i])
next
  case (Suc n)
  then have i: "unat i < length (interfaces config)" by simp
  then have b: "unat i < 255" using assms unsigned_less [of "bNumInterfaces config", where 'a = nat]
    by (simp add: config_ok_def)
  have "n = length (interfaces config) - unat (i + 1)" using Suc.hyps(2) b by (simp add: unat_Suc_u8)
  then have IH: "scan_interfaces d dev config (i + 1) =
      Some (case candidates_from (Suc (unat i)) (drop (Suc (unat i)) (interfaces config)) of
              [] \<Rightarrow> Not_found | (j, alt) # _ \<Rightarrow> claim d dev (of_nat j) alt)"
    using Suc.hyps(1) [of "i + 1"] b by (simp add: unat_Suc_u8)
  have lt: "i < bNumInterfaces config" using i assms by (simp add: config_ok_def word_less_nat_alt)
  have d: "drop (unat i) (interfaces config) = interfaces config ! unat i # drop (Suc (unat i)) (interfaces config)"
    using i by (simp add: Cons_nth_drop_Suc)
  have ok: "interface_ok (interfaces config ! unat i)" using i assms by (simp add: config_ok_def)
  show ?case
    using i lt scan_altsettings_finds [OF ok, of d dev i 0]
    by (simp add: scan_interfaces.simps [of d dev config i] IH d settings_of_def split: list.split)
qed

lemma scan_devices_finds:
  "\<forall>dev \<in> set devs. device_ok dev \<Longrightarrow> scan_devices d devs = Some (first_keyboard d devs)"
proof (induction devs arbitrary: d)
  case (Cons dev devs)
  then show ?case
    by (auto simp: device_ok_def candidates_def scan_interfaces_finds split: list.split)
qed simp

text \<open>An interface with 256 settings and no keyboard among them: the counter wraps round.\<close>

lemma scan_altsettings_loops:
  assumes "256 \<le> num_altsetting ifc" and "256 \<le> length (altsetting ifc)"
    and "\<forall>alt \<in> set (altsetting ifc). \<not> is_keyboard alt"
  shows "scan_altsettings d dev i ifc k = None"
proof -
  have "scan_altsettings d dev i ifc k = Some r \<Longrightarrow> 256 \<le> num_altsetting ifc \<Longrightarrow>
      256 \<le> length (altsetting ifc) \<Longrightarrow>
      \<forall>alt \<in> set (altsetting ifc). \<not> is_keyboard alt \<Longrightarrow> False" for r d dev i ifc k
  proof (induction d dev i ifc k r rule: scan_altsettings.raw_induct [rotated, consumes 1, case_names step])
    case (step scan d dev i ifc k r)
    have "unat k < 256" "uint k < 256" using unsigned_less [of k, where 'a = nat] unsigned_less [of k, where 'a = int] by simp_all
    then have k: "uint k < num_altsetting ifc" "unat k < length (altsetting ifc)" using step.prems(1,2) by simp_all
    then have "\<not> is_keyboard (altsetting ifc ! unat k)" using step.prems(3) by simp
    then show ?case using step.IH step.hyps step.prems k by auto
  qed
  then show ?thesis using assms by (cases "scan_altsettings d dev i ifc k") auto
qed

subsection \<open>Properties\<close>

text \<open>
  C37. On descriptors as libusb delivers them the search returns, touches no invalid pointer
  while looking, and what it opens and claims is the first keyboard setting in the order of
  devices, interfaces and settings; without one it returns no handle.
\<close>

theorem openkeyboard_finds_first:
  assumes "0 \<le> init_result" and "num_devs = int (length devs)" and "\<forall>dev \<in> set devs. device_ok dev"
  shows "openkeyboard init_result num_devs devs = Some (first_keyboard 0 devs)"
  using assms scan_devices_finds [OF assms(3), of 0] by (simp add: openkeyboard_def)

definition plain_setting :: "u8 \<Rightarrow> u8 \<Rightarrow> usb_interface_descriptor" where
  "plain_setting cls proto =
     \<lparr>bInterfaceClass = cls, bInterfaceProtocol = proto, endpoint_addresses = [0x81]\<rparr>"

definition composite :: "usb_interface_descriptor list \<Rightarrow> usb_device" where
  "composite alts = \<lparr>bDeviceClass = 0, descriptor_result = 0,
     config_descriptor = Some \<lparr>bNumInterfaces = 1,
       interfaces = [\<lparr>altsetting = alts, num_altsetting = int (length alts)\<rparr>]\<rparr>,
     open_device_result = 0, claim_interface_result = 0\<rparr>"

theorem openkeyboard_finds_first_witness:
  "openkeyboard 0 2 [composite [plain_setting 8 80], composite [plain_setting 3 2, plain_setting 3 1]] =
    Some (Found 1 0 0x81)"
  using openkeyboard_finds_first
    [of 0 2 "[composite [plain_setting 8 80], composite [plain_setting 3 2, plain_setting 3 1]]"]
  by (simp add: device_ok_def config_ok_def interface_ok_def composite_def candidates_def
      settings_of_def is_keyboard_def plain_setting_def claim_def)

text \<open>
  The result of \<open>libusb_get_config_descriptor\<close> is not checked: if the first device is a
  composite one whose configuration cannot be read, the search goes through an unset pointer.
\<close>

theorem openkeyboard_unchecked_config:
  assumes "0 \<le> init_result" and "1 \<le> num_devs" and "0 \<le> descriptor_result dev"
    and "bDeviceClass dev = LIBUSB_CLASS_PER_INTERFACE" and "config_descriptor dev = None"
  shows "openkeyboard init_result num_devs (dev # devs) = Some Bad_access"
proof -
  obtain n where "nat num_devs = Suc n" using assms(2) by (cases "nat num_devs") auto
  then show ?thesis using assms by (simp add: openkeyboard_def)
qed

theorem openkeyboard_unchecked_config_witness:
  "openkeyboard 0 1 [(composite [])\<lparr>config_descriptor := None\<rparr>] = Some Bad_access"
  by (rule openkeyboard_unchecked_config) (simp_all add: composite_def)

text \<open>
  The byte counter of the settings limits the search: an interface with 256 settings of
  which none is a keyboard is scanned for ever.
\<close>

theorem scan_256_settings_diverges:
  assumes "256 \<le> num_altsetting ifc" and "256 \<le> length (altsetting ifc)"
    and "\<forall>alt \<in> set (altsetting ifc). \<not> is_keyboard alt"
  shows "scan_altsettings d dev i ifc 0 = None"
  using assms by (rule scan_altsettings_loops)

theorem scan_256_settings_diverges_witness:
  "scan_altsettings 0 (composite []) 0
     \<lparr>altsetting = replicate 256 (plain_setting 8 80), num_altsetting = 256\<rparr> 0 = None"
  by (rule scan_256_settings_diverges) (simp_all add: plain_setting_def is_keyboard_def)

end
