(* ===== verification/Vga_Hw.thy ===== *)
theory Vga_Hw
  imports Lab_Prelude
begin

text \<open>
  The hardware side of lab 3, \<open>lab3-hw/vga_ball.sv\<close>: the two registers of the Avalon peripheral,
  the VGA counters, the sync and blank signals and the pixel colour. One \<open>clock\<close> is one rising
  edge of \<open>clk\<close>; registers keep their width. The specification is the geometry of the picture:
  which pixel is scanned when, and which pixels are white.
\<close>

type_synonym u9 = "9 word"
type_synonym u10 = "10 word"
type_synonym u11 = "11 word"
type_synonym u22 = "22 word"

record vga_ball_hw =
  hcount :: u11
  vcount :: u10
  ball_x :: u10
  ball_y :: u9

text \<open>What the bus drives in one cycle.\<close>

record avalon =
  chipselect :: bool
  writing :: bool
  address :: nat
  writedata :: u16

text \<open>The bit field \<open>w[hi:lo]\<close>.\<close>

definition field :: "nat \<Rightarrow> nat \<Rightarrow> 'a::len word \<Rightarrow> nat" where
  "field hi lo w = unat w div 2 ^ lo mod 2 ^ (hi - lo + 1)"

subsection \<open>Registers and counters\<close>

abbreviation (input) HTOTAL :: nat where "HTOTAL \<equiv> 1280 + 32 + 192 + 96"
abbreviation (input) VTOTAL :: nat where "VTOTAL \<equiv> 480 + 10 + 2 + 33"

definition ball_registers_next :: "bool \<Rightarrow> avalon \<Rightarrow> vga_ball_hw \<Rightarrow> u10 \<times> u9" where
  "ball_registers_next reset bus h =
     (if reset then (320, 240)
      else if chipselect bus \<and> writing bus then
        (if address bus = 0 then (ucast (writedata bus), ball_y h)
         else if address bus = 1 then (ball_x h, ucast (writedata bus))
         else (ball_x h, ball_y h))
      else (ball_x h, ball_y h))"

definition endOfLine :: "vga_ball_hw \<Rightarrow> bool" where
  "endOfLine h \<longleftrightarrow> hcount h = of_nat (HTOTAL - 1)"

definition endOfField :: "vga_ball_hw \<Rightarrow> bool" where
  "endOfField h \<longleftrightarrow> vcount h = of_nat (VTOTAL - 1)"

definition counters_next :: "bool \<Rightarrow> vga_ball_hw \<Rightarrow> u11 \<times> u10" where
  "counters_next reset h =
     (if reset then (0, 0)
      else (if endOfLine h then 0 else hcount h + 1,
            if endOfLine h then (if endOfField h then 0 else vcount h + 1) else vcount h))"

definition clock :: "bool \<Rightarrow> avalon \<Rightarrow> vga_ball_hw \<Rightarrow> vga_ball_hw" where
  "clock reset bus h =
     (let (x, y) = ball_registers_next reset bus h; (hc, vc) = counters_next reset h in
      \<lparr>hcount = hc, vcount = vc, ball_x = x, ball_y = y\<rparr>)"

subsection \<open>Outputs\<close>

definition VGA_HS :: "vga_ball_hw \<Rightarrow> bool" where
  "VGA_HS h \<longleftrightarrow> \<not> (field 10 8 (hcount h) = 5 \<and> \<not> field 7 5 (hcount h) = 7)"

definition VGA_VS :: "vga_ball_hw \<Rightarrow> bool" where
  "VGA_VS h \<longleftrightarrow> \<not> field 9 1 (vcount h) = (480 + 10) div 2"

definition VGA_BLANK_n :: "vga_ball_hw \<Rightarrow> bool" where
  "VGA_BLANK_n h \<longleftrightarrow> \<not> (bit (hcount h) 10 \<and> (bit (hcount h) 9 \<or> bit (hcount h) 8)) \<and>
     \<not> (bit (vcount h) 9 \<or> field 8 5 (vcount h) = 15)"

text \<open>
  \<open>dx\<close> and \<open>dy\<close> are signed 11-bit differences of zero-extended values; the assignment to the
  22-bit \<open>dist2\<close> sign-extends them first.
\<close>

definition dx :: "vga_ball_hw \<Rightarrow> u11" where
  "dx h = of_nat (field 10 1 (hcount h)) - ucast (ball_x h)"

definition dy :: "vga_ball_hw \<Rightarrow> u11" where
  "dy h = of_nat (field 8 0 (vcount h)) - ucast (ball_y h)"

definition dist2 :: "vga_ball_hw \<Rightarrow> u22" where
  "dist2 h = scast (dx h) * scast (dx h) + scast (dy h) * scast (dy h)"

abbreviation (input) RADIUS :: int where "RADIUS \<equiv> 16"

type_synonym rgb = "u8 \<times> u8 \<times> u8"

abbreviation (input) white :: rgb where "white \<equiv> (0xff, 0xff, 0xff)"
abbreviation (input) pink :: rgb where "pink \<equiv> (0xff, 0x69, 0xb4)"

definition VGA_RGB :: "vga_ball_hw \<Rightarrow> rgb" where
  "VGA_RGB h =
     (if VGA_BLANK_n h then (if uint (dist2 h) \<le> RADIUS * RADIUS then white else pink) else pink)"

subsection \<open>Counters: what is scanned when\<close>

definition idle_bus :: avalon where
  "idle_bus = \<lparr>chipselect = False, writing = False, address = 0, writedata = 0\<rparr>"

definition scan_ok :: "vga_ball_hw \<Rightarrow> bool" where
  "scan_ok h \<longleftrightarrow> unat (hcount h) < 1600 \<and> unat (vcount h) < 525"

definition scan_position :: "vga_ball_hw \<Rightarrow> nat" where
  "scan_position h = unat (vcount h) * 1600 + unat (hcount h)"

lemma unat_hcount_Suc: "unat (hcount h) < 1599 \<Longrightarrow> unat (hcount h + 1) = Suc (unat (hcount h))"
  by (simp add: unat_word_ariths)

lemma unat_vcount_Suc: "unat (vcount h) < 524 \<Longrightarrow> unat (vcount h + 1) = Suc (unat (vcount h))"
  by (simp add: unat_word_ariths)

lemma endOfLine_unat: "endOfLine h \<longleftrightarrow> unat (hcount h) = 1599"
  by (simp add: endOfLine_def word_unat_eq_iff)

lemma endOfField_unat: "endOfField h \<longleftrightarrow> unat (vcount h) = 524"
  by (simp add: endOfField_def word_unat_eq_iff)

lemma clock_scan:
  assumes "scan_ok h"
  shows "scan_ok (clock False bus h) \<and>
    scan_position (clock False bus h) = (scan_position h + 1) mod (1600 * 525)"
proof -
  have b: "unat (hcount h) < 1600" "unat (vcount h) < 525" using assms by (simp_all add: scan_ok_def)
  consider "unat (hcount h) < 1599" | "unat (hcount h) = 1599" "unat (vcount h) < 524"
    | "unat (hcount h) = 1599" "unat (vcount h) = 524" using b by linarith
  then show ?thesis
  proof cases
    case 1
    then show ?thesis
      using b by (auto simp: clock_def counters_next_def endOfLine_unat scan_ok_def scan_position_def
          unat_hcount_Suc split: prod.split)
  next
    case 2
    then show ?thesis
      by (auto simp: clock_def counters_next_def endOfLine_unat endOfField_unat scan_ok_def
          scan_position_def unat_vcount_Suc split: prod.split)
  next
    case 3
    then show ?thesis
      by (auto simp: clock_def counters_next_def endOfLine_unat endOfField_unat scan_ok_def
          scan_position_def split: prod.split)
  qed
qed

fun run_clock :: "avalon list \<Rightarrow> vga_ball_hw \<Rightarrow> vga_ball_hw" where
  "run_clock [] h = h"
| "run_clock (bus # buses) h = run_clock buses (clock False bus h)"

lemma run_clock_scan:
  "scan_ok h \<Longrightarrow> scan_ok (run_clock buses h) \<and>
    scan_position (run_clock buses h) = (scan_position h + length buses) mod (1600 * 525)"
proof (induction buses arbitrary: h)
  case Nil
  then show ?case by (simp add: scan_ok_def scan_position_def)
next
  case (Cons bus buses)
  then show ?case using clock_scan [of h bus] by (simp add: mod_simps)
qed

lemma scan_position_inverse:
  assumes "scan_ok h"
  shows "unat (hcount h) = scan_position h mod 1600" and "unat (vcount h) = scan_position h div 1600"
  using assms by (simp_all add: scan_ok_def scan_position_def)

lemma clock_reset: "clock True bus h = \<lparr>hcount = 0, vcount = 0, ball_x = 320, ball_y = 240\<rparr>"
  by (simp add: clock_def ball_registers_next_def counters_next_def)

subsection \<open>Sync and blank\<close>

lemma bit_unat: "bit (w :: 'a::len word) i \<longleftrightarrow> odd (unat w div 2 ^ i)"
proof -
  have "bit w i \<longleftrightarrow> bit (unat w) i" by (auto simp: bit_simps dest: bit_imp_le_length)
  then show ?thesis by (simp add: bit_iff_odd)
qed

lemma less_7_cases: "(q :: nat) < 7 \<Longrightarrow> q = 0 \<or> q = 1 \<or> q = 2 \<or> q = 3 \<or> q = 4 \<or> q = 5 \<or> q = 6"
  by arith

lemma h_blank:
  assumes "n < (1600 :: nat)"
  shows "odd (n div 1024) \<and> (odd (n div 512) \<or> odd (n div 256)) \<longleftrightarrow> \<not> n < 1280"
proof -
  let ?q = "n div 256"
  have d: "n div 1024 = ?q div 4" "n div 512 = ?q div 2" by (simp_all flip: div_mult2_eq)
  have q: "?q < 7" "n < 1280 \<longleftrightarrow> ?q < 5" using assms by linarith+
  show ?thesis unfolding d using less_7_cases [OF q(1)] q(2) by (elim disjE) simp_all
qed

lemma v_blank:
  assumes "n < (525 :: nat)"
  shows "odd (n div 512) \<or> n div 32 mod 16 = 15 \<longleftrightarrow> \<not> n < 480"
proof -
  let ?q = "n div 32"
  have d: "n div 512 = ?q div 16" by (simp flip: div_mult2_eq)
  have q: "?q < 17" "n < 480 \<longleftrightarrow> ?q < 15" using assms by linarith+
  then consider "?q < 15" | "?q = 15" | "?q = 16" by linarith
  then show ?thesis unfolding d using q(2) by cases simp_all
qed

lemma VGA_BLANK_n_iff:
  "scan_ok h \<Longrightarrow> VGA_BLANK_n h \<longleftrightarrow> unat (hcount h) < 1280 \<and> unat (vcount h) < 480"
  using h_blank [of "unat (hcount h)"] v_blank [of "unat (vcount h)"]
  by (simp add: VGA_BLANK_n_def scan_ok_def bit_unat field_def)

lemma block_of_8: "s = q * 8 + r \<Longrightarrow> r < 8 \<Longrightarrow> q = 5 \<and> \<not> r = 7 \<longleftrightarrow> 40 \<le> s \<and> s < 47"
  for s q r :: nat
  by presburger

lemma VGA_HS_iff:
  assumes "scan_ok h"
  shows "VGA_HS h \<longleftrightarrow> \<not> (1280 \<le> unat (hcount h) \<and> unat (hcount h) < 1504)"
proof -
  let ?n = "unat (hcount h)"
  let ?s = "?n div 32"
  have d: "?n div 256 = ?s div 8" by (simp flip: div_mult2_eq)
  have s: "?s < 50" "1280 \<le> ?n \<and> ?n < 1504 \<longleftrightarrow> 40 \<le> ?s \<and> ?s < 47"
    using assms unfolding scan_ok_def by linarith+
  have "?s div 8 < 7" using s(1) by simp
  then have m: "?s div 8 mod 8 = ?s div 8" by simp
  have "?s div 8 = 5 \<and> \<not> ?s mod 8 = 7 \<longleftrightarrow> 40 \<le> ?s \<and> ?s < 47"
    by (rule block_of_8) simp_all
  then show ?thesis unfolding s(2) by (simp add: VGA_HS_def field_def d m)
qed

lemma VGA_VS_iff:
  "scan_ok h \<Longrightarrow> VGA_VS h \<longleftrightarrow> \<not> (490 \<le> unat (vcount h) \<and> unat (vcount h) < 492)"
  by (auto simp: VGA_VS_def field_def scan_ok_def)

subsection \<open>The distance\<close>

lemma sint_small: "- 1024 \<le> i \<Longrightarrow> i < 1024 \<Longrightarrow> sint (word_of_int i :: u11) = i"
  by (simp add: sint_sbintrunc' signed_take_bit_int_eq_self)

lemma sint_of_difference:
  "a < 1024 \<Longrightarrow> b < 1024 \<Longrightarrow> sint (word_of_int (int a - int b) :: u11) = int a - int b"
  by (rule sint_small) linarith+

lemma difference_word:
  fixes b :: "'b::len word"
  shows "(of_nat a :: u11) - ucast b = word_of_int (int a - int (unat b))"
proof -
  have "(of_nat a :: u11) = word_of_int (int a)" by simp
  moreover have "(ucast b :: u11) = word_of_int (int (unat b))" by simp
  ultimately show ?thesis by (simp only: wi_hom_syms)
qed

lemma scast_word_of_int:
  assumes "sint (word_of_int i :: u11) = i"
  shows "scast (word_of_int i :: u11) = (word_of_int i :: u22)"
  by (simp only: scast_eq assms)

lemma square_bound: "\<bar>i\<bar> < 1024 \<Longrightarrow> i * i \<le> 1046529" for i :: int
  using mult_mono [of "\<bar>i\<bar>" 1023 "\<bar>i\<bar>" 1023] by simp

lemma unat_ball: "unat (ball_x h) < 1024" "unat (ball_y h) < 512"
  using unsigned_less [of "ball_x h", where 'a = nat] unsigned_less [of "ball_y h", where 'a = nat]
  by simp_all

lemma dist2_exact:
  assumes "scan_ok h" and "unat (vcount h) < 512"
  shows "uint (dist2 h) = (int (unat (hcount h) div 2) - int (unat (ball_x h)))\<^sup>2 +
    (int (unat (vcount h)) - int (unat (ball_y h)))\<^sup>2"
proof -
  let ?px = "unat (hcount h) div 2" and ?py = "unat (vcount h)"
  let ?bx = "unat (ball_x h)" and ?by = "unat (ball_y h)"
  let ?i = "int ?px - int ?bx" and ?j = "int ?py - int ?by"
  have b: "?px < 1024" "?py < 1024" "?bx < 1024" "?by < 1024"
    using assms unat_ball [of h] unfolding scan_ok_def by linarith+
  have f: "field 10 1 (hcount h) = ?px" "field 8 0 (vcount h) = ?py"
    using b(1) assms(2) by (simp_all add: field_def)
  have x: "dx h = word_of_int ?i" unfolding dx_def f by (rule difference_word)
  have y: "dy h = word_of_int ?j" unfolding dy_def f by (rule difference_word)
  have sx: "scast (dx h) = (word_of_int ?i :: u22)"
    unfolding x by (rule scast_word_of_int [OF sint_of_difference [OF b(1,3)]])
  have sy: "scast (dy h) = (word_of_int ?j :: u22)"
    unfolding y by (rule scast_word_of_int [OF sint_of_difference [OF b(2,4)]])
  have "dist2 h = word_of_int (?i * ?i + ?j * ?j)"
    unfolding dist2_def sx sy by (simp only: wi_hom_syms)
  moreover have "\<bar>?i\<bar> < 1024" "\<bar>?j\<bar> < 1024" using b by linarith+
  then have "?i * ?i + ?j * ?j < 4194304" using square_bound [of ?i] square_bound [of ?j] by linarith
  moreover have "0 \<le> ?i * ?i + ?j * ?j" by (rule sum_squares_ge_zero)
  ultimately show ?thesis
    unfolding power2_eq_square by (simp only: uint_word_of_int) (rule mod_pos_pos_trivial, simp_all)
qed

subsection \<open>The interface the driver relies on\<close>

text \<open>
  Two 16-bit registers at byte offsets 0 and 2 set the centre of the ball, column modulo 1024
  and row modulo 512.
\<close>

locale ball_port =
  fixes ok :: "'h \<Rightarrow> bool" and store :: "'h \<Rightarrow> nat \<Rightarrow> u16 \<Rightarrow> 'h" and centre :: "'h \<Rightarrow> nat \<times> nat"
  assumes store_x: "ok h \<Longrightarrow> ok (store h 0 v) \<and> centre (store h 0 v) = (unat v mod 1024, snd (centre h))"
    and store_y: "ok h \<Longrightarrow> ok (store h 2 v) \<and> centre (store h 2 v) = (fst (centre h), unat v mod 512)"
begin

lemma store_xy:
  assumes "ok h"
  shows "ok (store (store h 0 vx) 2 vy) \<and>
    centre (store (store h 0 vx) 2 vy) = (unat vx mod 1024, unat vy mod 512)"
  using store_x [OF assms, of vx] store_y [of "store h 0 vx" vy] by simp

end

text \<open>
  A store of the processor reaches the peripheral as one write cycle; the Avalon bridge turns
  the byte offset into the address of a 16-bit word.
\<close>

definition hw_store :: "vga_ball_hw \<Rightarrow> nat \<Rightarrow> u16 \<Rightarrow> vga_ball_hw" where
  "hw_store h offset v =
     clock False \<lparr>chipselect = True, writing = True, address = offset div 2, writedata = v\<rparr> h"

definition hw_centre :: "vga_ball_hw \<Rightarrow> nat \<times> nat" where
  "hw_centre h = (unat (ball_x h), unat (ball_y h))"

lemma clock_ball:
  "ball_x (clock r bus h) = fst (ball_registers_next r bus h)"
  "ball_y (clock r bus h) = snd (ball_registers_next r bus h)"
  by (simp_all add: clock_def split: prod.split)

lemma hw_store_centre:
  "hw_centre (hw_store h 0 v) = (unat v mod 1024, snd (hw_centre h))"
  "hw_centre (hw_store h 2 v) = (fst (hw_centre h), unat v mod 512)"
  by (simp_all add: hw_centre_def hw_store_def clock_ball ball_registers_next_def unsigned_ucast_eq
      take_bit_eq_mod)

interpretation hw: ball_port scan_ok hw_store hw_centre
  by unfold_locales (simp_all add: hw_store_centre, simp_all add: hw_store_def clock_scan)

lemma VGA_RGB_disc:
  assumes "scan_ok h"
  shows "VGA_RGB h =
    (if unat (hcount h) < 1280 \<and> unat (vcount h) < 480 \<and>
        (int (unat (hcount h) div 2) - int (fst (hw_centre h)))\<^sup>2 +
        (int (unat (vcount h)) - int (snd (hw_centre h)))\<^sup>2 \<le> 256
     then white else pink)"
proof (cases "unat (hcount h) < 1280 \<and> unat (vcount h) < 480")
  case True
  then show ?thesis
    using dist2_exact [OF assms] VGA_BLANK_n_iff [OF assms] by (simp add: VGA_RGB_def hw_centre_def)
next
  case False
  then have "VGA_RGB h = pink" using VGA_BLANK_n_iff [OF assms] by (simp add: VGA_RGB_def)
  then show ?thesis using False by (simp only: if_False conj_assoc [symmetric] simp_thms)
qed

lemma abs_le_of_squares:
  fixes a b :: int
  assumes "a\<^sup>2 + b\<^sup>2 \<le> 256"
  shows "\<bar>a\<bar> \<le> 16"
proof -
  have "0 \<le> b\<^sup>2" by simp
  then have "a\<^sup>2 \<le> 256" using assms by linarith
  then have "a\<^sup>2 \<le> 16\<^sup>2" by simp
  then show ?thesis using abs_le_square_iff [of a 16] by simp
qed

text \<open>A white pixel is at most 16 columns and 16 rows from the centre.\<close>

lemma white_near_centre:
  assumes "scan_ok h" and "VGA_RGB h = white"
  shows "unat (hcount h) div 2 \<le> fst (hw_centre h) + 16 \<and> fst (hw_centre h) \<le> unat (hcount h) div 2 + 16 \<and>
    unat (vcount h) \<le> snd (hw_centre h) + 16 \<and> snd (hw_centre h) \<le> unat (vcount h) + 16"
proof -
  let ?i = "int (unat (hcount h) div 2) - int (fst (hw_centre h))"
  let ?j = "int (unat (vcount h)) - int (snd (hw_centre h))"
  have "?i\<^sup>2 + ?j\<^sup>2 \<le> 256"
    using VGA_RGB_disc [OF assms(1)] assms(2) by (simp split: if_splits)
  moreover then have "?j\<^sup>2 + ?i\<^sup>2 \<le> 256" by (simp add: add.commute)
  ultimately have "\<bar>?i\<bar> \<le> 16" "\<bar>?j\<bar> \<le> 16" using abs_le_of_squares by blast+
  then show ?thesis by linarith
qed

subsection \<open>Properties\<close>

text \<open>
  The counters scan the 525 lines of 1600 half-pixels in order and for ever: \<open>n\<close> cycles
  after a reset, whatever the bus did meanwhile, the scan is at half-pixel \<open>n mod 1600\<close> of line
  \<open>n div 1600 mod 525\<close>.
\<close>

theorem scan_timing:
  "unat (hcount (run_clock buses (clock True bus h))) = length buses mod 1600 \<and>
   unat (vcount (run_clock buses (clock True bus h))) = length buses div 1600 mod 525"
proof -
  let ?h = "run_clock buses (clock True bus h)"
  have r: "scan_ok (clock True bus h)" "scan_position (clock True bus h) = 0"
    by (simp_all add: clock_reset scan_ok_def scan_position_def)
  have ok: "scan_ok ?h" "scan_position ?h = length buses mod (1600 * 525)"
    using run_clock_scan [OF r(1), of buses] r(2) by simp_all
  then show ?thesis
    using scan_position_inverse [OF ok(1)] mod_mult2_eq [of "length buses" 1600 525] by simp
qed

text \<open>
  C27. The picture: at every point of the scan the colour is white exactly on the visible pixels
  within 16 of the centre in the registers, and pink elsewhere; the 11- and 22-bit arithmetic
  of the distance never wraps on a visible pixel.
\<close>

theorem picture_is_disc:
  assumes "scan_ok h"
  shows "VGA_RGB h =
    (if unat (hcount h) < 1280 \<and> unat (vcount h) < 480 \<and>
        (int (unat (hcount h) div 2) - int (fst (hw_centre h)))\<^sup>2 +
        (int (unat (vcount h)) - int (snd (hw_centre h)))\<^sup>2 \<le> 256
     then white else pink)"
  using assms by (rule VGA_RGB_disc)

definition mid_frame :: vga_ball_hw where
  "mid_frame = \<lparr>hcount = 641, vcount = 250, ball_x = 320, ball_y = 240\<rparr>"

lemma scan_ok_mid_frame: "scan_ok mid_frame"
  by (simp add: scan_ok_def mid_frame_def)

theorem picture_is_disc_witness: "VGA_RGB mid_frame = white"
  using picture_is_disc [OF scan_ok_mid_frame] by (simp add: mid_frame_def hw_centre_def)

text \<open>
  Blanking and vertical sync follow the timing parameters, but horizontal sync does not: it
  is low for the 224 cycles 1280 to 1503, which includes the 32 cycles of front porch that the
  parameters and the comment (from 0x520 to 0x5DF) put before it.
\<close>

theorem sync_signals:
  assumes "scan_ok h"
  shows "(VGA_BLANK_n h \<longleftrightarrow> unat (hcount h) < 1280 \<and> unat (vcount h) < 480) \<and>
    (VGA_VS h \<longleftrightarrow> \<not> (480 + 10 \<le> unat (vcount h) \<and> unat (vcount h) < 480 + 10 + 2)) \<and>
    (VGA_HS h \<longleftrightarrow> \<not> (1280 \<le> unat (hcount h) \<and> unat (hcount h) < 1280 + 32 + 192))"
  using VGA_BLANK_n_iff [OF assms] VGA_VS_iff [OF assms] VGA_HS_iff [OF assms] by simp

definition front_porch :: vga_ball_hw where
  "front_porch = \<lparr>hcount = 0x510, vcount = 100, ball_x = 320, ball_y = 240\<rparr>"

lemma scan_ok_front_porch: "scan_ok front_porch"
  by (simp add: scan_ok_def front_porch_def)

theorem sync_signals_witness: "\<not> VGA_HS front_porch \<and> \<not> VGA_BLANK_n front_porch"
  using sync_signals [OF scan_ok_front_porch] by (simp add: front_porch_def)

text \<open>
  Only a write cycle to address 0 or 1 changes the centre of the ball, and the registers
  truncate: 10 bits of column, 9 bits of row. A reset centres the ball.
\<close>

theorem register_writes:
  "hw_centre (clock reset bus h) =
    (if reset then (320, 240)
     else if chipselect bus \<and> writing bus \<and> address bus = 0 then (unat (writedata bus) mod 1024, snd (hw_centre h))
     else if chipselect bus \<and> writing bus \<and> address bus = 1 then (fst (hw_centre h), unat (writedata bus) mod 512)
     else hw_centre h)"
  by (simp add: hw_centre_def clock_ball ball_registers_next_def unsigned_ucast_eq take_bit_eq_mod)

end
