(* ===== verification/Ioctl.thy ===== *)
theory Ioctl
  imports Lab_Prelude
begin

text \<open>
  The encoding of ioctl command numbers of \<open>include/uapi/asm-generic/ioctl.h\<close>, in the kernel
  headers the driver of lab 3 is built with, and the two commands of \<open>lab3-sw/vga_ball.h\<close>.
\<close>

abbreviation (input) IOC_NRBITS :: nat where "IOC_NRBITS \<equiv> 8"
abbreviation (input) IOC_TYPEBITS :: nat where "IOC_TYPEBITS \<equiv> 8"
abbreviation (input) IOC_SIZEBITS :: nat where "IOC_SIZEBITS \<equiv> 14"
abbreviation (input) IOC_DIRBITS :: nat where "IOC_DIRBITS \<equiv> 2"

definition IOC_NRMASK :: u32 where "IOC_NRMASK = push_bit IOC_NRBITS 1 - 1"
definition IOC_TYPEMASK :: u32 where "IOC_TYPEMASK = push_bit IOC_TYPEBITS 1 - 1"
definition IOC_SIZEMASK :: u32 where "IOC_SIZEMASK = push_bit IOC_SIZEBITS 1 - 1"
definition IOC_DIRMASK :: u32 where "IOC_DIRMASK = push_bit IOC_DIRBITS 1 - 1"

definition IOC_NRSHIFT :: nat where "IOC_NRSHIFT = 0"
definition IOC_TYPESHIFT :: nat where "IOC_TYPESHIFT = IOC_NRSHIFT + IOC_NRBITS"
definition IOC_SIZESHIFT :: nat where "IOC_SIZESHIFT = IOC_TYPESHIFT + IOC_TYPEBITS"
definition IOC_DIRSHIFT :: nat where "IOC_DIRSHIFT = IOC_SIZESHIFT + IOC_SIZEBITS"

abbreviation (input) IOC_NONE :: u32 where "IOC_NONE \<equiv> 0"
abbreviation (input) IOC_WRITE :: u32 where "IOC_WRITE \<equiv> 1"
abbreviation (input) IOC_READ :: u32 where "IOC_READ \<equiv> 2"

definition IOC :: "u32 \<Rightarrow> u32 \<Rightarrow> u32 \<Rightarrow> u32 \<Rightarrow> u32" where
  "IOC dir type nr sz =
     push_bit IOC_DIRSHIFT dir OR push_bit IOC_TYPESHIFT type OR push_bit IOC_NRSHIFT nr OR
     push_bit IOC_SIZESHIFT sz"

definition IOR :: "u32 \<Rightarrow> u32 \<Rightarrow> u32 \<Rightarrow> u32" where "IOR type nr sz = IOC IOC_READ type nr sz"
definition IOW :: "u32 \<Rightarrow> u32 \<Rightarrow> u32 \<Rightarrow> u32" where "IOW type nr sz = IOC IOC_WRITE type nr sz"

definition IOC_DIR :: "u32 \<Rightarrow> u32" where "IOC_DIR nr = drop_bit IOC_DIRSHIFT nr AND IOC_DIRMASK"
definition IOC_TYPE :: "u32 \<Rightarrow> u32" where "IOC_TYPE nr = drop_bit IOC_TYPESHIFT nr AND IOC_TYPEMASK"
definition IOC_NR :: "u32 \<Rightarrow> u32" where "IOC_NR nr = drop_bit IOC_NRSHIFT nr AND IOC_NRMASK"
definition IOC_SIZE :: "u32 \<Rightarrow> u32" where "IOC_SIZE nr = drop_bit IOC_SIZESHIFT nr AND IOC_SIZEMASK"

text \<open>The commands of the driver; \<open>vga_ball_arg_t\<close> is two 16-bit fields.\<close>

definition VGA_BALL_MAGIC :: u32 where "VGA_BALL_MAGIC = of_char (CHR ''q'')"
definition sizeof_vga_ball_arg :: u32 where "sizeof_vga_ball_arg = 4"
definition VGA_BALL_WRITE_POSITION :: u32 where
  "VGA_BALL_WRITE_POSITION = IOW VGA_BALL_MAGIC 1 sizeof_vga_ball_arg"
definition VGA_BALL_READ_POSITION :: u32 where
  "VGA_BALL_READ_POSITION = IOR VGA_BALL_MAGIC 2 sizeof_vga_ball_arg"

lemmas IOC_shifts = IOC_NRSHIFT_def IOC_TYPESHIFT_def IOC_SIZESHIFT_def IOC_DIRSHIFT_def

lemma low_mask: "push_bit n 1 - 1 = (mask n :: u32)"
  by (simp add: mask_eq_exp_minus_1 push_bit_eq_mult)

lemma IOC_masks:
  "IOC_NRMASK = mask 8" "IOC_TYPEMASK = mask 8" "IOC_SIZEMASK = mask 14" "IOC_DIRMASK = mask 2"
  by (simp_all only: IOC_NRMASK_def IOC_TYPEMASK_def IOC_SIZEMASK_def IOC_DIRMASK_def low_mask)

lemma bit_below:
  assumes "unat (w :: u32) < 2 ^ n" and "bit w i"
  shows "i < n"
proof (rule ccontr)
  assume "\<not> i < n"
  then have "(2::nat) ^ n \<le> 2 ^ i" by simp
  then have "unat w < 2 ^ i" using assms(1) by linarith
  then have "unat w div 2 ^ i = 0" by (rule div_less)
  moreover have "bit (unat w) i" using assms(2) bit_imp_le_length [OF assms(2)] by (simp add: bit_simps)
  ultimately show False by (simp add: bit_iff_odd)
qed

text \<open>
  The four fields of a command number do not overlap: decoding an encoded number gives back
  each field that fits in its width.
\<close>

theorem ioctl_roundtrip:
  assumes "dir < 4" and "type < 256" and "nr < 256" and "sz < 16384"
  shows "IOC_DIR (IOC dir type nr sz) = dir \<and> IOC_TYPE (IOC dir type nr sz) = type \<and>
    IOC_NR (IOC dir type nr sz) = nr \<and> IOC_SIZE (IOC dir type nr sz) = sz"
proof -
  have b: "\<And>i. bit dir i \<Longrightarrow> i < 2" "\<And>i. bit type i \<Longrightarrow> i < 8" "\<And>i. bit nr i \<Longrightarrow> i < 8"
    "\<And>i. bit sz i \<Longrightarrow> i < 14"
    using assms bit_below [of dir 2] bit_below [of type 8] bit_below [of nr 8]
      bit_below [of sz 14] by (simp_all add: word_less_nat_alt)
  show ?thesis
    by (intro conjI; rule bit_word_eqI)
      (auto simp: IOC_DIR_def IOC_TYPE_def IOC_NR_def IOC_SIZE_def IOC_def IOC_shifts IOC_masks
        bit_simps dest: b)
qed

theorem ioctl_roundtrip_witness: "IOC_SIZE (IOC 1 113 1 4) = 4"
  using ioctl_roundtrip [of 1 113 1 4] by simp

text \<open>The numbers themselves.\<close>

lemma vga_ball_commands [simp]:
  "VGA_BALL_WRITE_POSITION = 0x40047101" "VGA_BALL_READ_POSITION = 0x80047102"
  by (simp_all add: VGA_BALL_WRITE_POSITION_def VGA_BALL_READ_POSITION_def IOW_def IOR_def IOC_def
      IOC_shifts VGA_BALL_MAGIC_def sizeof_vga_ball_arg_def)

end
