(* ===== verification/Vga_Driver.thy ===== *)
theory Vga_Driver
  imports Vga_Hw Ioctl
begin

text \<open>
  The platform driver of lab 3, \<open>lab3-sw/vga_ball.c\<close>: the ioctl handler, the probe with its
  \<open>goto\<close> clean-up, removal, and what they hold of the kernel's resources. The calls into the
  kernel that can fail are given by their results, and \<open>iowrite16\<close> is a parameter; the locale
  \<open>ball_port\<close> of \<open>Vga_Hw\<close> is what the driver needs of it.
\<close>

abbreviation (input) ENOENT :: int where "ENOENT \<equiv> 2"
abbreviation (input) ENOMEM :: int where "ENOMEM \<equiv> 12"
abbreviation (input) EACCES :: int where "EACCES \<equiv> 13"
abbreviation (input) EBUSY :: int where "EBUSY \<equiv> 16"
abbreviation (input) EINVAL :: int where "EINVAL \<equiv> 22"

subsection \<open>State\<close>

record vga_ball_position =
  pos_x :: u16
  pos_y :: u16

record resource =
  res_start :: u32
  res_end :: u32

text \<open>
  The global \<open>dev\<close>; \<open>virtbase\<close> is \<^term>\<open>None\<close> for the null pointer, otherwise the mapping it
  points to is represented by the state of the device behind it. The last three fields are what
  the kernel holds for the driver: the misc device, the claimed memory regions, and whether the
  mapping exists.
\<close>

record 'h vga_ball_dev =
  res :: resource
  virtbase :: "u32 option"
  position :: vga_ball_position
  misc_registered :: bool
  claimed :: "(u32 \<times> u32) list"
  mapped :: bool
  device :: 'h

definition resource_size :: "resource \<Rightarrow> u32" where
  "resource_size r = res_end r - res_start r + 1"

subsection \<open>Operations\<close>

text \<open>
  \<open>iowrite16(v, p)\<close> on the mapping of the device, \<open>p\<close> at a byte offset from \<open>virtbase\<close>. A store
  through the null pointer or through a mapping that is gone is a fault.
\<close>

definition io_store ::
  "('h \<Rightarrow> nat \<Rightarrow> u16 \<Rightarrow> 'h) \<Rightarrow> nat \<Rightarrow> u16 \<Rightarrow> 'h vga_ball_dev \<Rightarrow> 'h vga_ball_dev option" where
  "io_store iowrite16 offset v d =
     (if virtbase d \<noteq> None \<and> mapped d then Some (d\<lparr>device := iowrite16 (device d) offset v\<rparr>) else None)"

definition write_position ::
  "('h \<Rightarrow> nat \<Rightarrow> u16 \<Rightarrow> 'h) \<Rightarrow> vga_ball_position \<Rightarrow> 'h vga_ball_dev \<Rightarrow> 'h vga_ball_dev option" where
  "write_position iowrite16 pos d = do {
     d \<leftarrow> io_store iowrite16 0 (pos_x pos) d;
     d \<leftarrow> io_store iowrite16 2 (pos_y pos) d;
     Some (d\<lparr>position := pos\<rparr>) }"

text \<open>
  \<open>user\<close> is the argument structure in user memory, \<^term>\<open>None\<close> if the address is not accessible.
  The result is the return value and the user memory and device afterwards.
\<close>

definition vga_ball_ioctl ::
  "('h \<Rightarrow> nat \<Rightarrow> u16 \<Rightarrow> 'h) \<Rightarrow> u32 \<Rightarrow> vga_ball_position option \<Rightarrow> 'h vga_ball_dev \<Rightarrow>
   (int \<times> vga_ball_position option \<times> 'h vga_ball_dev) option" where
  "vga_ball_ioctl iowrite16 cmd user d =
     (if cmd = VGA_BALL_WRITE_POSITION then
        (case user of
           None \<Rightarrow> Some (- EACCES, user, d)
         | Some vla \<Rightarrow> do { d \<leftarrow> write_position iowrite16 vla d; Some (0, user, d) })
      else if cmd = VGA_BALL_READ_POSITION then
        (case user of
           None \<Rightarrow> Some (- EACCES, user, d)
         | Some _ \<Rightarrow> Some (0, Some (position d), d))
      else Some (- EINVAL, user, d))"

text \<open>What the calls of \<open>vga_ball_probe\<close> return.\<close>

record probe_env =
  misc_register_result :: int
  of_address_result :: int
  of_address :: resource
  region_granted :: bool
  of_iomap_result :: "u32 option"

definition misc_register :: "probe_env \<Rightarrow> 'h vga_ball_dev \<Rightarrow> 'h vga_ball_dev" where
  "misc_register env d = (if misc_register_result env = 0 then d\<lparr>misc_registered := True\<rparr> else d)"

definition misc_deregister :: "'h vga_ball_dev \<Rightarrow> 'h vga_ball_dev" where
  "misc_deregister d = d\<lparr>misc_registered := False\<rparr>"

definition release_mem_region :: "'h vga_ball_dev \<Rightarrow> 'h vga_ball_dev" where
  "release_mem_region d = d\<lparr>claimed := remove1 (res_start (res d), resource_size (res d)) (claimed d)\<rparr>"

definition iounmap :: "'h vga_ball_dev \<Rightarrow> 'h vga_ball_dev" where
  "iounmap d = d\<lparr>mapped := False\<rparr>"

definition init_pos :: vga_ball_position where
  "init_pos = \<lparr>pos_x = 320, pos_y = 240\<rparr>"

text \<open>The probe after \<open>misc_register\<close>; the labels of the source are its last two steps.\<close>

definition probe_resources ::
  "('h \<Rightarrow> nat \<Rightarrow> u16 \<Rightarrow> 'h) \<Rightarrow> probe_env \<Rightarrow> 'h vga_ball_dev \<Rightarrow> (int \<times> 'h vga_ball_dev) option" where
  "probe_resources iowrite16 env d =
     (if of_address_result env \<noteq> 0 then Some (- ENOENT, misc_deregister d)
      else let d = d\<lparr>res := of_address env\<rparr> in
        if \<not> region_granted env then Some (- EBUSY, misc_deregister d)
        else let d = d\<lparr>claimed := (res_start (res d), resource_size (res d)) # claimed d\<rparr> in
          (case of_iomap_result env of
             None \<Rightarrow> Some (- ENOMEM, misc_deregister (release_mem_region (d\<lparr>virtbase := None\<rparr>)))
           | Some p \<Rightarrow> do {
               d \<leftarrow> write_position iowrite16 init_pos (d\<lparr>virtbase := Some p, mapped := True\<rparr>);
               Some (0, d) }))"

definition vga_ball_probe ::
  "('h \<Rightarrow> nat \<Rightarrow> u16 \<Rightarrow> 'h) \<Rightarrow> probe_env \<Rightarrow> 'h vga_ball_dev \<Rightarrow> (int \<times> 'h vga_ball_dev) option" where
  "vga_ball_probe iowrite16 env d = probe_resources iowrite16 env (misc_register env d)"

definition vga_ball_remove :: "'h vga_ball_dev \<Rightarrow> int \<times> 'h vga_ball_dev" where
  "vga_ball_remove d = (0, misc_deregister (release_mem_region (iounmap d)))"

text \<open>The module: \<open>dev\<close> is zero when it is loaded.\<close>

definition dev_init :: "'h \<Rightarrow> 'h vga_ball_dev" where
  "dev_init h = \<lparr>res = \<lparr>res_start = 0, res_end = 0\<rparr>, virtbase = None, position = \<lparr>pos_x = 0, pos_y = 0\<rparr>,
     misc_registered = False, claimed = [], mapped = False, device = h\<rparr>"

text \<open>
  A sequence of ioctl calls by the programs that have the device open: the results and the
  device at the end.
\<close>

fun run_ioctls ::
  "('h \<Rightarrow> nat \<Rightarrow> u16 \<Rightarrow> 'h) \<Rightarrow> (u32 \<times> vga_ball_position option) list \<Rightarrow> 'h vga_ball_dev \<Rightarrow>
   (int list \<times> 'h vga_ball_dev) option" where
  "run_ioctls iow [] d = Some ([], d)"
| "run_ioctls iow ((cmd, user) # calls) d = do {
     (r, user', d) \<leftarrow> vga_ball_ioctl iow cmd user d;
     (rs, d) \<leftarrow> run_ioctls iow calls d;
     Some (r # rs, d) }"

subsection \<open>Any device with the two registers\<close>

definition driver_ok :: "('h \<Rightarrow> bool) \<Rightarrow> ('h \<Rightarrow> nat \<times> nat) \<Rightarrow> 'h vga_ball_dev \<Rightarrow> bool" where
  "driver_ok ok centre d \<longleftrightarrow> virtbase d \<noteq> None \<and> mapped d \<and> ok (device d) \<and>
     centre (device d) = (unat (pos_x (position d)) mod 1024, unat (pos_y (position d)) mod 512)"

fun last_written :: "(u32 \<times> vga_ball_position option) list \<Rightarrow> vga_ball_position \<Rightarrow> vga_ball_position" where
  "last_written [] p = p"
| "last_written ((cmd, user) # calls) p =
     last_written calls
       (case user of Some q \<Rightarrow> if cmd = VGA_BALL_WRITE_POSITION then q else p | None \<Rightarrow> p)"

context ball_port
begin

lemma write_position_ok:
  assumes "virtbase d \<noteq> None" and "mapped d" and "ok (device d)"
  shows "\<exists>d'. write_position store p d = Some d' \<and> driver_ok ok centre d' \<and> position d' = p \<and>
    misc_registered d' = misc_registered d \<and> claimed d' = claimed d \<and> res d' = res d"
  using assms store_xy [OF assms(3), of "pos_x p" "pos_y p"]
  by (simp add: write_position_def io_store_def driver_ok_def)

lemma ioctl_ok:
  assumes "driver_ok ok centre d"
  shows "\<exists>r user' d'. vga_ball_ioctl store cmd user d = Some (r, user', d') \<and> driver_ok ok centre d' \<and>
    position d' = last_written [(cmd, user)] (position d) \<and>
    (user' = (if cmd = VGA_BALL_READ_POSITION \<and> user \<noteq> None then Some (position d) else user)) \<and>
    r = (if cmd = VGA_BALL_WRITE_POSITION \<or> cmd = VGA_BALL_READ_POSITION
         then (if user = None then - EACCES else 0) else - EINVAL)"
proof (cases user)
  case None
  then show ?thesis using assms by (simp add: vga_ball_ioctl_def)
next
  case (Some p)
  have "\<exists>d'. write_position store p d = Some d' \<and> driver_ok ok centre d' \<and> position d' = p"
    using write_position_ok [of d p] assms by (auto simp: driver_ok_def)
  then show ?thesis using assms Some by (auto simp: vga_ball_ioctl_def)
qed

lemma run_ioctls_ok:
  "driver_ok ok centre d \<Longrightarrow> \<exists>rs d'. run_ioctls store calls d = Some (rs, d') \<and>
    driver_ok ok centre d' \<and> position d' = last_written calls (position d) \<and> length rs = length calls"
proof (induction calls arbitrary: d)
  case Nil
  then show ?case by simp
next
  case (Cons call calls)
  obtain cmd user where c: "call = (cmd, user)" by (cases call)
  obtain r user' d1 where 1: "vga_ball_ioctl store cmd user d = Some (r, user', d1)"
    "driver_ok ok centre d1" "position d1 = last_written [(cmd, user)] (position d)"
    using ioctl_ok [OF Cons.prems] by blast
  obtain rs d2 where "run_ioctls store calls d1 = Some (rs, d2)" "driver_ok ok centre d2"
    "position d2 = last_written calls (position d1)" "length rs = length calls"
    using Cons.IH [OF 1(2)] by blast
  with 1 show ?case by (simp add: c)
qed

lemma probe_ok:
  assumes "ok (device d)"
  shows "\<exists>ret d'. vga_ball_probe store env d = Some (ret, d') \<and>
    (ret = 0 \<longleftrightarrow> of_address_result env = 0 \<and> region_granted env \<and> of_iomap_result env \<noteq> None) \<and>
    (ret = 0 \<longrightarrow> driver_ok ok centre d' \<and> position d' = init_pos \<and> res d' = of_address env \<and>
       claimed d' = (res_start (of_address env), resource_size (of_address env)) # claimed d \<and>
       misc_registered d' = (misc_registered d \<or> misc_register_result env = 0)) \<and>
    (ret \<noteq> 0 \<longrightarrow> ret \<in> {- ENOENT, - EBUSY, - ENOMEM} \<and> claimed d' = claimed d \<and> mapped d' = mapped d \<and>
       \<not> misc_registered d' \<and> device d' = device d)"
proof (cases "of_address_result env = 0 \<and> region_granted env \<and> of_iomap_result env \<noteq> None")
  case False
  then show ?thesis
    by (auto simp: vga_ball_probe_def probe_resources_def misc_register_def misc_deregister_def
        release_mem_region_def Let_def split: option.split)
next
  case True
  then obtain p where p: "of_iomap_result env = Some p" by blast
  let ?d = "(misc_register env d)\<lparr>res := of_address env,
     claimed := (res_start (of_address env), resource_size (of_address env)) # claimed (misc_register env d),
     virtbase := Some p, mapped := True\<rparr>"
  have "ok (device ?d)" using assms by (simp add: misc_register_def)
  then obtain d' where "write_position store init_pos ?d = Some d'" "driver_ok ok centre d'"
    "position d' = init_pos" "misc_registered d' = misc_registered ?d" "claimed d' = claimed ?d" "res d' = res ?d"
    using write_position_ok [of ?d init_pos] by auto
  then show ?thesis
    using True p by (auto simp: vga_ball_probe_def probe_resources_def Let_def misc_register_def)
qed

end

subsection \<open>Properties on the hardware of the repository\<close>


definition hw_reset :: vga_ball_hw where
  "hw_reset = clock True idle_bus \<lparr>hcount = 0, vcount = 0, ball_x = 0, ball_y = 0\<rparr>"

lemma scan_ok_hw_reset: "scan_ok (device (dev_init hw_reset))"
  by (simp add: dev_init_def hw_reset_def clock_reset scan_ok_def)

definition board_env :: probe_env where
  "board_env = \<lparr>misc_register_result = 0, of_address_result = 0,
     of_address = \<lparr>res_start = 0xff200000, res_end = 0xff200007\<rparr>, region_granted = True,
     of_iomap_result = Some 0xd0880000\<rparr>"


text \<open>
  The result of \<open>misc_register\<close> is overwritten: when it fails and the rest succeeds, the
  probe reports success although no device node exists.
\<close>

theorem probe_ignores_misc_register:
  assumes "scan_ok (device d)" and "misc_register_result env \<noteq> 0" and "\<not> misc_registered d"
    and "of_address_result env = 0" and "region_granted env" and "of_iomap_result env \<noteq> None"
  shows "\<exists>d'. vga_ball_probe hw_store env d = Some (0, d') \<and> \<not> misc_registered d'"
  using hw.probe_ok [OF assms(1), of env] assms(2-) by auto

theorem probe_ignores_misc_register_witness:
  "\<exists>d'. vga_ball_probe hw_store (board_env\<lparr>misc_register_result := -16\<rparr>) (dev_init hw_reset) = Some (0, d') \<and>
    \<not> misc_registered d'"
  by (rule probe_ignores_misc_register [OF scan_ok_hw_reset])
    (simp_all add: board_env_def dev_init_def)

text \<open>
  The device is registered before it is mapped: between the first call of the probe and
  \<open>of_iomap\<close>, a program that opens it and writes a position makes the driver store through the
  null pointer.
\<close>

theorem ioctl_before_mapping_faults:
  assumes "misc_register_result env = 0"
  shows "misc_registered (misc_register env (dev_init h)) \<and>
    vga_ball_ioctl hw_store VGA_BALL_WRITE_POSITION (Some p) (misc_register env (dev_init h)) = None"
  using assms
  by (simp add: misc_register_def dev_init_def vga_ball_ioctl_def write_position_def io_store_def)

theorem ioctl_before_mapping_faults_witness:
  "vga_ball_ioctl hw_store VGA_BALL_WRITE_POSITION (Some init_pos) (misc_register board_env (dev_init hw_reset)) = None"
  using ioctl_before_mapping_faults [of board_env hw_reset init_pos] by (simp add: board_env_def)

text \<open>
  C11. Once probed, the driver survives every sequence of ioctl calls, with any command number
  and any user pointer: no store faults, the position it remembers is the last one written, and
  the hardware shows that position, truncated to its registers.
\<close>

theorem ioctl_sequence_safe:
  assumes "driver_ok scan_ok hw_centre d"
  shows "\<exists>rs d'. run_ioctls hw_store calls d = Some (rs, d') \<and> driver_ok scan_ok hw_centre d' \<and>
    position d' = last_written calls (position d) \<and> length rs = length calls"
  using assms by (rule hw.run_ioctls_ok)

lemma board_driver: "\<exists>d. vga_ball_probe hw_store board_env (dev_init hw_reset) = Some (0, d) \<and>
  driver_ok scan_ok hw_centre d \<and> position d = init_pos \<and> misc_registered d \<and>
  res d = of_address board_env \<and> claimed d = [(0xff200000, 8)]"
  using hw.probe_ok [OF scan_ok_hw_reset, of board_env]
  by (auto simp: board_env_def dev_init_def resource_size_def)

theorem ioctl_sequence_safe_witness:
  "\<exists>d rs d'. vga_ball_probe hw_store board_env (dev_init hw_reset) = Some (0, d) \<and>
    run_ioctls hw_store [(VGA_BALL_WRITE_POSITION, Some \<lparr>pos_x = 7, pos_y = 9\<rparr>), (0, None)] d = Some (rs, d') \<and>
    hw_centre (device d') = (7, 9)"
proof -
  obtain d where d: "vga_ball_probe hw_store board_env (dev_init hw_reset) = Some (0, d)"
    "driver_ok scan_ok hw_centre d" using board_driver by blast
  show ?thesis
    using ioctl_sequence_safe [OF d(2),
        of "[(VGA_BALL_WRITE_POSITION, Some \<lparr>pos_x = 7, pos_y = 9\<rparr>), (0, None)]"] d(1)
    by (auto simp: driver_ok_def)
qed

text \<open>
  The driver checks no bounds: reading a position back gives what was written, and that is
  what the hardware shows exactly when the column fits in 10 bits and the row in 9.
\<close>

theorem read_back_matches_hardware:
  assumes "driver_ok scan_ok hw_centre d"
  shows "\<exists>d'. vga_ball_ioctl hw_store VGA_BALL_WRITE_POSITION (Some p) d = Some (0, Some p, d') \<and>
    vga_ball_ioctl hw_store VGA_BALL_READ_POSITION (Some q) d' = Some (0, Some p, d') \<and>
    (hw_centre (device d') = (unat (pos_x p), unat (pos_y p)) \<longleftrightarrow> unat (pos_x p) < 1024 \<and> unat (pos_y p) < 512)"
proof -
  obtain d' where d': "vga_ball_ioctl hw_store VGA_BALL_WRITE_POSITION (Some p) d = Some (0, Some p, d')"
    "driver_ok scan_ok hw_centre d'" "position d' = p"
    using hw.ioctl_ok [OF assms, of VGA_BALL_WRITE_POSITION "Some p"] by auto
  moreover have "n mod m = n \<longleftrightarrow> n < m" if "0 < m" for n m :: nat
    using that mod_less_divisor [of m n] by (metis mod_less)
  ultimately show ?thesis by (auto simp: driver_ok_def vga_ball_ioctl_def)
qed

theorem read_back_matches_hardware_witness:
  "\<exists>d d'. vga_ball_ioctl hw_store VGA_BALL_WRITE_POSITION (Some \<lparr>pos_x = 1024, pos_y = 0\<rparr>) d =
      Some (0, Some \<lparr>pos_x = 1024, pos_y = 0\<rparr>, d') \<and> hw_centre (device d') \<noteq> (1024, 0)"
proof -
  obtain d where d: "driver_ok scan_ok hw_centre d" using board_driver by blast
  show ?thesis
    using read_back_matches_hardware [OF d, of "\<lparr>pos_x = 1024, pos_y = 0\<rparr>" init_pos] by auto
qed

text \<open>
  Removal gives back what a successful probe took: after it the driver holds no region, no
  mapping and no misc device.
\<close>

theorem remove_releases_all:
  assumes "vga_ball_probe hw_store env (dev_init h) = Some (0, d)" and "scan_ok h"
  shows "fst (vga_ball_remove d) = 0 \<and> claimed (snd (vga_ball_remove d)) = [] \<and>
    \<not> mapped (snd (vga_ball_remove d)) \<and> \<not> misc_registered (snd (vga_ball_remove d))"
proof -
  have "scan_ok (device (dev_init h))" using assms(2) by (simp add: dev_init_def)
  then have "claimed d = [(res_start (res d), resource_size (res d))]"
    using hw.probe_ok [of "dev_init h" env] assms(1) by (auto simp: dev_init_def)
  then show ?thesis
    by (simp add: vga_ball_remove_def misc_deregister_def release_mem_region_def iounmap_def)
qed

theorem remove_releases_all_witness:
  "\<exists>d. vga_ball_probe hw_store board_env (dev_init hw_reset) = Some (0, d) \<and>
    claimed (snd (vga_ball_remove d)) = []"
proof -
  obtain d where d: "vga_ball_probe hw_store board_env (dev_init hw_reset) = Some (0, d)"
    using board_driver by blast
  have "scan_ok hw_reset" using scan_ok_hw_reset by (simp add: dev_init_def)
  from remove_releases_all [OF d this] d show ?thesis by blast
qed

end
