(* ===== verification/Ball.thy ===== *)
theory Ball
  imports Vga_Driver
begin

text \<open>
  The user program of lab 3, \<open>lab3-sw/hello.c\<close>: the bouncing ball and its endless loop of ioctl
  calls. The ioctl is a parameter of the loop, instantiated with the driver of \<open>Vga_Driver\<close> on
  the hardware of \<open>Vga_Hw\<close>. The specification is a closed form of the movement.
\<close>

abbreviation (input) SCREEN_WIDTH :: int where "SCREEN_WIDTH \<equiv> 640"
abbreviation (input) SCREEN_HEIGHT :: int where "SCREEN_HEIGHT \<equiv> 480"
abbreviation (input) BALL_RADIUS :: int where "BALL_RADIUS \<equiv> 20"

subsection \<open>The movement\<close>

record ball =
  ball_px :: int
  ball_py :: int
  ball_vx :: int
  ball_vy :: int

definition ball_start :: ball where
  "ball_start = \<lparr>ball_px = 320, ball_py = 240, ball_vx = 3, ball_vy = 2\<rparr>"

text \<open>The two tests of one axis, in the order of the source: the low wall, then the high wall.\<close>

definition bounce :: "int \<Rightarrow> int \<Rightarrow> int \<Rightarrow> int \<times> int" where
  "bounce limit p v =
     (let (p, v) = (if p - BALL_RADIUS \<le> 0 then (BALL_RADIUS, \<bar>v\<bar>) else (p, v)) in
      if p + BALL_RADIUS \<ge> limit then (limit - BALL_RADIUS, - \<bar>v\<bar>) else (p, v))"

definition ball_step :: "ball \<Rightarrow> ball" where
  "ball_step b =
     (let x = ball_px b + ball_vx b; y = ball_py b + ball_vy b;
          (x, vx) = bounce SCREEN_WIDTH x (ball_vx b);
          (y, vy) = bounce SCREEN_HEIGHT y (ball_vy b) in
      \<lparr>ball_px = x, ball_py = y, ball_vx = vx, ball_vy = vy\<rparr>)"

text \<open>\<open>(unsigned short) x\<close> and \<open>(unsigned short) y\<close> into the argument.\<close>

definition ball_arg :: "ball \<Rightarrow> vga_ball_position" where
  "ball_arg b = \<lparr>pos_x = word_of_int (ball_px b), pos_y = word_of_int (ball_py b)\<rparr>"

subsection \<open>The program\<close>

text \<open>After \<open>n\<close> rounds of the loop the program still runs, or it has returned.\<close>

datatype 's program =
    Running ball 's
  | Returned int 's

fun hello_loop ::
  "(vga_ball_position \<Rightarrow> 's \<Rightarrow> (int \<times> 's) option) \<Rightarrow> nat \<Rightarrow> ball \<Rightarrow> 's \<Rightarrow> 's program option" where
  "hello_loop ioctl 0 b s = Some (Running b s)"
| "hello_loop ioctl (Suc n) b s = do {
     (r, s) \<leftarrow> ioctl (ball_arg b) s;
     if r < 0 then Some (Returned (-1) s) else hello_loop ioctl n (ball_step b) s }"

definition hello_main ::
  "int \<Rightarrow> (vga_ball_position \<Rightarrow> 's \<Rightarrow> (int \<times> 's) option) \<Rightarrow> nat \<Rightarrow> 's \<Rightarrow> 's program option" where
  "hello_main fd ioctl n s =
     (if fd = -1 then Some (Returned (-1) s) else hello_loop ioctl n ball_start s)"

text \<open>The ioctl of the program as the driver executes it.\<close>

definition driver_ioctl ::
  "vga_ball_position \<Rightarrow> vga_ball_hw vga_ball_dev \<Rightarrow> (int \<times> vga_ball_hw vga_ball_dev) option" where
  "driver_ioctl p d =
     map_option (\<lambda>(r, _, d'). (r, d')) (vga_ball_ioctl hw_store VGA_BALL_WRITE_POSITION (Some p) d)"

subsection \<open>Closed form\<close>

text \<open>A triangle wave between 0 and \<open>p\<close>, and its direction.\<close>

definition wave :: "nat \<Rightarrow> nat \<Rightarrow> int" where
  "wave p n = (let k = int (n mod (2 * p)) in if k \<le> int p then k else 2 * int p - k)"

definition rising :: "nat \<Rightarrow> nat \<Rightarrow> bool" where
  "rising p n \<longleftrightarrow> n mod (2 * p) < p"

definition ball_at :: "nat \<Rightarrow> ball" where
  "ball_at n = \<lparr>ball_px = 20 + 3 * wave 200 (n + 100), ball_py = 20 + 2 * wave 220 (n + 110),
     ball_vx = (if rising 200 (n + 100) then 3 else -3),
     ball_vy = (if rising 220 (n + 110) then 2 else -2)\<rparr>"

lemma wave_range: "0 < p \<Longrightarrow> 0 \<le> wave p n \<and> wave p n \<le> int p"
proof -
  assume "0 < p"
  then have "n mod (2 * p) < 2 * p" by simp
  then show ?thesis unfolding wave_def Let_def by (simp split: if_splits)
qed

text \<open>One step along each axis; the walls are hit exactly, so no step is cut short.\<close>

lemma bounce_wave_x:
  "bounce 640 (20 + 3 * wave 200 n + (if rising 200 n then 3 else -3)) (if rising 200 n then 3 else -3) =
    (20 + 3 * wave 200 (Suc n), if rising 200 (Suc n) then 3 else -3)"
proof -
  obtain k where k: "n mod 400 = k" "k < 400" by simp
  then have "Suc n mod 400 = (if k = 399 then 0 else Suc k)" by (simp add: mod_Suc)
  then show ?thesis using k by (auto simp: wave_def rising_def bounce_def Let_def)
qed

lemma bounce_wave_y:
  "bounce 480 (20 + 2 * wave 220 n + (if rising 220 n then 2 else -2)) (if rising 220 n then 2 else -2) =
    (20 + 2 * wave 220 (Suc n), if rising 220 (Suc n) then 2 else -2)"
proof -
  obtain k where k: "n mod 440 = k" "k < 440" by simp
  then have "Suc n mod 440 = (if k = 439 then 0 else Suc k)" by (simp add: mod_Suc)
  then show ?thesis using k by (auto simp: wave_def rising_def bounce_def Let_def)
qed

lemma ball_at_0: "ball_at 0 = ball_start"
  by (simp add: ball_at_def ball_start_def wave_def rising_def)

lemma ball_step_at: "ball_step (ball_at n) = ball_at (Suc n)"
  using bounce_wave_x [of "n + 100"] bounce_wave_y [of "n + 110"]
  by (simp add: ball_step_def ball_at_def Let_def)

lemma ball_at_range:
  "20 \<le> ball_px (ball_at n) \<and> ball_px (ball_at n) \<le> 620 \<and> 20 \<le> ball_py (ball_at n) \<and> ball_py (ball_at n) \<le> 460"
  using wave_range [of 200 "n + 100"] wave_range [of 220 "n + 110"] by (simp add: ball_at_def)

lemma unat_word_of_int_u16: "0 \<le> i \<Longrightarrow> i < 65536 \<Longrightarrow> unat (word_of_int i :: u16) = nat i"
  using unat_of_nat [of "nat i", where 'a = 16] by simp

lemma ball_arg_at:
  "unat (pos_x (ball_arg (ball_at n))) = nat (ball_px (ball_at n))"
  "unat (pos_y (ball_arg (ball_at n))) = nat (ball_py (ball_at n))"
  using ball_at_range [of n] by (simp_all add: ball_arg_def unat_word_of_int_u16)

subsection \<open>The program on the driver\<close>

lemma driver_ioctl_ok:
  assumes "driver_ok scan_ok hw_centre d"
  shows "\<exists>d'. driver_ioctl p d = Some (0, d') \<and> driver_ok scan_ok hw_centre d' \<and> position d' = p"
  using hw.ioctl_ok [OF assms, of VGA_BALL_WRITE_POSITION "Some p"] by (auto simp: driver_ioctl_def)

lemma hello_loop_ok:
  "driver_ok scan_ok hw_centre d \<Longrightarrow> \<exists>d'. hello_loop driver_ioctl n (ball_at k) d = Some (Running (ball_at (k + n)) d') \<and>
    driver_ok scan_ok hw_centre d' \<and> (0 < n \<longrightarrow> position d' = ball_arg (ball_at (k + n - 1)))"
proof (induction n arbitrary: k d)
  case 0
  then show ?case by simp
next
  case (Suc n)
  obtain d1 where d1: "driver_ioctl (ball_arg (ball_at k)) d = Some (0, d1)"
    "driver_ok scan_ok hw_centre d1" "position d1 = ball_arg (ball_at k)"
    using driver_ioctl_ok [OF Suc.prems] by blast
  obtain d2 where "hello_loop driver_ioctl n (ball_at (Suc k)) d1 = Some (Running (ball_at (Suc k + n)) d2)"
    "driver_ok scan_ok hw_centre d2" "0 < n \<longrightarrow> position d2 = ball_arg (ball_at (Suc k + n - 1))"
    using Suc.IH [OF d1(2), of "Suc k"] by blast
  with d1 show ?case by (cases n) (auto simp: ball_step_at)
qed

lemma hello_loop_stops:
  assumes "ioctl (ball_arg b1) s1 = Some (r, s2)" and "r < 0"
  shows "hello_loop ioctl k b s = Some (Running b1 s1) \<Longrightarrow>
    hello_loop ioctl (k + Suc n) b s = Some (Returned (-1) s2)"
proof (induction k arbitrary: b s)
  case 0
  then show ?case using assms by simp
next
  case (Suc k)
  then obtain r' s' where c: "ioctl (ball_arg b) s = Some (r', s')" "\<not> r' < 0"
    "hello_loop ioctl k (ball_step b) s' = Some (Running b1 s1)"
    by (auto simp: bind_eq_Some_conv split: if_splits)
  from c(1,2) Suc.IH [OF c(3)] show ?case by simp
qed

subsection \<open>Properties\<close>

text \<open>
  The movement in closed form: after \<open>n\<close> steps the ball is where two triangle waves of
  periods 400 and 440 put it, so the bounces are exact, the speeds never change in magnitude,
  and the ball stays within the walls for ever.
\<close>

theorem ball_closed_form:
  "(ball_step ^^ n) ball_start = ball_at n \<and>
   20 \<le> ball_px (ball_at n) \<and> ball_px (ball_at n) \<le> 620 \<and> 20 \<le> ball_py (ball_at n) \<and> ball_py (ball_at n) \<le> 460"
proof -
  have "(ball_step ^^ n) ball_start = ball_at n"
    by (induction n) (simp_all add: ball_at_0 ball_step_at)
  then show ?thesis using ball_at_range by blast
qed

text \<open>
  C2. The whole of lab 3: on a probed driver the program never ends, no ioctl fails and no store
  faults; after each round the hardware draws the ball exactly where the program computed it,
  and the disc of radius 16 that is drawn stays 4 pixels clear of every border of the screen.
\<close>

theorem bouncing_ball_on_screen:
  assumes "driver_ok scan_ok hw_centre d" and "fd \<noteq> -1"
  shows "\<exists>d'. hello_main fd driver_ioctl (Suc n) d = Some (Running (ball_at (Suc n)) d') \<and>
    hw_centre (device d') = (nat (ball_px (ball_at n)), nat (ball_py (ball_at n))) \<and>
    (VGA_RGB (device d') = white \<longrightarrow>
      4 \<le> unat (hcount (device d')) div 2 \<and> unat (hcount (device d')) div 2 \<le> 636 \<and>
      4 \<le> unat (vcount (device d')) \<and> unat (vcount (device d')) \<le> 476)"
proof -
  obtain d' where d': "hello_loop driver_ioctl (Suc n) (ball_at 0) d = Some (Running (ball_at (Suc n)) d')"
    "driver_ok scan_ok hw_centre d'" "position d' = ball_arg (ball_at n)"
    using hello_loop_ok [OF assms(1), of "Suc n" 0] by auto
  have r: "nat (ball_px (ball_at n)) < 1024" "nat (ball_py (ball_at n)) < 512"
    using ball_at_range [of n] by linarith+
  have c: "hw_centre (device d') = (nat (ball_px (ball_at n)), nat (ball_py (ball_at n)))"
    using d'(2) r unfolding driver_ok_def d'(3) ball_arg_at by simp
  have ok: "scan_ok (device d')" using d'(2) by (simp add: driver_ok_def)
  have "hello_main fd driver_ioctl (Suc n) d = Some (Running (ball_at (Suc n)) d')"
    using d'(1) assms(2) by (simp only: hello_main_def ball_at_0 if_False)
  moreover have "4 \<le> unat (hcount (device d')) div 2 \<and> unat (hcount (device d')) div 2 \<le> 636 \<and>
      4 \<le> unat (vcount (device d')) \<and> unat (vcount (device d')) \<le> 476" if "VGA_RGB (device d') = white"
    using white_near_centre [OF ok that] ball_at_range [of n] unfolding c fst_conv snd_conv by linarith
  ultimately show ?thesis using c by blast
qed

theorem bouncing_ball_on_screen_witness:
  "\<exists>d d'. vga_ball_probe hw_store board_env (dev_init hw_reset) = Some (0, d) \<and>
    hello_main 3 driver_ioctl 101 d = Some (Running (ball_at 101) d') \<and> hw_centre (device d') = (620, 440)"
proof -
  obtain d where d: "vga_ball_probe hw_store board_env (dev_init hw_reset) = Some (0, d)"
    "driver_ok scan_ok hw_centre d" using board_driver by blast
  have b: "ball_px (ball_at 100) = 620" "ball_py (ball_at 100) = 440"
    by (simp_all add: ball_at_def wave_def)
  show ?thesis
    using bouncing_ball_on_screen [OF d(2), of 3 100] d(1) unfolding b by auto
qed

text \<open>
  An error ends the program: after any number of rounds, if the next ioctl reports an error
  the program returns -1 in that round and makes no further call.
\<close>

theorem hello_main_stops_on_error:
  assumes "hello_main fd ioctl k s = Some (Running b s1)"
    and "ioctl (ball_arg b) s1 = Some (r, s2)" and "r < 0"
  shows "hello_main fd ioctl (k + Suc n) s = Some (Returned (-1) s2)"
proof -
  have "fd \<noteq> -1" "hello_loop ioctl k ball_start s = Some (Running b s1)"
    using assms(1) by (auto simp: hello_main_def split: if_splits)
  then show ?thesis
    using hello_loop_stops [of ioctl b s1 r s2 k ball_start s n] assms(2,3)
    by (simp only: hello_main_def if_False)
qed

theorem hello_main_stops_on_error_witness:
  "hello_main 3 (\<lambda>_ s. Some (if s = (0 :: nat) then 0 else -22, s + 1)) (1 + Suc 7) 0 =
    Some (Returned (-1) 2)"
  by (rule hello_main_stops_on_error [where b = "ball_step ball_start" and ?s1.0 = 1 and r = "-22"])
    (simp_all add: hello_main_def)

end
