(* ===== verification/Mod_Devicetable.thy ===== *)
theory Mod_Devicetable
  imports Lab_Prelude
begin

text \<open>
  The device tables of kernel modules: the structures of \<open>include/linux/mod_devicetable.h\<close> with
  their match flags and wildcards, and the position of their fields in the object file
  (\<open>scripts/mod/devicetable-offsets.c\<close>), as laid out for the 32-bit little-endian ARM kernel of
  the package. \<open>x_at m\<close> is the structure at the start of the bytes \<open>m\<close>; these run to the end of
  the table, because a string that is not terminated in its array goes on in what follows it.
\<close>

named_theorems devid

type_synonym kernel_ulong_t = u32
type_synonym pointer = u32

subsection \<open>Wildcards, flags and limits\<close>

definition PCI_ANY_ID :: u32 where [devid]: "PCI_ANY_ID = 0xFFFFFFFF"

definition IEEE1394_MATCH_VENDOR_ID :: u32 where [devid]: "IEEE1394_MATCH_VENDOR_ID = 1"

definition IEEE1394_MATCH_MODEL_ID :: u32 where [devid]: "IEEE1394_MATCH_MODEL_ID = 2"

definition IEEE1394_MATCH_SPECIFIER_ID :: u32 where [devid]: "IEEE1394_MATCH_SPECIFIER_ID = 4"

definition IEEE1394_MATCH_VERSION :: u32 where [devid]: "IEEE1394_MATCH_VERSION = 8"

definition USB_DEVICE_ID_MATCH_VENDOR :: u16 where [devid]: "USB_DEVICE_ID_MATCH_VENDOR = 1"

definition USB_DEVICE_ID_MATCH_PRODUCT :: u16 where [devid]: "USB_DEVICE_ID_MATCH_PRODUCT = 2"

definition USB_DEVICE_ID_MATCH_DEV_LO :: u16 where [devid]: "USB_DEVICE_ID_MATCH_DEV_LO = 4"

definition USB_DEVICE_ID_MATCH_DEV_HI :: u16 where [devid]: "USB_DEVICE_ID_MATCH_DEV_HI = 8"

definition USB_DEVICE_ID_MATCH_DEV_CLASS :: u16 where [devid]: "USB_DEVICE_ID_MATCH_DEV_CLASS = 0x0010"

definition USB_DEVICE_ID_MATCH_DEV_SUBCLASS :: u16 where [devid]: "USB_DEVICE_ID_MATCH_DEV_SUBCLASS = 0x0020"

definition USB_DEVICE_ID_MATCH_DEV_PROTOCOL :: u16 where [devid]: "USB_DEVICE_ID_MATCH_DEV_PROTOCOL = 0x0040"

definition USB_DEVICE_ID_MATCH_INT_CLASS :: u16 where [devid]: "USB_DEVICE_ID_MATCH_INT_CLASS = 0x0080"

definition USB_DEVICE_ID_MATCH_INT_SUBCLASS :: u16 where [devid]: "USB_DEVICE_ID_MATCH_INT_SUBCLASS = 0x0100"

definition USB_DEVICE_ID_MATCH_INT_PROTOCOL :: u16 where [devid]: "USB_DEVICE_ID_MATCH_INT_PROTOCOL = 0x0200"

definition USB_DEVICE_ID_MATCH_INT_NUMBER :: u16 where [devid]: "USB_DEVICE_ID_MATCH_INT_NUMBER = 0x0400"

definition HID_ANY_ID :: u32 where [devid]: "HID_ANY_ID = 0xFFFFFFFF"

definition HID_BUS_ANY :: u16 where [devid]: "HID_BUS_ANY = 0xFFFF"

definition HID_GROUP_ANY :: u16 where [devid]: "HID_GROUP_ANY = 0"

definition CCW_DEVICE_ID_MATCH_CU_TYPE :: u16 where [devid]: "CCW_DEVICE_ID_MATCH_CU_TYPE = 1"

definition CCW_DEVICE_ID_MATCH_CU_MODEL :: u16 where [devid]: "CCW_DEVICE_ID_MATCH_CU_MODEL = 2"

definition CCW_DEVICE_ID_MATCH_DEVICE_TYPE :: u16 where [devid]: "CCW_DEVICE_ID_MATCH_DEVICE_TYPE = 4"

definition CCW_DEVICE_ID_MATCH_DEVICE_MODEL :: u16 where [devid]: "CCW_DEVICE_ID_MATCH_DEVICE_MODEL = 8"

definition SERIO_ANY :: u8 where [devid]: "SERIO_ANY = 0xFF"

definition PCMCIA_DEV_ID_MATCH_MANF_ID :: u16 where [devid]: "PCMCIA_DEV_ID_MATCH_MANF_ID = 1"

definition PCMCIA_DEV_ID_MATCH_CARD_ID :: u16 where [devid]: "PCMCIA_DEV_ID_MATCH_CARD_ID = 2"

definition PCMCIA_DEV_ID_MATCH_FUNC_ID :: u16 where [devid]: "PCMCIA_DEV_ID_MATCH_FUNC_ID = 4"

definition PCMCIA_DEV_ID_MATCH_FUNCTION :: u16 where [devid]: "PCMCIA_DEV_ID_MATCH_FUNCTION = 8"

definition PCMCIA_DEV_ID_MATCH_PROD_ID1 :: u16 where [devid]: "PCMCIA_DEV_ID_MATCH_PROD_ID1 = 0x0010"

definition PCMCIA_DEV_ID_MATCH_PROD_ID2 :: u16 where [devid]: "PCMCIA_DEV_ID_MATCH_PROD_ID2 = 0x0020"

definition PCMCIA_DEV_ID_MATCH_PROD_ID3 :: u16 where [devid]: "PCMCIA_DEV_ID_MATCH_PROD_ID3 = 0x0040"

definition PCMCIA_DEV_ID_MATCH_PROD_ID4 :: u16 where [devid]: "PCMCIA_DEV_ID_MATCH_PROD_ID4 = 0x0080"

definition PCMCIA_DEV_ID_MATCH_DEVICE_NO :: u16 where [devid]: "PCMCIA_DEV_ID_MATCH_DEVICE_NO = 0x0100"

definition INPUT_DEVICE_ID_EV_MAX :: nat where [devid]: "INPUT_DEVICE_ID_EV_MAX = 0x1F"

definition INPUT_DEVICE_ID_KEY_MIN_INTERESTING :: nat where [devid]: "INPUT_DEVICE_ID_KEY_MIN_INTERESTING = 0x71"

definition INPUT_DEVICE_ID_KEY_MAX :: nat where [devid]: "INPUT_DEVICE_ID_KEY_MAX = 0x2FF"

definition INPUT_DEVICE_ID_REL_MAX :: nat where [devid]: "INPUT_DEVICE_ID_REL_MAX = 0x0F"

definition INPUT_DEVICE_ID_ABS_MAX :: nat where [devid]: "INPUT_DEVICE_ID_ABS_MAX = 0x3F"

definition INPUT_DEVICE_ID_MSC_MAX :: nat where [devid]: "INPUT_DEVICE_ID_MSC_MAX = 7"

definition INPUT_DEVICE_ID_LED_MAX :: nat where [devid]: "INPUT_DEVICE_ID_LED_MAX = 0x0F"

definition INPUT_DEVICE_ID_SND_MAX :: nat where [devid]: "INPUT_DEVICE_ID_SND_MAX = 7"

definition INPUT_DEVICE_ID_FF_MAX :: nat where [devid]: "INPUT_DEVICE_ID_FF_MAX = 0x7F"

definition INPUT_DEVICE_ID_SW_MAX :: nat where [devid]: "INPUT_DEVICE_ID_SW_MAX = 0x0F"

definition INPUT_DEVICE_ID_MATCH_BUS :: u32 where [devid]: "INPUT_DEVICE_ID_MATCH_BUS = 1"

definition INPUT_DEVICE_ID_MATCH_VENDOR :: u32 where [devid]: "INPUT_DEVICE_ID_MATCH_VENDOR = 2"

definition INPUT_DEVICE_ID_MATCH_PRODUCT :: u32 where [devid]: "INPUT_DEVICE_ID_MATCH_PRODUCT = 4"

definition INPUT_DEVICE_ID_MATCH_VERSION :: u32 where [devid]: "INPUT_DEVICE_ID_MATCH_VERSION = 8"

definition INPUT_DEVICE_ID_MATCH_EVBIT :: u32 where [devid]: "INPUT_DEVICE_ID_MATCH_EVBIT = 0x0010"

definition INPUT_DEVICE_ID_MATCH_KEYBIT :: u32 where [devid]: "INPUT_DEVICE_ID_MATCH_KEYBIT = 0x0020"

definition INPUT_DEVICE_ID_MATCH_RELBIT :: u32 where [devid]: "INPUT_DEVICE_ID_MATCH_RELBIT = 0x0040"

definition INPUT_DEVICE_ID_MATCH_ABSBIT :: u32 where [devid]: "INPUT_DEVICE_ID_MATCH_ABSBIT = 0x0080"

definition INPUT_DEVICE_ID_MATCH_MSCIT :: u32 where [devid]: "INPUT_DEVICE_ID_MATCH_MSCIT = 0x0100"

definition INPUT_DEVICE_ID_MATCH_LEDBIT :: u32 where [devid]: "INPUT_DEVICE_ID_MATCH_LEDBIT = 0x0200"

definition INPUT_DEVICE_ID_MATCH_SNDBIT :: u32 where [devid]: "INPUT_DEVICE_ID_MATCH_SNDBIT = 0x0400"

definition INPUT_DEVICE_ID_MATCH_FFBIT :: u32 where [devid]: "INPUT_DEVICE_ID_MATCH_FFBIT = 0x0800"

definition INPUT_DEVICE_ID_MATCH_SWBIT :: u32 where [devid]: "INPUT_DEVICE_ID_MATCH_SWBIT = 0x1000"

definition PA_HWTYPE_ANY_ID :: u8 where [devid]: "PA_HWTYPE_ANY_ID = 0xFF"

definition PA_HVERSION_REV_ANY_ID :: u8 where [devid]: "PA_HVERSION_REV_ANY_ID = 0xFF"

definition PA_HVERSION_ANY_ID :: u16 where [devid]: "PA_HVERSION_ANY_ID = 0xFFFF"

definition PA_SVERSION_ANY_ID :: u32 where [devid]: "PA_SVERSION_ANY_ID = 0xFFFFFFFF"

definition SDIO_ANY_ID :: u32 where [devid]: "SDIO_ANY_ID = 0xFFFFFFFF"

definition SSB_ANY_VENDOR :: u16 where [devid]: "SSB_ANY_VENDOR = 0xFFFF"

definition SSB_ANY_ID :: u16 where [devid]: "SSB_ANY_ID = 0xFFFF"

definition SSB_ANY_REV :: u8 where [devid]: "SSB_ANY_REV = 0xFF"

definition BCMA_ANY_MANUF :: u16 where [devid]: "BCMA_ANY_MANUF = 0xFFFF"

definition BCMA_ANY_ID :: u16 where [devid]: "BCMA_ANY_ID = 0xFFFF"

definition BCMA_ANY_REV :: u8 where [devid]: "BCMA_ANY_REV = 0xFF"

definition BCMA_ANY_CLASS :: u8 where [devid]: "BCMA_ANY_CLASS = 0xFF"

definition VIRTIO_DEV_ANY_ID :: u32 where [devid]: "VIRTIO_DEV_ANY_ID = 0xFFFFFFFF"

definition ZORRO_WILDCARD :: u32 where [devid]: "ZORRO_WILDCARD = 0xFFFFFFFF"

definition X86_VENDOR_ANY :: u16 where [devid]: "X86_VENDOR_ANY = 0xFFFF"

definition X86_FAMILY_ANY :: u16 where [devid]: "X86_FAMILY_ANY = 0"

definition X86_MODEL_ANY :: u16 where [devid]: "X86_MODEL_ANY = 0"

definition X86_FEATURE_ANY :: u16 where [devid]: "X86_FEATURE_ANY = 0"

definition IPACK_ANY_FORMAT :: u8 where [devid]: "IPACK_ANY_FORMAT = 0xFF"

definition IPACK_ANY_ID :: u32 where [devid]: "IPACK_ANY_ID = 0xFFFFFFFF"

definition MEI_CL_VERSION_ANY :: u8 where [devid]: "MEI_CL_VERSION_ANY = 0xFF"

definition RIO_ANY_ID :: u16 where [devid]: "RIO_ANY_ID = 0xFFFF"

definition TBSVC_MATCH_PROTOCOL_KEY :: u32 where [devid]: "TBSVC_MATCH_PROTOCOL_KEY = 1"

definition TBSVC_MATCH_PROTOCOL_ID :: u32 where [devid]: "TBSVC_MATCH_PROTOCOL_ID = 2"

definition TBSVC_MATCH_PROTOCOL_VERSION :: u32 where [devid]: "TBSVC_MATCH_PROTOCOL_VERSION = 4"

definition TBSVC_MATCH_PROTOCOL_REVISION :: u32 where [devid]: "TBSVC_MATCH_PROTOCOL_REVISION = 8"

definition TYPEC_ANY_MODE :: u8 where [devid]: "TYPEC_ANY_MODE = 7"

definition PNP_MAX_DEVICES :: nat where [devid]: "PNP_MAX_DEVICES = 8"

definition PNP_ID_LEN :: nat where [devid]: "PNP_ID_LEN = 8"

subsection \<open>The structures\<close>

datatype dmi_field =
    DMI_NONE
  | DMI_BIOS_VENDOR
  | DMI_BIOS_VERSION
  | DMI_BIOS_DATE
  | DMI_SYS_VENDOR
  | DMI_PRODUCT_NAME
  | DMI_PRODUCT_VERSION
  | DMI_PRODUCT_SERIAL
  | DMI_PRODUCT_UUID
  | DMI_PRODUCT_SKU
  | DMI_PRODUCT_FAMILY
  | DMI_BOARD_VENDOR
  | DMI_BOARD_NAME
  | DMI_BOARD_VERSION
  | DMI_BOARD_SERIAL
  | DMI_BOARD_ASSET_TAG
  | DMI_CHASSIS_VENDOR
  | DMI_CHASSIS_TYPE
  | DMI_CHASSIS_VERSION
  | DMI_CHASSIS_SERIAL
  | DMI_CHASSIS_ASSET_TAG
  | DMI_STRING_MAX
  | DMI_OEM_STRING

text \<open>The value C gives an enumerator: its position.\<close>

fun dmi_number :: "dmi_field \<Rightarrow> nat" where
  "dmi_number DMI_NONE = 0"
| "dmi_number DMI_BIOS_VENDOR = 1"
| "dmi_number DMI_BIOS_VERSION = 2"
| "dmi_number DMI_BIOS_DATE = 3"
| "dmi_number DMI_SYS_VENDOR = 4"
| "dmi_number DMI_PRODUCT_NAME = 5"
| "dmi_number DMI_PRODUCT_VERSION = 6"
| "dmi_number DMI_PRODUCT_SERIAL = 7"
| "dmi_number DMI_PRODUCT_UUID = 8"
| "dmi_number DMI_PRODUCT_SKU = 9"
| "dmi_number DMI_PRODUCT_FAMILY = 10"
| "dmi_number DMI_BOARD_VENDOR = 11"
| "dmi_number DMI_BOARD_NAME = 12"
| "dmi_number DMI_BOARD_VERSION = 13"
| "dmi_number DMI_BOARD_SERIAL = 14"
| "dmi_number DMI_BOARD_ASSET_TAG = 15"
| "dmi_number DMI_CHASSIS_VENDOR = 16"
| "dmi_number DMI_CHASSIS_TYPE = 17"
| "dmi_number DMI_CHASSIS_VERSION = 18"
| "dmi_number DMI_CHASSIS_SERIAL = 19"
| "dmi_number DMI_CHASSIS_ASSET_TAG = 20"
| "dmi_number DMI_STRING_MAX = 21"
| "dmi_number DMI_OEM_STRING = 22"

record pci_device_id =
  pci_vendor :: u32
  pci_device :: u32
  pci_subvendor :: u32
  pci_subdevice :: u32
  pci_class :: u32
  pci_class_mask :: u32
  pci_driver_data :: kernel_ulong_t

record ieee1394_device_id =
  ieee1394_match_flags :: u32
  ieee1394_vendor_id :: u32
  ieee1394_model_id :: u32
  ieee1394_specifier_id :: u32
  ieee1394_version :: u32
  ieee1394_driver_data :: kernel_ulong_t

record usb_device_id =
  usb_match_flags :: u16
  usb_idVendor :: u16
  usb_idProduct :: u16
  usb_bcdDevice_lo :: u16
  usb_bcdDevice_hi :: u16
  usb_bDeviceClass :: u8
  usb_bDeviceSubClass :: u8
  usb_bDeviceProtocol :: u8
  usb_bInterfaceClass :: u8
  usb_bInterfaceSubClass :: u8
  usb_bInterfaceProtocol :: u8
  usb_bInterfaceNumber :: u8
  usb_driver_info :: kernel_ulong_t

record hid_device_id =
  hid_bus :: u16
  hid_group :: u16
  hid_vendor :: u32
  hid_product :: u32
  hid_driver_data :: kernel_ulong_t

record ccw_device_id =
  ccw_match_flags :: u16
  ccw_cu_type :: u16
  ccw_dev_type :: u16
  ccw_cu_model :: u8
  ccw_dev_model :: u8
  ccw_driver_info :: kernel_ulong_t

record ap_device_id =
  ap_match_flags :: u16
  ap_dev_type :: u8
  ap_driver_info :: kernel_ulong_t

record css_device_id =
  css_match_flags :: u8
  css_type :: u8
  css_driver_data :: kernel_ulong_t

record acpi_device_id =
  acpi_id :: string
  acpi_driver_data :: kernel_ulong_t
  acpi_cls :: u32
  acpi_cls_msk :: u32

record pnp_device_id =
  pnp_id :: string
  pnp_driver_data :: kernel_ulong_t

record pnp_card_device_id =
  pnp_card_id :: string
  pnp_card_driver_data :: kernel_ulong_t
  pnp_card_devs :: "string list"

record serio_device_id =
  serio_type :: u8
  serio_extra :: u8
  serio_id :: u8
  serio_proto :: u8

record hda_device_id =
  hda_vendor_id :: u32
  hda_rev_id :: u32
  hda_api_version :: u8
  hda_name :: pointer
  hda_driver_data :: kernel_ulong_t

record sdw_device_id =
  sdw_mfg_id :: u16
  sdw_part_id :: u16
  sdw_driver_data :: kernel_ulong_t

record of_device_id =
  of_name :: string
  of_type :: string
  of_compatible :: string
  of_data :: pointer

record vio_device_id =
  vio_type :: string
  vio_compat :: string

record pcmcia_device_id =
  pcmcia_match_flags :: u16
  pcmcia_manf_id :: u16
  pcmcia_card_id :: u16
  pcmcia_func_id :: u8
  pcmcia_function :: u8
  pcmcia_device_no :: u8
  pcmcia_prod_id_hash :: "u32 list"
  pcmcia_prod_id :: "pointer list"
  pcmcia_driver_info :: kernel_ulong_t
  pcmcia_cisfile :: pointer

record input_device_id =
  input_flags :: kernel_ulong_t
  input_bustype :: u16
  input_vendor :: u16
  input_product :: u16
  input_version :: u16
  input_evbit :: "kernel_ulong_t list"
  input_keybit :: "kernel_ulong_t list"
  input_relbit :: "kernel_ulong_t list"
  input_absbit :: "kernel_ulong_t list"
  input_mscbit :: "kernel_ulong_t list"
  input_ledbit :: "kernel_ulong_t list"
  input_sndbit :: "kernel_ulong_t list"
  input_ffbit :: "kernel_ulong_t list"
  input_swbit :: "kernel_ulong_t list"
  input_propbit :: "kernel_ulong_t list"
  input_driver_info :: kernel_ulong_t

record eisa_device_id =
  eisa_sig :: string
  eisa_driver_data :: kernel_ulong_t

record parisc_device_id =
  parisc_hw_type :: u8
  parisc_hversion_rev :: u8
  parisc_hversion :: u16
  parisc_sversion :: u32

record sdio_device_id =
  sdio_class :: u8
  sdio_vendor :: u16
  sdio_device :: u16
  sdio_driver_data :: kernel_ulong_t

record ssb_device_id =
  ssb_vendor :: u16
  ssb_coreid :: u16
  ssb_revision :: u8
  ssb_pad :: u8

record bcma_device_id =
  bcma_manuf :: u16
  bcma_id :: u16
  bcma_rev :: u8
  bcma_class :: u8

record virtio_device_id =
  virtio_device :: u32
  virtio_vendor :: u32

record hv_vmbus_device_id =
  hv_vmbus_guid :: "u8 list"
  hv_vmbus_driver_data :: kernel_ulong_t

record rpmsg_device_id =
  rpmsg_name :: string

record i2c_device_id =
  i2c_name :: string
  i2c_driver_data :: kernel_ulong_t

record spi_device_id =
  spi_name :: string
  spi_driver_data :: kernel_ulong_t

record dmi_strmatch =
  slot :: u8
  exact_match :: bool
  substr :: string

record dmi_system_id =
  dmi_callback :: pointer
  dmi_ident :: pointer
  dmi_matches :: "dmi_strmatch list"
  dmi_driver_data :: pointer

record platform_device_id =
  platform_name :: string
  platform_driver_data :: kernel_ulong_t

record mdio_device_id =
  mdio_phy_id :: u32
  mdio_phy_id_mask :: u32

record zorro_device_id =
  zorro_id :: u32
  zorro_driver_data :: kernel_ulong_t

record isapnp_device_id =
  isapnp_card_vendor :: u16
  isapnp_card_device :: u16
  isapnp_vendor :: u16
  isapnp_function :: u16
  isapnp_driver_data :: kernel_ulong_t

record amba_id =
  amba_id :: u32
  amba_mask :: u32
  amba_data :: pointer

record mips_cdmm_device_id =
  mips_cdmm_type :: u8

record x86_cpu_id =
  x86_vendor :: u16
  x86_family :: u16
  x86_model :: u16
  x86_feature :: u16
  x86_driver_data :: kernel_ulong_t

record cpu_feature =
  cpu_feature :: u16

record ipack_device_id =
  ipack_format :: u8
  ipack_vendor :: u32
  ipack_device :: u32

record mei_cl_device_id =
  mei_name :: string
  mei_uuid :: "u8 list"
  mei_version :: u8
  mei_driver_info :: kernel_ulong_t

record rio_device_id =
  rio_did :: u16
  rio_vid :: u16
  rio_asm_did :: u16
  rio_asm_vid :: u16

record ulpi_device_id =
  ulpi_vendor :: u16
  ulpi_product :: u16
  ulpi_driver_data :: kernel_ulong_t

record fsl_mc_device_id =
  fsl_mc_vendor :: u16
  fsl_mc_obj_type :: string

record tb_service_id =
  tb_match_flags :: u32
  tb_protocol_key :: string
  tb_protocol_id :: u32
  tb_protocol_version :: u32
  tb_protocol_revision :: u32
  tb_driver_data :: kernel_ulong_t

record typec_device_id =
  typec_svid :: u16
  typec_mode :: u8
  typec_driver_data :: kernel_ulong_t

subsection \<open>Reading the structures\<close>

text \<open>\<open>DEF_FIELD\<close>: the little-endian number at an offset.\<close>

fun le_value :: "u8 list \<Rightarrow> nat" where
  "le_value [] = 0"
| "le_value (b # bs) = unat b + 256 * le_value bs"

definition DEF_FIELD :: "u8 list \<Rightarrow> nat \<Rightarrow> 'a::len word" where
  "DEF_FIELD m off = word_of_nat (le_value (take (LENGTH('a) div 8) (drop off m)))"

text \<open>A \<open>char\<close> array printed with \<open>%s\<close>.\<close>

definition c_str :: "u8 list \<Rightarrow> nat \<Rightarrow> string" where
  "c_str m off = map (\<lambda>b. char_of (unat b)) (takeWhile (\<lambda>b. b \<noteq> 0) (drop off m))"

definition pci_at :: "u8 list \<Rightarrow> pci_device_id" where
  "pci_at m = \<lparr>
     pci_vendor = DEF_FIELD m 0,
     pci_device = DEF_FIELD m 4,
     pci_subvendor = DEF_FIELD m 8,
     pci_subdevice = DEF_FIELD m 12,
     pci_class = DEF_FIELD m 16,
     pci_class_mask = DEF_FIELD m 20,
     pci_driver_data = DEF_FIELD m 24 \<rparr>"

definition ieee1394_at :: "u8 list \<Rightarrow> ieee1394_device_id" where
  "ieee1394_at m = \<lparr>
     ieee1394_match_flags = DEF_FIELD m 0,
     ieee1394_vendor_id = DEF_FIELD m 4,
     ieee1394_model_id = DEF_FIELD m 8,
     ieee1394_specifier_id = DEF_FIELD m 12,
     ieee1394_version = DEF_FIELD m 16,
     ieee1394_driver_data = DEF_FIELD m 20 \<rparr>"

definition usb_at :: "u8 list \<Rightarrow> usb_device_id" where
  "usb_at m = \<lparr>
     usb_match_flags = DEF_FIELD m 0,
     usb_idVendor = DEF_FIELD m 2,
     usb_idProduct = DEF_FIELD m 4,
     usb_bcdDevice_lo = DEF_FIELD m 6,
     usb_bcdDevice_hi = DEF_FIELD m 8,
     usb_bDeviceClass = DEF_FIELD m 10,
     usb_bDeviceSubClass = DEF_FIELD m 11,
     usb_bDeviceProtocol = DEF_FIELD m 12,
     usb_bInterfaceClass = DEF_FIELD m 13,
     usb_bInterfaceSubClass = DEF_FIELD m 14,
     usb_bInterfaceProtocol = DEF_FIELD m 15,
     usb_bInterfaceNumber = DEF_FIELD m 16,
     usb_driver_info = DEF_FIELD m 20 \<rparr>"

definition hid_at :: "u8 list \<Rightarrow> hid_device_id" where
  "hid_at m = \<lparr>
     hid_bus = DEF_FIELD m 0,
     hid_group = DEF_FIELD m 2,
     hid_vendor = DEF_FIELD m 4,
     hid_product = DEF_FIELD m 8,
     hid_driver_data = DEF_FIELD m 12 \<rparr>"

definition ccw_at :: "u8 list \<Rightarrow> ccw_device_id" where
  "ccw_at m = \<lparr>
     ccw_match_flags = DEF_FIELD m 0,
     ccw_cu_type = DEF_FIELD m 2,
     ccw_dev_type = DEF_FIELD m 4,
     ccw_cu_model = DEF_FIELD m 6,
     ccw_dev_model = DEF_FIELD m 7,
     ccw_driver_info = DEF_FIELD m 8 \<rparr>"

definition ap_at :: "u8 list \<Rightarrow> ap_device_id" where
  "ap_at m = \<lparr>
     ap_match_flags = DEF_FIELD m 0,
     ap_dev_type = DEF_FIELD m 2,
     ap_driver_info = DEF_FIELD m 4 \<rparr>"

definition css_at :: "u8 list \<Rightarrow> css_device_id" where
  "css_at m = \<lparr>
     css_match_flags = DEF_FIELD m 0,
     css_type = DEF_FIELD m 1,
     css_driver_data = DEF_FIELD m 4 \<rparr>"

definition acpi_at :: "u8 list \<Rightarrow> acpi_device_id" where
  "acpi_at m = \<lparr>
     acpi_id = c_str m 0,
     acpi_driver_data = DEF_FIELD m 12,
     acpi_cls = DEF_FIELD m 16,
     acpi_cls_msk = DEF_FIELD m 20 \<rparr>"

definition pnp_at :: "u8 list \<Rightarrow> pnp_device_id" where
  "pnp_at m = \<lparr>
     pnp_id = c_str m 0,
     pnp_driver_data = DEF_FIELD m 8 \<rparr>"

definition pnp_card_at :: "u8 list \<Rightarrow> pnp_card_device_id" where
  "pnp_card_at m = \<lparr>
     pnp_card_id = c_str m 0,
     pnp_card_driver_data = DEF_FIELD m 8,
     pnp_card_devs = map (\<lambda>k. c_str m (12 + 8 * k)) [0..<8] \<rparr>"

definition serio_at :: "u8 list \<Rightarrow> serio_device_id" where
  "serio_at m = \<lparr>
     serio_type = DEF_FIELD m 0,
     serio_extra = DEF_FIELD m 1,
     serio_id = DEF_FIELD m 2,
     serio_proto = DEF_FIELD m 3 \<rparr>"

definition hda_at :: "u8 list \<Rightarrow> hda_device_id" where
  "hda_at m = \<lparr>
     hda_vendor_id = DEF_FIELD m 0,
     hda_rev_id = DEF_FIELD m 4,
     hda_api_version = DEF_FIELD m 8,
     hda_name = DEF_FIELD m 12,
     hda_driver_data = DEF_FIELD m 16 \<rparr>"

definition sdw_at :: "u8 list \<Rightarrow> sdw_device_id" where
  "sdw_at m = \<lparr>
     sdw_mfg_id = DEF_FIELD m 0,
     sdw_part_id = DEF_FIELD m 2,
     sdw_driver_data = DEF_FIELD m 4 \<rparr>"

definition of_at :: "u8 list \<Rightarrow> of_device_id" where
  "of_at m = \<lparr>
     of_name = c_str m 0,
     of_type = c_str m 32,
     of_compatible = c_str m 64,
     of_data = DEF_FIELD m 192 \<rparr>"

definition vio_at :: "u8 list \<Rightarrow> vio_device_id" where
  "vio_at m = \<lparr>
     vio_type = c_str m 0,
     vio_compat = c_str m 32 \<rparr>"

definition pcmcia_at :: "u8 list \<Rightarrow> pcmcia_device_id" where
  "pcmcia_at m = \<lparr>
     pcmcia_match_flags = DEF_FIELD m 0,
     pcmcia_manf_id = DEF_FIELD m 2,
     pcmcia_card_id = DEF_FIELD m 4,
     pcmcia_func_id = DEF_FIELD m 6,
     pcmcia_function = DEF_FIELD m 7,
     pcmcia_device_no = DEF_FIELD m 8,
     pcmcia_prod_id_hash = map (\<lambda>k. DEF_FIELD m (12 + 4 * k)) [0..<4],
     pcmcia_prod_id = map (\<lambda>k. DEF_FIELD m (28 + 4 * k)) [0..<4],
     pcmcia_driver_info = DEF_FIELD m 44,
     pcmcia_cisfile = DEF_FIELD m 48 \<rparr>"

definition input_at :: "u8 list \<Rightarrow> input_device_id" where
  "input_at m = \<lparr>
     input_flags = DEF_FIELD m 0,
     input_bustype = DEF_FIELD m 4,
     input_vendor = DEF_FIELD m 6,
     input_product = DEF_FIELD m 8,
     input_version = DEF_FIELD m 10,
     input_evbit = map (\<lambda>k. DEF_FIELD m (12 + 4 * k)) [0..<1],
     input_keybit = map (\<lambda>k. DEF_FIELD m (16 + 4 * k)) [0..<24],
     input_relbit = map (\<lambda>k. DEF_FIELD m (112 + 4 * k)) [0..<1],
     input_absbit = map (\<lambda>k. DEF_FIELD m (116 + 4 * k)) [0..<2],
     input_mscbit = map (\<lambda>k. DEF_FIELD m (124 + 4 * k)) [0..<1],
     input_ledbit = map (\<lambda>k. DEF_FIELD m (128 + 4 * k)) [0..<1],
     input_sndbit = map (\<lambda>k. DEF_FIELD m (132 + 4 * k)) [0..<1],
     input_ffbit = map (\<lambda>k. DEF_FIELD m (136 + 4 * k)) [0..<4],
     input_swbit = map (\<lambda>k. DEF_FIELD m (152 + 4 * k)) [0..<1],
     input_propbit = map (\<lambda>k. DEF_FIELD m (156 + 4 * k)) [0..<1],
     input_driver_info = DEF_FIELD m 160 \<rparr>"

definition eisa_at :: "u8 list \<Rightarrow> eisa_device_id" where
  "eisa_at m = \<lparr>
     eisa_sig = c_str m 0,
     eisa_driver_data = DEF_FIELD m 8 \<rparr>"

definition parisc_at :: "u8 list \<Rightarrow> parisc_device_id" where
  "parisc_at m = \<lparr>
     parisc_hw_type = DEF_FIELD m 0,
     parisc_hversion_rev = DEF_FIELD m 1,
     parisc_hversion = DEF_FIELD m 2,
     parisc_sversion = DEF_FIELD m 4 \<rparr>"

definition sdio_at :: "u8 list \<Rightarrow> sdio_device_id" where
  "sdio_at m = \<lparr>
     sdio_class = DEF_FIELD m 0,
     sdio_vendor = DEF_FIELD m 2,
     sdio_device = DEF_FIELD m 4,
     sdio_driver_data = DEF_FIELD m 8 \<rparr>"

definition ssb_at :: "u8 list \<Rightarrow> ssb_device_id" where
  "ssb_at m = \<lparr>
     ssb_vendor = DEF_FIELD m 0,
     ssb_coreid = DEF_FIELD m 2,
     ssb_revision = DEF_FIELD m 4,
     ssb_pad = DEF_FIELD m 5 \<rparr>"

definition bcma_at :: "u8 list \<Rightarrow> bcma_device_id" where
  "bcma_at m = \<lparr>
     bcma_manuf = DEF_FIELD m 0,
     bcma_id = DEF_FIELD m 2,
     bcma_rev = DEF_FIELD m 4,
     bcma_class = DEF_FIELD m 5 \<rparr>"

definition virtio_at :: "u8 list \<Rightarrow> virtio_device_id" where
  "virtio_at m = \<lparr>
     virtio_device = DEF_FIELD m 0,
     virtio_vendor = DEF_FIELD m 4 \<rparr>"

definition hv_vmbus_at :: "u8 list \<Rightarrow> hv_vmbus_device_id" where
  "hv_vmbus_at m = \<lparr>
     hv_vmbus_guid = map (\<lambda>k. DEF_FIELD m (0 + 1 * k)) [0..<16],
     hv_vmbus_driver_data = DEF_FIELD m 16 \<rparr>"

definition rpmsg_at :: "u8 list \<Rightarrow> rpmsg_device_id" where
  "rpmsg_at m = \<lparr>
     rpmsg_name = c_str m 0 \<rparr>"

definition i2c_at :: "u8 list \<Rightarrow> i2c_device_id" where
  "i2c_at m = \<lparr>
     i2c_name = c_str m 0,
     i2c_driver_data = DEF_FIELD m 20 \<rparr>"

definition spi_at :: "u8 list \<Rightarrow> spi_device_id" where
  "spi_at m = \<lparr>
     spi_name = c_str m 0,
     spi_driver_data = DEF_FIELD m 32 \<rparr>"

definition dmi_strmatch_at :: "u8 list \<Rightarrow> dmi_strmatch" where
  "dmi_strmatch_at m = \<lparr>
     slot = DEF_FIELD m 0 AND 0x7F,
     exact_match = bit (DEF_FIELD m 0 :: u8) 7,
     substr = c_str m 1 \<rparr>"

definition dmi_at :: "u8 list \<Rightarrow> dmi_system_id" where
  "dmi_at m = \<lparr>
     dmi_callback = DEF_FIELD m 0,
     dmi_ident = DEF_FIELD m 4,
     dmi_matches = map (\<lambda>k. dmi_strmatch_at (drop (8 + 80 * k) m)) [0..<4],
     dmi_driver_data = DEF_FIELD m 328 \<rparr>"

definition platform_at :: "u8 list \<Rightarrow> platform_device_id" where
  "platform_at m = \<lparr>
     platform_name = c_str m 0,
     platform_driver_data = DEF_FIELD m 20 \<rparr>"

definition mdio_at :: "u8 list \<Rightarrow> mdio_device_id" where
  "mdio_at m = \<lparr>
     mdio_phy_id = DEF_FIELD m 0,
     mdio_phy_id_mask = DEF_FIELD m 4 \<rparr>"

definition zorro_at :: "u8 list \<Rightarrow> zorro_device_id" where
  "zorro_at m = \<lparr>
     zorro_id = DEF_FIELD m 0,
     zorro_driver_data = DEF_FIELD m 4 \<rparr>"

definition isapnp_at :: "u8 list \<Rightarrow> isapnp_device_id" where
  "isapnp_at m = \<lparr>
     isapnp_card_vendor = DEF_FIELD m 0,
     isapnp_card_device = DEF_FIELD m 2,
     isapnp_vendor = DEF_FIELD m 4,
     isapnp_function = DEF_FIELD m 6,
     isapnp_driver_data = DEF_FIELD m 8 \<rparr>"

definition amba_at :: "u8 list \<Rightarrow> amba_id" where
  "amba_at m = \<lparr>
     amba_id = DEF_FIELD m 0,
     amba_mask = DEF_FIELD m 4,
     amba_data = DEF_FIELD m 8 \<rparr>"

definition mips_cdmm_at :: "u8 list \<Rightarrow> mips_cdmm_device_id" where
  "mips_cdmm_at m = \<lparr>
     mips_cdmm_type = DEF_FIELD m 0 \<rparr>"

definition x86_at :: "u8 list \<Rightarrow> x86_cpu_id" where
  "x86_at m = \<lparr>
     x86_vendor = DEF_FIELD m 0,
     x86_family = DEF_FIELD m 2,
     x86_model = DEF_FIELD m 4,
     x86_feature = DEF_FIELD m 6,
     x86_driver_data = DEF_FIELD m 8 \<rparr>"

definition cpu_at :: "u8 list \<Rightarrow> cpu_feature" where
  "cpu_at m = \<lparr>
     cpu_feature = DEF_FIELD m 0 \<rparr>"

definition ipack_at :: "u8 list \<Rightarrow> ipack_device_id" where
  "ipack_at m = \<lparr>
     ipack_format = DEF_FIELD m 0,
     ipack_vendor = DEF_FIELD m 4,
     ipack_device = DEF_FIELD m 8 \<rparr>"

definition mei_at :: "u8 list \<Rightarrow> mei_cl_device_id" where
  "mei_at m = \<lparr>
     mei_name = c_str m 0,
     mei_uuid = map (\<lambda>k. DEF_FIELD m (32 + 1 * k)) [0..<16],
     mei_version = DEF_FIELD m 48,
     mei_driver_info = DEF_FIELD m 52 \<rparr>"

definition rio_at :: "u8 list \<Rightarrow> rio_device_id" where
  "rio_at m = \<lparr>
     rio_did = DEF_FIELD m 0,
     rio_vid = DEF_FIELD m 2,
     rio_asm_did = DEF_FIELD m 4,
     rio_asm_vid = DEF_FIELD m 6 \<rparr>"

definition ulpi_at :: "u8 list \<Rightarrow> ulpi_device_id" where
  "ulpi_at m = \<lparr>
     ulpi_vendor = DEF_FIELD m 0,
     ulpi_product = DEF_FIELD m 2,
     ulpi_driver_data = DEF_FIELD m 4 \<rparr>"

definition fsl_mc_at :: "u8 list \<Rightarrow> fsl_mc_device_id" where
  "fsl_mc_at m = \<lparr>
     fsl_mc_vendor = DEF_FIELD m 0,
     fsl_mc_obj_type = c_str m 2 \<rparr>"

definition tb_at :: "u8 list \<Rightarrow> tb_service_id" where
  "tb_at m = \<lparr>
     tb_match_flags = DEF_FIELD m 0,
     tb_protocol_key = c_str m 4,
     tb_protocol_id = DEF_FIELD m 16,
     tb_protocol_version = DEF_FIELD m 20,
     tb_protocol_revision = DEF_FIELD m 24,
     tb_driver_data = DEF_FIELD m 28 \<rparr>"

definition typec_at :: "u8 list \<Rightarrow> typec_device_id" where
  "typec_at m = \<lparr>
     typec_svid = DEF_FIELD m 0,
     typec_mode = DEF_FIELD m 2,
     typec_driver_data = DEF_FIELD m 4 \<rparr>"

end
