(* ===== verification/Alias_Format.thy ===== *)
theory Alias_Format
  imports Mod_Devicetable
begin

text \<open>
  The formatting routines of \<open>scripts/mod/file2alias.c\<close> (hexadecimal \<open>printf\<close> conversions,
  \<open>ADD\<close>, \<open>add_wildcard\<close>, \<open>add_uuid\<close>) and the shell patterns the module aliases are. A string
  under construction is returned extended; the 500 bytes of the buffer are the subject of the
  length lemmas.
\<close>

subsection \<open>Hexadecimal numbers\<close>

definition hex_digit :: "bool \<Rightarrow> nat \<Rightarrow> char" where
  "hex_digit upper d = (if upper then ''0123456789ABCDEF'' else ''0123456789abcdef'') ! d"

text \<open>\<open>%X\<close> (\<open>upper\<close>) and \<open>%x\<close>, and the same padded with zeros to a width.\<close>

fun printf_hex :: "bool \<Rightarrow> nat \<Rightarrow> string" where
  "printf_hex upper n =
     (if n < 16 then [hex_digit upper n] else printf_hex upper (n div 16) @ [hex_digit upper (n mod 16)])"

declare printf_hex.simps [simp del]

fun printf_dec :: "nat \<Rightarrow> string" where
  "printf_dec n = (if n < 10 then [''0123456789'' ! n] else printf_dec (n div 10) @ [''0123456789'' ! (n mod 10)])"

declare printf_dec.simps [simp del]

definition toupper :: "char \<Rightarrow> char" where
  "toupper c = (let n = (of_char c :: nat) in if 97 \<le> n \<and> n \<le> 122 then char_of (n - 32) else c)"

definition printf_0hex :: "bool \<Rightarrow> nat \<Rightarrow> nat \<Rightarrow> string" where
  "printf_0hex upper width n =
     (let s = printf_hex upper n in replicate (width - length s) (CHR ''0'') @ s)"

lemma replicate_numeral_unfold [simp]: "replicate (numeral k) x = x # replicate (pred_numeral k) x"
  by (simp add: numeral_eq_Suc)

text \<open>Exactly \<open>width\<close> digits, the most significant first.\<close>

fun hex_digits :: "bool \<Rightarrow> nat \<Rightarrow> nat \<Rightarrow> string" where
  "hex_digits upper 0 n = []"
| "hex_digits upper (Suc w) n = hex_digits upper w (n div 16) @ [hex_digit upper (n mod 16)]"

lemma length_hex_digits [simp]: "length (hex_digits upper w n) = w"
  by (induction w arbitrary: n) simp_all

lemma hex_digits_0: "hex_digits upper w 0 = replicate w (CHR ''0'')"
  by (induction w) (simp_all add: hex_digit_def replicate_append_same)

lemma hex_digits_split: "hex_digits upper (v + w) n = hex_digits upper v (n div 16 ^ w) @ hex_digits upper w n"
proof (induction w arbitrary: n)
  case (Suc w)
  show ?case using Suc.IH [of "n div 16"] by (simp add: div_mult2_eq)
qed simp

lemma length_printf_hex: "n < 16 ^ w \<Longrightarrow> 0 < w \<Longrightarrow> length (printf_hex upper n) \<le> w"
proof (induction upper n arbitrary: w rule: printf_hex.induct)
  case (1 upper n)
  show ?case
  proof (cases "n < 16")
    case True
    then show ?thesis using "1.prems" by (simp add: printf_hex.simps [of upper n])
  next
    case False
    obtain v where w: "w = Suc v" using "1.prems" by (cases w) auto
    have "0 < v" using "1.prems" False w by (cases v) auto
    moreover have "n div 16 < 16 ^ v" using "1.prems" w by (simp add: less_mult_imp_div_less mult.commute)
    ultimately have "length (printf_hex upper (n div 16)) \<le> v" using "1.IH" [OF False] by blast
    then show ?thesis using False w by (simp add: printf_hex.simps [of upper n])
  qed
qed

lemma printf_hex_digits: "printf_hex upper n = hex_digits upper (length (printf_hex upper n)) n"
proof (induction upper n rule: printf_hex.induct)
  case (1 upper n)
  show ?case
  proof (cases "n < 16")
    case True
    then show ?thesis by (simp add: printf_hex.simps [of upper n])
  next
    case False
    have "printf_hex upper n = printf_hex upper (n div 16) @ [hex_digit upper (n mod 16)]"
      using False by (simp add: printf_hex.simps [of upper n])
    then show ?thesis using "1.IH" [OF False] by simp
  qed
qed

lemma printf_hex_bound: "n < 16 ^ length (printf_hex upper n)"
proof (induction upper n rule: printf_hex.induct)
  case (1 upper n)
  show ?case
  proof (cases "n < 16")
    case False
    have "printf_hex upper n = printf_hex upper (n div 16) @ [hex_digit upper (n mod 16)]"
      using False by (simp add: printf_hex.simps [of upper n])
    moreover have "n div 16 < 16 ^ length (printf_hex upper (n div 16))" using "1.IH" [OF False] .
    ultimately show ?thesis by simp
  qed (simp add: printf_hex.simps [of upper n])
qed

lemma printf_0hex_digits:
  assumes "n < 16 ^ w" and "0 < w"
  shows "printf_0hex upper w n = hex_digits upper w n"
proof -
  define l where "l = length (printf_hex upper n)"
  have "l \<le> w" unfolding l_def by (rule length_printf_hex [OF assms])
  then have "hex_digits upper w n = hex_digits upper (w - l) (n div 16 ^ l) @ hex_digits upper l n"
    using hex_digits_split [of upper "w - l" l n] by simp
  moreover have "n div 16 ^ l = 0" using printf_hex_bound [of n upper] by (simp add: l_def)
  ultimately have "hex_digits upper w n = replicate (w - l) (CHR ''0'') @ hex_digits upper l n"
    by (simp add: hex_digits_0)
  moreover have "hex_digits upper l n = printf_hex upper n"
    unfolding l_def by (rule printf_hex_digits [symmetric])
  ultimately show ?thesis by (simp add: printf_0hex_def Let_def l_def)
qed

text \<open>Reading the digits back.\<close>

definition hex_value :: "bool \<Rightarrow> string \<Rightarrow> nat" where
  "hex_value upper s = foldl (\<lambda>v c. 16 * v + length (takeWhile (\<lambda>d. hex_digit upper d \<noteq> c) [0..<16])) 0 s"

lemma hex_digit_indices:
  "list_all (\<lambda>d. length (takeWhile (\<lambda>e. hex_digit True e \<noteq> hex_digit True d) [0..<16]) = d) [0..<16]"
  "list_all (\<lambda>d. length (takeWhile (\<lambda>e. hex_digit False e \<noteq> hex_digit False d) [0..<16]) = d) [0..<16]"
  by code_simp+

lemma hex_digit_index: "d < 16 \<Longrightarrow> length (takeWhile (\<lambda>e. hex_digit upper e \<noteq> hex_digit upper d) [0..<16]) = d"
  using hex_digit_indices by (cases upper) (simp_all add: list_all_iff)

lemma hex_value_digits: "n < 16 ^ w \<Longrightarrow> hex_value upper (hex_digits upper w n) = n"
proof (induction w arbitrary: n)
  case (Suc w)
  have "n div 16 < 16 ^ w" using Suc.prems by (simp add: less_mult_imp_div_less mult.commute)
  then show ?case using Suc.IH [of "n div 16"] hex_digit_index [of "n mod 16" upper]
    by (simp add: hex_value_def)
qed (simp add: hex_value_def)

lemma hex_digits_inject:
  "m < 16 ^ w \<Longrightarrow> n < 16 ^ w \<Longrightarrow> hex_digits upper w m = hex_digits upper w n \<longleftrightarrow> m = n"
  by (metis hex_value_digits)

subsection \<open>The pieces of an alias\<close>

text \<open>The conversion is chosen by the size of the field.\<close>

definition ADD :: "string \<Rightarrow> string \<Rightarrow> bool \<Rightarrow> 'a::len word \<Rightarrow> string" where
  "ADD str sep cond field =
     str @ sep @
     (if cond then
        (if LENGTH('a) = 8 then printf_0hex True 2 (unat field)
         else if LENGTH('a) = 16 then printf_0hex True 4 (unat field)
         else if LENGTH('a) = 32 then printf_0hex True 8 (unat field)
         else '''')
      else ''*'')"

text \<open>\<open>str[len - 1]\<close> of an empty string would be the byte before the buffer; no caller has one.\<close>

definition add_wildcard :: "string \<Rightarrow> string" where
  "add_wildcard str = (if str \<noteq> [] \<and> last str = CHR ''*'' then str else str @ ''*'')"

definition add_uuid :: "string \<Rightarrow> u8 list \<Rightarrow> string" where
  "add_uuid str uuid =
     (let b = (\<lambda>i. printf_0hex False 2 (unat (uuid ! i))) in
      str @ b 3 @ b 2 @ b 1 @ b 0 @ ''-'' @ b 5 @ b 4 @ ''-'' @ b 7 @ b 6 @ ''-'' @
        b 8 @ b 9 @ ''-'' @ b 10 @ b 11 @ b 12 @ b 13 @ b 14 @ b 15)"

lemma unat_8 [simp]: "unat (x :: u8) < 256" using unsigned_less [of x, where 'a = nat] by simp
lemma unat_16 [simp]: "unat (x :: u16) < 65536" using unsigned_less [of x, where 'a = nat] by simp
lemma unat_32 [simp]: "unat (x :: u32) < 4294967296" using unsigned_less [of x, where 'a = nat] by simp

definition field_pattern :: "string \<Rightarrow> bool \<Rightarrow> nat \<Rightarrow> nat \<Rightarrow> string" where
  "field_pattern sep cond w v = sep @ (if cond then hex_digits True w v else ''*'')"

lemma ADD_8: "ADD str sep cond (v :: u8) = str @ field_pattern sep cond 2 (unat v)"
  by (simp add: ADD_def field_pattern_def printf_0hex_digits)

lemma ADD_16: "ADD str sep cond (v :: u16) = str @ field_pattern sep cond 4 (unat v)"
  by (simp add: ADD_def field_pattern_def printf_0hex_digits)

lemma ADD_32: "ADD str sep cond (v :: u32) = str @ field_pattern sep cond 8 (unat v)"
  by (simp add: ADD_def field_pattern_def printf_0hex_digits)

lemmas ADD_pattern = ADD_8 ADD_16 ADD_32

lemma length_field_pattern: "0 < w \<Longrightarrow> length (field_pattern sep cond w v) \<le> length sep + w"
  by (simp add: field_pattern_def)

subsection \<open>Shell patterns\<close>

text \<open>
  An alias is a pattern in the notation of \<open>glob(7)\<close>, matched against the string a bus gives a
  device; \<open>matches\<close> is its meaning: \<open>?\<close>, \<open>*\<close>, and sets of characters with ranges, without
  negation and quoting, which no alias uses. A \<open>[\<close> that is not closed is an ordinary character.
\<close>

datatype token = Lit char | Any | Star | Class "(char \<times> char) list"

text \<open>A range is its bounds; a single character is a range of one.\<close>

fun ranges :: "string \<Rightarrow> (char \<times> char) list" where
  "ranges (a # d # b # s) = (if d = CHR ''-'' then (a, b) # ranges s else (a, a) # ranges (d # b # s))"
| "ranges (a # s) = (a, a) # ranges s"
| "ranges [] = []"

definition in_ranges :: "(char \<times> char) list \<Rightarrow> char \<Rightarrow> bool" where
  "in_ranges rs c \<longleftrightarrow> (\<exists>(a, b) \<in> set rs. (of_char a :: nat) \<le> of_char c \<and> (of_char c :: nat) \<le> of_char b)"

function pattern :: "string \<Rightarrow> token list" where
  "pattern [] = []"
| "pattern (c # s) =
     (if c = CHR ''?'' then Any # pattern s
      else if c = CHR ''*'' then Star # pattern s
      else if c = CHR ''['' \<and> CHR '']'' \<in> set s then
        Class (ranges (takeWhile (\<lambda>x. x \<noteq> CHR '']'') s)) # pattern (tl (dropWhile (\<lambda>x. x \<noteq> CHR '']'') s))
      else Lit c # pattern s)"
  by pat_completeness auto

termination
proof (relation "measure length")
  show "(tl (dropWhile (\<lambda>x. x \<noteq> CHR '']'') s), c # s) \<in> measure length" for c :: char and s
    using length_dropWhile_le [of "\<lambda>x. x \<noteq> CHR '']''" s] by simp
qed simp_all

fun glob :: "token list \<Rightarrow> string \<Rightarrow> bool" where
  "glob [] s \<longleftrightarrow> s = []"
| "glob (Star # p) [] \<longleftrightarrow> glob p []"
| "glob (Star # p) (c # s) \<longleftrightarrow> glob p (c # s) \<or> glob (Star # p) s"
| "glob (t # p) [] \<longleftrightarrow> False"
| "glob (Lit d # p) (c # s) \<longleftrightarrow> d = c \<and> glob p s"
| "glob (Any # p) (c # s) \<longleftrightarrow> glob p s"
| "glob (Class rs # p) (c # s) \<longleftrightarrow> in_ranges rs c \<and> glob p s"

definition matches :: "string \<Rightarrow> string \<Rightarrow> bool" where
  "matches alias device \<longleftrightarrow> glob (pattern alias) device"

definition plain :: "char \<Rightarrow> bool" where
  "plain c \<longleftrightarrow> c \<noteq> CHR ''?'' \<and> c \<noteq> CHR ''*'' \<and> c \<noteq> CHR ''[''"

lemma pattern_plain: "list_all plain s \<Longrightarrow> pattern (s @ t) = map Lit s @ pattern t"
  by (induction s) (auto simp: plain_def)

lemma glob_Star: "glob (Star # p) s \<longleftrightarrow> (\<exists>a b. s = a @ b \<and> glob p b)"
proof (induction s)
  case (Cons c s)
  show ?case unfolding glob.simps Cons.IH by (metis Cons_eq_append_conv)
qed simp

lemma glob_Lit: "length a = length b \<Longrightarrow> glob (map Lit a @ p) (b @ s) \<longleftrightarrow> a = b \<and> glob p s"
  by (induction a b rule: list_induct2) auto

end
