(* ===== verification/Alias_Entries.thy ===== *)
theory Alias_Entries
  imports Alias_Format
begin

text \<open>
  One function per bus of \<open>scripts/mod/file2alias.c\<close>: the alias of one entry of a device table.
  The result is \<open>Inl\<close> a message of \<open>fatal\<close>, which ends the program, or \<open>Inr\<close> the alias, with
  \<^term>\<open>None\<close> where the function returns 0 and the entry is skipped.
\<close>

type_synonym entry = "string + string option"

definition made :: "string \<Rightarrow> entry" where
  [simp]: "made alias = Inr (Some alias)"

subsection \<open>Numbered buses\<close>

definition do_hid_entry :: "hid_device_id \<Rightarrow> entry" where
  "do_hid_entry s =
     (let alias = ''hid:'';
          alias = ADD alias ''b'' (hid_bus s \<noteq> HID_BUS_ANY) (hid_bus s);
          alias = ADD alias ''g'' (hid_group s \<noteq> HID_GROUP_ANY) (hid_group s);
          alias = ADD alias ''v'' (hid_vendor s \<noteq> HID_ANY_ID) (hid_vendor s);
          alias = ADD alias ''p'' (hid_product s \<noteq> HID_ANY_ID) (hid_product s)
      in made alias)"

definition do_ieee1394_entry :: "ieee1394_device_id \<Rightarrow> entry" where
  "do_ieee1394_entry s =
     (let flag = (\<lambda>f. ieee1394_match_flags s AND f \<noteq> 0);
          alias = ''ieee1394:'';
          alias = ADD alias ''ven'' (flag IEEE1394_MATCH_VENDOR_ID) (ieee1394_vendor_id s);
          alias = ADD alias ''mo'' (flag IEEE1394_MATCH_MODEL_ID) (ieee1394_model_id s);
          alias = ADD alias ''sp'' (flag IEEE1394_MATCH_SPECIFIER_ID) (ieee1394_specifier_id s);
          alias = ADD alias ''ver'' (flag IEEE1394_MATCH_VERSION) (ieee1394_version s)
      in made (add_wildcard alias))"

text \<open>The class is split into three bytes; each is matched whole or not at all.\<close>

definition do_pci_entry :: "pci_device_id \<Rightarrow> entry" where
  "do_pci_entry s =
     (let alias = ''pci:'';
          alias = ADD alias ''v'' (pci_vendor s \<noteq> PCI_ANY_ID) (pci_vendor s);
          alias = ADD alias ''d'' (pci_device s \<noteq> PCI_ANY_ID) (pci_device s);
          alias = ADD alias ''sv'' (pci_subvendor s \<noteq> PCI_ANY_ID) (pci_subvendor s);
          alias = ADD alias ''sd'' (pci_subdevice s \<noteq> PCI_ANY_ID) (pci_subdevice s);
          baseclass = ucast (drop_bit 16 (pci_class s)) :: u8;
          baseclass_mask = ucast (drop_bit 16 (pci_class_mask s)) :: u8;
          subclass = ucast (drop_bit 8 (pci_class s)) :: u8;
          subclass_mask = ucast (drop_bit 8 (pci_class_mask s)) :: u8;
          interface = ucast (pci_class s) :: u8;
          interface_mask = ucast (pci_class_mask s) :: u8
      in if baseclass_mask \<noteq> 0 \<and> baseclass_mask \<noteq> 0xFF \<or>
            subclass_mask \<noteq> 0 \<and> subclass_mask \<noteq> 0xFF \<or>
            interface_mask \<noteq> 0 \<and> interface_mask \<noteq> 0xFF
         then Inr None
         else
           let alias = ADD alias ''bc'' (baseclass_mask = 0xFF) baseclass;
               alias = ADD alias ''sc'' (subclass_mask = 0xFF) subclass;
               alias = ADD alias ''i'' (interface_mask = 0xFF) interface
           in made (add_wildcard alias))"

definition do_ccw_entry :: "ccw_device_id \<Rightarrow> entry" where
  "do_ccw_entry s =
     (let flag = (\<lambda>f. ccw_match_flags s AND f \<noteq> 0);
          alias = ''ccw:'';
          alias = ADD alias ''t'' (flag CCW_DEVICE_ID_MATCH_CU_TYPE) (ccw_cu_type s);
          alias = ADD alias ''m'' (flag CCW_DEVICE_ID_MATCH_CU_MODEL) (ccw_cu_model s);
          alias = ADD alias ''dt'' (flag CCW_DEVICE_ID_MATCH_DEVICE_TYPE) (ccw_dev_type s);
          alias = ADD alias ''dm'' (flag CCW_DEVICE_ID_MATCH_DEVICE_MODEL) (ccw_dev_model s)
      in made (add_wildcard alias))"

definition do_ap_entry :: "ap_device_id \<Rightarrow> entry" where
  "do_ap_entry s = made (''ap:t'' @ printf_0hex True 2 (unat (ap_dev_type s)) @ ''*'')"

definition do_css_entry :: "css_device_id \<Rightarrow> entry" where
  "do_css_entry s = made (''css:t'' @ printf_0hex True 1 (unat (css_type s)))"

definition do_serio_entry :: "serio_device_id \<Rightarrow> entry" where
  "do_serio_entry s =
     (let alias = ''serio:'';
          alias = ADD alias ''ty'' (serio_type s \<noteq> SERIO_ANY) (serio_type s);
          alias = ADD alias ''pr'' (serio_proto s \<noteq> SERIO_ANY) (serio_proto s);
          alias = ADD alias ''id'' (serio_id s \<noteq> SERIO_ANY) (serio_id s);
          alias = ADD alias ''ex'' (serio_extra s \<noteq> SERIO_ANY) (serio_extra s)
      in made (add_wildcard alias))"

definition do_pcmcia_entry :: "pcmcia_device_id \<Rightarrow> entry" where
  "do_pcmcia_entry s =
     (let flag = (\<lambda>f. pcmcia_match_flags s AND f \<noteq> 0);
          alias = ''pcmcia:'';
          alias = ADD alias ''m'' (flag PCMCIA_DEV_ID_MATCH_MANF_ID) (pcmcia_manf_id s);
          alias = ADD alias ''c'' (flag PCMCIA_DEV_ID_MATCH_CARD_ID) (pcmcia_card_id s);
          alias = ADD alias ''f'' (flag PCMCIA_DEV_ID_MATCH_FUNC_ID) (pcmcia_func_id s);
          alias = ADD alias ''fn'' (flag PCMCIA_DEV_ID_MATCH_FUNCTION) (pcmcia_function s);
          alias = ADD alias ''pfn'' (flag PCMCIA_DEV_ID_MATCH_DEVICE_NO) (pcmcia_device_no s);
          alias = ADD alias ''pa'' (flag PCMCIA_DEV_ID_MATCH_PROD_ID1) (pcmcia_prod_id_hash s ! 0);
          alias = ADD alias ''pb'' (flag PCMCIA_DEV_ID_MATCH_PROD_ID2) (pcmcia_prod_id_hash s ! 1);
          alias = ADD alias ''pc'' (flag PCMCIA_DEV_ID_MATCH_PROD_ID3) (pcmcia_prod_id_hash s ! 2);
          alias = ADD alias ''pd'' (flag PCMCIA_DEV_ID_MATCH_PROD_ID4) (pcmcia_prod_id_hash s ! 3)
      in made (add_wildcard alias))"

definition do_parisc_entry :: "parisc_device_id \<Rightarrow> entry" where
  "do_parisc_entry s =
     (let alias = ''parisc:'';
          alias = ADD alias ''t'' (parisc_hw_type s \<noteq> PA_HWTYPE_ANY_ID) (parisc_hw_type s);
          alias = ADD alias ''hv'' (parisc_hversion s \<noteq> PA_HVERSION_ANY_ID) (parisc_hversion s);
          alias = ADD alias ''rev'' (parisc_hversion_rev s \<noteq> PA_HVERSION_REV_ANY_ID) (parisc_hversion_rev s);
          alias = ADD alias ''sv'' (parisc_sversion s \<noteq> PA_SVERSION_ANY_ID) (parisc_sversion s)
      in made (add_wildcard alias))"

definition do_sdio_entry :: "sdio_device_id \<Rightarrow> entry" where
  "do_sdio_entry s =
     (let alias = ''sdio:'';
          alias = ADD alias ''c'' (sdio_class s \<noteq> ucast SDIO_ANY_ID) (sdio_class s);
          alias = ADD alias ''v'' (sdio_vendor s \<noteq> ucast SDIO_ANY_ID) (sdio_vendor s);
          alias = ADD alias ''d'' (sdio_device s \<noteq> ucast SDIO_ANY_ID) (sdio_device s)
      in made (add_wildcard alias))"

definition do_ssb_entry :: "ssb_device_id \<Rightarrow> entry" where
  "do_ssb_entry s =
     (let alias = ''ssb:'';
          alias = ADD alias ''v'' (ssb_vendor s \<noteq> SSB_ANY_VENDOR) (ssb_vendor s);
          alias = ADD alias ''id'' (ssb_coreid s \<noteq> SSB_ANY_ID) (ssb_coreid s);
          alias = ADD alias ''rev'' (ssb_revision s \<noteq> SSB_ANY_REV) (ssb_revision s)
      in made (add_wildcard alias))"

definition do_bcma_entry :: "bcma_device_id \<Rightarrow> entry" where
  "do_bcma_entry s =
     (let alias = ''bcma:'';
          alias = ADD alias ''m'' (bcma_manuf s \<noteq> BCMA_ANY_MANUF) (bcma_manuf s);
          alias = ADD alias ''id'' (bcma_id s \<noteq> BCMA_ANY_ID) (bcma_id s);
          alias = ADD alias ''rev'' (bcma_rev s \<noteq> BCMA_ANY_REV) (bcma_rev s);
          alias = ADD alias ''cl'' (bcma_class s \<noteq> BCMA_ANY_CLASS) (bcma_class s)
      in made (add_wildcard alias))"

definition do_virtio_entry :: "virtio_device_id \<Rightarrow> entry" where
  "do_virtio_entry s =
     (let alias = ''virtio:'';
          alias = ADD alias ''d'' (virtio_device s \<noteq> VIRTIO_DEV_ANY_ID) (virtio_device s);
          alias = ADD alias ''v'' (virtio_vendor s \<noteq> VIRTIO_DEV_ANY_ID) (virtio_vendor s)
      in made (add_wildcard alias))"

definition do_zorro_entry :: "zorro_device_id \<Rightarrow> entry" where
  "do_zorro_entry s =
     (let alias = ''zorro:'';
          alias = ADD alias ''i'' (zorro_id s \<noteq> ZORRO_WILDCARD) (zorro_id s)
      in made alias)"

definition do_ipack_entry :: "ipack_device_id \<Rightarrow> entry" where
  "do_ipack_entry s =
     (let alias = ''ipack:'';
          alias = ADD alias ''f'' (ipack_format s \<noteq> IPACK_ANY_FORMAT) (ipack_format s);
          alias = ADD alias ''v'' (ipack_vendor s \<noteq> IPACK_ANY_ID) (ipack_vendor s);
          alias = ADD alias ''d'' (ipack_device s \<noteq> IPACK_ANY_ID) (ipack_device s)
      in made (add_wildcard alias))"

definition do_mips_cdmm_entry :: "mips_cdmm_device_id \<Rightarrow> entry" where
  "do_mips_cdmm_entry s = made (''mipscdmm:t'' @ printf_0hex True 2 (unat (mips_cdmm_type s)) @ ''*'')"

definition do_x86cpu_entry :: "x86_cpu_id \<Rightarrow> entry" where
  "do_x86cpu_entry s =
     (let alias = ''cpu:type:x86,'';
          alias = ADD alias ''ven'' (x86_vendor s \<noteq> X86_VENDOR_ANY) (x86_vendor s);
          alias = ADD alias ''fam'' (x86_family s \<noteq> X86_FAMILY_ANY) (x86_family s);
          alias = ADD alias ''mod'' (x86_model s \<noteq> X86_MODEL_ANY) (x86_model s);
          alias = alias @ '':feature:*'';
          alias = (if x86_feature s \<noteq> X86_FEATURE_ANY
                   then alias @ printf_0hex True 4 (unat (x86_feature s)) @ ''*'' else alias)
      in made alias)"

definition do_cpu_entry :: "cpu_feature \<Rightarrow> entry" where
  "do_cpu_entry s = made (''cpu:type:*:feature:*'' @ printf_0hex True 4 (unat (cpu_feature s)) @ ''*'')"

definition do_rio_entry :: "rio_device_id \<Rightarrow> entry" where
  "do_rio_entry s =
     (let alias = ''rapidio:'';
          alias = ADD alias ''v'' (rio_vid s \<noteq> RIO_ANY_ID) (rio_vid s);
          alias = ADD alias ''d'' (rio_did s \<noteq> RIO_ANY_ID) (rio_did s);
          alias = ADD alias ''av'' (rio_asm_vid s \<noteq> RIO_ANY_ID) (rio_asm_vid s);
          alias = ADD alias ''ad'' (rio_asm_did s \<noteq> RIO_ANY_ID) (rio_asm_did s)
      in made (add_wildcard alias))"

definition do_ulpi_entry :: "ulpi_device_id \<Rightarrow> entry" where
  "do_ulpi_entry s =
     made (''ulpi:v'' @ printf_0hex False 4 (unat (ulpi_vendor s)) @
           ''p'' @ printf_0hex False 4 (unat (ulpi_product s)))"

definition do_hda_entry :: "hda_device_id \<Rightarrow> entry" where
  "do_hda_entry s =
     (let alias = ''hdaudio:'';
          alias = ADD alias ''v'' (hda_vendor_id s \<noteq> 0) (hda_vendor_id s);
          alias = ADD alias ''r'' (hda_rev_id s \<noteq> 0) (hda_rev_id s);
          alias = ADD alias ''a'' (hda_api_version s \<noteq> 0) (hda_api_version s)
      in made (add_wildcard alias))"

definition do_sdw_entry :: "sdw_device_id \<Rightarrow> entry" where
  "do_sdw_entry s =
     (let alias = ''sdw:'';
          alias = ADD alias ''m'' (sdw_mfg_id s \<noteq> 0) (sdw_mfg_id s);
          alias = ADD alias ''p'' (sdw_part_id s \<noteq> 0) (sdw_part_id s)
      in made (add_wildcard alias))"

definition do_fsl_mc_entry :: "fsl_mc_device_id \<Rightarrow> entry" where
  "do_fsl_mc_entry s =
     made (''fsl-mc:v'' @ printf_0hex True 8 (unat (fsl_mc_vendor s)) @ ''d'' @ fsl_mc_obj_type s)"

definition do_tbsvc_entry :: "tb_service_id \<Rightarrow> entry" where
  "do_tbsvc_entry s =
     (let flag = (\<lambda>f. tb_match_flags s AND f \<noteq> 0);
          alias = ''tbsvc:'';
          alias = (if flag TBSVC_MATCH_PROTOCOL_KEY then alias @ ''k'' @ tb_protocol_key s else alias @ ''k*'');
          alias = ADD alias ''p'' (flag TBSVC_MATCH_PROTOCOL_ID) (tb_protocol_id s);
          alias = ADD alias ''v'' (flag TBSVC_MATCH_PROTOCOL_VERSION) (tb_protocol_version s);
          alias = ADD alias ''r'' (flag TBSVC_MATCH_PROTOCOL_REVISION) (tb_protocol_revision s)
      in made (add_wildcard alias))"

definition do_typec_entry :: "typec_device_id \<Rightarrow> entry" where
  "do_typec_entry s =
     (let alias = ''typec:id'' @ printf_0hex True 4 (unat (typec_svid s));
          alias = ADD alias ''m'' (typec_mode s \<noteq> TYPEC_ANY_MODE) (typec_mode s)
      in made alias)"

subsection \<open>Named devices\<close>

definition isspace :: "char \<Rightarrow> bool" where
  "isspace c \<longleftrightarrow> (let n = (of_char c :: nat) in n = 32 \<or> 9 \<le> n \<and> n \<le> 13)"

definition underscores :: "string \<Rightarrow> string" where
  "underscores s = map (\<lambda>c. if isspace c then CHR ''_'' else c) s"

definition or_star :: "string \<Rightarrow> string" where
  "or_star s = (if s \<noteq> [] then s else ''*'')"

text \<open>Both pointers of \<open>do_acpi_entry\<close> point into the entry, so neither is ever null.\<close>

definition do_acpi_entry :: "acpi_device_id \<Rightarrow> entry" where
  "do_acpi_entry s =
     (if acpi_id s \<noteq> [] then made (''acpi*:'' @ acpi_id s @ '':*'')
      else
        let digits = (\<lambda>byte_shift.
              let msk = drop_bit byte_shift (acpi_cls_msk s) AND 0xFF in
              if msk \<noteq> 0 then printf_0hex False 2 (unat (drop_bit byte_shift (acpi_cls s) AND 0xFF))
              else ''??'')
        in made (''acpi*:'' @ digits 16 @ digits 8 @ digits 0 @ '':*''))"

definition do_vio_entry :: "vio_device_id \<Rightarrow> entry" where
  "do_vio_entry s =
     (let alias = ''vio:T'' @ or_star (vio_type s) @ ''S'' @ or_star (vio_compat s)
      in made (add_wildcard (underscores alias)))"

text \<open>
  \<open>sig\<close> is a pointer to the array, so the test \<open>sig[0]\<close> is of the array's address: the branch for
  an empty signature is never taken.
\<close>

definition do_eisa_entry :: "eisa_device_id \<Rightarrow> entry" where
  "do_eisa_entry s = made (''eisa:s'' @ eisa_sig s @ ''*'')"

definition do_vmbus_entry :: "hv_vmbus_device_id \<Rightarrow> entry" where
  "do_vmbus_entry s =
     (let guid_name = concat (map (\<lambda>i. printf_0hex False 2 (unat (hv_vmbus_guid s ! i))) [0..<16])
      in made (''vmbus:'' @ guid_name))"

definition do_rpmsg_entry :: "rpmsg_device_id \<Rightarrow> entry" where
  "do_rpmsg_entry s = made (''rpmsg:'' @ rpmsg_name s)"

definition do_i2c_entry :: "i2c_device_id \<Rightarrow> entry" where
  "do_i2c_entry s = made (''i2c:'' @ i2c_name s)"

definition do_spi_entry :: "spi_device_id \<Rightarrow> entry" where
  "do_spi_entry s = made (''spi:'' @ spi_name s)"

definition do_platform_entry :: "platform_device_id \<Rightarrow> entry" where
  "do_platform_entry s = made (''platform:'' @ platform_name s)"

definition do_mei_entry :: "mei_cl_device_id \<Rightarrow> entry" where
  "do_mei_entry s =
     (let alias = ''mei:'';
          alias = alias @ or_star (mei_name s) @ '':'';
          alias = add_uuid alias (mei_uuid s);
          alias = ADD alias '':'' (mei_version s \<noteq> MEI_CL_VERSION_ANY) (mei_version s)
      in made (alias @ '':*''))"

definition dmi_fields :: "(string option \<times> dmi_field) list" where
  "dmi_fields =
    [(Some ''bvn'', DMI_BIOS_VENDOR),
     (Some ''bvr'', DMI_BIOS_VERSION),
     (Some ''bd'', DMI_BIOS_DATE),
     (Some ''svn'', DMI_SYS_VENDOR),
     (Some ''pn'', DMI_PRODUCT_NAME),
     (Some ''pvr'', DMI_PRODUCT_VERSION),
     (Some ''rvn'', DMI_BOARD_VENDOR),
     (Some ''rn'', DMI_BOARD_NAME),
     (Some ''rvr'', DMI_BOARD_VERSION),
     (Some ''cvn'', DMI_CHASSIS_VENDOR),
     (Some ''ct'', DMI_CHASSIS_TYPE),
     (Some ''cvr'', DMI_CHASSIS_VERSION),
     (None, DMI_NONE)]"

definition dmi_ascii_filter :: "string \<Rightarrow> string" where
  "dmi_ascii_filter s = filter (\<lambda>c. 32 < (of_char c :: nat) \<and> (of_char c :: nat) < 127 \<and> c \<noteq> CHR '':'') s"

text \<open>The prefix of \<open>DMI_NONE\<close> is the null pointer; a slot with that number is never set.\<close>

definition do_dmi_entry :: "dmi_system_id \<Rightarrow> entry" where
  "do_dmi_entry s =
     made (''dmi*'' @
       concat (map (\<lambda>(prefix, field).
         concat (map (\<lambda>j.
           let match = dmi_matches s ! j in
           if slot match \<noteq> 0 \<and> unat (slot match) = dmi_number field
           then '':'' @ the prefix @ ''*'' @ dmi_ascii_filter (substr match) @ ''*''
           else '''') [0..<4])) dmi_fields) @ '':'')"

definition do_isapnp_entry :: "isapnp_device_id \<Rightarrow> entry" where
  "do_isapnp_entry s =
     (let vendor = isapnp_vendor s; function = isapnp_function s;
          letter = (\<lambda>w. [char_of (64 + unat (w :: u16))]);
          digit = (\<lambda>w. printf_hex False (unat (w :: u16)))
      in made (''pnp:d'' @
           letter (drop_bit 2 vendor AND 0x3f) @
           letter (push_bit 3 (vendor AND 3) OR (drop_bit 13 vendor AND 7)) @
           letter (drop_bit 8 vendor AND 0x1f) @
           digit (drop_bit 4 function AND 0x0f) @ digit (function AND 0x0f) @
           digit (drop_bit 12 function AND 0x0f) @ digit (drop_bit 8 function AND 0x0f) @ ''*''))"

subsection \<open>Masked numbers\<close>

definition do_mdio_entry :: "mdio_device_id \<Rightarrow> entry" where
  "do_mdio_entry s =
     made (''mdio:'' @ map (\<lambda>i.
       if \<not> bit (mdio_phy_id_mask s) (31 - i) then CHR ''?''
       else if bit (mdio_phy_id s) (31 - i) then CHR ''1''
       else CHR ''0'') [0..<32])"

definition append_nibble_mask :: "string \<Rightarrow> u32 \<Rightarrow> u32 \<Rightarrow> string" where
  "append_nibble_mask out nibble msk =
     out @ (if msk = 0 then ''?''
            else if msk = 0xf then printf_hex True (unat nibble)
            else ''['' @ concat (map (\<lambda>i. if word_of_nat i AND msk = nibble then printf_hex True i else '''') [0..<16]) @ '']'')"

definition do_amba_entry :: "string \<Rightarrow> amba_id \<Rightarrow> entry" where
  "do_amba_entry filename s =
     (if amba_id s AND amba_mask s \<noteq> amba_id s
      then Inl (filename @ '': Masked-off bit(s) of AMBA device ID are non-zero: id=0x'' @
                printf_0hex True 8 (unat (amba_id s)) @ '', mask=0x'' @
                printf_0hex True 8 (unat (amba_mask s)) @ ''.  Please fix this driver.'' @ [CHR 0x0A])
      else made (foldl (\<lambda>p digit.
             append_nibble_mask p (drop_bit (4 * (7 - digit)) (amba_id s) AND 0xf)
               (drop_bit (4 * (7 - digit)) (amba_mask s) AND 0xf)) ''amba:d'' [0..<8]))"

subsection \<open>Input devices\<close>

definition BITS_PER_LONG :: nat where
  "BITS_PER_LONG = 32"

definition do_input :: "string \<Rightarrow> kernel_ulong_t list \<Rightarrow> nat \<Rightarrow> nat \<Rightarrow> string" where
  "do_input alias arr lo hi =
     foldl (\<lambda>alias i.
       if bit (arr ! (i div BITS_PER_LONG)) (i mod BITS_PER_LONG)
       then alias @ printf_hex True i @ '',*'' else alias) alias [lo..<hi]"

definition do_input_entry :: "input_device_id \<Rightarrow> entry" where
  "do_input_entry s =
     (let flag = (\<lambda>f. input_flags s AND f \<noteq> 0);
          bits = (\<lambda>alias f arr lo hi. if flag f then do_input alias arr lo hi else alias);
          alias = ''input:'';
          alias = ADD alias ''b'' (flag INPUT_DEVICE_ID_MATCH_BUS) (input_bustype s);
          alias = ADD alias ''v'' (flag INPUT_DEVICE_ID_MATCH_VENDOR) (input_vendor s);
          alias = ADD alias ''p'' (flag INPUT_DEVICE_ID_MATCH_PRODUCT) (input_product s);
          alias = ADD alias ''e'' (flag INPUT_DEVICE_ID_MATCH_VERSION) (input_version s);
          alias = bits (alias @ ''-e*'') INPUT_DEVICE_ID_MATCH_EVBIT (input_evbit s) 0 INPUT_DEVICE_ID_EV_MAX;
          alias = bits (alias @ ''k*'') INPUT_DEVICE_ID_MATCH_KEYBIT (input_keybit s)
                    INPUT_DEVICE_ID_KEY_MIN_INTERESTING INPUT_DEVICE_ID_KEY_MAX;
          alias = bits (alias @ ''r*'') INPUT_DEVICE_ID_MATCH_RELBIT (input_relbit s) 0 INPUT_DEVICE_ID_REL_MAX;
          alias = bits (alias @ ''a*'') INPUT_DEVICE_ID_MATCH_ABSBIT (input_absbit s) 0 INPUT_DEVICE_ID_ABS_MAX;
          alias = bits (alias @ ''m*'') INPUT_DEVICE_ID_MATCH_MSCIT (input_mscbit s) 0 INPUT_DEVICE_ID_MSC_MAX;
          alias = bits (alias @ ''l*'') INPUT_DEVICE_ID_MATCH_LEDBIT (input_ledbit s) 0 INPUT_DEVICE_ID_LED_MAX;
          alias = bits (alias @ ''s*'') INPUT_DEVICE_ID_MATCH_SNDBIT (input_sndbit s) 0 INPUT_DEVICE_ID_SND_MAX;
          alias = bits (alias @ ''f*'') INPUT_DEVICE_ID_MATCH_FFBIT (input_ffbit s) 0 INPUT_DEVICE_ID_FF_MAX;
          alias = bits (alias @ ''w*'') INPUT_DEVICE_ID_MATCH_SWBIT (input_swbit s) 0 INPUT_DEVICE_ID_SW_MAX
      in made alias)"

end
