(* ===== verification/Alias_Match.thy ===== *)
theory Alias_Match
  imports Alias_Entries
begin

text \<open>
  What the aliases match. A bus names a device by letters and hexadecimal numbers of fixed width;
  an alias has the same letters with a number or \<open>*\<close> after each. The letters are lower case and
  the digits are not, so a \<open>*\<close> cannot run over a letter and every field is matched by itself.
\<close>

subsection \<open>Letters keep the fields apart\<close>

definition lower :: "char \<Rightarrow> bool" where
  "lower c \<longleftrightarrow> 97 \<le> (of_char c :: nat) \<and> (of_char c :: nat) \<le> 122"

definition letters :: "string \<Rightarrow> nat" where
  "letters s = length (filter lower s)"

fun lit_letters :: "token list \<Rightarrow> nat" where
  "lit_letters [] = 0"
| "lit_letters (Lit c # p) = (if lower c then Suc (lit_letters p) else lit_letters p)"
| "lit_letters (t # p) = lit_letters p"

lemma letters_simps [simp]: "letters [] = 0" "letters (c # s) = (if lower c then 1 else 0) + letters s"
  "letters (s @ t) = letters s + letters t"
  by (simp_all add: letters_def)

lemma lit_letters_append [simp]: "lit_letters (p @ q) = lit_letters p + lit_letters q"
  by (induction p rule: lit_letters.induct) simp_all

lemma lit_letters_Lit [simp]: "lit_letters (map Lit s) = letters s"
  by (induction s) simp_all

lemma glob_append: "glob (p @ q) s \<longleftrightarrow> (\<exists>a b. s = a @ b \<and> glob p a \<and> glob q b)"
proof (induction p arbitrary: s)
  case (Cons t p)
  show ?case
  proof (cases "t = Star")
    case True
    show ?thesis unfolding True append_Cons glob_Star Cons.IH by (metis append_assoc)
  next
    case False
    define accepts where "accepts c = glob [t] [c]" for c
    have step: "glob (t # r) x \<longleftrightarrow> (\<exists>c y. x = c # y \<and> accepts c \<and> glob r y)" for r x
      using False by (cases t; cases x) (auto simp: accepts_def)
    show ?thesis unfolding append_Cons step Cons.IH by (metis append_Cons)
  qed
qed simp

lemma glob_letters: "glob p s \<Longrightarrow> lit_letters p \<le> letters s"
proof (induction p s rule: glob.induct)
  case (3 p c s)
  then show ?case by (auto intro: le_trans)
qed (auto intro: le_SucI)

lemma no_letters: "letters s = 0 \<longleftrightarrow> (\<forall>c \<in> set s. \<not> lower c)"
  by (induction s) auto

text \<open>A rest that starts with a letter and needs all the letters there are starts where they do.\<close>

lemma glob_field:
  assumes rest: "p = Lit c # p'" "lower c" and str: "s = c' # s'" "lower c'"
    and count: "lit_letters p = letters s" and h: "letters h = 0"
  shows "glob (q @ p) (h @ s) \<longleftrightarrow> glob q h \<and> glob p s"
proof
  assume "glob (q @ p) (h @ s)"
  then obtain a b where ab: "h @ s = a @ b" "glob q a" "glob p b" by (auto simp: glob_append)
  have many: "letters s \<le> letters b" using glob_letters [OF ab(3)] count by simp
  have "b = s"
  proof (cases "length a \<le> length h")
    case True
    then have b: "b = drop (length a) h @ s" and a: "a = take (length a) h"
      using ab(1) by (auto simp: append_eq_append_conv2)
    show ?thesis
    proof (cases "drop (length a) h")
      case (Cons x xs)
      then have "x \<in> set h" by (metis in_set_dropD list.set_intros(1))
      then have "\<not> lower x" using h by (simp add: no_letters)
      then have False using ab(3) rest b Cons by simp
      then show ?thesis ..
    qed (use b in simp)
  next
    case False
    then have "s = drop (length h) a @ b" and "drop (length h) a \<noteq> []"
      using ab(1) by (auto simp: append_eq_append_conv2)
    then obtain xs where "s = c' # xs @ b" using str by (cases "drop (length h) a") auto
    then have "letters s > letters b" using str by simp
    then show ?thesis using many by simp
  qed
  then show "glob q h \<and> glob p s" using ab by simp
next
  assume "glob q h \<and> glob p s"
  then show "glob (q @ p) (h @ s)" by (auto simp: glob_append)
qed

text \<open>A field is its letters, a pattern for what follows them, and what follows them in the device.\<close>

type_synonym field = "string \<times> token list \<times> string"

definition field_ok :: "field \<Rightarrow> bool" where
  "field_ok f = (case f of (sep, q, h) \<Rightarrow>
     sep \<noteq> [] \<and> list_all lower sep \<and> lit_letters q = 0 \<and> letters h = 0)"

definition tokens :: "field list \<Rightarrow> token list" where
  "tokens fs = concat (map (\<lambda>(sep, q, h). map Lit sep @ q) fs)"

definition device_text :: "field list \<Rightarrow> string" where
  "device_text fs = concat (map (\<lambda>(sep, q, h). sep @ h) fs)"

lemma fields_count: "list_all field_ok fs \<Longrightarrow> lit_letters (tokens fs) = letters (device_text fs)"
  by (induction fs) (auto simp: tokens_def device_text_def field_ok_def)

lemma fields_start:
  "list_all field_ok (f # fs) \<Longrightarrow> \<exists>c p s. tokens (f # fs) = Lit c # p \<and> device_text (f # fs) = c # s \<and> lower c"
  by (cases f; cases "fst f") (auto simp: tokens_def device_text_def field_ok_def)

lemma fields_match: "list_all field_ok fs \<Longrightarrow> glob (tokens fs) (device_text fs) \<longleftrightarrow> (\<forall>(sep, q, h) \<in> set fs. glob q h)"
proof (induction fs)
  case (Cons f fs)
  obtain sep q h where f: "f = (sep, q, h)" by (cases f)
  have ok: "field_ok (sep, q, h)" "list_all field_ok fs" using Cons.prems f by simp_all
  have h: "letters h = 0" using ok(1) by (simp add: field_ok_def)
  have "glob (tokens (f # fs)) (device_text (f # fs)) \<longleftrightarrow> glob (q @ tokens fs) (h @ device_text fs)"
    by (simp add: f tokens_def device_text_def glob_Lit)
  also have "\<dots> \<longleftrightarrow> glob q h \<and> glob (tokens fs) (device_text fs)"
  proof (cases fs)
    case Nil
    then show ?thesis by (simp add: tokens_def device_text_def)
  next
    case (Cons g gs)
    obtain c p s where start: "tokens fs = Lit c # p" "device_text fs = c # s" "lower c"
      using fields_start [of g gs] ok(2) unfolding Cons by blast
    show ?thesis
      by (rule glob_field [OF start(1,3) start(2,3) fields_count [OF ok(2)] h])
  qed
  finally show ?case using Cons.IH [OF ok(2)] f by simp
qed (simp add: tokens_def device_text_def)

lemma pattern_set:
  assumes "CHR '']'' \<notin> set s"
  shows "pattern (''['' @ s @ '']'' @ t) = Class (ranges s) # pattern t"
proof -
  have "takeWhile (\<lambda>x. x \<noteq> CHR '']'') (s @ CHR '']'' # t) = s"
    "dropWhile (\<lambda>x. x \<noteq> CHR '']'') (s @ CHR '']'' # t) = CHR '']'' # t"
    using assms by (induction s) auto
  then show ?thesis by simp
qed

lemma printf_hex_digit: "n < 16 \<Longrightarrow> printf_hex upper n = [hex_digit upper n]"
  by (simp add: printf_hex.simps)

subsection \<open>Fields that are numbers\<close>

lemma hex_digit_table:
  "list_all (\<lambda>d. plain (hex_digit True d) \<and> \<not> lower (hex_digit True d) \<and> plain (hex_digit False d)) [0..<16]"
  by code_simp

lemma hex_digit_plain: "d < 16 \<Longrightarrow> plain (hex_digit True d) \<and> \<not> lower (hex_digit True d) \<and> plain (hex_digit False d)"
  using hex_digit_table by (simp add: list_all_iff)

lemma hex_digits_plain: "list_all plain (hex_digits upper w n)"
  by (induction w arbitrary: n) (use hex_digit_plain in \<open>cases upper; simp\<close>)+

lemma hex_digits_no_letters [simp]: "letters (hex_digits True w n) = 0"
  by (induction w arbitrary: n) (simp_all add: hex_digit_plain)

definition number :: "bool \<Rightarrow> nat \<Rightarrow> nat \<Rightarrow> token list" where
  "number cond w v = (if cond then map Lit (hex_digits True w v) else [Star])"

lemma number_letters [simp]: "lit_letters (number cond w v) = 0"
  by (simp add: number_def)

lemma glob_stars [simp]: "glob [Star] s" "glob [Star, Star] s"
  by (auto simp: glob_Star)

lemma glob_Lit_exact: "length a = length b \<Longrightarrow> glob (map Lit a) b \<longleftrightarrow> a = b"
  using glob_Lit [of a b "[]" "[]"] by simp

lemma glob_number:
  assumes "v < 16 ^ w" and "d < 16 ^ w"
  shows "glob (number cond w v) (hex_digits True w d) \<longleftrightarrow> (cond \<longrightarrow> v = d)"
    and "glob (number cond w v @ [Star]) (hex_digits True w d) \<longleftrightarrow> (cond \<longrightarrow> v = d)"
proof -
  have "glob (map Lit (hex_digits True w v) @ [Star]) (hex_digits True w d @ []) \<longleftrightarrow>
      hex_digits True w v = hex_digits True w d"
    by (subst glob_Lit) simp_all
  then show "glob (number cond w v @ [Star]) (hex_digits True w d) \<longleftrightarrow> (cond \<longrightarrow> v = d)"
    using hex_digits_inject [OF assms] by (simp add: number_def)
qed (simp add: number_def glob_Lit_exact hex_digits_inject [OF assms])

lemma pattern_field:
  "list_all plain sep \<Longrightarrow> pattern (field_pattern sep cond w v @ s) = map Lit sep @ number cond w v @ pattern s"
  by (simp add: field_pattern_def pattern_plain hex_digits_plain number_def)

text \<open>
  The description of a field of a bus: its letters, whether the entry asks for a number, the
  width, the number in the entry and that of the device.
\<close>

type_synonym number_field = "string \<times> bool \<times> nat \<times> nat \<times> nat"

definition number_ok :: "number_field \<Rightarrow> bool" where
  "number_ok f = (case f of (sep, cond, w, v, d) \<Rightarrow>
     sep \<noteq> [] \<and> list_all lower sep \<and> 0 < w \<and> v < 16 ^ w \<and> d < 16 ^ w)"

definition numbers_alias :: "number_field list \<Rightarrow> string" where
  "numbers_alias fs = concat (map (\<lambda>(sep, cond, w, v, d). field_pattern sep cond w v) fs)"

definition numbers_device :: "number_field list \<Rightarrow> string" where
  "numbers_device fs = concat (map (\<lambda>(sep, cond, w, v, d). sep @ hex_digits True w d) fs)"

definition as_field :: "number_field \<Rightarrow> field" where
  "as_field f = (case f of (sep, cond, w, v, d) \<Rightarrow> (sep, number cond w v, hex_digits True w d))"

lemma lower_plain: "lower c \<Longrightarrow> plain c"
  by (auto simp: lower_def plain_def)

lemma numbers_pattern: "list_all number_ok fs \<Longrightarrow> pattern (numbers_alias fs @ s) = tokens (map as_field fs) @ pattern s"
proof (induction fs)
  case (Cons f fs)
  then show ?case
    by (auto simp: numbers_alias_def tokens_def as_field_def number_ok_def pattern_field list_all_iff lower_plain)
qed (simp add: numbers_alias_def tokens_def)

lemma as_field_ok: "list_all number_ok fs \<Longrightarrow> list_all field_ok (map as_field fs)"
  by (induction fs) (auto simp: as_field_def field_ok_def number_ok_def)

lemma numbers_device_fields: "numbers_device fs = device_text (map as_field fs)"
  by (auto simp: numbers_device_def device_text_def as_field_def o_def intro!: arg_cong [of _ _ concat])

lemma as_field_glob:
  "list_all number_ok fs \<Longrightarrow>
    (\<forall>(sep, q, h) \<in> set (map as_field fs). glob q h) \<longleftrightarrow> (\<forall>(sep, cond, w, v, d) \<in> set fs. cond \<longrightarrow> v = d)"
  by (induction fs) (auto simp: as_field_def number_ok_def glob_number)

lemma numbers_match:
  assumes "list_all number_ok fs" and "list_all plain prefix"
  shows "matches (prefix @ numbers_alias fs) (prefix @ numbers_device fs) \<longleftrightarrow>
    (\<forall>(sep, cond, w, v, d) \<in> set fs. cond \<longrightarrow> v = d)"
proof -
  have "matches (prefix @ numbers_alias fs) (prefix @ numbers_device fs) \<longleftrightarrow>
      glob (tokens (map as_field fs)) (device_text (map as_field fs))"
    using numbers_pattern [OF assms(1), of "[]"]
    by (simp add: matches_def pattern_plain assms(2) glob_Lit numbers_device_fields)
  then show ?thesis
    unfolding fields_match [OF as_field_ok [OF assms(1)]] as_field_glob [OF assms(1)] .
qed

text \<open>With the closing \<open>*\<close> of \<open>add_wildcard\<close>.\<close>

lemma last_hex_digits: "0 < w \<Longrightarrow> last (hex_digits upper w n) \<noteq> CHR ''*''"
  by (cases w) (use hex_digit_plain [of "n mod 16"] in \<open>cases upper; auto simp: plain_def\<close>)+

lemma hex_digits_not_Nil: "0 < w \<Longrightarrow> hex_digits upper w n \<noteq> []"
  by (cases w) simp_all

lemma add_wildcard_field:
  "0 < w \<Longrightarrow> add_wildcard (str @ field_pattern sep cond w v) =
    str @ field_pattern sep cond w v @ (if cond then ''*'' else '''')"
  using last_hex_digits [of w True v] hex_digits_not_Nil [of w True v]
  by (auto simp: add_wildcard_def field_pattern_def)

text \<open>The last field takes the closing \<open>*\<close>, unless it ends in one.\<close>

definition wildcard_alias :: "number_field list \<Rightarrow> number_field \<Rightarrow> string" where
  "wildcard_alias fs f = (case f of (sep, cond, w, v, d) \<Rightarrow>
     numbers_alias fs @ field_pattern sep cond w v @ (if cond then ''*'' else []))"

definition wild_field :: "number_field \<Rightarrow> field" where
  "wild_field f = (case f of (sep, cond, w, v, d) \<Rightarrow>
     (sep, number cond w v @ (if cond then [Star] else []), hex_digits True w d))"

definition wild_fields :: "number_field list \<Rightarrow> number_field \<Rightarrow> field list" where
  "wild_fields fs f = map as_field fs @ [wild_field f]"

lemma add_wildcard_numbers:
  assumes "number_ok f"
  shows "add_wildcard (str @ numbers_alias (fs @ [f])) = str @ wildcard_alias fs f"
proof -
  obtain sep cond w v d where f: "f = (sep, cond, w, v, d)" by (cases f)
  show ?thesis using assms add_wildcard_field [of w "str @ numbers_alias fs" sep cond v]
    by (simp add: f number_ok_def numbers_alias_def wildcard_alias_def)
qed

lemma wildcard_pattern:
  assumes "list_all number_ok fs" and "number_ok f"
  shows "pattern (wildcard_alias fs f) = tokens (wild_fields fs f)"
proof -
  obtain sep cond w v d where f: "f = (sep, cond, w, v, d)" by (cases f)
  have "list_all plain sep" using assms(2) by (auto simp: f number_ok_def list_all_iff lower_plain)
  then show ?thesis
    by (simp add: f wildcard_alias_def wild_fields_def numbers_pattern [OF assms(1)] pattern_field tokens_def wild_field_def)
qed

lemma wild_fields_ok: "list_all number_ok fs \<Longrightarrow> number_ok f \<Longrightarrow> list_all field_ok (wild_fields fs f)"
  using as_field_ok [of fs] by (cases f) (simp add: wild_fields_def wild_field_def field_ok_def number_ok_def)

lemma wild_fields_device: "numbers_device (fs @ [f]) = device_text (wild_fields fs f)"
  by (cases f) (simp add: numbers_device_def device_text_def wild_fields_def wild_field_def as_field_def case_prod_unfold o_def)

lemma wild_fields_glob:
  assumes "list_all number_ok fs" and "number_ok f"
  shows "(\<forall>(sep, q, h) \<in> set (wild_fields fs f). glob q h) \<longleftrightarrow>
    (\<forall>(sep, cond, w, v, d) \<in> set (fs @ [f]). cond \<longrightarrow> v = d)"
proof -
  obtain sep cond w v d where f: "f = (sep, cond, w, v, d)" by (cases f)
  have "glob (number cond w v @ (if cond then [Star] else [])) (hex_digits True w d) \<longleftrightarrow> (cond \<longrightarrow> v = d)"
    using assms(2) glob_number [of v w d cond] by (cases cond) (simp_all add: f number_ok_def)
  then show ?thesis using as_field_glob [OF assms(1)]
    by (auto simp: wild_fields_def wild_field_def f)
qed

lemma numbers_match_wildcard:
  assumes "list_all number_ok (fs @ [f])" and "list_all plain prefix"
  shows "matches (add_wildcard (prefix @ numbers_alias (fs @ [f]))) (prefix @ numbers_device (fs @ [f])) \<longleftrightarrow>
    (\<forall>(sep, cond, w, v, d) \<in> set (fs @ [f]). cond \<longrightarrow> v = d)"
proof -
  have ok: "list_all number_ok fs" "number_ok f" using assms(1) by simp_all
  show ?thesis
    unfolding add_wildcard_numbers [OF ok(2)] wild_fields_device matches_def pattern_plain [OF assms(2)]
      wildcard_pattern [OF ok] glob_Lit [OF refl] fields_match [OF wild_fields_ok [OF ok]] wild_fields_glob [OF ok]
    by simp
qed

end
