(* ===== verification/Alias_Buses.thy ===== *)
theory Alias_Buses
  imports Alias_Match
begin

text \<open>
  The aliases of several buses against the rule by which the bus compares an entry with a device.
  The string of a device is the one its bus reports, the alias with every field a number.
\<close>

subsection \<open>PCI\<close>

definition pci_string :: "u32 \<Rightarrow> u32 \<Rightarrow> u32 \<Rightarrow> u32 \<Rightarrow> u32 \<Rightarrow> string" where
  "pci_string vendor device subvendor subdevice cls =
     ''pci:v'' @ hex_digits True 8 (unat vendor) @ ''d'' @ hex_digits True 8 (unat device) @
     ''sv'' @ hex_digits True 8 (unat subvendor) @ ''sd'' @ hex_digits True 8 (unat subdevice) @
     ''bc'' @ hex_digits True 2 (unat (ucast (drop_bit 16 cls) :: u8)) @
     ''sc'' @ hex_digits True 2 (unat (ucast (drop_bit 8 cls) :: u8)) @
     ''i'' @ hex_digits True 2 (unat (ucast cls :: u8))"

text \<open>Three bytes that are compared whole or not at all.\<close>

definition byte_at :: "nat \<Rightarrow> u32 \<Rightarrow> u8" where
  "byte_at k w = ucast (drop_bit (8 * k) w)"

lemma bit_byte_at: "bit (byte_at k w) n \<longleftrightarrow> n < 8 \<and> bit w (8 * k + n)"
  by (auto simp: byte_at_def bit_unsigned_iff bit_drop_bit_eq dest: bit_imp_le_length)

lemma byte_masks:
  assumes "byte_at k m = 0 \<or> byte_at k m = 0xFF"
  shows "(byte_at k m = 0xFF \<longrightarrow> byte_at k x = byte_at k y) \<longleftrightarrow>
    (\<forall>n < 8. bit m (8 * k + n) \<longrightarrow> bit x (8 * k + n) = bit y (8 * k + n))"
proof -
  have "bit m (8 * k + n) \<longleftrightarrow> byte_at k m = 0xFF" if "n < 8" for n
  proof -
    have eq: "(0xFF :: u8) = mask 8" by (simp add: mask_eq_exp_minus_1)
    have "bit (0xFF :: u8) n"
      unfolding eq by (rule iffD2 [OF bit_mask_iff]) (use that in simp)
    then have "bit (byte_at k m) n \<longleftrightarrow> byte_at k m = 0xFF"
      using assms by auto
    then show ?thesis using that by (simp add: bit_byte_at)
  qed
  then show ?thesis
    by (auto simp: bit_eq_iff [of "byte_at k x"] bit_byte_at)
qed

lemma less_24_split: "(\<forall>n < 24. P n) \<longleftrightarrow> (\<forall>n < 8. P n) \<and> (\<forall>n < 8. P (8 + n)) \<and> (\<forall>n < 8. P (16 + n :: nat))"
proof
  assume small: "(\<forall>n < 8. P n) \<and> (\<forall>n < 8. P (8 + n)) \<and> (\<forall>n < 8. P (16 + n))"
  show "\<forall>n < 24. P n"
  proof (intro allI impI)
    fix n :: nat
    assume "n < 24"
    then consider "n < 8" | "n - 8 < 8" "n = 8 + (n - 8)" | "n - 16 < 8" "n = 16 + (n - 16)" by linarith
    then show "P n" by cases (use small in metis)+
  qed
qed auto

lemma masked_bits: "(x XOR y) AND m AND mask k = (0 :: u32) \<longleftrightarrow> (\<forall>n < k. bit m n \<longrightarrow> bit x n = bit y n)"
proof -
  have "bit m n \<Longrightarrow> n < 32" for n using bit_imp_le_length [of m n] by simp
  then show ?thesis
    by (simp add: bit_eq_iff [of _ 0] bit_and_iff bit_xor_iff bit_mask_iff) blast
qed

lemma masked_24: "(x XOR y) AND m AND (0xFFFFFF :: u32) = 0 \<longleftrightarrow> (\<forall>n < 24. bit m n \<longrightarrow> bit x n = bit y n)"
proof -
  have eq: "(0xFFFFFF :: u32) = mask 24" by (simp add: mask_eq_exp_minus_1)
  show ?thesis unfolding eq by (rule masked_bits)
qed

lemma less_3: "(\<forall>k < 3. P k) \<longleftrightarrow> P 0 \<and> P 1 \<and> P (2 :: nat)"
  by (auto simp: numeral_3_eq_3 less_Suc_eq numeral_2_eq_2)

lemma class_match:
  assumes "\<forall>k < 3. byte_at k m = 0 \<or> byte_at k m = 0xFF"
  shows "(x XOR y) AND m AND 0xFFFFFF = 0 \<longleftrightarrow>
    (\<forall>k < 3. byte_at k m = 0xFF \<longrightarrow> byte_at k x = byte_at k y)"
proof -
  show ?thesis
    using assms byte_masks [of 0 m x y] byte_masks [of 1 m x y] byte_masks [of 2 m x y]
    unfolding masked_24 less_24_split less_3 by simp
qed

text \<open>The fields of an entry, compared with those of a device.\<close>

definition pci_fields :: "pci_device_id \<Rightarrow> u32 \<Rightarrow> u32 \<Rightarrow> u32 \<Rightarrow> u32 \<Rightarrow> u32 \<Rightarrow> number_field list" where
  "pci_fields s vendor device subvendor subdevice cls =
    [(''v'', pci_vendor s \<noteq> PCI_ANY_ID, 8, unat (pci_vendor s), unat vendor),
     (''d'', pci_device s \<noteq> PCI_ANY_ID, 8, unat (pci_device s), unat device),
     (''sv'', pci_subvendor s \<noteq> PCI_ANY_ID, 8, unat (pci_subvendor s), unat subvendor),
     (''sd'', pci_subdevice s \<noteq> PCI_ANY_ID, 8, unat (pci_subdevice s), unat subdevice),
     (''bc'', byte_at 2 (pci_class_mask s) = 0xFF, 2, unat (byte_at 2 (pci_class s)), unat (byte_at 2 cls)),
     (''sc'', byte_at 1 (pci_class_mask s) = 0xFF, 2, unat (byte_at 1 (pci_class s)), unat (byte_at 1 cls))]"

definition pci_last :: "pci_device_id \<Rightarrow> u32 \<Rightarrow> number_field" where
  "pci_last s cls = (''i'', byte_at 0 (pci_class_mask s) = 0xFF, 2, unat (byte_at 0 (pci_class s)), unat (byte_at 0 cls))"

lemma pci_fields_ok: "list_all number_ok (pci_fields s v d sv sd c @ [pci_last s c])"
  by (simp add: pci_fields_def pci_last_def number_ok_def lower_def)

definition whole_masks :: "u32 \<Rightarrow> bool" where
  "whole_masks m \<longleftrightarrow> (\<forall>k < 3. byte_at k m = 0 \<or> byte_at k m = 0xFF)"

lemma pci_alias:
  "do_pci_entry s =
    (if whole_masks (pci_class_mask s)
     then made (add_wildcard (''pci:'' @ numbers_alias (pci_fields s v d sv sd c @ [pci_last s c])))
     else Inr None)"
  by (auto simp: do_pci_entry_def Let_def ADD_pattern numbers_alias_def pci_fields_def pci_last_def
      whole_masks_def less_3 byte_at_def)

lemma pci_string_fields: "pci_string v d sv sd c = ''pci:'' @ numbers_device (pci_fields s v d sv sd c @ [pci_last s c])"
  by (simp add: pci_string_def numbers_device_def pci_fields_def pci_last_def byte_at_def)

lemma pci_fields_all:
  "(\<forall>(sep, cond, w, v, d) \<in> set (pci_fields s v d sv sd c @ [pci_last s c]). cond \<longrightarrow> v = d) \<longleftrightarrow>
    (pci_vendor s \<noteq> PCI_ANY_ID \<longrightarrow> pci_vendor s = v) \<and> (pci_device s \<noteq> PCI_ANY_ID \<longrightarrow> pci_device s = d) \<and>
    (pci_subvendor s \<noteq> PCI_ANY_ID \<longrightarrow> pci_subvendor s = sv) \<and> (pci_subdevice s \<noteq> PCI_ANY_ID \<longrightarrow> pci_subdevice s = sd) \<and>
    (byte_at 2 (pci_class_mask s) = 0xFF \<longrightarrow> byte_at 2 (pci_class s) = byte_at 2 c) \<and>
    (byte_at 1 (pci_class_mask s) = 0xFF \<longrightarrow> byte_at 1 (pci_class s) = byte_at 1 c) \<and>
    (byte_at 0 (pci_class_mask s) = 0xFF \<longrightarrow> byte_at 0 (pci_class s) = byte_at 0 c)"
  by (simp add: pci_fields_def pci_last_def word_unat_eq_iff [symmetric])

text \<open>
  C6. The alias of a PCI entry matches a device exactly when the entry does: every identifier is the
  wildcard or that of the device, and the classes agree under the mask.
\<close>

theorem pci_alias_matches:
  assumes "do_pci_entry s = Inr (Some alias)"
  shows "matches alias (pci_string v d sv sd c) \<longleftrightarrow>
    (pci_vendor s = PCI_ANY_ID \<or> pci_vendor s = v) \<and> (pci_device s = PCI_ANY_ID \<or> pci_device s = d) \<and>
    (pci_subvendor s = PCI_ANY_ID \<or> pci_subvendor s = sv) \<and> (pci_subdevice s = PCI_ANY_ID \<or> pci_subdevice s = sd) \<and>
    (pci_class s XOR c) AND pci_class_mask s AND 0xFFFFFF = 0"
proof -
  have masks: "whole_masks (pci_class_mask s)" and
    made: "alias = add_wildcard (''pci:'' @ numbers_alias (pci_fields s v d sv sd c @ [pci_last s c]))"
    using assms unfolding pci_alias [of s v d sv sd c] by (simp_all split: if_splits)
  have "(pci_class s XOR c) AND pci_class_mask s AND 0xFFFFFF = 0 \<longleftrightarrow>
      (byte_at 0 (pci_class_mask s) = 0xFF \<longrightarrow> byte_at 0 (pci_class s) = byte_at 0 c) \<and>
      (byte_at 1 (pci_class_mask s) = 0xFF \<longrightarrow> byte_at 1 (pci_class s) = byte_at 1 c) \<and>
      (byte_at 2 (pci_class_mask s) = 0xFF \<longrightarrow> byte_at 2 (pci_class s) = byte_at 2 c)"
    using class_match [OF masks [unfolded whole_masks_def]] by (simp add: less_3)
  moreover have "matches alias (pci_string v d sv sd c) \<longleftrightarrow>
      (\<forall>(sep, cond, w, v, d) \<in> set (pci_fields s v d sv sd c @ [pci_last s c]). cond \<longrightarrow> v = d)"
    unfolding made pci_string_fields [of v d sv sd c s]
    by (rule numbers_match_wildcard [OF pci_fields_ok]) (simp add: plain_def)
  ultimately show ?thesis unfolding pci_fields_all by blast
qed

definition pci_example :: pci_device_id where
  "pci_example = \<lparr> pci_vendor = 0x8086, pci_device = PCI_ANY_ID, pci_subvendor = PCI_ANY_ID,
     pci_subdevice = PCI_ANY_ID, pci_class = 0x020000, pci_class_mask = 0xFFFF00, pci_driver_data = 0 \<rparr>"

lemma pci_example_alias: "do_pci_entry pci_example = Inr (Some ''pci:v00008086d*sv*sd*bc02sc00i*'')"
  by (simp add: do_pci_entry_def pci_example_def Let_def devid ADD_def printf_0hex_def printf_hex.simps
      hex_digit_def add_wildcard_def)

theorem pci_alias_matches_witness:
  "matches ''pci:v00008086d*sv*sd*bc02sc00i*'' (pci_string 0x8086 0x100E 0x1AF4 0x1100 0x020000)"
  using pci_alias_matches [OF pci_example_alias, where v = "0x8086" and d = "0x100E" and sv = "0x1AF4" and sd = "0x1100" and c = "0x020000"]
  by (simp add: pci_example_def PCI_ANY_ID_def)

subsection \<open>MDIO\<close>

definition mdio_string :: "u32 \<Rightarrow> string" where
  "mdio_string phy_id = ''mdio:'' @ map (\<lambda>i. if bit phy_id (31 - i) then CHR ''1'' else CHR ''0'') [0..<32]"

lemma glob_digits:
  "glob (pattern (map (\<lambda>i. if \<not> m i then CHR ''?'' else if p i then CHR ''1'' else CHR ''0'') is))
     (map (\<lambda>i. if q i then CHR ''1'' else CHR ''0'') is) \<longleftrightarrow> (\<forall>i \<in> set is. m i \<longrightarrow> p i = q i)"
  by (induction "is") auto

lemma reverse_32: "(\<forall>i \<in> set [0..<32]. P (31 - i)) \<longleftrightarrow> (\<forall>n < (32 :: nat). P n)"
proof
  assume all: "\<forall>i \<in> set [0..<32]. P (31 - i)"
  have "P n" if "n < 32" for n
    using bspec [OF all, of "31 - n"] that by simp
  then show "\<forall>n < 32. P n" by blast
qed auto

lemma agree_32: "(x :: u32) AND m = y AND m \<longleftrightarrow> (\<forall>n < 32. bit m n \<longrightarrow> bit x n = bit y n)"
  by (auto simp: bit_eq_iff bit_and_iff dest: bit_imp_le_length)

text \<open>
  The alias of a PHY matches the identifiers that agree with it under the mask.
\<close>

theorem mdio_alias_matches:
  assumes "do_mdio_entry s = Inr (Some alias)"
  shows "matches alias (mdio_string phy_id) \<longleftrightarrow>
    phy_id AND mdio_phy_id_mask s = mdio_phy_id s AND mdio_phy_id_mask s"
proof -
  have made: "alias = ''mdio:'' @ map (\<lambda>i. if \<not> bit (mdio_phy_id_mask s) (31 - i) then CHR ''?''
      else if bit (mdio_phy_id s) (31 - i) then CHR ''1'' else CHR ''0'') [0..<32]"
    using assms by (simp add: do_mdio_entry_def)
  have plain: "list_all plain ''mdio:''" by (simp add: plain_def)
  have "matches alias (mdio_string phy_id) \<longleftrightarrow>
      (\<forall>i \<in> set [0..<32]. bit (mdio_phy_id_mask s) (31 - i) \<longrightarrow> bit (mdio_phy_id s) (31 - i) = bit phy_id (31 - i))"
    unfolding made mdio_string_def matches_def pattern_plain [OF plain] glob_Lit [OF refl] glob_digits by blast
  also have "\<dots> \<longleftrightarrow> (\<forall>n < 32. bit (mdio_phy_id_mask s) n \<longrightarrow> bit (mdio_phy_id s) n = bit phy_id n)"
    by (rule reverse_32)
  finally show ?thesis unfolding agree_32 by blast
qed

theorem mdio_alias_matches_witness:
  "\<exists>alias. do_mdio_entry \<lparr> mdio_phy_id = 0x00221611, mdio_phy_id_mask = 0xFFFFFFF0 \<rparr> = Inr (Some alias) \<and>
     matches alias (mdio_string 0x00221615) \<and> \<not> matches alias (mdio_string 0x00221625)"
proof -
  let ?s = "\<lparr> mdio_phy_id = 0x00221611, mdio_phy_id_mask = 0xFFFFFFF0 \<rparr>"
  obtain a where made: "do_mdio_entry ?s = Inr (Some a)" by (simp add: do_mdio_entry_def)
  show ?thesis
    using made mdio_alias_matches [OF made, of "0x00221615"] mdio_alias_matches [OF made, of "0x00221625"] by simp
qed

subsection \<open>AMBA\<close>

definition amba_string :: "u32 \<Rightarrow> string" where
  "amba_string hw = ''amba:d'' @ hex_digits True 8 (unat hw)"

definition nibble :: "nat \<Rightarrow> u32 \<Rightarrow> u32" where
  "nibble k w = drop_bit (4 * k) w AND 0xf"

lemma bit_nibble: "bit (nibble k w) n \<longleftrightarrow> n < 4 \<and> bit w (4 * k + n)"
proof -
  have eq: "(0xf :: u32) = mask 4" by (simp add: mask_eq_exp_minus_1)
  show ?thesis unfolding nibble_def eq by (auto simp: bit_and_iff bit_drop_bit_eq bit_mask_iff dest: bit_imp_le_length)
qed

lemma nibble_and: "nibble k (x AND y) = nibble k x AND nibble k y"
  by (auto simp: bit_eq_iff bit_and_iff bit_nibble)

lemma nibbles_eq: "(x :: u32) = y \<longleftrightarrow> (\<forall>k < 8. nibble k x = nibble k y)"
proof
  assume all: "\<forall>k < 8. nibble k x = nibble k y"
  have "bit x n = bit y n" if "n < 32" for n
  proof -
    have "n div 4 < 8" and n: "4 * (n div 4) + n mod 4 = n" using that by simp_all
    then have "bit (nibble (n div 4) x) (n mod 4) = bit (nibble (n div 4) y) (n mod 4)" using all by simp
    then show ?thesis by (simp add: bit_nibble n)
  qed
  then show "x = y" by (simp add: bit_eq_iff)
qed simp

lemma nibble_unat: "unat (nibble k w) = unat w div 16 ^ k mod 16"
proof -
  have eq: "(0xf :: u32) = mask 4" by (simp add: mask_eq_exp_minus_1)
  have "unat (nibble k w) = take_bit 4 (drop_bit (4 * k) (unat w))"
    unfolding nibble_def eq take_bit_eq_mask [symmetric] by (simp add: unsigned_take_bit_eq unsigned_drop_bit_eq take_bit_nat_eq_self)
  then show ?thesis by (simp add: take_bit_eq_mod drop_bit_eq_div power_mult)
qed

lemma nibble_less: "unat (nibble k w) < 16"
  by (simp add: nibble_unat)

text \<open>The pattern of a digit is one token: any digit, this digit, or a set of digits.\<close>

definition nibble_pattern :: "u32 \<Rightarrow> u32 \<Rightarrow> string" where
  "nibble_pattern nib msk = append_nibble_mask [] nib msk"

definition allowed :: "u32 \<Rightarrow> u32 \<Rightarrow> nat list" where
  "allowed nib msk = filter (\<lambda>i. word_of_nat i AND msk = nib) [0..<16]"

definition nibble_token :: "u32 \<Rightarrow> u32 \<Rightarrow> token" where
  "nibble_token nib msk =
     (if msk = 0 then Any
      else if msk = 0xf then Lit (hex_digit True (unat nib))
      else Class (map (\<lambda>i. (hex_digit True i, hex_digit True i)) (allowed nib msk)))"

lemma hex_digit_in_class:
  "list_all (\<lambda>d. hex_digit True d \<noteq> CHR ''-'' \<and> hex_digit True d \<noteq> CHR '']'') [0..<16]"
  by code_simp

lemma ranges_single: "CHR ''-'' \<notin> set s \<Longrightarrow> ranges s = map (\<lambda>c. (c, c)) s"
  by (induction s rule: ranges.induct) auto

lemma pattern_class:
  assumes "CHR '']'' \<notin> set s" and "CHR ''-'' \<notin> set s"
  shows "pattern (''['' @ s @ '']'' @ t) = Class (map (\<lambda>c. (c, c)) s) # pattern t"
  by (simp only: pattern_set [OF assms(1)] ranges_single [OF assms(2)])

lemma allowed_less: "i \<in> set (allowed nib msk) \<Longrightarrow> i < 16"
  by (auto simp: allowed_def)

lemma concat_filter: "(\<And>i. i \<in> set is \<Longrightarrow> f i = [g i]) \<Longrightarrow>
    concat (map (\<lambda>i. if P i then f i else []) is) = map g (filter P is)"
  by (induction "is") auto

lemma nibble_pattern_token:
  assumes "unat nib < 16"
  shows "pattern (nibble_pattern nib msk @ s) = nibble_token nib msk # pattern s"
proof -
  consider "msk = 0" | "msk = 0xf" | "msk \<noteq> 0" "msk \<noteq> 0xf" by blast
  then show ?thesis
  proof cases
    case 1
    then show ?thesis by (simp add: nibble_pattern_def append_nibble_mask_def nibble_token_def)
  next
    case 2
    then show ?thesis using hex_digit_plain [OF assms]
      by (simp add: nibble_pattern_def append_nibble_mask_def nibble_token_def printf_hex_digit [OF assms] plain_def)
  next
    case 3
    let ?cs = "map (hex_digit True) (allowed nib msk)"
    have "concat (map (\<lambda>i. if word_of_nat i AND msk = nib then printf_hex True i else []) [0..<16]) = ?cs"
      unfolding allowed_def by (rule concat_filter) (simp add: printf_hex_digit)
    moreover have "CHR '']'' \<notin> set ?cs" "CHR ''-'' \<notin> set ?cs"
      using hex_digit_in_class allowed_less [of _ nib msk] by (auto simp: list_all_iff)
    ultimately show ?thesis using 3 pattern_class [of ?cs s]
      by (simp add: nibble_pattern_def append_nibble_mask_def nibble_token_def o_def)
  qed
qed

lemma hex_digit_inject: "i < 16 \<Longrightarrow> j < 16 \<Longrightarrow> hex_digit upper i = hex_digit upper j \<longleftrightarrow> i = j"
  by (metis hex_digit_index)

lemma nibble_token_Star [simp]: "nibble_token nib msk \<noteq> Star"
  by (simp add: nibble_token_def)

lemma in_single_ranges: "in_ranges (map (\<lambda>i. (f i, f i)) is) c \<longleftrightarrow> c \<in> f ` set is"
  by (auto simp: in_ranges_def dest!: antisym)

lemma nibble_token_match:
  assumes "unat nib < 16" and "nib AND msk = nib" and "unat d < 16"
  shows "glob [nibble_token nib msk] [hex_digit True (unat d)] \<longleftrightarrow> d AND msk = nib"
proof -
  consider "msk = 0" | "msk = 0xf" | "msk \<noteq> 0" "msk \<noteq> 0xf" by blast
  then show ?thesis
  proof cases
    case 1
    then show ?thesis using assms by (simp add: nibble_token_def)
  next
    case 2
    have eq: "(0xf :: u32) = mask 4" by (simp add: mask_eq_exp_minus_1)
    have "d AND 0xf = d"
      unfolding eq take_bit_eq_mask [symmetric] using assms(3)
      by (simp add: word_unat_eq_iff unsigned_take_bit_eq take_bit_nat_eq_self)
    then have d: "d AND msk = d" using 2 by simp
    have "glob [nibble_token nib msk] [hex_digit True (unat d)] \<longleftrightarrow> unat nib = unat d"
      using 2 hex_digit_inject [OF assms(1,3)] by (simp add: nibble_token_def)
    then show ?thesis unfolding d word_unat_eq_iff by auto
  next
    case 3
    have "glob [nibble_token nib msk] [hex_digit True (unat d)] \<longleftrightarrow> hex_digit True (unat d) \<in> hex_digit True ` set (allowed nib msk)"
      using 3 by (simp add: nibble_token_def in_single_ranges)
    also have "\<dots> \<longleftrightarrow> unat d \<in> set (allowed nib msk)"
      using hex_digit_inject [OF assms(3)] allowed_less [of _ nib msk] by auto
    finally show ?thesis using assms(3) by (simp add: allowed_def)
  qed
qed

lemma glob_tokens:
  "(\<And>k. k \<in> set ks \<Longrightarrow> f k \<noteq> Star) \<Longrightarrow> glob (map f ks) (map g ks) \<longleftrightarrow> (\<forall>k \<in> set ks. glob [f k] [g k])"
proof (induction ks)
  case (Cons k ks)
  have "f k \<noteq> Star" using Cons.prems by simp
  then have "glob (f k # map f ks) (g k # map g ks) \<longleftrightarrow> glob [f k] [g k] \<and> glob (map f ks) (map g ks)"
    by (cases "f k") auto
  then show ?case using Cons by simp
qed simp

lemma hex_digits_map: "hex_digits upper w n = map (\<lambda>k. hex_digit upper (n div 16 ^ (w - 1 - k) mod 16)) [0..<w]"
proof (induction w arbitrary: n)
  case (Suc w)
  have "n div 16 div 16 ^ (w - 1 - k) = n div 16 ^ (Suc w - 1 - k)" if "k < w" for k
  proof -
    have "Suc w - 1 - k = Suc (w - 1 - k)" using that by simp
    then show ?thesis by (simp add: div_mult2_eq)
  qed
  then show ?case unfolding hex_digits.simps Suc.IH by simp
qed simp

lemma hex_digits_8:
  "hex_digits True 8 (unat w) = map (\<lambda>k. hex_digit True (unat (nibble (7 - k) w))) [0..<8]"
  unfolding hex_digits_map nibble_unat by simp

lemma append_nibbles:
  "foldl (\<lambda>p k. append_nibble_mask p (f k) (g k)) out ks = out @ concat (map (\<lambda>k. nibble_pattern (f k) (g k)) ks)"
proof (induction ks arbitrary: out)
  case (Cons k ks)
  have "append_nibble_mask out (f k) (g k) = out @ nibble_pattern (f k) (g k)"
    by (simp add: append_nibble_mask_def nibble_pattern_def)
  then show ?case using Cons.IH by simp
qed simp

lemma pattern_nibbles:
  "(\<And>k. unat (f k) < 16) \<Longrightarrow>
    pattern (concat (map (\<lambda>k. nibble_pattern (f k) (g k)) ks)) = map (\<lambda>k. nibble_token (f k) (g k)) ks"
  by (induction ks) (simp_all add: nibble_pattern_token)

lemma reverse_8: "(\<forall>k \<in> set [0..<8]. P (7 - k)) \<longleftrightarrow> (\<forall>k < (8 :: nat). P k)"
proof
  assume all: "\<forall>k \<in> set [0..<8]. P (7 - k)"
  have "P k" if "k < 8" for k
    using bspec [OF all, of "7 - k"] that by simp
  then show "\<forall>k < 8. P k" by blast
qed auto

text \<open>
  An AMBA entry whose identifier has bits outside its mask ends the program. Otherwise its
  alias matches exactly the devices the comment in \<open>mod_devicetable.h\<close> promises: those whose
  identifier under the mask is that of the entry.
\<close>

theorem amba_alias_matches:
  "case do_amba_entry filename s of
      Inr (Some alias) \<Rightarrow> matches alias (amba_string hw) = (hw AND amba_mask s = amba_id s)
    | Inr None \<Rightarrow> False
    | Inl _ \<Rightarrow> amba_id s AND amba_mask s \<noteq> amba_id s"
proof (cases "amba_id s AND amba_mask s = amba_id s")
  case True
  let ?i = "\<lambda>k. nibble (7 - k) (amba_id s)" and ?m = "\<lambda>k. nibble (7 - k) (amba_mask s)"
  let ?made = "''amba:d'' @ concat (map (\<lambda>k. nibble_pattern (?i k) (?m k)) [0..<8])"
  have made: "do_amba_entry filename s = Inr (Some ?made)"
    using True append_nibbles [of ?i ?m "''amba:d''" "[0..<8]"] by (simp add: do_amba_entry_def nibble_def)
  have plain: "list_all plain ''amba:d''" by (simp add: plain_def)
  have "matches ?made (amba_string hw) \<longleftrightarrow>
      (\<forall>k \<in> set [0..<8]. glob [nibble_token (?i k) (?m k)] [hex_digit True (unat (nibble (7 - k) hw))])"
    unfolding matches_def amba_string_def pattern_plain [OF plain] glob_Lit [OF refl]
      pattern_nibbles [of ?i, OF nibble_less] hex_digits_8
    by (subst glob_tokens) simp_all
  also have "\<dots> \<longleftrightarrow> (\<forall>k \<in> set [0..<8]. nibble (7 - k) hw AND ?m k = ?i k)"
    by (intro ball_cong refl nibble_token_match nibble_less) (simp add: nibble_and [symmetric] True)
  also have "\<dots> \<longleftrightarrow> (\<forall>k < 8. nibble k hw AND nibble k (amba_mask s) = nibble k (amba_id s))"
    by (rule reverse_8)
  finally show ?thesis using made nibbles_eq [of "hw AND amba_mask s"] by (simp add: nibble_and)
qed (simp add: do_amba_entry_def)

end
