(* ===== verification/Alias_Usb.thy ===== *)
theory Alias_Usb
  imports Alias_Buses
begin

text \<open>
  USB entries of \<open>scripts/mod/file2alias.c\<close>. The release number of a device is matched against a
  range, which \<open>do_usb_entry_multi\<close> cuts into patterns with a common prefix, one set of digits
  and \<open>*\<close>. The numbers are decimal, coded in nibbles, unless a limit has a hexadecimal digit.
\<close>

subsection \<open>The functions\<close>

text \<open>The section of the alias after the letter \<open>d\<close>.\<close>

definition usb_release :: "u32 \<Rightarrow> nat \<Rightarrow> nat \<Rightarrow> nat \<Rightarrow> nat \<Rightarrow> string" where
  "usb_release bcdDevice_initial bcdDevice_initial_digits range_lo range_hi maxd =
     (if bcdDevice_initial_digits \<noteq> 0
      then printf_0hex True bcdDevice_initial_digits (unat bcdDevice_initial) else '''') @
     (if range_lo = range_hi then printf_hex True range_lo
      else if range_lo > 0 \<or> range_hi < maxd then
        (if range_lo > 9 \<or> range_hi < 0xA
         then ''['' @ printf_hex True range_lo @ ''-'' @ printf_hex True range_hi @ '']''
         else (if range_lo < 9 then ''['' @ printf_hex True range_lo @ ''-9'' else ''['' @ printf_hex True range_lo) @
              (if range_hi > 0xA then ''A-'' @ printf_hex True range_hi @ '']'' else printf_hex True range_hi @ '']''))
      else '''') @
     (if bcdDevice_initial_digits < 3 then ''*'' else '''')"

definition do_usb_entry :: "usb_device_id \<Rightarrow> u32 \<Rightarrow> nat \<Rightarrow> nat \<Rightarrow> nat \<Rightarrow> nat \<Rightarrow> string" where
  "do_usb_entry s bcdDevice_initial bcdDevice_initial_digits range_lo range_hi maxd =
     (let flag = (\<lambda>f. usb_match_flags s AND f \<noteq> 0);
          alias = ''usb:'';
          alias = ADD alias ''v'' (flag USB_DEVICE_ID_MATCH_VENDOR) (usb_idVendor s);
          alias = ADD alias ''p'' (flag USB_DEVICE_ID_MATCH_PRODUCT) (usb_idProduct s);
          alias = alias @ ''d'' @ usb_release bcdDevice_initial bcdDevice_initial_digits range_lo range_hi maxd;
          alias = ADD alias ''dc'' (flag USB_DEVICE_ID_MATCH_DEV_CLASS) (usb_bDeviceClass s);
          alias = ADD alias ''dsc'' (flag USB_DEVICE_ID_MATCH_DEV_SUBCLASS) (usb_bDeviceSubClass s);
          alias = ADD alias ''dp'' (flag USB_DEVICE_ID_MATCH_DEV_PROTOCOL) (usb_bDeviceProtocol s);
          alias = ADD alias ''ic'' (flag USB_DEVICE_ID_MATCH_INT_CLASS) (usb_bInterfaceClass s);
          alias = ADD alias ''isc'' (flag USB_DEVICE_ID_MATCH_INT_SUBCLASS) (usb_bInterfaceSubClass s);
          alias = ADD alias ''ip'' (flag USB_DEVICE_ID_MATCH_INT_PROTOCOL) (usb_bInterfaceProtocol s);
          alias = ADD alias ''in'' (flag USB_DEVICE_ID_MATCH_INT_NUMBER) (usb_bInterfaceNumber s)
      in add_wildcard alias)"

text \<open>
  \<open>incbcd\<close> returns the new number; the old one, which is its value in C, is at hand in the caller.
  \<open>dec\<close> is an \<open>unsigned long long\<close>.
\<close>

definition incbcd :: "u32 \<Rightarrow> int \<Rightarrow> nat \<Rightarrow> nat \<Rightarrow> u32" where
  "incbcd bcd inc maxd chars =
     (if maxd > 9 then bcd + word_of_int inc
      else
        let dec = sum_list (map (\<lambda>i. min 9 (unat (drop_bit (4 * i) bcd AND 0xf)) * 10 ^ i) [0..<chars]);
            dec = nat ((int dec + inc) mod 2 ^ 64)
        in sum_list (map (\<lambda>i. push_bit (4 * i) (word_of_nat (dec div 10 ^ i mod 10))) [0..<chars]))"

text \<open>The upper limit that decides between decimal and hexadecimal digits.\<close>

definition usb_max :: "u32 \<Rightarrow> u32 \<Rightarrow> nat" where
  "usb_max devlo devhi =
     (let capped = (if devhi > 0x9999 then 0x9999 else devhi) in
      if \<exists>ndigits \<in> set [0..<4]. unat (drop_bit (4 * ndigits) devlo AND 0xf) > 9 \<or>
           unat (drop_bit (4 * ndigits) capped AND 0xf) > 9
      then 0xf else 9)"

text \<open>
  The loop, as the list of the calls of \<open>do_usb_entry\<close>: initial digits, their number, and the
  range of the next digit. It leaves by \<open>break\<close> when \<open>ndigits\<close> is 0.
\<close>

fun usb_calls :: "nat \<Rightarrow> u32 \<Rightarrow> u32 \<Rightarrow> nat \<Rightarrow> (u32 \<times> nat \<times> nat \<times> nat) list" where
  "usb_calls ndigits devlo devhi maxd =
     (if \<not> devlo \<le> devhi then []
      else
        let clo = unat (devlo AND 0xf);
            chi = unat (devhi AND 0xf);
            chi = (if chi > maxd then maxd else chi);
            devlo = drop_bit 4 devlo;
            devhi = drop_bit 4 devhi
        in if devlo = devhi \<or> ndigits = 0 then [(devlo, ndigits, clo, chi)]
           else
             (if clo > 0 then [(devlo, ndigits, clo, maxd)] else []) @
             (if chi < maxd then [(devhi, ndigits, 0, chi)] else []) @
             usb_calls (ndigits - 1)
               (if clo > 0 then incbcd devlo 1 maxd 4 else devlo)
               (if chi < maxd then incbcd devhi (-1) maxd 4 else devhi) maxd)"

declare usb_calls.simps [simp del]

definition usb_limits :: "usb_device_id \<Rightarrow> u32 \<times> u32" where
  "usb_limits s =
     (if usb_match_flags s AND USB_DEVICE_ID_MATCH_DEV_LO \<noteq> 0 then ucast (usb_bcdDevice_lo s) else 0,
      if usb_match_flags s AND USB_DEVICE_ID_MATCH_DEV_HI \<noteq> 0 then ucast (usb_bcdDevice_hi s) else NOT 0)"

text \<open>The aliases of an entry; an entry without numbers is a placeholder and has none.\<close>

definition do_usb_entry_multi :: "usb_device_id \<Rightarrow> string list" where
  "do_usb_entry_multi s =
     (let (devlo, devhi) = usb_limits s;
          maxd = usb_max devlo devhi
      in if usb_idVendor s = 0 \<and> usb_idProduct s = 0 \<and> usb_bDeviceClass s = 0 \<and> usb_bInterfaceClass s = 0
         then []
         else map (\<lambda>(initial, ndigits, lo, hi). do_usb_entry s initial ndigits lo hi maxd)
                (usb_calls 3 devlo devhi maxd))"

subsection \<open>Digits\<close>

definition digits_ok :: "nat \<Rightarrow> nat \<Rightarrow> bool" where
  "digits_ok maxd x \<longleftrightarrow> x < 16 ^ 4 \<and> (\<forall>i < 4. x div 16 ^ i mod 16 \<le> maxd)"

definition decimal :: "nat \<Rightarrow> nat" where
  "decimal x = x mod 16 + 10 * (x div 16 mod 16) + 100 * (x div 256 mod 16) + 1000 * (x div 4096 mod 16)"

definition bcd_of :: "nat \<Rightarrow> nat" where
  "bcd_of d = d mod 10 + 16 * (d div 10 mod 10) + 256 * (d div 100 mod 10) + 4096 * (d div 1000 mod 10)"

lemma less_4: "(\<forall>i < 4. P i) \<longleftrightarrow> P 0 \<and> P 1 \<and> P 2 \<and> P (3 :: nat)"
  by (auto simp: numeral_eq_Suc less_Suc_eq)

lemma digits_ok_4:
  "digits_ok maxd x \<longleftrightarrow> x < 65536 \<and> x mod 16 \<le> maxd \<and> x div 16 mod 16 \<le> maxd \<and>
    x div 256 mod 16 \<le> maxd \<and> x div 4096 mod 16 \<le> maxd"
  by (simp add: digits_ok_def less_4)

lemma digits_ok_15: "digits_ok 15 x \<longleftrightarrow> x < 65536"
proof -
  have "n mod 16 \<le> 15" for n :: nat using mod_less_divisor [of 16 n] by linarith
  then show ?thesis by (simp add: digits_ok_4)
qed

lemma four_digits:
  fixes a b c d n :: nat
  assumes "a < n" "b < n" "c < n" "d < n" and x: "x = a + n * (b + n * (c + n * d))"
  shows "x mod n = a" "x div n mod n = b" "x div (n * n) mod n = c" "x div (n * n * n) mod n = d"
  using assms by (simp_all add: div_mult2_eq)

lemma digits_ok_split:
  assumes "digits_ok maxd x"
  obtains a b c d where "x = a + 16 * (b + 16 * (c + 16 * d))" "a \<le> maxd" "b \<le> maxd" "c \<le> maxd" "d \<le> maxd"
    "a < 16" "b < 16" "c < 16" "d < 16"
proof
  have small: "x div 4096 < 16" using assms by (auto simp: digits_ok_4)
  have "x = x mod 16 + 16 * (x div 16)" by simp
  also have "x div 16 = x div 16 mod 16 + 16 * (x div 256)" using div_mult2_eq [of x 16 16] by simp
  also have "x div 256 = x div 256 mod 16 + 16 * (x div 4096)" using div_mult2_eq [of x 256 16] by simp
  also have "x div 4096 = x div 4096 mod 16" using small by simp
  finally show "x = x mod 16 + 16 * (x div 16 mod 16 + 16 * (x div 256 mod 16 + 16 * (x div 4096 mod 16)))" .
qed (use assms in \<open>simp_all add: digits_ok_4\<close>)

lemma four_hex:
  fixes a b c d x :: nat
  assumes "a < 16" "b < 16" "c < 16" "d < 16" and "x = a + 16 * (b + 16 * (c + 16 * d))"
  shows "x mod 16 = a" "x div 16 mod 16 = b" "x div 256 mod 16 = c" "x div 4096 mod 16 = d"
  using four_digits [OF assms] by simp_all

lemma four_dec:
  fixes a b c d x :: nat
  assumes "a < 10" "b < 10" "c < 10" "d < 10" and "x = a + 10 * (b + 10 * (c + 10 * d))"
  shows "x mod 10 = a" "x div 10 mod 10 = b" "x div 100 mod 10 = c" "x div 1000 mod 10 = d"
  using four_digits [OF assms] by simp_all

lemma bcd_of_decimal: "digits_ok 9 x \<Longrightarrow> bcd_of (decimal x) = x \<and> decimal x < 10000"
proof -
  assume "digits_ok 9 x"
  then obtain a b c d where x: "x = a + 16 * (b + 16 * (c + 16 * d))"
    and nine: "a \<le> 9" "b \<le> 9" "c \<le> 9" "d \<le> 9" and "a < 16" "b < 16" "c < 16" "d < 16"
    by (rule digits_ok_split)
  note hex = four_hex [OF this(6-9) x]
  define y where "y = a + 10 * (b + 10 * (c + 10 * d))"
  have "a < 10" "b < 10" "c < 10" "d < 10" using nine by simp_all
  note dec = four_dec [OF this y_def]
  have "decimal x = y" unfolding decimal_def hex y_def by simp
  moreover have "bcd_of y = x" unfolding bcd_of_def dec x by simp
  moreover have "y < 10000" using nine by (simp add: y_def)
  ultimately show ?thesis by simp
qed

lemma bcd_of_split: "d < 10000 \<Longrightarrow> bcd_of d = d + 6 * (d div 10) + 96 * (d div 100) + 1536 * (d div 1000)"
proof -
  assume d: "d < 10000"
  define p q r where "p = d div 10" and "q = d div 100" and "r = d div 1000"
  have "r < 10" unfolding r_def using d by simp
  moreover have "d div 100 = p div 10" "d div 1000 = q div 10"
    using div_mult2_eq [of d 10 10] div_mult2_eq [of d 100 10] by (simp_all add: p_def q_def)
  ultimately have "d mod 10 + 10 * p = d" "p mod 10 + 10 * q = p" "q mod 10 + 10 * r = q" "r mod 10 = r"
    by (simp_all add: p_def q_def r_def)
  then show ?thesis unfolding bcd_of_def p_def [symmetric] q_def [symmetric] r_def [symmetric] by linarith
qed

lemma bcd_of_mono: "d < e \<Longrightarrow> e < 10000 \<Longrightarrow> bcd_of d < bcd_of e"
  using div_le_mono [of d e 10] div_le_mono [of d e 100] div_le_mono [of d e 1000] by (simp add: bcd_of_split)

lemma bcd_of_less_iff: "d < 10000 \<Longrightarrow> e < 10000 \<Longrightarrow> bcd_of d < bcd_of e \<longleftrightarrow> d < e"
  by (metis bcd_of_mono less_asym linorder_neqE_nat)

lemma bcd_of_ok: "digits_ok 9 (bcd_of d)"
proof -
  define a b c e where "a = d mod 10" and "b = d div 10 mod 10" and "c = d div 100 mod 10" and "e = d div 1000 mod 10"
  have nine: "a \<le> 9" "b \<le> 9" "c \<le> 9" "e \<le> 9"
    by (simp_all add: a_def b_def c_def e_def flip: less_Suc_eq_le)
  then have sixteen: "a < 16" "b < 16" "c < 16" "e < 16" by simp_all
  have eq: "bcd_of d = a + 16 * (b + 16 * (c + 16 * e))"
    unfolding bcd_of_def a_def [symmetric] b_def [symmetric] c_def [symmetric] e_def [symmetric] by simp
  show ?thesis
    unfolding digits_ok_4 four_hex [OF sixteen eq] using nine eq by simp
qed

subsection \<open>Incrementing\<close>

lemma incbcd_hex: "maxd > 9 \<Longrightarrow> incbcd bcd inc maxd chars = bcd + word_of_int inc"
  by (simp add: incbcd_def)

lemma incbcd_bcd:
  assumes "digits_ok 9 (unat bcd)" and "0 \<le> int (decimal (unat bcd)) + inc" and "int (decimal (unat bcd)) + inc < 10000"
  shows "unat (incbcd bcd inc 9 4) = bcd_of (nat (int (decimal (unat bcd)) + inc))"
proof -
  define e where "e = nat (int (decimal (unat bcd)) + inc)"
  have nib: "min 9 (unat (drop_bit (4 * i) bcd AND 0xf)) = unat bcd div 16 ^ i mod 16" if "i < 4" for i
    using assms(1) that nibble_unat [of i bcd] by (simp add: digits_ok_def nibble_def)
  have "sum_list (map (\<lambda>i. min 9 (unat (drop_bit (4 * i) bcd AND 0xf)) * 10 ^ i) [0..<4]) = decimal (unat bcd)"
    using nib [of 0] nib [of 1] nib [of 2] nib [of 3] by (simp add: upt_rec decimal_def)
  moreover have "nat ((int (decimal (unat bcd)) + inc) mod 2 ^ 64) = e"
    using assms(2,3) by (simp add: e_def)
  moreover have "sum_list (map (\<lambda>i. push_bit (4 * i) (word_of_nat (e div 10 ^ i mod 10))) [0..<4]) = (word_of_nat (bcd_of e) :: u32)"
    by (simp add: upt_rec push_bit_eq_mult bcd_of_def)
  ultimately have "incbcd bcd inc 9 4 = word_of_nat (bcd_of e)"
    unfolding incbcd_def Let_def by simp
  moreover have "bcd_of e < 2 ^ 32" using bcd_of_ok [of e] by (simp add: digits_ok_def)
  ultimately show ?thesis by (simp add: e_def unat_of_nat)
qed

text \<open>Among the numbers of at most four digits the result is the next or the previous one.\<close>

lemma incbcd_next:
  assumes "maxd = 9 \<or> maxd = 15" and "digits_ok maxd (unat w)" and "unat w < 16 ^ 3"
  shows "digits_ok maxd (unat (incbcd w 1 maxd 4))"
    and "digits_ok maxd y \<Longrightarrow> unat (incbcd w 1 maxd 4) \<le> y \<longleftrightarrow> unat w < y"
proof -
  consider "maxd = 9" | "maxd = 15" using assms(1) by blast
  then have "digits_ok maxd (unat (incbcd w 1 maxd 4)) \<and>
    (digits_ok maxd y \<longrightarrow> unat (incbcd w 1 maxd 4) \<le> y \<longleftrightarrow> unat w < y)" for y
  proof cases
    case 1
    let ?d = "decimal (unat w)"
    have ok: "digits_ok 9 (unat w)" using assms(2) 1 by simp
    have w: "bcd_of ?d = unat w" and "unat w div 4096 mod 16 = 0"
      using bcd_of_decimal [OF ok] assms(3) by simp_all
    then have d: "?d + 1 < 10000"
      using ok by (simp add: decimal_def digits_ok_4)
    then have inc: "unat (incbcd w 1 9 4) = bcd_of (?d + 1)"
      using incbcd_bcd [OF ok, of 1] by (simp add: nat_add_distrib)
    have "bcd_of (?d + 1) \<le> y \<longleftrightarrow> unat w < y" if "digits_ok 9 y"
      using bcd_of_decimal [OF that] bcd_of_less_iff [of "decimal y" "?d + 1"] bcd_of_less_iff [of ?d "decimal y"] w d
      by auto
    then show ?thesis unfolding 1 inc using bcd_of_ok by simp
  next
    case 2
    have "unat (w + 1) = unat w + 1" using assms(3) by (simp add: unat_word_ariths)
    then show ?thesis using assms(3) 2 by (auto simp: incbcd_hex digits_ok_15)
  qed
  then show "digits_ok maxd (unat (incbcd w 1 maxd 4))"
    and "digits_ok maxd y \<Longrightarrow> unat (incbcd w 1 maxd 4) \<le> y \<longleftrightarrow> unat w < y" by blast+
qed

lemma incbcd_previous:
  assumes "maxd = 9 \<or> maxd = 15" and "digits_ok maxd (unat w)" and "0 < unat w"
  shows "digits_ok maxd (unat (incbcd w (-1) maxd 4))"
    and "digits_ok maxd y \<Longrightarrow> y \<le> unat (incbcd w (-1) maxd 4) \<longleftrightarrow> y < unat w"
proof -
  consider "maxd = 9" | "maxd = 15" using assms(1) by blast
  then have "digits_ok maxd (unat (incbcd w (-1) maxd 4)) \<and>
    (digits_ok maxd y \<longrightarrow> y \<le> unat (incbcd w (-1) maxd 4) \<longleftrightarrow> y < unat w)" for y
  proof cases
    case 1
    let ?d = "decimal (unat w)"
    have ok: "digits_ok 9 (unat w)" using assms(2) 1 by simp
    have w: "bcd_of ?d = unat w" and d: "?d < 10000" using bcd_of_decimal [OF ok] by simp_all
    have "?d \<noteq> 0" using w assms(3) by (cases "?d = 0") (simp_all add: bcd_of_def)
    then have pos: "0 < ?d" by simp
    then have dec: "unat (incbcd w (-1) 9 4) = bcd_of (?d - 1)"
      using incbcd_bcd [OF ok, of "-1"] d by (simp add: nat_diff_distrib')
    have "y \<le> bcd_of (?d - 1) \<longleftrightarrow> y < unat w" if "digits_ok 9 y"
    proof -
      have y: "bcd_of (decimal y) = y" "decimal y < 10000" using bcd_of_decimal [OF that] by simp_all
      have "y \<le> bcd_of (?d - 1) \<longleftrightarrow> \<not> ?d - 1 < decimal y"
        using bcd_of_less_iff [of "?d - 1" "decimal y"] y d by (simp add: not_less [symmetric])
      also have "\<dots> \<longleftrightarrow> decimal y < ?d" using pos by auto
      also have "\<dots> \<longleftrightarrow> y < unat w" using bcd_of_less_iff [OF y(2) d] y(1) w by simp
      finally show ?thesis .
    qed
    then show ?thesis unfolding 1 dec using bcd_of_ok by simp
  next
    case 2
    have "unat (w - 1) = unat w - 1" using assms(3) by (simp add: unat_sub word_le_nat_alt)
    moreover have "unat w < 65536" using assms(2) 2 by (simp add: digits_ok_15)
    ultimately show ?thesis using assms(3) unfolding 2 by (simp add: incbcd_hex digits_ok_15) linarith
  qed
  then show "digits_ok maxd (unat (incbcd w (-1) maxd 4))"
    and "digits_ok maxd y \<Longrightarrow> y \<le> unat (incbcd w (-1) maxd 4) \<longleftrightarrow> y < unat w" by blast+
qed

subsection \<open>The pattern of a call\<close>

text \<open>What a call stands for, on the release number of a device.\<close>

definition call_accepts :: "u32 \<times> nat \<times> nat \<times> nat \<Rightarrow> nat \<Rightarrow> bool" where
  "call_accepts c v = (case c of (initial, n, lo, hi) \<Rightarrow>
     (n \<noteq> 0 \<longrightarrow> v div 16 ^ (4 - n) = unat initial) \<and>
     lo \<le> v div 16 ^ (3 - n) mod 16 \<and> v div 16 ^ (3 - n) mod 16 \<le> hi)"

text \<open>All digits in the last place: the pattern is a digit short.\<close>

definition call_short :: "nat \<Rightarrow> u32 \<times> nat \<times> nat \<times> nat \<Rightarrow> bool" where
  "call_short maxd c = (case c of (initial, n, lo, hi) \<Rightarrow> n = 3 \<and> lo = 0 \<and> hi = maxd)"

definition call_ok :: "nat \<Rightarrow> u32 \<times> nat \<times> nat \<times> nat \<Rightarrow> bool" where
  "call_ok maxd c = (case c of (initial, n, lo, hi) \<Rightarrow>
     n \<le> 3 \<and> (n \<noteq> 0 \<longrightarrow> unat initial < 16 ^ n) \<and> lo \<le> maxd \<and> hi \<le> maxd)"

definition hex_code :: "nat \<Rightarrow> nat" where
  "hex_code d = (if d < 10 then 48 + d else 55 + d)"

lemma hex_codes: "list_all (\<lambda>d. of_char (hex_digit True d) = hex_code d) [0..<16]"
  by code_simp

lemma of_char_hex: "d < 16 \<Longrightarrow> of_char (hex_digit True d) = hex_code d"
  using hex_codes by (simp add: list_all_iff)

lemma in_ranges_Cons: "in_ranges ((a, b) # rs) c \<longleftrightarrow>
    (of_char a :: nat) \<le> of_char c \<and> (of_char c :: nat) \<le> of_char b \<or> in_ranges rs c"
  by (auto simp: in_ranges_def)

lemma in_ranges_hex: "a < 16 \<Longrightarrow> b < 16 \<Longrightarrow> d < 16 \<Longrightarrow>
    in_ranges ((hex_digit True a, hex_digit True b) # rs) (hex_digit True d) \<longleftrightarrow>
    a \<le> d \<and> d \<le> b \<or> in_ranges rs (hex_digit True d)"
  by (auto simp: in_ranges_Cons of_char_hex hex_code_def)

lemma in_ranges_Nil [simp]: "\<not> in_ranges [] c"
  by (simp add: in_ranges_def)

definition digit_set :: "nat \<Rightarrow> nat \<Rightarrow> string" where
  "digit_set lo hi =
     (if lo > 9 \<or> hi < 0xA then [hex_digit True lo, CHR ''-'', hex_digit True hi]
      else (if lo < 9 then [hex_digit True lo, CHR ''-'', CHR ''9''] else [hex_digit True lo]) @
           (if hi > 0xA then [CHR ''A'', CHR ''-'', hex_digit True hi] else [hex_digit True hi]))"

lemma hex_digit_names: "CHR ''9'' = hex_digit True 9" "CHR ''A'' = hex_digit True 10"
  by (simp_all add: hex_digit_def)

lemma hex_digit_not_dash: "d < 16 \<Longrightarrow> hex_digit True d \<noteq> CHR ''-'' \<and> hex_digit True d \<noteq> CHR '']''"
  using hex_digit_in_class by (simp add: list_all_iff)

lemma digit_set_pattern:
  assumes "lo < hi" and "hi < 16" and "d < 16"
  shows "\<exists>rs. pattern (''['' @ digit_set lo hi @ '']'' @ s) = Class rs # pattern s \<and>
    (in_ranges rs (hex_digit True d) \<longleftrightarrow> lo \<le> d \<and> d \<le> hi)"
proof (intro exI conjI)
  have lo: "lo < 16" using assms by simp
  show "pattern (''['' @ digit_set lo hi @ '']'' @ s) = Class (ranges (digit_set lo hi)) # pattern s"
    by (rule pattern_set)
      (use hex_digit_not_dash [OF lo] hex_digit_not_dash [OF assms(2)] in \<open>auto simp: digit_set_def\<close>)
  show "in_ranges (ranges (digit_set lo hi)) (hex_digit True d) \<longleftrightarrow> lo \<le> d \<and> d \<le> hi"
    using assms lo hex_digit_not_dash [OF lo] hex_digit_not_dash [OF assms(2)]
      hex_digit_not_dash [of 9] hex_digit_not_dash [of 10]
    unfolding digit_set_def hex_digit_names by (auto simp: in_ranges_hex)
qed

definition release_digit :: "nat \<Rightarrow> nat \<Rightarrow> nat \<Rightarrow> string" where
  "release_digit lo hi maxd =
     (if lo = hi then [hex_digit True lo]
      else if lo > 0 \<or> hi < maxd then ''['' @ digit_set lo hi @ '']'' else [])"

lemma usb_release_parts:
  assumes "call_ok maxd (i, n, lo, hi)" and "maxd < 16"
  shows "usb_release i n lo hi maxd =
    (if n \<noteq> 0 then hex_digits True n (unat i) else []) @ release_digit lo hi maxd @ (if n < 3 then ''*'' else [])"
proof -
  have "printf_hex True lo = [hex_digit True lo]" "printf_hex True hi = [hex_digit True hi]"
    using assms by (simp_all add: call_ok_def printf_hex_digit)
  then show ?thesis
    using assms by (auto simp: usb_release_def release_digit_def digit_set_def call_ok_def printf_0hex_digits)
qed

lemma hex_digits_4:
  assumes "n \<le> 3"
  shows "hex_digits True 4 v = hex_digits True n (v div 16 ^ (4 - n)) @
    hex_digit True (v div 16 ^ (3 - n) mod 16) # hex_digits True (3 - n) v"
proof -
  have "hex_digits True (n + (4 - n)) v = hex_digits True n (v div 16 ^ (4 - n)) @ hex_digits True (4 - n) v"
    by (rule hex_digits_split)
  moreover have "hex_digits True (1 + (3 - n)) v = hex_digits True 1 (v div 16 ^ (3 - n)) @ hex_digits True (3 - n) v"
    by (rule hex_digits_split)
  moreover have "n + (4 - n) = 4" "1 + (3 - n) = 4 - n" using assms by simp_all
  ultimately show ?thesis by (simp only: hex_digits.simps One_nat_def append.simps)
qed

lemma release_digit_match:
  assumes "lo \<le> hi" and "hi \<le> maxd" and "maxd < 16" and "c \<le> maxd" and "n \<le> 3" and "\<not> (n = 3 \<and> lo = 0 \<and> hi = maxd)"
  shows "glob (pattern (release_digit lo hi maxd @ (if n < 3 then ''*'' else [])))
      (hex_digit True c # hex_digits True (3 - n) v) \<longleftrightarrow> lo \<le> c \<and> c \<le> hi"
proof -
  let ?star = "if n < 3 then [Star] else []"
  have rest: "glob ?star (hex_digits True (3 - n) v)" using assms(5) by (cases "n = 3") simp_all
  consider "lo = hi" | "lo < hi" "lo > 0 \<or> hi < maxd" | "lo = 0" "hi = maxd" "lo < hi"
    using assms(1,2) by linarith
  then show ?thesis
  proof cases
    case 1
    have "plain (hex_digit True lo)" using hex_digit_plain [of lo] assms by simp
    then show ?thesis using 1 rest assms hex_digit_inject [of lo c True]
      by (auto simp: release_digit_def plain_def)
  next
    case 2
    obtain rs where "pattern (''['' @ digit_set lo hi @ '']'' @ (if n < 3 then ''*'' else [])) =
        Class rs # pattern (if n < 3 then ''*'' else [])"
      and "in_ranges rs (hex_digit True c) \<longleftrightarrow> lo \<le> c \<and> c \<le> hi"
      using digit_set_pattern [of lo hi c] assms 2 by fastforce
    then show ?thesis using 2 rest by (simp add: release_digit_def)
  next
    case 3
    then show ?thesis using assms by (simp add: release_digit_def)
  qed
qed

lemma call_matches:
  assumes ok: "call_ok maxd (i, n, lo, hi)" "lo \<le> hi" and maxd: "maxd < 16" and v: "digits_ok maxd v"
    and short: "\<not> call_short maxd (i, n, lo, hi)"
  shows "matches (usb_release i n lo hi maxd) (hex_digits True 4 v) \<longleftrightarrow> call_accepts (i, n, lo, hi) v"
proof -
  have n: "n \<le> 3" "n \<noteq> 0 \<Longrightarrow> unat i < 16 ^ n" "hi \<le> maxd" using ok by (auto simp: call_ok_def)
  let ?c = "v div 16 ^ (3 - n) mod 16"
  have "?c \<le> maxd" using v n(1) by (simp add: digits_ok_def)
  then have digit: "glob (pattern (release_digit lo hi maxd @ (if n < 3 then ''*'' else [])))
      (hex_digit True ?c # hex_digits True (3 - n) v) \<longleftrightarrow> lo \<le> ?c \<and> ?c \<le> hi"
    using release_digit_match [OF ok(2) n(3) maxd _ n(1)] short by (simp add: call_short_def)
  show ?thesis
  proof (cases "n = 0")
    case True
    show ?thesis
      unfolding matches_def usb_release_parts [OF ok(1) maxd] hex_digits_4 [OF n(1)]
      using True digit by (simp add: call_accepts_def)
  next
    case False
    have "v < 16 ^ n * 16 ^ (4 - n)" using v n(1) by (simp add: digits_ok_def flip: power_add)
    then have small: "v div 16 ^ (4 - n) < 16 ^ n" by (simp add: less_mult_imp_div_less)
    show ?thesis
      unfolding matches_def usb_release_parts [OF ok(1) maxd] hex_digits_4 [OF n(1)]
      using False digit hex_digits_inject [OF n(2) small, of True]
      by (simp add: pattern_plain [OF hex_digits_plain] glob_Lit call_accepts_def) auto
  qed
qed

subsection \<open>Numbers and their digits\<close>

lemma unat_low: "unat (w AND 0xf :: u32) = unat w mod 16"
  using nibble_unat [of 0 w] by (simp add: nibble_def)

lemma unat_high: "unat (drop_bit 4 w :: u32) = unat w div 16"
  by (subst unsigned_drop_bit_eq) (simp add: take_bit_nat_eq_self drop_bit_eq_div)

lemma digits_ok_div: "digits_ok maxd x \<Longrightarrow> digits_ok maxd (x div 16)"
  using div_mult2_eq [of x 16 16] div_mult2_eq [of x 16 256] div_mult2_eq [of x 16 4096]
  by (auto simp: digits_ok_4)

lemma digits_ok_mod: "digits_ok maxd x \<Longrightarrow> x mod 16 \<le> maxd"
  by (simp add: digits_ok_4)

lemma digits_ok_prefix: "digits_ok maxd v \<Longrightarrow> digits_ok maxd (v div 16 ^ k)"
proof (induction k)
  case (Suc k)
  then have "digits_ok maxd (v div 16 ^ k div 16)" by (intro digits_ok_div) simp
  moreover have "v div 16 ^ Suc k = v div 16 ^ k div 16" by (simp add: div_mult2_eq [symmetric] mult.commute)
  ultimately show ?case by (simp only:)
qed simp

lemma usb_calls_digits: "c \<in> set (usb_calls n lo hi maxd) \<Longrightarrow> fst (snd c) \<le> n"
proof (induction n arbitrary: lo hi rule: less_induct)
  case (less n)
  show ?case
  proof (cases "n = 0")
    case True
    then show ?thesis using less.prems by (subst (asm) usb_calls.simps) (auto simp: Let_def split: if_splits)
  next
    case False
    then have "n - 1 < n" by simp
    from less.IH [OF this] less.prems show ?thesis
      by (subst (asm) usb_calls.simps) (fastforce simp: Let_def split: if_splits)
  qed
qed

text \<open>The limits of a pass: numbers of at most \<open>n + 1\<close> digits, or no upper limit.\<close>

definition limits_ok :: "nat \<Rightarrow> nat \<Rightarrow> nat \<Rightarrow> nat \<Rightarrow> bool" where
  "limits_ok maxd n lo hi \<longleftrightarrow> digits_ok maxd lo \<and> lo < 16 ^ Suc n \<and>
     (digits_ok maxd hi \<and> hi < 16 ^ Suc n \<or> hi = 16 ^ (n + 5) - 1 \<and> lo \<le> maxd * 16 ^ n)"

lemma unlimited_next: "16 ^ (Suc n + 5) - 1 = (16 ^ (n + 5) - 1) * 16 + (15 :: nat)"
proof -
  define p :: nat where "p = 16 ^ (n + 5)"
  have "16 ^ (Suc n + 5) = 16 * p" by (simp only: p_def add_Suc power_Suc)
  moreover have "1 \<le> p" by (simp add: p_def)
  ultimately show ?thesis unfolding p_def [symmetric] by linarith
qed

lemma unlimited_step:
  assumes "hi = 16 ^ (Suc n + 5) - 1"
  shows "hi div 16 = 16 ^ (n + 5) - (1 :: nat)" and "hi mod 16 = 15"
proof -
  define q :: nat where "q = 16 ^ (n + 5) - 1"
  have hi: "hi = q * 16 + 15" unfolding assms q_def by (rule unlimited_next)
  show "hi div 16 = 16 ^ (n + 5) - 1" unfolding q_def [symmetric] hi by simp
  show "hi mod 16 = 15" unfolding hi by simp
qed

lemma limits_low:
  assumes "limits_ok maxd (Suc n) lo hi" and "lo mod 16 = 0 \<or> True"
  shows "digits_ok maxd (lo div 16)" and "lo div 16 < 16 ^ Suc n"
  using assms by (auto simp: limits_ok_def digits_ok_div less_mult_imp_div_less mult.commute)

text \<open>One comparison: a number against a limit, by its last digit and the rest.\<close>

lemma compare_digits: "l \<le> x \<longleftrightarrow> l div 16 < x div 16 \<or> l div 16 = x div 16 \<and> l mod 16 \<le> x mod 16" for l x :: nat
proof -
  define a b c d where "a = l div 16" and "b = l mod 16" and "c = x div 16" and "d = x mod 16"
  have "l = 16 * a + b" "x = 16 * c + d" "b < 16" "d < 16" by (simp_all add: a_def b_def c_def d_def)
  then show ?thesis unfolding a_def [symmetric] b_def [symmetric] c_def [symmetric] d_def [symmetric] by linarith
qed

lemma top_digit: "maxd = 9 \<or> maxd = 15 \<Longrightarrow> n \<le> 2 \<Longrightarrow> digits_ok maxd (maxd * 16 ^ n) \<and> maxd * 16 ^ n < 16 ^ Suc n"
proof -
  assume "maxd = 9 \<or> maxd = 15" and "n \<le> 2"
  moreover have "n \<le> 2 \<longleftrightarrow> n = 0 \<or> n = 1 \<or> n = 2" by auto
  ultimately show ?thesis by (auto simp: digits_ok_4)
qed

subsection \<open>One pass of the loop\<close>

definition next_lo :: "nat \<Rightarrow> u32 \<Rightarrow> u32" where
  "next_lo maxd lo = (if unat lo mod 16 > 0 then incbcd (drop_bit 4 lo) 1 maxd 4 else drop_bit 4 lo)"

definition last_hi :: "nat \<Rightarrow> u32 \<Rightarrow> nat" where
  "last_hi maxd hi = (if unat hi mod 16 > maxd then maxd else unat hi mod 16)"

definition next_hi :: "nat \<Rightarrow> u32 \<Rightarrow> u32" where
  "next_hi maxd hi = (if last_hi maxd hi < maxd then incbcd (drop_bit 4 hi) (-1) maxd 4 else drop_bit 4 hi)"

lemma usb_calls_none: "\<not> lo \<le> hi \<Longrightarrow> usb_calls n lo hi maxd = []"
  by (subst usb_calls.simps) simp

lemma usb_calls_last:
  "lo \<le> hi \<Longrightarrow> drop_bit 4 lo = drop_bit 4 hi \<or> n = 0 \<Longrightarrow>
    usb_calls n lo hi maxd = [(drop_bit 4 lo, n, unat lo mod 16, last_hi maxd hi)]"
  by (subst usb_calls.simps) (simp add: Let_def unat_low last_hi_def)

lemma usb_calls_step:
  "lo \<le> hi \<Longrightarrow> drop_bit 4 lo \<noteq> drop_bit 4 hi \<Longrightarrow>
    usb_calls (Suc n) lo hi maxd =
      (if unat lo mod 16 > 0 then [(drop_bit 4 lo, Suc n, unat lo mod 16, maxd)] else []) @
      (if last_hi maxd hi < maxd then [(drop_bit 4 hi, Suc n, 0, last_hi maxd hi)] else []) @
      usb_calls n (next_lo maxd lo) (next_hi maxd hi) maxd"
  by (subst usb_calls.simps) (simp add: Let_def unat_low last_hi_def next_lo_def next_hi_def)

lemma high_less: "lo \<le> hi \<Longrightarrow> drop_bit 4 lo \<noteq> drop_bit 4 hi \<Longrightarrow> unat (drop_bit 4 lo) < unat (drop_bit 4 hi :: u32)"
proof -
  assume "lo \<le> hi" and "drop_bit 4 lo \<noteq> drop_bit 4 hi"
  moreover have "unat (drop_bit 4 lo) \<le> unat (drop_bit 4 hi)"
    using \<open>lo \<le> hi\<close> unfolding unat_high by (simp add: word_le_nat_alt div_le_mono)
  ultimately show ?thesis by (metis le_neq_implies_less word_unat_eq_iff)
qed

lemma next_lo:
  assumes maxd: "maxd = 9 \<or> maxd = 15" and n: "n \<le> 2" and lims: "limits_ok maxd (Suc n) (unat lo) h"
  shows "digits_ok maxd (unat (next_lo maxd lo))"
    and "digits_ok maxd z \<Longrightarrow> unat (next_lo maxd lo) \<le> z \<longleftrightarrow>
      (if unat lo mod 16 > 0 then unat (drop_bit 4 lo) < z else unat (drop_bit 4 lo) \<le> z)"
proof -
  have L: "digits_ok maxd (unat (drop_bit 4 lo))" "unat (drop_bit 4 lo) < 16 ^ Suc n"
    using limits_low [OF lims] by (simp_all add: unat_high)
  have "(16 :: nat) ^ Suc n \<le> 16 ^ 3" using n by (intro power_increasing) simp_all
  then have "unat (drop_bit 4 lo) < 16 ^ 3" using L(2) by linarith
  note step = incbcd_next [OF maxd L(1) this]
  show "digits_ok maxd (unat (next_lo maxd lo))" using step(1) L(1) by (simp add: next_lo_def)
  show "unat (next_lo maxd lo) \<le> z \<longleftrightarrow>
      (if unat lo mod 16 > 0 then unat (drop_bit 4 lo) < z else unat (drop_bit 4 lo) \<le> z)" if "digits_ok maxd z"
    using step(2) [OF that] by (simp add: next_lo_def)
qed

lemma next_hi:
  assumes maxd: "maxd = 9 \<or> maxd = 15" and H: "digits_ok maxd (unat (drop_bit 4 hi))" "0 < unat (drop_bit 4 hi)"
  shows "digits_ok maxd (unat (next_hi maxd hi))" and "unat (next_hi maxd hi) \<le> unat (drop_bit 4 hi)"
    and "digits_ok maxd z \<Longrightarrow> z \<le> unat (next_hi maxd hi) \<longleftrightarrow>
      (if last_hi maxd hi < maxd then z < unat (drop_bit 4 hi) else z \<le> unat (drop_bit 4 hi))"
proof -
  note step = incbcd_previous [OF maxd H]
  show "digits_ok maxd (unat (next_hi maxd hi))" using step(1) H(1) by (simp add: next_hi_def)
  show "unat (next_hi maxd hi) \<le> unat (drop_bit 4 hi)"
    using step(2) [OF step(1)] by (simp add: next_hi_def)
  show "z \<le> unat (next_hi maxd hi) \<longleftrightarrow>
      (if last_hi maxd hi < maxd then z < unat (drop_bit 4 hi) else z \<le> unat (drop_bit 4 hi))" if "digits_ok maxd z"
    using step(2) [OF that] by (simp add: next_hi_def)
qed

lemma next_limits:
  assumes maxd: "maxd = 9 \<or> maxd = 15" and n: "n \<le> 2" and lims: "limits_ok maxd (Suc n) (unat lo) (unat hi)"
    and le: "lo \<le> hi" and ne: "drop_bit 4 lo \<noteq> drop_bit 4 hi"
  shows "limits_ok maxd n (unat (next_lo maxd lo)) (unat (next_hi maxd hi))"
    and "digits_ok maxd y \<Longrightarrow> y \<le> unat (next_hi maxd hi) \<longleftrightarrow>
      (if last_hi maxd hi < maxd then y < unat (drop_bit 4 hi) else y \<le> unat (drop_bit 4 hi))"
proof -
  note low = next_lo [OF maxd n lims]
  have less: "unat (drop_bit 4 lo) < unat (drop_bit 4 hi)" by (rule high_less [OF le ne])
  consider (limited) "digits_ok maxd (unat hi)" "unat hi < 16 ^ Suc (Suc n)"
    | (unlimited) "unat hi = 16 ^ (Suc n + 5) - 1" "unat lo \<le> maxd * 16 ^ Suc n"
    using lims by (auto simp: limits_ok_def)
  then have "limits_ok maxd n (unat (next_lo maxd lo)) (unat (next_hi maxd hi)) \<and>
    (digits_ok maxd y \<longrightarrow> y \<le> unat (next_hi maxd hi) \<longleftrightarrow>
      (if last_hi maxd hi < maxd then y < unat (drop_bit 4 hi) else y \<le> unat (drop_bit 4 hi)))"
  proof cases
    case limited
    have H: "digits_ok maxd (unat (drop_bit 4 hi))" "unat (drop_bit 4 hi) < 16 ^ Suc n"
      using limited by (simp_all add: unat_high digits_ok_div less_mult_imp_div_less mult.commute)
    have pos: "0 < unat (drop_bit 4 hi)" using less by simp
    note high = next_hi [OF maxd H(1) pos]
    have "unat (next_lo maxd lo) \<le> unat (drop_bit 4 hi)" using low(2) [OF H(1)] less by simp
    then have "unat (next_lo maxd lo) < 16 ^ Suc n" using H(2) by (rule le_less_trans)
    moreover have "unat (next_hi maxd hi) < 16 ^ Suc n" using high(2) H(2) by (rule le_less_trans)
    ultimately show ?thesis unfolding limits_ok_def using low(1) high(1,3) by blast
  next
    case unlimited
    let ?z = "maxd * 16 ^ n"
    have H: "unat (drop_bit 4 hi) = 16 ^ (n + 5) - 1" "\<not> last_hi maxd hi < maxd"
      using unlimited_step [OF unlimited(1)] maxd by (auto simp: unat_high last_hi_def)
    have z: "digits_ok maxd ?z" "?z < 16 ^ Suc n" using top_digit [OF maxd n] by simp_all
    have "unat lo = 16 * unat (drop_bit 4 lo) + unat lo mod 16" by (simp add: unat_high)
    then have "unat (next_lo maxd lo) \<le> ?z" using low(2) [OF z(1)] unlimited(2) by auto
    moreover have "unat (next_lo maxd lo) < 16 ^ Suc n" using calculation z(2) by (rule le_less_trans)
    ultimately show ?thesis using low(1) H by (simp add: limits_ok_def next_hi_def)
  qed
  then show "limits_ok maxd n (unat (next_lo maxd lo)) (unat (next_hi maxd hi))"
    and "digits_ok maxd y \<Longrightarrow> y \<le> unat (next_hi maxd hi) \<longleftrightarrow>
      (if last_hi maxd hi < maxd then y < unat (drop_bit 4 hi) else y \<le> unat (drop_bit 4 hi))" by blast+
qed

subsection \<open>The loop\<close>

lemma last_digit:
  assumes maxd: "maxd = 9 \<or> maxd = 15" and lims: "limits_ok maxd 0 (unat lo) (unat hi)" and x: "x < 16" "x \<le> maxd"
  shows "unat lo mod 16 \<le> x \<longleftrightarrow> unat lo \<le> x" and "x \<le> last_hi maxd hi \<longleftrightarrow> x \<le> unat hi"
proof -
  show "unat lo mod 16 \<le> x \<longleftrightarrow> unat lo \<le> x" using lims by (simp add: limits_ok_def)
  show "x \<le> last_hi maxd hi \<longleftrightarrow> x \<le> unat hi"
  proof (cases "unat hi < 16")
    case False
    then have "unat hi = 16 ^ (0 + 5) - 1" using lims by (simp add: limits_ok_def)
    then show ?thesis using x maxd by (auto simp: last_hi_def)
  qed (use x in \<open>auto simp: last_hi_def\<close>)
qed

lemma compare_high:
  assumes "x mod 16 \<le> maxd"
  shows "unat lo \<le> x \<longleftrightarrow> unat (drop_bit 4 lo :: u32) < x div 16 \<or> unat (drop_bit 4 lo) = x div 16 \<and> unat lo mod 16 \<le> x mod 16"
    and "x \<le> unat hi \<longleftrightarrow> x div 16 < unat (drop_bit 4 hi :: u32) \<or> x div 16 = unat (drop_bit 4 hi) \<and> x mod 16 \<le> last_hi maxd hi"
  using compare_digits [of "unat lo" x] compare_digits [of x "unat hi"] assms
  by (auto simp: unat_high last_hi_def)

lemma calls_accept:
  assumes maxd: "maxd = 9 \<or> maxd = 15" and v: "digits_ok maxd v"
  shows "n \<le> 3 \<Longrightarrow> limits_ok maxd n (unat lo) (unat hi) \<Longrightarrow>
    (\<exists>c \<in> set (usb_calls n lo hi maxd). call_accepts c v) \<longleftrightarrow>
      unat lo \<le> v div 16 ^ (3 - n) \<and> v div 16 ^ (3 - n) \<le> unat hi"
proof (induction n arbitrary: lo hi)
  case 0
  define x where "x = v div 16 ^ (3 - 0)"
  have x: "x < 16" "x \<le> maxd" using v by (auto simp: x_def digits_ok_4)
  have "v div 4096 mod 16 = x" using x(1) by (simp add: x_def)
  then show ?case
    using last_digit [OF maxd "0.prems"(2) x] unfolding x_def [symmetric]
    by (cases "lo \<le> hi") (auto simp: usb_calls_last usb_calls_none call_accepts_def word_le_nat_alt)
next
  case (Suc n)
  define x where "x = v div 16 ^ (3 - Suc n)"
  have n: "n \<le> 2" "4 - Suc n = 3 - n" "3 - n = Suc (3 - Suc n)" using Suc.prems(1) by simp_all
  have y: "v div 16 ^ (3 - n) = x div 16" unfolding n(3) x_def by (simp add: div_mult2_eq [symmetric] mult.commute)
  have "digits_ok maxd x" unfolding x_def by (rule digits_ok_prefix [OF v])
  then have ok: "digits_ok maxd x" "digits_ok maxd (x div 16)" by (simp_all add: digits_ok_div)
  have c: "x mod 16 \<le> maxd" using digits_ok_mod [OF ok(1)] .
  note compare = compare_high [OF c]
  have accepts: "call_accepts (w, Suc n, a, b) v \<longleftrightarrow> x div 16 = unat w \<and> a \<le> x mod 16 \<and> x mod 16 \<le> b" for w a b
    by (simp add: call_accepts_def n(2) y x_def)
  show ?case unfolding x_def [symmetric]
  proof -
    consider "\<not> lo \<le> hi" | "lo \<le> hi" "drop_bit 4 lo = drop_bit 4 hi" | "lo \<le> hi" "drop_bit 4 lo \<noteq> drop_bit 4 hi"
      by blast
    then show "(\<exists>c \<in> set (usb_calls (Suc n) lo hi maxd). call_accepts c v) \<longleftrightarrow> unat lo \<le> x \<and> x \<le> unat hi"
    proof cases
      case 1
      then have "\<not> (unat lo \<le> x \<and> x \<le> unat hi)" by (simp add: word_le_nat_alt)
      then show ?thesis by (simp add: usb_calls_none [OF 1])
    next
      case 2
      then have H: "unat (drop_bit 4 hi) = unat (drop_bit 4 lo)" by simp
      show ?thesis
        unfolding usb_calls_last [OF 2(1) disjI1 [OF 2(2)]] compare H by (auto simp: accepts)
    next
      case le_ne: 3
      note le = le_ne(1) and ne = le_ne(2)
    have IH: "(\<exists>c \<in> set (usb_calls n (next_lo maxd lo) (next_hi maxd hi) maxd). call_accepts c v) \<longleftrightarrow>
        unat (next_lo maxd lo) \<le> x div 16 \<and> x div 16 \<le> unat (next_hi maxd hi)"
      using Suc.IH [OF _ next_limits(1) [OF maxd n(1) Suc.prems(2) le ne]] n(1) by (simp add: y)
    then show ?thesis
      unfolding usb_calls_step [OF le ne] set_append bex_Un IH compare
        next_lo(2) [OF maxd n(1) Suc.prems(2) ok(2)] next_limits(2) [OF maxd n(1) Suc.prems(2) le ne ok(2)]
      using high_less [OF le ne] c by (auto simp: accepts)
    qed
  qed
qed

lemma calls_ok:
  assumes maxd: "maxd = 9 \<or> maxd = 15"
  shows "n \<le> 3 \<Longrightarrow> limits_ok maxd n (unat lo) (unat hi) \<Longrightarrow> c \<in> set (usb_calls n lo hi maxd) \<Longrightarrow>
    call_ok maxd c \<and> fst (snd (snd c)) \<le> snd (snd (snd c))"
proof (induction n arbitrary: lo hi)
  case 0
  then show ?case
    using digits_ok_mod [of maxd "unat lo"]
    by (cases "lo \<le> hi") (auto simp: usb_calls_last usb_calls_none call_ok_def limits_ok_def last_hi_def word_le_nat_alt)
next
  case (Suc n)
  have L: "digits_ok maxd (unat (drop_bit 4 lo))" "unat (drop_bit 4 lo) < 16 ^ Suc n" and clo: "unat lo mod 16 \<le> maxd"
    using limits_low [OF Suc.prems(2)] Suc.prems(2) by (simp_all add: unat_high limits_ok_def digits_ok_mod)
  have chi: "last_hi maxd hi \<le> maxd" by (simp add: last_hi_def)
  show ?case
  proof (cases "lo \<le> hi"; cases "drop_bit 4 lo = drop_bit 4 hi")
    assume le: "lo \<le> hi" and same: "drop_bit 4 lo = drop_bit 4 hi"
    then have "unat lo mod 16 \<le> unat hi mod 16"
      using compare_digits [of "unat lo" "unat hi"] by (auto simp: word_le_nat_alt unat_high [symmetric])
    then show ?thesis using Suc.prems(1,3) L clo le same by (auto simp: usb_calls_last call_ok_def last_hi_def)
  next
    assume le: "lo \<le> hi" and ne: "drop_bit 4 lo \<noteq> drop_bit 4 hi"
    have n: "n \<le> 2" "n \<le> 3" using Suc.prems(1) by simp_all
    have "unat (drop_bit 4 hi) < 16 ^ Suc n" if "last_hi maxd hi < maxd"
    proof (rule ccontr)
      assume big: "\<not> unat (drop_bit 4 hi) < 16 ^ Suc n"
      have "\<not> unat hi < 16 ^ Suc (Suc n)"
        using big less_mult_imp_div_less [of "unat hi" "16 ^ Suc n" 16] by (auto simp: unat_high mult.commute)
      then have "unat hi = 16 ^ (Suc n + 5) - 1" using Suc.prems(2) by (auto simp: limits_ok_def)
      then show False using that maxd unlimited_step(2) by (auto simp: last_hi_def)
    qed
    then show ?thesis
      using Suc.prems(1,3) Suc.IH [OF n(2) next_limits(1) [OF maxd n(1) Suc.prems(2) le ne]] L clo chi
      unfolding usb_calls_step [OF le ne] by (auto simp: call_ok_def split: if_splits)
  qed (use Suc.prems(3) in \<open>simp_all add: usb_calls_none\<close>)
qed

subsection \<open>The whole alias\<close>

definition release_tokens :: "u32 \<times> nat \<times> nat \<times> nat \<Rightarrow> nat \<Rightarrow> token list" where
  "release_tokens c maxd = (case c of (i, n, lo, hi) \<Rightarrow> pattern (usb_release i n lo hi maxd))"

lemma digit_set_append:
  assumes "lo < 16" and "hi < 16"
  shows "pattern (''['' @ digit_set lo hi @ '']'' @ s) = Class (ranges (digit_set lo hi)) # pattern s"
  by (rule pattern_set)
    (use hex_digit_not_dash [OF assms(1)] hex_digit_not_dash [OF assms(2)] in \<open>auto simp: digit_set_def\<close>)

lemma release_digit_append:
  assumes "lo < 16" and "hi < 16"
  shows "pattern (release_digit lo hi maxd @ s) = pattern (release_digit lo hi maxd) @ pattern s"
    and "lit_letters (pattern (release_digit lo hi maxd)) = 0"
proof -
  have "plain (hex_digit True lo) \<and> \<not> lower (hex_digit True lo)" using hex_digit_plain [OF assms(1)] by simp
  then show "pattern (release_digit lo hi maxd @ s) = pattern (release_digit lo hi maxd) @ pattern s"
    and "lit_letters (pattern (release_digit lo hi maxd)) = 0"
    using digit_set_append [OF assms, of s] digit_set_append [OF assms, of "[]"]
    by (auto simp: release_digit_def plain_def)
qed

lemma release_append:
  assumes ok: "call_ok maxd (i, n, lo, hi)" and maxd: "maxd < 16"
  shows "pattern (usb_release i n lo hi maxd @ s) = release_tokens (i, n, lo, hi) maxd @ pattern s"
    and "lit_letters (release_tokens (i, n, lo, hi) maxd) = 0"
proof -
  have small: "lo < 16" "hi < 16" using ok maxd by (auto simp: call_ok_def)
  note parts = usb_release_parts [OF ok maxd] release_digit_append [OF small]
  show "pattern (usb_release i n lo hi maxd @ s) = release_tokens (i, n, lo, hi) maxd @ pattern s"
    unfolding release_tokens_def prod.case parts(1)
    by (cases "n = 0") (simp_all add: parts(2) pattern_plain [OF hex_digits_plain])
  show "lit_letters (release_tokens (i, n, lo, hi) maxd) = 0"
    unfolding release_tokens_def prod.case parts(1)
    by (cases "n = 0") (simp_all add: parts(2,3) pattern_plain [OF hex_digits_plain])
qed

text \<open>A device, and the string the USB bus reports for it.\<close>

record usb_dev =
  dev_vendor :: u16
  dev_product :: u16
  dev_release :: u16
  dev_class :: u8
  dev_subclass :: u8
  dev_protocol :: u8
  int_class :: u8
  int_subclass :: u8
  int_protocol :: u8
  int_number :: u8

definition usb_ids :: "usb_device_id \<Rightarrow> usb_dev \<Rightarrow> number_field list" where
  "usb_ids s d =
    [(''v'', usb_match_flags s AND USB_DEVICE_ID_MATCH_VENDOR \<noteq> 0, 4, unat (usb_idVendor s), unat (dev_vendor d)),
     (''p'', usb_match_flags s AND USB_DEVICE_ID_MATCH_PRODUCT \<noteq> 0, 4, unat (usb_idProduct s), unat (dev_product d))]"

definition usb_classes :: "usb_device_id \<Rightarrow> usb_dev \<Rightarrow> number_field list" where
  "usb_classes s d =
    [(''dc'', usb_match_flags s AND USB_DEVICE_ID_MATCH_DEV_CLASS \<noteq> 0, 2, unat (usb_bDeviceClass s), unat (dev_class d)),
     (''dsc'', usb_match_flags s AND USB_DEVICE_ID_MATCH_DEV_SUBCLASS \<noteq> 0, 2, unat (usb_bDeviceSubClass s), unat (dev_subclass d)),
     (''dp'', usb_match_flags s AND USB_DEVICE_ID_MATCH_DEV_PROTOCOL \<noteq> 0, 2, unat (usb_bDeviceProtocol s), unat (dev_protocol d)),
     (''ic'', usb_match_flags s AND USB_DEVICE_ID_MATCH_INT_CLASS \<noteq> 0, 2, unat (usb_bInterfaceClass s), unat (int_class d)),
     (''isc'', usb_match_flags s AND USB_DEVICE_ID_MATCH_INT_SUBCLASS \<noteq> 0, 2, unat (usb_bInterfaceSubClass s), unat (int_subclass d)),
     (''ip'', usb_match_flags s AND USB_DEVICE_ID_MATCH_INT_PROTOCOL \<noteq> 0, 2, unat (usb_bInterfaceProtocol s), unat (int_protocol d))]"

definition usb_last :: "usb_device_id \<Rightarrow> usb_dev \<Rightarrow> number_field" where
  "usb_last s d =
    (''in'', usb_match_flags s AND USB_DEVICE_ID_MATCH_INT_NUMBER \<noteq> 0, 2, unat (usb_bInterfaceNumber s), unat (int_number d))"

definition usb_string :: "usb_dev \<Rightarrow> string" where
  "usb_string d =
     ''usb:v'' @ hex_digits True 4 (unat (dev_vendor d)) @ ''p'' @ hex_digits True 4 (unat (dev_product d)) @
     ''d'' @ hex_digits True 4 (unat (dev_release d)) @ ''dc'' @ hex_digits True 2 (unat (dev_class d)) @
     ''dsc'' @ hex_digits True 2 (unat (dev_subclass d)) @ ''dp'' @ hex_digits True 2 (unat (dev_protocol d)) @
     ''ic'' @ hex_digits True 2 (unat (int_class d)) @ ''isc'' @ hex_digits True 2 (unat (int_subclass d)) @
     ''ip'' @ hex_digits True 2 (unat (int_protocol d)) @ ''in'' @ hex_digits True 2 (unat (int_number d))"

text \<open>The entry against the device, except for the release: every field is equal or not asked for.\<close>

definition ids_match :: "usb_device_id \<Rightarrow> usb_dev \<Rightarrow> bool" where
  "ids_match s d \<longleftrightarrow> (\<forall>(sep, cond, w, v, x) \<in> set (usb_ids s d @ usb_classes s d @ [usb_last s d]). cond \<longrightarrow> v = x)"

lemma usb_numbers_ok: "list_all number_ok (usb_ids s d)" "list_all number_ok (usb_classes s d @ [usb_last s d])"
  by (simp_all add: usb_ids_def usb_classes_def usb_last_def number_ok_def lower_def)

definition usb_fields :: "usb_device_id \<Rightarrow> u32 \<times> nat \<times> nat \<times> nat \<Rightarrow> nat \<Rightarrow> usb_dev \<Rightarrow> field list" where
  "usb_fields s c maxd d =
     map as_field (usb_ids s d) @ (''d'', release_tokens c maxd, hex_digits True 4 (unat (dev_release d))) #
     wild_fields (usb_classes s d) (usb_last s d)"

lemma do_usb_entry_parts:
  "do_usb_entry s i n lo hi maxd =
     ''usb:'' @ numbers_alias (usb_ids s d) @ ''d'' @ usb_release i n lo hi maxd @
       wildcard_alias (usb_classes s d) (usb_last s d)"
proof -
  have "do_usb_entry s i n lo hi maxd = add_wildcard ((''usb:'' @ numbers_alias (usb_ids s d) @ ''d'' @
      usb_release i n lo hi maxd) @ numbers_alias (usb_classes s d @ [usb_last s d]))"
    by (simp add: do_usb_entry_def Let_def ADD_pattern numbers_alias_def usb_ids_def usb_classes_def usb_last_def)
  also have "\<dots> = (''usb:'' @ numbers_alias (usb_ids s d) @ ''d'' @
      usb_release i n lo hi maxd) @ wildcard_alias (usb_classes s d) (usb_last s d)"
    by (rule add_wildcard_numbers) (use usb_numbers_ok(2) [of s d] in simp)
  finally show ?thesis by simp
qed

lemma usb_string_parts: "usb_string d = ''usb:'' @ device_text (usb_fields s c maxd d)"
  by (simp add: usb_string_def device_text_def usb_fields_def wild_fields_def wild_field_def as_field_def
      usb_ids_def usb_classes_def usb_last_def)

lemma usb_entry_match:
  assumes ok: "call_ok maxd (i, n, lo, hi)" and maxd: "maxd < 16"
  shows "matches (do_usb_entry s i n lo hi maxd) (usb_string d) \<longleftrightarrow>
    ids_match s d \<and> matches (usb_release i n lo hi maxd) (hex_digits True 4 (unat (dev_release d)))"
proof -
  let ?c = "(i, n, lo, hi)"
  have numbers: "list_all number_ok (usb_classes s d)" "number_ok (usb_last s d)"
    using usb_numbers_ok(2) [of s d] by simp_all
  have plain: "list_all plain ''usb:''" "list_all plain ''d''" by (simp_all add: plain_def)
  have "pattern (do_usb_entry s i n lo hi maxd) = map Lit ''usb:'' @ tokens (usb_fields s ?c maxd d)"
    unfolding do_usb_entry_parts [of s i n lo hi maxd d] pattern_plain [OF plain(1)]
      numbers_pattern [OF usb_numbers_ok(1)] pattern_plain [OF plain(2)] release_append(1) [OF ok maxd]
      wildcard_pattern [OF numbers]
    by (simp add: usb_fields_def tokens_def)
  then have "matches (do_usb_entry s i n lo hi maxd) (usb_string d) \<longleftrightarrow>
      glob (tokens (usb_fields s ?c maxd d)) (device_text (usb_fields s ?c maxd d))"
    unfolding matches_def usb_string_parts [of d s ?c maxd] by (simp only: glob_Lit [OF refl] simp_thms)
  also have "\<dots> \<longleftrightarrow> (\<forall>(sep, q, h) \<in> set (usb_fields s ?c maxd d). glob q h)"
  proof (rule fields_match)
    have "field_ok (''d'', release_tokens ?c maxd, hex_digits True 4 (unat (dev_release d)))"
      using release_append(2) [OF ok maxd] by (simp add: field_ok_def lower_def)
    then show "list_all field_ok (usb_fields s ?c maxd d)"
      using as_field_ok [OF usb_numbers_ok(1) [of s d]] wild_fields_ok [OF numbers] by (simp add: usb_fields_def)
  qed
  also have "\<dots> \<longleftrightarrow> ids_match s d \<and> matches (usb_release i n lo hi maxd) (hex_digits True 4 (unat (dev_release d)))"
    unfolding usb_fields_def set_append [of "map as_field (usb_ids s d)"] list.set(2) ball_Un ball_simps prod.case
      as_field_glob [OF usb_numbers_ok(1)] wild_fields_glob [OF numbers] ids_match_def set_append [of "usb_ids s d"]
      matches_def release_tokens_def
    by (simp only: conj_ac)
  finally show ?thesis .
qed

lemma ids_match_fields:
  "ids_match s d \<longleftrightarrow>
    (usb_match_flags s AND USB_DEVICE_ID_MATCH_VENDOR = 0 \<or> usb_idVendor s = dev_vendor d) \<and>
    (usb_match_flags s AND USB_DEVICE_ID_MATCH_PRODUCT = 0 \<or> usb_idProduct s = dev_product d) \<and>
    (usb_match_flags s AND USB_DEVICE_ID_MATCH_DEV_CLASS = 0 \<or> usb_bDeviceClass s = dev_class d) \<and>
    (usb_match_flags s AND USB_DEVICE_ID_MATCH_DEV_SUBCLASS = 0 \<or> usb_bDeviceSubClass s = dev_subclass d) \<and>
    (usb_match_flags s AND USB_DEVICE_ID_MATCH_DEV_PROTOCOL = 0 \<or> usb_bDeviceProtocol s = dev_protocol d) \<and>
    (usb_match_flags s AND USB_DEVICE_ID_MATCH_INT_CLASS = 0 \<or> usb_bInterfaceClass s = int_class d) \<and>
    (usb_match_flags s AND USB_DEVICE_ID_MATCH_INT_SUBCLASS = 0 \<or> usb_bInterfaceSubClass s = int_subclass d) \<and>
    (usb_match_flags s AND USB_DEVICE_ID_MATCH_INT_PROTOCOL = 0 \<or> usb_bInterfaceProtocol s = int_protocol d) \<and>
    (usb_match_flags s AND USB_DEVICE_ID_MATCH_INT_NUMBER = 0 \<or> usb_bInterfaceNumber s = int_number d)"
  by (simp add: ids_match_def usb_ids_def usb_classes_def usb_last_def word_unat_eq_iff [symmetric]) blast

subsection \<open>Entries\<close>

lemma usb_max_cases: "usb_max lo hi = 9 \<or> usb_max lo hi = 15"
  by (simp add: usb_max_def Let_def)

lemma nibbles_le_9:
  "(\<exists>k \<in> set [0..<4]. unat (drop_bit (4 * k) w AND 0xf :: u32) > 9) \<or> unat w \<ge> 65536 \<or> digits_ok 9 (unat w)"
proof -
  have "unat (drop_bit (4 * k) w AND 0xf) = unat w div 16 ^ k mod 16" for k
    using nibble_unat [of k w] by (simp add: nibble_def)
  then show ?thesis by (auto simp: digits_ok_def not_less)
qed

lemma usb_max_lo: "unat lo < 65536 \<Longrightarrow> digits_ok (usb_max lo hi) (unat lo)"
  using nibbles_le_9 [of lo] by (auto simp: usb_max_def Let_def digits_ok_15 split: if_splits)

lemma usb_max_hi:
  "unat hi < 65536 \<Longrightarrow> usb_max lo hi = 15 \<or> hi \<le> 0x9999 \<Longrightarrow> digits_ok (usb_max lo hi) (unat hi)"
  using nibbles_le_9 [of hi] by (auto simp: usb_max_def Let_def digits_ok_15 not_less split: if_splits)

definition usb_release_max :: "usb_device_id \<Rightarrow> nat" where
  "usb_release_max s = usb_max (fst (usb_limits s)) (snd (usb_limits s))"

definition usb_range_ok :: "usb_device_id \<Rightarrow> bool" where
  "usb_range_ok s = (let (lo, hi) = usb_limits s; maxd = usb_release_max s in
     (if hi = NOT 0 then unat lo \<le> maxd * 4096 else maxd = 15 \<or> hi \<le> 0x9999) \<and>
     (drop_bit 4 lo = drop_bit 4 hi \<and> unat lo mod 16 = 0 \<longrightarrow> unat hi mod 16 < maxd))"

definition usb_placeholder :: "usb_device_id \<Rightarrow> bool" where
  "usb_placeholder s \<longleftrightarrow>
     usb_idVendor s = 0 \<and> usb_idProduct s = 0 \<and> usb_bDeviceClass s = 0 \<and> usb_bInterfaceClass s = 0"

lemma usb_limits_bounds:
  assumes "usb_limits s = (lo, hi)"
  shows "unat lo < 65536" and "hi = NOT 0 \<or> unat hi < 65536"
proof -
  have "unat (ucast (x :: u16) :: u32) < 65536" for x
  proof -
    have "take_bit 32 (unat x) = unat x" by (rule take_bit_nat_eq_self) (rule less_trans [OF unat_16], simp)
    then show ?thesis by (simp add: unsigned_ucast_eq)
  qed
  then show "unat lo < 65536" and "hi = NOT 0 \<or> unat hi < 65536"
    using assms by (auto simp: usb_limits_def split: if_splits)
qed

lemma usb_entry_limits:
  assumes lims: "usb_limits s = (lo, hi)" and ok: "usb_range_ok s"
  shows "limits_ok (usb_max lo hi) 3 (unat lo) (unat hi)"
proof (cases "hi = NOT 0")
  case True
  have "unat (NOT 0 :: u32) = 16 ^ (3 + 5) - 1" by (simp add: unsigned_minus_1_eq_mask mask_eq_exp_minus_1)
  then show ?thesis
    using True ok lims usb_max_lo [of lo hi] usb_limits_bounds [OF lims]
    by (simp add: usb_range_ok_def usb_release_max_def Let_def limits_ok_def)
next
  case False
  then show ?thesis
    using ok lims usb_max_lo [of lo hi] usb_max_hi [of hi lo] usb_limits_bounds [OF lims]
    by (auto simp: usb_range_ok_def usb_release_max_def Let_def limits_ok_def)
qed

lemma short_call:
  assumes "c \<in> set (usb_calls 3 lo hi maxd)" and "call_short maxd c"
  shows "drop_bit 4 lo = drop_bit 4 hi \<and> unat lo mod 16 = 0 \<and> maxd \<le> unat hi mod 16"
proof -
  have three: "usb_calls 3 lo hi maxd = usb_calls (Suc 2) lo hi maxd" by simp
  consider "\<not> lo \<le> hi" | "lo \<le> hi" "drop_bit 4 lo = drop_bit 4 hi" | "lo \<le> hi" "drop_bit 4 lo \<noteq> drop_bit 4 hi"
    by blast
  then show ?thesis
  proof cases
    case 1
    then show ?thesis using assms(1) by (simp add: usb_calls_none)
  next
    case 2
    then show ?thesis using assms by (auto simp: usb_calls_last call_short_def last_hi_def split: if_splits)
  next
    case 3
    have "fst (snd c) \<noteq> 3" if "c \<in> set (usb_calls 2 (next_lo maxd lo) (next_hi maxd hi) maxd)"
      using usb_calls_digits [OF that] by simp
    then show ?thesis using assms unfolding three usb_calls_step [OF 3]
      by (auto simp: call_short_def split: if_splits)
  qed
qed

text \<open>
  C7. The aliases of a USB entry cover exactly the devices the entry is for: the numbers that are
  asked for agree and the release is within the limits. This needs a device whose release has
  digits of the kind of the limits (decimal, or hexadecimal if a limit is), and limits that
  avoid three cases in which it fails: \<open>usb_range_ok\<close>.
\<close>

theorem usb_aliases_exact:
  assumes "usb_range_ok s" and "\<not> usb_placeholder s" and "digits_ok (usb_release_max s) (unat (dev_release d))"
  shows "(\<exists>alias \<in> set (do_usb_entry_multi s). matches alias (usb_string d)) \<longleftrightarrow>
    ids_match s d \<and> unat (fst (usb_limits s)) \<le> unat (dev_release d) \<and>
    unat (dev_release d) \<le> unat (snd (usb_limits s))"
proof -
  obtain lo hi where lims: "usb_limits s = (lo, hi)" by (cases "usb_limits s")
  let ?m = "usb_max lo hi" and ?v = "unat (dev_release d)"
  have limits: "limits_ok ?m 3 (unat lo) (unat hi)" by (rule usb_entry_limits [OF lims assms(1)])
  have m: "?m = 9 \<or> ?m = 15" by (rule usb_max_cases)
  then have m16: "?m < 16" by auto
  have v: "digits_ok ?m ?v" using assms(3) lims by (simp add: usb_release_max_def)
  have call: "matches (do_usb_entry s i n a b ?m) (usb_string d) \<longleftrightarrow> ids_match s d \<and> call_accepts (i, n, a, b) ?v"
    if "(i, n, a, b) \<in> set (usb_calls 3 lo hi ?m)" for i n a b
  proof -
    have ok: "call_ok ?m (i, n, a, b)" "a \<le> b" using calls_ok [OF m _ limits that] by simp_all
    have "\<not> call_short ?m (i, n, a, b)"
      using short_call [OF that] assms(1) lims by (auto simp: usb_range_ok_def usb_release_max_def Let_def)
    then show ?thesis using usb_entry_match [OF ok(1) m16] call_matches [OF ok m16 v] by simp
  qed
  have "do_usb_entry_multi s = map (\<lambda>(i, n, a, b). do_usb_entry s i n a b ?m) (usb_calls 3 lo hi ?m)"
    unfolding do_usb_entry_multi_def lims prod.case Let_def usb_placeholder_def [symmetric]
    using assms(2) by (simp only: if_False)
  then have "(\<exists>alias \<in> set (do_usb_entry_multi s). matches alias (usb_string d)) \<longleftrightarrow>
      (\<exists>c \<in> set (usb_calls 3 lo hi ?m). matches (case c of (i, n, a, b) \<Rightarrow> do_usb_entry s i n a b ?m) (usb_string d))"
    by (simp only: set_map bex_simps)
  also have "\<dots> \<longleftrightarrow> (\<exists>c \<in> set (usb_calls 3 lo hi ?m). ids_match s d \<and> call_accepts c ?v)"
  proof (rule bex_cong [OF refl])
    fix c :: "u32 \<times> nat \<times> nat \<times> nat"
    obtain i n a b where c: "c = (i, n, a, b)" by (cases c)
    assume "c \<in> set (usb_calls 3 lo hi ?m)"
    then show "matches (case c of (i, n, a, b) \<Rightarrow> do_usb_entry s i n a b ?m) (usb_string d) \<longleftrightarrow>
        ids_match s d \<and> call_accepts c ?v" unfolding c prod.case by (rule call)
  qed
  also have "\<dots> \<longleftrightarrow> ids_match s d \<and> (\<exists>c \<in> set (usb_calls 3 lo hi ?m). call_accepts c ?v)" by blast
  finally show ?thesis using calls_accept [OF m v _ limits] lims by simp
qed

definition usb_example :: usb_device_id where
  "usb_example = \<lparr> usb_match_flags = 0x000F, usb_idVendor = 0x0781, usb_idProduct = 0x0001,
     usb_bcdDevice_lo = 0x0095, usb_bcdDevice_hi = 0x0200, usb_bDeviceClass = 0, usb_bDeviceSubClass = 0,
     usb_bDeviceProtocol = 0, usb_bInterfaceClass = 0, usb_bInterfaceSubClass = 0, usb_bInterfaceProtocol = 0,
     usb_bInterfaceNumber = 0, usb_driver_info = 0 \<rparr>"

definition device_example :: "u16 \<Rightarrow> usb_dev" where
  "device_example r = \<lparr> dev_vendor = 0x0781, dev_product = 0x0001, dev_release = r, dev_class = 0, dev_subclass = 0,
     dev_protocol = 0, int_class = 8, int_subclass = 6, int_protocol = 0x50, int_number = 0 \<rparr>"

lemma usb_example_limits: "usb_limits usb_example = (0x95, 0x200)" "usb_release_max usb_example = 9"
  "usb_range_ok usb_example" "\<not> usb_placeholder usb_example"
  by code_simp+

theorem usb_aliases_exact_witness:
  "(\<exists>alias \<in> set (do_usb_entry_multi usb_example). matches alias (usb_string (device_example 0x0199))) \<and>
   \<not> (\<exists>alias \<in> set (do_usb_entry_multi usb_example). matches alias (usb_string (device_example 0x0201)))"
proof
  have rel: "digits_ok (usb_release_max usb_example) (unat (dev_release (device_example 0x0199)))"
    "digits_ok (usb_release_max usb_example) (unat (dev_release (device_example 0x0201)))"
    by (simp_all add: usb_example_limits device_example_def digits_ok_4)
  show "\<exists>alias \<in> set (do_usb_entry_multi usb_example). matches alias (usb_string (device_example 0x0199))"
    unfolding usb_aliases_exact [OF usb_example_limits(3,4) rel(1)] usb_example_limits ids_match_fields
    by (simp add: usb_example_def device_example_def devid)
  show "\<not> (\<exists>alias \<in> set (do_usb_entry_multi usb_example). matches alias (usb_string (device_example 0x0201)))"
    unfolding usb_aliases_exact [OF usb_example_limits(3,4) rel(2)] usb_example_limits ids_match_fields
    by (simp add: usb_example_def device_example_def devid)
qed

subsection \<open>Where the ranges fail\<close>

lemma glob_length: "glob (map Lit a) s \<Longrightarrow> length s = length a"
proof (induction a arbitrary: s)
  case (Cons c a)
  then show ?case by (cases s) auto
qed simp

text \<open>
  If the limits are all the releases with the same leading digits, the pattern has these digits
  and nothing for the last one: the entry matches no device at all.
\<close>

theorem usb_last_digit_lost:
  assumes "usb_limits s = (lo, hi)" and "maxd = usb_max lo hi" and "lo \<le> hi"
    and "drop_bit 4 lo = drop_bit 4 hi" and "unat lo mod 16 = 0" and "maxd \<le> unat hi mod 16"
    and "alias \<in> set (do_usb_entry_multi s)"
  shows "\<not> matches alias (usb_string d)"
proof -
  have calls: "usb_calls 3 lo hi maxd = [(drop_bit 4 lo, 3, 0, maxd)]"
    using usb_calls_last [OF assms(3), of 3 maxd] assms(4,5,6) by (simp add: last_hi_def)
  have "set (do_usb_entry_multi s) \<subseteq> {do_usb_entry s (drop_bit 4 lo) 3 0 maxd maxd}"
    unfolding do_usb_entry_multi_def assms(1) prod.case Let_def assms(2) [symmetric] calls by simp
  then have made: "alias = do_usb_entry s (drop_bit 4 lo) 3 0 maxd maxd" using assms(7) by blast
  have maxd: "maxd = 9 \<or> maxd = 15" using usb_max_cases assms(2) by simp
  have "unat lo < 65536" by (rule usb_limits_bounds(1) [OF assms(1)])
  then have ok: "call_ok maxd (drop_bit 4 lo, 3, 0, maxd)" by (simp add: call_ok_def unat_high)
  have m16: "maxd < 16" using maxd by auto
  have "usb_release (drop_bit 4 lo) 3 0 maxd maxd = hex_digits True 3 (unat (drop_bit 4 lo))"
    using usb_release_parts [OF ok m16] maxd by (auto simp: release_digit_def)
  then have "\<not> matches (usb_release (drop_bit 4 lo) 3 0 maxd maxd) (hex_digits True 4 (unat (dev_release d)))"
    using glob_length [of "hex_digits True 3 (unat (drop_bit 4 lo))" "hex_digits True 4 (unat (dev_release d))"]
      pattern_plain [OF hex_digits_plain, of True 3 "unat (drop_bit 4 lo)" "[]"]
    by (auto simp: matches_def)
  then show ?thesis unfolding made usb_entry_match [OF ok m16] by blast
qed

definition usb_block :: "u16 \<Rightarrow> u16 \<Rightarrow> u16 \<Rightarrow> usb_device_id" where
  "usb_block flags lo hi = usb_example \<lparr> usb_match_flags := flags, usb_bcdDevice_lo := lo, usb_bcdDevice_hi := hi \<rparr>"

theorem usb_last_digit_lost_witness:
  "\<exists>alias. do_usb_entry_multi (usb_block 0x000F 0x0100 0x0109) = [alias] \<and>
     \<not> matches alias (usb_string (device_example 0x0105))"
proof -
  have lims: "usb_limits (usb_block 0x000F 0x0100 0x0109) = (0x100, 0x109)" "usb_max 0x100 0x109 = 9" by code_simp+
  have "\<not> usb_placeholder (usb_block 0x000F 0x0100 0x0109)"
    by (simp add: usb_placeholder_def usb_block_def usb_example_def)
  moreover have "usb_calls 3 0x100 0x109 9 = [(0x10, 3, 0, 9)]" by (simp add: usb_calls_last last_hi_def)
  ultimately obtain a where a: "do_usb_entry_multi (usb_block 0x000F 0x0100 0x0109) = [a]"
    unfolding do_usb_entry_multi_def lims prod.case Let_def usb_placeholder_def by simp
  have "\<not> matches a (usb_string (device_example 0x0105))"
    by (rule usb_last_digit_lost [OF lims(1) lims(2) [symmetric]]) (simp_all add: a)
  then show ?thesis using a by blast
qed

end
