(* ===== verification/Alias_Table.thy ===== *)
theory Alias_Table
  imports Alias_Usb
begin

text \<open>
  Device tables as a whole (\<open>scripts/mod/file2alias.c\<close>): the check of a table, the loop over its
  entries, the tables with rules of their own, and \<open>handle_moddevtable\<close>, which finds the table
  of a symbol by its name. A table is the bytes of its symbol (\<open>st_size\<close> of them). The text
  collected in \<open>dev_table_buf\<close> is a string; \<open>Inl\<close> is the message of a call of \<open>fatal\<close>.
\<close>

subsection \<open>Output\<close>

definition module_alias :: "string \<Rightarrow> string" where
  "module_alias alias = ''MODULE_ALIAS('' @ [CHR 0x22] @ alias @ [CHR 0x22] @ '');'' @ [CHR 0x0A]"

subsection \<open>The check of a table\<close>

definition bad_size :: "string \<Rightarrow> string \<Rightarrow> nat \<Rightarrow> nat \<Rightarrow> string" where
  "bad_size modname device_id sz id_size =
     modname @ '': sizeof(struct '' @ device_id @ ''_device_id)='' @ printf_dec id_size @
     '' is not a modulo of the size of section __mod_'' @ device_id @ ''__<identifier>_device_table='' @
     printf_dec sz @ ''.'' @ [CHR 0x0A] @ ''Fix definition of struct '' @ device_id @
     ''_device_id in mod_devicetable.h'' @ [CHR 0x0A]"

definition not_terminated :: "string \<Rightarrow> string \<Rightarrow> string" where
  "not_terminated modname device_id =
     modname @ '': struct '' @ device_id @ ''_device_id is not terminated with a NULL entry!'' @ [CHR 0x0A]"

text \<open>The message of the check that fails, if one does.\<close>

definition device_id_check :: "string \<Rightarrow> string \<Rightarrow> nat \<Rightarrow> u8 list \<Rightarrow> string option" where
  "device_id_check modname device_id id_size symval =
     (let sz = length symval in
      if sz mod id_size \<noteq> 0 \<or> sz < id_size then Some (bad_size modname device_id sz id_size)
      else if list_ex (\<lambda>i. symval ! (sz - id_size + i) \<noteq> 0) [0..<id_size]
      then Some (not_terminated modname device_id)
      else None)"

subsection \<open>The generic loop\<close>

fun do_entries :: "(u8 list \<Rightarrow> entry) \<Rightarrow> u8 list list \<Rightarrow> string \<Rightarrow> string + string" where
  "do_entries function [] buf = Inr buf"
| "do_entries function (m # ms) buf =
     (case function m of
        Inl msg \<Rightarrow> Inl msg
      | Inr None \<Rightarrow> do_entries function ms buf
      | Inr (Some alias) \<Rightarrow> do_entries function ms (buf @ module_alias alias))"

text \<open>The entries without the last one, each with all that follows it.\<close>

definition entries :: "nat \<Rightarrow> u8 list \<Rightarrow> u8 list list" where
  "entries id_size symval = map (\<lambda>i. drop (i * id_size) symval) [0..<length symval div id_size - 1]"

definition do_table ::
  "u8 list \<Rightarrow> nat \<Rightarrow> string \<Rightarrow> (string \<Rightarrow> u8 list \<Rightarrow> entry) \<Rightarrow> string \<Rightarrow> string \<Rightarrow> string + string" where
  "do_table symval id_size device_id function modname buf =
     (case device_id_check modname device_id id_size symval of
        Some msg \<Rightarrow> Inl msg
      | None \<Rightarrow> do_entries (function modname) (entries id_size symval) buf)"

subsection \<open>Tables with rules of their own\<close>

definition do_usb_table :: "u8 list \<Rightarrow> string \<Rightarrow> string \<Rightarrow> string + string" where
  "do_usb_table symval modname buf =
     (case device_id_check modname ''usb'' 24 symval of
        Some msg \<Rightarrow> Inl msg
      | None \<Rightarrow> Inr (buf @ concat (map (\<lambda>m. concat (map module_alias (do_usb_entry_multi (usb_at m)))) (entries 24 symval))))"

definition do_of_entry_multi :: "of_device_id \<Rightarrow> string list" where
  "do_of_entry_multi s =
     (let alias = ''of:N'' @ or_star (of_name s) @ ''T'' @ or_star (of_type s);
          alias = (if of_compatible s \<noteq> [] then alias @ (if of_type s \<noteq> [] then ''*'' else '''') @ ''C'' @ of_compatible s
                   else alias);
          alias = underscores alias
      in [alias, add_wildcard (alias @ ''C'')])"

definition do_of_table :: "u8 list \<Rightarrow> string \<Rightarrow> string \<Rightarrow> string + string" where
  "do_of_table symval modname buf =
     (case device_id_check modname ''of'' 196 symval of
        Some msg \<Rightarrow> Inl msg
      | None \<Rightarrow> Inr (buf @ concat (map (\<lambda>m. concat (map module_alias (do_of_entry_multi (of_at m)))) (entries 196 symval))))"

text \<open>Both aliases of a PnP identifier; its eight bytes hold the terminator.\<close>

definition pnp_aliases :: "string \<Rightarrow> string list" where
  "pnp_aliases pid = [''pnp:d'' @ pid @ ''*'', ''acpi*:'' @ map toupper pid @ '':*'']"

definition do_pnp_device_entry :: "u8 list \<Rightarrow> string \<Rightarrow> string \<Rightarrow> string + string" where
  "do_pnp_device_entry symval modname buf =
     (case device_id_check modname ''pnp'' 12 symval of
        Some msg \<Rightarrow> Inl msg
      | None \<Rightarrow> Inr (buf @ concat (map (\<lambda>m. concat (map module_alias (pnp_aliases (pnp_id (pnp_at m))))) (entries 12 symval))))"

text \<open>The devices of a card end at the first empty one.\<close>

definition card_ids :: "pnp_card_device_id \<Rightarrow> string list" where
  "card_ids c = takeWhile (\<lambda>id. id \<noteq> []) (pnp_card_devs c)"

text \<open>Identifiers of an earlier card are left out.\<close>

definition card_aliases :: "pnp_card_device_id list \<Rightarrow> nat \<Rightarrow> string list" where
  "card_aliases cards i =
     concat (map (\<lambda>id.
       if list_ex (\<lambda>i2. id \<in> set (card_ids (cards ! i2))) [0..<i] then [] else pnp_aliases id) (card_ids (cards ! i)))"

definition do_pnp_card_entries :: "u8 list \<Rightarrow> string \<Rightarrow> string \<Rightarrow> string + string" where
  "do_pnp_card_entries symval modname buf =
     (case device_id_check modname ''pnp'' 76 symval of
        Some msg \<Rightarrow> Inl msg
      | None \<Rightarrow>
          (let cards = map pnp_card_at (entries 76 symval) in
           Inr (buf @ concat (map (\<lambda>i. concat (map module_alias (card_aliases cards i))) [0..<length cards]))))"

subsection \<open>Dispatch\<close>

definition devtable :: "(string \<times> nat \<times> (string \<Rightarrow> u8 list \<Rightarrow> entry)) list" where
  "devtable =
    [(''hid'', 16, \<lambda>fn m. do_hid_entry (hid_at m)),
     (''ieee1394'', 24, \<lambda>fn m. do_ieee1394_entry (ieee1394_at m)),
     (''pci'', 28, \<lambda>fn m. do_pci_entry (pci_at m)),
     (''ccw'', 12, \<lambda>fn m. do_ccw_entry (ccw_at m)),
     (''ap'', 8, \<lambda>fn m. do_ap_entry (ap_at m)),
     (''css'', 8, \<lambda>fn m. do_css_entry (css_at m)),
     (''serio'', 4, \<lambda>fn m. do_serio_entry (serio_at m)),
     (''acpi'', 24, \<lambda>fn m. do_acpi_entry (acpi_at m)),
     (''pcmcia'', 52, \<lambda>fn m. do_pcmcia_entry (pcmcia_at m)),
     (''vio'', 64, \<lambda>fn m. do_vio_entry (vio_at m)),
     (''input'', 164, \<lambda>fn m. do_input_entry (input_at m)),
     (''eisa'', 12, \<lambda>fn m. do_eisa_entry (eisa_at m)),
     (''parisc'', 8, \<lambda>fn m. do_parisc_entry (parisc_at m)),
     (''sdio'', 12, \<lambda>fn m. do_sdio_entry (sdio_at m)),
     (''ssb'', 6, \<lambda>fn m. do_ssb_entry (ssb_at m)),
     (''bcma'', 6, \<lambda>fn m. do_bcma_entry (bcma_at m)),
     (''virtio'', 8, \<lambda>fn m. do_virtio_entry (virtio_at m)),
     (''vmbus'', 20, \<lambda>fn m. do_vmbus_entry (hv_vmbus_at m)),
     (''rpmsg'', 32, \<lambda>fn m. do_rpmsg_entry (rpmsg_at m)),
     (''i2c'', 24, \<lambda>fn m. do_i2c_entry (i2c_at m)),
     (''spi'', 36, \<lambda>fn m. do_spi_entry (spi_at m)),
     (''dmi'', 332, \<lambda>fn m. do_dmi_entry (dmi_at m)),
     (''platform'', 24, \<lambda>fn m. do_platform_entry (platform_at m)),
     (''mdio'', 8, \<lambda>fn m. do_mdio_entry (mdio_at m)),
     (''zorro'', 8, \<lambda>fn m. do_zorro_entry (zorro_at m)),
     (''isapnp'', 12, \<lambda>fn m. do_isapnp_entry (isapnp_at m)),
     (''ipack'', 12, \<lambda>fn m. do_ipack_entry (ipack_at m)),
     (''amba'', 12, \<lambda>fn m. do_amba_entry fn (amba_at m)),
     (''mipscdmm'', 1, \<lambda>fn m. do_mips_cdmm_entry (mips_cdmm_at m)),
     (''x86cpu'', 12, \<lambda>fn m. do_x86cpu_entry (x86_at m)),
     (''cpu'', 2, \<lambda>fn m. do_cpu_entry (cpu_at m)),
     (''mei'', 56, \<lambda>fn m. do_mei_entry (mei_at m)),
     (''rapidio'', 8, \<lambda>fn m. do_rio_entry (rio_at m)),
     (''ulpi'', 8, \<lambda>fn m. do_ulpi_entry (ulpi_at m)),
     (''hdaudio'', 20, \<lambda>fn m. do_hda_entry (hda_at m)),
     (''sdw'', 8, \<lambda>fn m. do_sdw_entry (sdw_at m)),
     (''fslmc'', 18, \<lambda>fn m. do_fsl_mc_entry (fsl_mc_at m)),
     (''tbsvc'', 32, \<lambda>fn m. do_tbsvc_entry (tb_at m)),
     (''typec'', 8, \<lambda>fn m. do_typec_entry (typec_at m))]"

fun strstr :: "string \<Rightarrow> string \<Rightarrow> string option" where
  "strstr [] sub = (if sub = [] then Some [] else None)"
| "strstr (c # s) sub = (if take (length sub) (c # s) = sub then Some (c # s) else strstr s sub)"

text \<open>The name of the table in a symbol \<open><prefix>__mod_<name>__<identifier>_device_table\<close>.\<close>

definition table_name :: "string \<Rightarrow> string option" where
  "table_name symname =
     (case strstr symname ''__mod_'' of
        None \<Rightarrow> None
      | Some found \<Rightarrow>
          (let name = drop (length ''__mod_'') found in
           if length name < length ''_device_table'' then None
           else if drop (length name - length ''_device_table'') name \<noteq> ''_device_table'' then None
           else
             (case strstr name ''__'' of
                None \<Rightarrow> None
              | Some identifier \<Rightarrow> Some (take (length name - length identifier) name))))"

text \<open>
  What is read of the ELF file: the section of the symbol (\<open>get_secindex\<close>) among \<open>num_sections\<close>,
  the type of the symbol and of its section, and the bytes of the symbol in the file.
\<close>

record elf_symbol =
  st_shndx :: nat
  secindex :: nat
  num_sections :: nat
  st_type :: nat
  sh_type :: u32
  st_size :: nat
  contents :: "u8 list"

definition STT_OBJECT :: nat where "STT_OBJECT = 1"
definition SHT_NOBITS :: u32 where "SHT_NOBITS = 8"

definition handle_moddevtable :: "string \<Rightarrow> elf_symbol \<Rightarrow> string \<Rightarrow> string \<Rightarrow> string + string" where
  "handle_moddevtable modname esym symname buf =
     (if st_shndx esym = 0 \<or> secindex esym \<ge> num_sections esym then Inr buf
      else if st_type esym \<noteq> STT_OBJECT then Inr buf
      else
        (case table_name symname of
           None \<Rightarrow> Inr buf
         | Some name \<Rightarrow>
             (let symval = (if sh_type esym AND SHT_NOBITS \<noteq> 0 then replicate (st_size esym) 0
                            else take (st_size esym) (contents esym)) in
              case (if name = ''usb'' then do_usb_table symval modname buf else Inr buf) of
                Inl msg \<Rightarrow> Inl msg
              | Inr buf \<Rightarrow>
                  (if name = ''of'' then do_of_table symval modname buf
                   else if name = ''pnp'' then do_pnp_device_entry symval modname buf
                   else if name = ''pnp_card'' then do_pnp_card_entries symval modname buf
                   else
                     (case find (\<lambda>(device_id, id_size, function). device_id = name) devtable of
                        None \<Rightarrow> Inr buf
                      | Some (device_id, id_size, function) \<Rightarrow>
                          do_table symval id_size device_id function modname buf)))))"

definition add_moddevtable :: "string \<Rightarrow> string \<Rightarrow> string" where
  "add_moddevtable buf dev_table_buf = buf @ [CHR 0x0A] @ dev_table_buf"

subsection \<open>Tables that pass the check\<close>

definition table_ok :: "nat \<Rightarrow> u8 list \<Rightarrow> bool" where
  "table_ok id_size symval \<longleftrightarrow> 0 < id_size \<and> id_size dvd length symval \<and> id_size \<le> length symval \<and>
     drop (length symval - id_size) symval = replicate id_size 0"

lemma last_entry_zero:
  assumes "n \<le> length xs"
  shows "drop (length xs - n) xs = replicate n (0 :: u8) \<longleftrightarrow> (\<forall>i < n. xs ! (length xs - n + i) = 0)"
  using assms by (auto simp: list_eq_iff_nth_eq)

lemma check_ok: "0 < id_size \<Longrightarrow> device_id_check modname device_id id_size symval = None \<longleftrightarrow> table_ok id_size symval"
  using last_entry_zero [of id_size symval]
  by (auto simp: device_id_check_def table_ok_def Let_def list_ex_iff mod_eq_0_iff_dvd not_less)

lemma do_entries_output:
  "\<forall>m \<in> set ms. \<not> isl (f m) \<Longrightarrow>
    do_entries f ms buf = Inr (buf @ concat (map (\<lambda>m. case f m of Inr (Some alias) \<Rightarrow> module_alias alias | _ \<Rightarrow> []) ms))"
  by (induction ms arbitrary: buf) (auto split: sum.splits option.splits)

lemma do_entries_fatal:
  "list_ex (\<lambda>m. isl (f m)) ms \<Longrightarrow>
    \<exists>ms1 m ms2 msg. ms = ms1 @ m # ms2 \<and> f m = Inl msg \<and> (\<forall>x \<in> set ms1. \<not> isl (f x)) \<and> do_entries f ms buf = Inl msg"
proof (induction ms arbitrary: buf)
  case (Cons m ms)
  show ?case
  proof (cases "f m")
    case (Inl msg)
    then show ?thesis by (intro exI [of _ "[]"] exI [of _ m] exI [of _ ms] exI [of _ msg]) simp
  next
    case (Inr r)
    then have "list_ex (\<lambda>m. isl (f m)) ms" using Cons.prems by simp
    from Cons.IH [OF this, of "case r of None \<Rightarrow> buf | Some alias \<Rightarrow> buf @ module_alias alias"]
    obtain ms1 m' ms2 msg where *: "ms = ms1 @ m' # ms2" "f m' = Inl msg" "\<forall>x \<in> set ms1. \<not> isl (f x)"
      "do_entries f ms (case r of None \<Rightarrow> buf | Some alias \<Rightarrow> buf @ module_alias alias) = Inl msg" by blast
    have "do_entries f (m # ms) buf = Inl msg" using Inr *(4) by (simp split: option.splits)
    then show ?thesis using * Inr by (intro exI [of _ "m # ms1"] exI [of _ m'] exI [of _ ms2] exI [of _ msg]) simp
  qed
qed simp


definition pci_table :: "u8 list" where
  "pci_table =
     [0x86, 0x80, 0, 0, 0x0E, 0x10, 0, 0] @ replicate 8 0xFF @ replicate 12 0 @ replicate 28 0"


lemma stops_at_zero: "0 \<in> set bs \<Longrightarrow> length (takeWhile (\<lambda>b. b \<noteq> 0) bs) < length (bs :: u8 list)"
  by (induction bs) auto

text \<open>
  The strings of a table never run past its end: the zeros of the last entry stop them even
  where one fills its array.
\<close>

theorem strings_end_in_table:
  assumes "table_ok id_size symval" and "m \<in> set (entries id_size symval)" and "off < id_size"
  shows "off + length (c_str m off) < length m"
proof -
  have size: "0 < id_size" "id_size dvd length symval" "id_size \<le> length symval"
    and zero: "drop (length symval - id_size) symval = replicate id_size 0"
    using assms(1) by (simp_all add: table_ok_def)
  obtain i where i: "i < length symval div id_size - 1" and m: "m = drop (i * id_size) symval"
    using assms(2) by (auto simp: entries_def)
  obtain k where k: "length symval = id_size * k" using size(2) by (auto elim: dvdE)
  have "Suc i < k" using i k size(1) by simp
  then have "Suc (Suc i) * id_size \<le> k * id_size" by (intro mult_le_mono1) simp
  then have pos: "i * id_size + id_size \<le> length symval - id_size" using k by (simp add: mult.commute)
  define j where "j = length symval - id_size - i * id_size - off"
  have "drop (off + j) m = replicate id_size 0"
    using zero pos assms(3) by (simp add: m j_def)
  then have "drop j (drop off m) = replicate id_size 0" by (simp add: add.commute)
  moreover have "0 \<in> set (replicate id_size (0 :: u8))" using size(1) by simp
  ultimately have "0 \<in> set (drop off m)" by (metis in_set_dropD)
  then have "length (takeWhile (\<lambda>b. b \<noteq> 0) (drop off m)) < length (drop off m)" by (rule stops_at_zero)
  then show ?thesis by (simp add: c_str_def)
qed

theorem strings_end_in_table_witness:
  "length (c_str (replicate 8 0x41 @ replicate 4 0x42 @ replicate 12 0) 0) < 24"
proof -
  let ?t = "replicate 8 0x41 @ replicate 4 0x42 @ replicate 12 0 :: u8 list"
  have "table_ok 12 ?t" by code_simp
  moreover have "?t \<in> set (entries 12 ?t)" by (simp add: entries_def)
  ultimately show ?thesis using strings_end_in_table [of 12 ?t ?t 0] by simp
qed

subsection \<open>PnP cards\<close>

definition new_ids :: "pnp_card_device_id list \<Rightarrow> nat \<Rightarrow> string list" where
  "new_ids cards i = filter (\<lambda>id. \<forall>i2 < i. id \<notin> set (card_ids (cards ! i2))) (card_ids (cards ! i))"

lemma card_aliases_new: "card_aliases cards i = concat (map pnp_aliases (new_ids cards i))"
proof -
  have "concat (map (\<lambda>id. if P id then [] else pnp_aliases id) ids) = concat (map pnp_aliases (filter (\<lambda>id. \<not> P id) ids))"
    for P ids by (induction ids) auto
  then show ?thesis by (simp add: card_aliases_def new_ids_def list_ex_iff Ball_def)
qed

lemma new_ids_set: "(\<Union>i < n. set (new_ids cards i)) = (\<Union>i < n. set (card_ids (cards ! i)))"
proof (induction n)
  case (Suc n)
  have "set (new_ids cards n) \<union> (\<Union>i < n. set (card_ids (cards ! i))) =
      set (card_ids (cards ! n)) \<union> (\<Union>i < n. set (card_ids (cards ! i)))"
    by (auto simp: new_ids_def)
  then show ?case using Suc by (simp add: lessThan_Suc)
qed simp

lemma new_ids_distinct:
  "\<forall>i < n. distinct (card_ids (cards ! i)) \<Longrightarrow> distinct (concat (map (new_ids cards) [0..<n]))"
proof (induction n)
  case (Suc n)
  have "set (new_ids cards n) \<inter> set (concat (map (new_ids cards) [0..<n])) = {}"
    by (auto simp: new_ids_def)
  then show ?case using Suc by (auto simp: new_ids_def)
qed simp

text \<open>
  The aliases of a table of PnP cards: both aliases of every device identifier of every card,
  each identifier once, however many cards share it, if no card repeats one itself.
\<close>

theorem pnp_card_once:
  assumes "table_ok 76 symval" and "cards = map pnp_card_at (entries 76 symval)"
    and "\<forall>c \<in> set cards. distinct (card_ids c)"
  shows "\<exists>ids. do_pnp_card_entries symval modname buf =
      Inr (buf @ concat (map module_alias (concat (map pnp_aliases ids)))) \<and>
    distinct ids \<and> set ids = (\<Union>c \<in> set cards. set (card_ids c))"
proof (intro exI conjI)
  let ?n = "length cards"
  let ?ids = "concat (map (new_ids cards) [0..<?n])"
  have lines: "concat (map (\<lambda>i. concat (map module_alias (card_aliases cards i))) is) =
      concat (map module_alias (concat (map pnp_aliases (concat (map (new_ids cards) is)))))" for "is"
    by (induction "is") (simp_all add: card_aliases_new)
  have "device_id_check modname ''pnp'' 76 symval = None" using assms(1) by (simp add: check_ok)
  then show "do_pnp_card_entries symval modname buf =
      Inr (buf @ concat (map module_alias (concat (map pnp_aliases ?ids))))"
    unfolding do_pnp_card_entries_def Let_def assms(2) [symmetric] lines by simp
  show "distinct ?ids" using new_ids_distinct [of ?n cards] assms(3) by simp
  have "set ?ids = (\<Union>i < ?n. set (new_ids cards i))" by auto
  also have "\<dots> = (\<Union>i < ?n. set (card_ids (cards ! i)))" by (rule new_ids_set)
  also have "\<dots> = (\<Union>c \<in> set cards. set (card_ids c))" by (force simp: in_set_conv_nth)
  finally show "set ?ids = (\<Union>c \<in> set cards. set (card_ids c))" .
qed

definition card_bytes :: "u8 list" where
  "card_bytes = replicate 12 1 @ [0x41, 0x42, 0, 0, 0, 0, 0, 0] @ replicate 56 0"

theorem pnp_card_once_witness:
  "do_pnp_card_entries (card_bytes @ card_bytes @ replicate 76 0) ''m'' [] =
     Inr (concat (map module_alias (pnp_aliases ''AB'')))"
proof -
  let ?t = "card_bytes @ card_bytes @ replicate 76 0"
  define cards where "cards = map pnp_card_at (entries 76 ?t)"
  have ok: "table_ok 76 ?t" by code_simp
  have "map (\<lambda>m. takeWhile (\<lambda>id. id \<noteq> []) (map (\<lambda>k. c_str m (12 + 8 * k)) [0..<8])) (entries 76 ?t) = [[''AB''], [''AB'']]"
    by code_simp
  then have ids: "map card_ids cards = [[''AB''], [''AB'']]"
    by (simp add: cards_def card_ids_def pnp_card_at_def o_def)
  have "\<forall>c \<in> set cards. card_ids c \<in> set (map card_ids cards)" by simp
  then have one: "card_ids c = [''AB'']" if "c \<in> set cards" for c using that unfolding ids by simp
  have "cards \<noteq> []" using ids by auto
  then have all: "(\<Union>c \<in> set cards. set (card_ids c)) = {''AB''}" using one by auto
  obtain l where l: "do_pnp_card_entries ?t ''m'' [] = Inr ([] @ concat (map module_alias (concat (map pnp_aliases l))))"
    "distinct l" "set l = {''AB''}"
    using pnp_card_once [OF ok cards_def, of "''m''" "[]"] one unfolding all by auto
  have "l = [''AB'']" using l(2,3) by (cases l; cases "tl l") (auto split: list.splits)
  then show ?thesis using l(1) by simp
qed

subsection \<open>The name of a table\<close>

lemma strstr_underscores:
  "strstr (a @ ''_'') ''__'' = None \<Longrightarrow> strstr (a @ ''__'' @ rest) ''__'' = Some (''__'' @ rest)"
proof (induction a)
  case (Cons x a)
  have "strstr (a @ ''_'') ''__'' = None" using Cons.prems by (simp split: if_splits)
  then have "strstr (a @ ''__'' @ rest) ''__'' = Some (''__'' @ rest)" by (rule Cons.IH)
  moreover have "\<not> (x = CHR ''_'' \<and> (a = [] \<or> hd a = CHR ''_''))"
    using Cons.prems by (cases a) (auto split: if_splits)
  ultimately show ?case by (cases a) auto
qed simp

text \<open>
  The symbol the kernel macro \<open>MODULE_DEVICE_TABLE\<close> makes for a table is read back as the name
  of the table, if that name keeps the double underscore out.
\<close>

theorem table_name_roundtrip:
  assumes "strstr (name @ ''_'') ''__'' = None"
  shows "table_name (''__mod_'' @ name @ ''__'' @ identifier @ ''_device_table'') = Some name"
proof -
  let ?name = "name @ ''__'' @ identifier @ ''_device_table''"
  have found: "strstr (''__mod_'' @ ?name) ''__mod_'' = Some (''__mod_'' @ ?name)" by simp
  have len: "length ?name = (length name + 2 + length identifier) + length ''_device_table''" by simp
  have "length ?name - length ''_device_table'' = length (name @ ''__'' @ identifier)" unfolding len by simp
  then have tail: "drop (length ?name - length ''_device_table'') ?name = ''_device_table''"
    by (simp only: append_assoc [symmetric] append_eq_conv_conj) simp
  have "strstr ?name ''__'' = Some (''__'' @ identifier @ ''_device_table'')"
    by (rule strstr_underscores [OF assms])
  moreover have "take (length ?name - length (''__'' @ identifier @ ''_device_table'')) ?name = name" by simp
  ultimately show ?thesis
    unfolding table_name_def found using tail len by (simp add: Let_def)
qed

theorem table_name_roundtrip_witness: "table_name ''__mod_pnp_card__snd_ids_device_table'' = Some ''pnp_card''"
proof -
  have none: "strstr (''pnp_card'' @ ''_'') ''__'' = None" by simp
  from table_name_roundtrip [OF none, of "''snd_ids''"] show ?thesis by simp
qed

end
