(* ===== verification/Alias_Limits.thy ===== *)
theory Alias_Limits
  imports Alias_Entries
begin

text \<open>
  The 500 bytes of the buffer an alias is built in. The entries of \<open>scripts/mod/file2alias.c\<close>
  write into it without a check; an input entry can name several hundred keys.
\<close>

definition listed :: "kernel_ulong_t list \<Rightarrow> nat \<Rightarrow> nat \<Rightarrow> nat" where
  "listed arr lo hi = length (filter (\<lambda>i. bit (arr ! (i div BITS_PER_LONG)) (i mod BITS_PER_LONG)) [lo..<hi])"

lemma hex_length: "i < 4096 \<Longrightarrow> 1 \<le> length (printf_hex True i) \<and> length (printf_hex True i) \<le> 3"
  using length_printf_hex [of i 3 True] by (simp add: printf_hex.simps [of True i])

lemma do_input_range:
  assumes "\<forall>i \<in> set is. i < 4096"
  shows "\<exists>n. length (foldl (\<lambda>alias i. if P i then alias @ printf_hex True i @ '',*'' else alias) str is) = length str + n \<and>
    3 * length (filter P is) \<le> n \<and> n \<le> 5 * length (filter P is)"
  using assms
proof (induction "is" arbitrary: str)
  case (Cons i "is")
  obtain n where "length (foldl (\<lambda>alias i. if P i then alias @ printf_hex True i @ '',*'' else alias)
      (if P i then str @ printf_hex True i @ '',*'' else str) is) =
      length (if P i then str @ printf_hex True i @ '',*'' else str) + n"
    "3 * length (filter P is) \<le> n" "n \<le> 5 * length (filter P is)"
    using Cons.IH [of "if P i then str @ printf_hex True i @ '',*'' else str"] Cons.prems by auto
  then show ?case using hex_length [of i] Cons.prems
    by (intro exI [of _ "if P i then length (printf_hex True i) + 2 + n else n"]) simp
qed simp

lemma do_input_length:
  assumes "hi \<le> 4096"
  shows "\<exists>n. length (do_input alias arr lo hi) = length alias + n \<and> 3 * listed arr lo hi \<le> n \<and> n \<le> 5 * listed arr lo hi"
proof -
  have "\<forall>i \<in> set [lo..<hi]. i < 4096" using assms by auto
  then show ?thesis unfolding do_input_def listed_def by (rule do_input_range)
qed

definition part :: "input_device_id \<Rightarrow> u32 \<Rightarrow> string \<Rightarrow> kernel_ulong_t list \<Rightarrow> nat \<Rightarrow> nat \<Rightarrow> string" where
  "part s f alias arr lo hi = (if input_flags s AND f \<noteq> 0 then do_input alias arr lo hi else alias)"

definition part_bits :: "input_device_id \<Rightarrow> u32 \<Rightarrow> kernel_ulong_t list \<Rightarrow> nat \<Rightarrow> nat \<Rightarrow> nat" where
  "part_bits s f arr lo hi = (if input_flags s AND f \<noteq> 0 then listed arr lo hi else 0)"

text \<open>The bits an input entry lists.\<close>

definition input_bits :: "input_device_id \<Rightarrow> nat" where
  "input_bits s =
     part_bits s INPUT_DEVICE_ID_MATCH_EVBIT (input_evbit s) 0 INPUT_DEVICE_ID_EV_MAX +
     part_bits s INPUT_DEVICE_ID_MATCH_KEYBIT (input_keybit s) INPUT_DEVICE_ID_KEY_MIN_INTERESTING INPUT_DEVICE_ID_KEY_MAX +
     part_bits s INPUT_DEVICE_ID_MATCH_RELBIT (input_relbit s) 0 INPUT_DEVICE_ID_REL_MAX +
     part_bits s INPUT_DEVICE_ID_MATCH_ABSBIT (input_absbit s) 0 INPUT_DEVICE_ID_ABS_MAX +
     part_bits s INPUT_DEVICE_ID_MATCH_MSCIT (input_mscbit s) 0 INPUT_DEVICE_ID_MSC_MAX +
     part_bits s INPUT_DEVICE_ID_MATCH_LEDBIT (input_ledbit s) 0 INPUT_DEVICE_ID_LED_MAX +
     part_bits s INPUT_DEVICE_ID_MATCH_SNDBIT (input_sndbit s) 0 INPUT_DEVICE_ID_SND_MAX +
     part_bits s INPUT_DEVICE_ID_MATCH_FFBIT (input_ffbit s) 0 INPUT_DEVICE_ID_FF_MAX +
     part_bits s INPUT_DEVICE_ID_MATCH_SWBIT (input_swbit s) 0 INPUT_DEVICE_ID_SW_MAX"

text \<open>A string of \<open>k\<close> characters and \<open>b\<close> listed bits, each of three to five characters.\<close>

definition within :: "string \<Rightarrow> nat \<Rightarrow> nat \<Rightarrow> bool" where
  "within str k b \<longleftrightarrow> k + 3 * b \<le> length str \<and> length str \<le> k + 5 * b"

lemma within_part:
  assumes "within str k b" and "hi \<le> 4096"
  shows "within (part s f (str @ letters) arr lo hi) (k + length letters) (b + part_bits s f arr lo hi)"
proof -
  obtain n where "length (do_input (str @ letters) arr lo hi) = length (str @ letters) + n"
    "3 * listed arr lo hi \<le> n" "n \<le> 5 * listed arr lo hi"
    using do_input_length [OF assms(2)] by blast
  then show ?thesis using assms(1) by (simp add: within_def part_def part_bits_def)
qed

definition input_head :: "input_device_id \<Rightarrow> string" where
  "input_head s =
     ADD (ADD (ADD (ADD ''input:'' ''b'' (input_flags s AND INPUT_DEVICE_ID_MATCH_BUS \<noteq> 0) (input_bustype s))
       ''v'' (input_flags s AND INPUT_DEVICE_ID_MATCH_VENDOR \<noteq> 0) (input_vendor s))
       ''p'' (input_flags s AND INPUT_DEVICE_ID_MATCH_PRODUCT \<noteq> 0) (input_product s))
       ''e'' (input_flags s AND INPUT_DEVICE_ID_MATCH_VERSION \<noteq> 0) (input_version s)"

lemma input_head_length: "14 \<le> length (input_head s) \<and> length (input_head s) \<le> 26"
  by (simp add: input_head_def ADD_16 field_pattern_def)

lemma within_head: "within (input_head s) (length (input_head s)) 0"
  by (simp add: within_def)

lemma input_within:
  assumes "do_input_entry s = Inr (Some a)"
  shows "within a (length (input_head s) + 19) (input_bits s)"
proof -
  have "a = part s INPUT_DEVICE_ID_MATCH_SWBIT (part s INPUT_DEVICE_ID_MATCH_FFBIT (part s INPUT_DEVICE_ID_MATCH_SNDBIT
      (part s INPUT_DEVICE_ID_MATCH_LEDBIT (part s INPUT_DEVICE_ID_MATCH_MSCIT (part s INPUT_DEVICE_ID_MATCH_ABSBIT
      (part s INPUT_DEVICE_ID_MATCH_RELBIT (part s INPUT_DEVICE_ID_MATCH_KEYBIT (part s INPUT_DEVICE_ID_MATCH_EVBIT
        (input_head s @ ''-e*'') (input_evbit s) 0 INPUT_DEVICE_ID_EV_MAX
      @ ''k*'') (input_keybit s) INPUT_DEVICE_ID_KEY_MIN_INTERESTING INPUT_DEVICE_ID_KEY_MAX
      @ ''r*'') (input_relbit s) 0 INPUT_DEVICE_ID_REL_MAX @ ''a*'') (input_absbit s) 0 INPUT_DEVICE_ID_ABS_MAX
      @ ''m*'') (input_mscbit s) 0 INPUT_DEVICE_ID_MSC_MAX @ ''l*'') (input_ledbit s) 0 INPUT_DEVICE_ID_LED_MAX
      @ ''s*'') (input_sndbit s) 0 INPUT_DEVICE_ID_SND_MAX @ ''f*'') (input_ffbit s) 0 INPUT_DEVICE_ID_FF_MAX
      @ ''w*'') (input_swbit s) 0 INPUT_DEVICE_ID_SW_MAX"
    using assms unfolding do_input_entry_def Let_def input_head_def part_def by simp
  moreover have "within \<dots> (length (input_head s) + length ''-e*'' + length ''k*'' + length ''r*'' + length ''a*'' +
      length ''m*'' + length ''l*'' + length ''s*'' + length ''f*'' + length ''w*'')
    (0 + part_bits s INPUT_DEVICE_ID_MATCH_EVBIT (input_evbit s) 0 INPUT_DEVICE_ID_EV_MAX +
      part_bits s INPUT_DEVICE_ID_MATCH_KEYBIT (input_keybit s) INPUT_DEVICE_ID_KEY_MIN_INTERESTING INPUT_DEVICE_ID_KEY_MAX +
      part_bits s INPUT_DEVICE_ID_MATCH_RELBIT (input_relbit s) 0 INPUT_DEVICE_ID_REL_MAX +
      part_bits s INPUT_DEVICE_ID_MATCH_ABSBIT (input_absbit s) 0 INPUT_DEVICE_ID_ABS_MAX +
      part_bits s INPUT_DEVICE_ID_MATCH_MSCIT (input_mscbit s) 0 INPUT_DEVICE_ID_MSC_MAX +
      part_bits s INPUT_DEVICE_ID_MATCH_LEDBIT (input_ledbit s) 0 INPUT_DEVICE_ID_LED_MAX +
      part_bits s INPUT_DEVICE_ID_MATCH_SNDBIT (input_sndbit s) 0 INPUT_DEVICE_ID_SND_MAX +
      part_bits s INPUT_DEVICE_ID_MATCH_FFBIT (input_ffbit s) 0 INPUT_DEVICE_ID_FF_MAX +
      part_bits s INPUT_DEVICE_ID_MATCH_SWBIT (input_swbit s) 0 INPUT_DEVICE_ID_SW_MAX)"
    by (intro within_part within_head) (simp_all add: devid)
  moreover have "length (input_head s) + length ''-e*'' + length ''k*'' + length ''r*'' + length ''a*'' +
      length ''m*'' + length ''l*'' + length ''s*'' + length ''f*'' + length ''w*'' = length (input_head s) + 19" by simp
  ultimately show ?thesis by (simp only: input_bits_def add_0)
qed

text \<open>
  The alias of an input entry fits into the 500 bytes of the buffer, with its terminator, if the
  entry lists at most 90 bits; an entry that lists 156 or more writes past its end.
\<close>

theorem input_alias_buffer:
  assumes "do_input_entry s = Inr (Some a)"
  shows "(input_bits s \<le> 90 \<longrightarrow> length a < 500) \<and> (156 \<le> input_bits s \<longrightarrow> 500 < Suc (length a))"
  using input_within [OF assms] input_head_length [of s] by (auto simp: within_def)

definition all_keys :: input_device_id where
  "all_keys = \<lparr> input_flags = INPUT_DEVICE_ID_MATCH_KEYBIT, input_bustype = 0, input_vendor = 0, input_product = 0,
     input_version = 0, input_evbit = [0], input_keybit = replicate 24 (- 1), input_relbit = [0],
     input_absbit = [0, 0], input_mscbit = [0], input_ledbit = [0], input_sndbit = [0],
     input_ffbit = [0, 0, 0, 0], input_swbit = [0], input_propbit = [0], input_driver_info = 0 \<rparr>"

lemma listed_all:
  assumes "\<forall>i < hi. bit (arr ! (i div BITS_PER_LONG)) (i mod BITS_PER_LONG)"
  shows "listed arr lo hi = hi - lo"
proof -
  have "filter (\<lambda>i. bit (arr ! (i div BITS_PER_LONG)) (i mod BITS_PER_LONG)) [lo..<hi] = [lo..<hi]"
    by (rule filter_True) (use assms in auto)
  then show ?thesis by (simp add: listed_def)
qed

lemma all_keys_bits: "input_bits all_keys = 654"
proof -
  have "\<forall>i < 0x2ff. bit (replicate 24 (- 1 :: u32) ! (i div BITS_PER_LONG)) (i mod BITS_PER_LONG)"
    by (simp add: BITS_PER_LONG_def nth_replicate del: replicate_numeral_unfold)
  then have "listed (replicate 24 (- 1)) 0x71 0x2ff = 0x2ff - 0x71" by (rule listed_all)
  then show ?thesis
    by (simp add: input_bits_def part_bits_def all_keys_def devid del: replicate_numeral_unfold)
qed

theorem input_alias_buffer_witness: "\<exists>a. do_input_entry all_keys = Inr (Some a) \<and> 500 < Suc (length a)"
proof -
  obtain a where a: "do_input_entry all_keys = Inr (Some a)" by (simp add: do_input_entry_def Let_def)
  show ?thesis using input_alias_buffer [OF a] a all_keys_bits by auto
qed

end
