(* ===== verification/Kconfig_Expr.thy ===== *)
theory Kconfig_Expr
  imports Lab_Prelude
begin

text \<open>
  The tristate expressions of the configuration language in the packaged kernel build tools
  (\<open>scripts/kconfig/expr.c\<close> and \<open>expr.h\<close>, with the value of a symbol as a string from
  \<open>symbol.c\<close>): data, evaluation, and the simpler transformations. Expressions are values: what
  the code updates in place is returned, copies are the expression itself, freeing is not
  modelled.
\<close>

subsection \<open>Tristate values\<close>

datatype tristate = No | Mod | Yes

fun tri_rank :: "tristate \<Rightarrow> nat" where
  "tri_rank No = 0"
| "tri_rank Mod = 1"
| "tri_rank Yes = 2"

lemma tri_rank_inject [simp]: "tri_rank a = tri_rank b \<longleftrightarrow> a = b"
  by (cases a; cases b) simp_all

instantiation tristate :: linorder
begin

definition less_eq_tristate :: "tristate \<Rightarrow> tristate \<Rightarrow> bool" where
  "less_eq_tristate a b \<longleftrightarrow> tri_rank a \<le> tri_rank b"

definition less_tristate :: "tristate \<Rightarrow> tristate \<Rightarrow> bool" where
  "less_tristate a b \<longleftrightarrow> tri_rank a < tri_rank b"

instance
  by standard (auto simp: less_eq_tristate_def less_tristate_def)

end

definition EXPR_OR :: "tristate \<Rightarrow> tristate \<Rightarrow> tristate" where
  "EXPR_OR a b = (if a > b then a else b)"

definition EXPR_AND :: "tristate \<Rightarrow> tristate \<Rightarrow> tristate" where
  "EXPR_AND a b = (if a < b then a else b)"

fun EXPR_NOT :: "tristate \<Rightarrow> tristate" where
  "EXPR_NOT No = Yes"
| "EXPR_NOT Mod = Mod"
| "EXPR_NOT Yes = No"

lemmas tri_order = less_eq_tristate_def less_tristate_def

lemma EXPR_OR_max: "EXPR_OR a b = max a b"
  by (auto simp: EXPR_OR_def max_def)

lemma EXPR_AND_min: "EXPR_AND a b = min a b"
  by (auto simp: EXPR_AND_def min_def)

lemma EXPR_NOT_NOT [simp]: "EXPR_NOT (EXPR_NOT a) = a"
  by (cases a) simp_all

lemma EXPR_NOT_inject [simp]: "EXPR_NOT a = EXPR_NOT b \<longleftrightarrow> a = b"
  by (cases a; cases b) simp_all

lemma EXPR_De_Morgan:
  "EXPR_NOT (max a b) = min (EXPR_NOT a) (EXPR_NOT b)"
  "EXPR_NOT (min a b) = max (EXPR_NOT a) (EXPR_NOT b)"
  by (cases a; cases b; simp add: max_def min_def tri_order)+

lemma tri_bounds [simp]:
  "max a Yes = Yes" "max Yes a = Yes" "max a No = a" "max No a = a"
  "min a Yes = a" "min Yes a = a" "min a No = No" "min No a = No"
  by (cases a; simp add: max_def min_def tri_order)+

subsection \<open>Symbols and expressions\<close>

datatype symbol_type = S_UNKNOWN | S_BOOLEAN | S_TRISTATE | S_INT | S_HEX | S_STRING | S_OTHER

text \<open>A symbol is its address; three of them are the constants.\<close>

datatype symbol = symbol_yes | symbol_mod | symbol_no | Symbol nat

text \<open>
  The fields of the symbols, after \<open>sym_calc_value\<close> has brought \<open>curr\<close> up to date, and the
  current value of \<open>modules_sym\<close>.
\<close>

record symbols =
  sym_type :: "symbol \<Rightarrow> symbol_type"
  sym_const :: "symbol \<Rightarrow> bool"
  sym_name :: "symbol \<Rightarrow> string option"
  curr_tri :: "symbol \<Rightarrow> tristate"
  curr_val :: "symbol \<Rightarrow> string"
  modules_tri :: tristate

datatype relation = E_EQUAL | E_UNEQUAL | E_LTH | E_LEQ | E_GTH | E_GEQ

datatype junction = JAND | JOR

text \<open>
  \<open>E_LIST\<close> nodes form a chain through \<open>left.expr\<close> with a symbol in each node: a list of symbols.
\<close>

datatype expr =
    E_SYMBOL symbol
  | E_NOT expr
  | E_COMP relation symbol symbol
  | E_BIN junction expr expr
  | E_LIST "symbol list"
  | E_RANGE symbol symbol

abbreviation E_AND :: "expr \<Rightarrow> expr \<Rightarrow> expr" where "E_AND \<equiv> E_BIN JAND"
abbreviation E_OR :: "expr \<Rightarrow> expr \<Rightarrow> expr" where "E_OR \<equiv> E_BIN JOR"

subsection \<open>Building expressions\<close>

text \<open>The null pointer is \<^term>\<open>None\<close>.\<close>

definition expr_alloc_symbol :: "symbol \<Rightarrow> expr" where
  "expr_alloc_symbol smb = E_SYMBOL smb"

definition expr_alloc_comp :: "relation \<Rightarrow> symbol \<Rightarrow> symbol \<Rightarrow> expr" where
  "expr_alloc_comp type s1 s2 = E_COMP type s1 s2"

definition expr_alloc_two :: "junction \<Rightarrow> expr \<Rightarrow> expr \<Rightarrow> expr" where
  "expr_alloc_two type e1 e2 = E_BIN type e1 e2"

definition expr_alloc_and :: "expr option \<Rightarrow> expr option \<Rightarrow> expr option" where
  "expr_alloc_and e1 e2 =
     (case e1 of None \<Rightarrow> e2
      | Some a \<Rightarrow> (case e2 of Some b \<Rightarrow> Some (expr_alloc_two JAND a b) | None \<Rightarrow> e1))"

definition expr_alloc_or :: "expr option \<Rightarrow> expr option \<Rightarrow> expr option" where
  "expr_alloc_or e1 e2 =
     (case e1 of None \<Rightarrow> e2
      | Some a \<Rightarrow> (case e2 of Some b \<Rightarrow> Some (expr_alloc_two JOR a b) | None \<Rightarrow> e1))"

text \<open>
  \<open>expr_copy\<close> gives up on \<open>E_RANGE\<close>; on \<open>E_LIST\<close> it would follow the symbol in \<open>right\<close> as if it
  were an expression. Both are \<^term>\<open>None\<close>: there is no copy.
\<close>

fun expr_copy :: "expr \<Rightarrow> expr option" where
  "expr_copy (E_SYMBOL s) = Some (E_SYMBOL s)"
| "expr_copy (E_NOT e) = map_option E_NOT (expr_copy e)"
| "expr_copy (E_COMP r s1 s2) = Some (E_COMP r s1 s2)"
| "expr_copy (E_BIN j e1 e2) = do { a \<leftarrow> expr_copy e1; b \<leftarrow> expr_copy e2; Some (E_BIN j a b) }"
| "expr_copy (E_LIST ss) = None"
| "expr_copy (E_RANGE s1 s2) = None"

subsection \<open>Strings and numbers\<close>

definition string_of_tri :: "tristate \<Rightarrow> string" where
  "string_of_tri t = (case t of No \<Rightarrow> ''n'' | Mod \<Rightarrow> ''m'' | Yes \<Rightarrow> ''y'')"

definition sym_get_string_value :: "symbols \<Rightarrow> symbol \<Rightarrow> string" where
  "sym_get_string_value env s =
     (if sym_type env s = S_BOOLEAN \<or> sym_type env s = S_TRISTATE then
        (case curr_tri env s of
           No \<Rightarrow> ''n''
         | Mod \<Rightarrow> (if modules_tri env = No then ''n'' else ''m'')
         | Yes \<Rightarrow> ''y'')
      else curr_val env s)"

text \<open>\<open>strcmp\<close>: the sign of the first difference, bytes unsigned.\<close>

fun strcmp :: "string \<Rightarrow> string \<Rightarrow> int" where
  "strcmp [] [] = 0"
| "strcmp [] (c # s) = -1"
| "strcmp (c # s) [] = 1"
| "strcmp (c # s) (d # t) =
     (if c = d then strcmp s t
      else if (of_char c :: int) < of_char d then -1 else 1)"

lemma strcmp_0_iff [simp]: "strcmp s t = 0 \<longleftrightarrow> s = t"
  by (induction s t rule: strcmp.induct) auto

text \<open>
  \<open>strtoll\<close> and \<open>strtoull\<close>: white space, a sign, the prefix of the base, digits. The result is
  the number, the characters consumed and the rest; without digits nothing is consumed.
\<close>

definition digit_of :: "char \<Rightarrow> nat" where
  "digit_of c =
     (let n = of_char c in
      if 48 \<le> n \<and> n \<le> 57 then n - 48
      else if 97 \<le> n \<and> n \<le> 122 then n - 87
      else if 65 \<le> n \<and> n \<le> 90 then n - 55
      else 99)"

definition is_space :: "char \<Rightarrow> bool" where
  "is_space c \<longleftrightarrow> (let n = (of_char c :: nat) in n = 32 \<or> 9 \<le> n \<and> n \<le> 13)"

definition is_xdigit :: "char \<Rightarrow> bool" where
  "is_xdigit c \<longleftrightarrow> digit_of c < 16"

definition number_of_digits :: "nat \<Rightarrow> string \<Rightarrow> nat" where
  "number_of_digits base ds = foldl (\<lambda>v c. v * base + digit_of c) 0 ds"

definition is_0x :: "string \<Rightarrow> bool" where
  "is_0x s \<longleftrightarrow> (case s of a # b # c # _ \<Rightarrow> a = CHR ''0'' \<and> (b = CHR ''x'' \<or> b = CHR ''X'') \<and> digit_of c < 16
                | _ \<Rightarrow> False)"

definition scan_number :: "nat \<Rightarrow> string \<Rightarrow> int \<times> string \<times> string" where
  "scan_number base str =
     (let s = dropWhile is_space str;
          neg = (s \<noteq> [] \<and> hd s = CHR ''-'');
          s = (if s \<noteq> [] \<and> (hd s = CHR ''-'' \<or> hd s = CHR ''+'') then tl s else s);
          hex = ((base = 16 \<or> base = 0) \<and> is_0x s);
          b = (if base = 0 then (if hex then 16 else if s \<noteq> [] \<and> hd s = CHR ''0'' then 8 else 10) else base);
          s = (if hex then drop 2 s else s);
          ds = takeWhile (\<lambda>c. digit_of c < b) s;
          n = int (number_of_digits b ds)
      in if ds = [] then (0, [], str)
         else (if neg then - n else n, take (length str - (length s - length ds)) str, drop (length ds) s))"

datatype string_value_kind = k_string | k_signed | k_unsigned | k_invalid

text \<open>The union of the two 64-bit integers is its bits; \<open>None\<close> while it is not set.\<close>

definition fits_signed :: "int \<Rightarrow> bool" where
  "fits_signed i \<longleftrightarrow> - (2 ^ 63) \<le> i \<and> i < 2 ^ 63"

definition fits_unsigned :: "int \<Rightarrow> bool" where
  "fits_unsigned i \<longleftrightarrow> \<bar>i\<bar> < 2 ^ 64"

definition parsed :: "string_value_kind \<Rightarrow> (int \<Rightarrow> bool) \<Rightarrow> int \<times> string \<times> string \<Rightarrow> string_value_kind \<times> 64 word" where
  "parsed kind fits r =
     (let (i, used, tail) = r in
      (if fits i \<and> tail = [] \<and> used \<noteq> [] \<and> is_xdigit (last used) then kind else k_string, word_of_int i))"

definition expr_parse_string :: "string \<Rightarrow> symbol_type \<Rightarrow> string_value_kind \<times> 64 word" where
  "expr_parse_string str type =
     (case type of
        S_BOOLEAN \<Rightarrow> (k_signed, if str = ''n'' then 0 else if str = ''m'' then 1 else if str = ''y'' then 2 else -1)
      | S_TRISTATE \<Rightarrow> (k_signed, if str = ''n'' then 0 else if str = ''m'' then 1 else if str = ''y'' then 2 else -1)
      | S_INT \<Rightarrow> parsed k_signed fits_signed (scan_number 10 str)
      | S_HEX \<Rightarrow> parsed k_unsigned fits_unsigned (scan_number 16 str)
      | S_STRING \<Rightarrow> parsed k_signed fits_signed (scan_number 0 str)
      | S_UNKNOWN \<Rightarrow> parsed k_signed fits_signed (scan_number 0 str)
      | S_OTHER \<Rightarrow> (k_invalid, 0))"

subsection \<open>Evaluation\<close>

text \<open>
  The comparison of \<open>expr_calc_value\<close>: \<open>Inr\<close> the sign of the difference, \<open>Inl\<close> the strings of
  two values that have no order.
\<close>

definition compare_values :: "symbols \<Rightarrow> symbol \<Rightarrow> symbol \<Rightarrow> int + int" where
  "compare_values env s1 s2 =
     (let str1 = sym_get_string_value env s1; str2 = sym_get_string_value env s2;
          strings = (sym_type env s1 = S_STRING \<and> sym_type env s2 = S_STRING);
          (k1, lval) = (if strings then (k_string, 0) else expr_parse_string str1 (sym_type env s1));
          (k2, rval) = (if strings then (k_string, 0) else expr_parse_string str2 (sym_type env s2)) in
      if k1 = k_string \<or> k2 = k_string then Inr (strcmp str1 str2)
      else if k1 = k_invalid \<or> k2 = k_invalid then Inl (strcmp str1 str2)
      else if k1 = k_unsigned \<or> k2 = k_unsigned then
        Inr (if lval > rval then 1 else if lval < rval then -1 else 0)
      else Inr (if sint lval > sint rval then 1 else if sint lval < sint rval then -1 else 0))"

fun holds_sign :: "relation \<Rightarrow> int \<Rightarrow> bool" where
  "holds_sign E_EQUAL res = (res = 0)"
| "holds_sign E_GEQ res = (res \<ge> 0)"
| "holds_sign E_GTH res = (res > 0)"
| "holds_sign E_LEQ res = (res \<le> 0)"
| "holds_sign E_LTH res = (res < 0)"
| "holds_sign E_UNEQUAL res = (res \<noteq> 0)"

definition tri_of_bool :: "bool \<Rightarrow> tristate" where
  "tri_of_bool b = (if b then Yes else No)"

fun expr_calc_value :: "symbols \<Rightarrow> expr \<Rightarrow> tristate" where
  "expr_calc_value env (E_SYMBOL s) = curr_tri env s"
| "expr_calc_value env (E_BIN JAND e1 e2) = EXPR_AND (expr_calc_value env e1) (expr_calc_value env e2)"
| "expr_calc_value env (E_BIN JOR e1 e2) = EXPR_OR (expr_calc_value env e1) (expr_calc_value env e2)"
| "expr_calc_value env (E_NOT e) = EXPR_NOT (expr_calc_value env e)"
| "expr_calc_value env (E_COMP r s1 s2) =
     (case compare_values env s1 s2 of
        Inl res \<Rightarrow> (if r \<noteq> E_EQUAL \<and> r \<noteq> E_UNEQUAL then No else tri_of_bool (holds_sign r res))
      | Inr res \<Rightarrow> tri_of_bool (holds_sign r res))"
| "expr_calc_value env (E_LIST ss) = No"
| "expr_calc_value env (E_RANGE s1 s2) = No"

definition expr_calc_value_ptr :: "symbols \<Rightarrow> expr option \<Rightarrow> tristate" where
  "expr_calc_value_ptr env e = (case e of None \<Rightarrow> Yes | Some e \<Rightarrow> expr_calc_value env e)"

subsection \<open>Symbols of an expression\<close>

fun expr_contains_symbol :: "expr \<Rightarrow> symbol \<Rightarrow> bool" where
  "expr_contains_symbol (E_BIN j e1 e2) s \<longleftrightarrow> expr_contains_symbol e1 s \<or> expr_contains_symbol e2 s"
| "expr_contains_symbol (E_SYMBOL s') s \<longleftrightarrow> s' = s"
| "expr_contains_symbol (E_COMP r s1 s2) s \<longleftrightarrow> s1 = s \<or> s2 = s"
| "expr_contains_symbol (E_NOT e) s \<longleftrightarrow> expr_contains_symbol e s"
| "expr_contains_symbol _ s \<longleftrightarrow> False"

fun expr_depends_symbol :: "expr \<Rightarrow> symbol \<Rightarrow> bool" where
  "expr_depends_symbol (E_BIN JAND e1 e2) s \<longleftrightarrow> expr_depends_symbol e1 s \<or> expr_depends_symbol e2 s"
| "expr_depends_symbol (E_SYMBOL s') s \<longleftrightarrow> s' = s"
| "expr_depends_symbol (E_COMP E_EQUAL s1 s2) s \<longleftrightarrow> s1 = s \<and> (s2 = symbol_yes \<or> s2 = symbol_mod)"
| "expr_depends_symbol (E_COMP E_UNEQUAL s1 s2) s \<longleftrightarrow> s1 = s \<and> s2 = symbol_no"
| "expr_depends_symbol _ s \<longleftrightarrow> False"

subsection \<open>Local simplification\<close>

text \<open>\<open>expr_eliminate_yn\<close>: the constants \<open>y\<close> and \<open>n\<close> below \<open>&&\<close> and \<open>||\<close>.\<close>

fun expr_eliminate_yn :: "expr \<Rightarrow> expr" where
  "expr_eliminate_yn (E_BIN JAND e1 e2) =
     (let a = expr_eliminate_yn e1; b = expr_eliminate_yn e2 in
      if a = E_SYMBOL symbol_no then E_SYMBOL symbol_no
      else if a = E_SYMBOL symbol_yes then b
      else if b = E_SYMBOL symbol_no then E_SYMBOL symbol_no
      else if b = E_SYMBOL symbol_yes then a
      else E_AND a b)"
| "expr_eliminate_yn (E_BIN JOR e1 e2) =
     (let a = expr_eliminate_yn e1; b = expr_eliminate_yn e2 in
      if a = E_SYMBOL symbol_no then b
      else if a = E_SYMBOL symbol_yes then E_SYMBOL symbol_yes
      else if b = E_SYMBOL symbol_no then a
      else if b = E_SYMBOL symbol_yes then E_SYMBOL symbol_yes
      else E_OR a b)"
| "expr_eliminate_yn e = e"

fun expr_trans_bool :: "symbols \<Rightarrow> expr \<Rightarrow> expr" where
  "expr_trans_bool env (E_BIN j e1 e2) = E_BIN j (expr_trans_bool env e1) (expr_trans_bool env e2)"
| "expr_trans_bool env (E_NOT e) = E_NOT (expr_trans_bool env e)"
| "expr_trans_bool env (E_COMP E_UNEQUAL s1 s2) =
     (if sym_type env s1 = S_TRISTATE \<and> s2 = symbol_no then E_SYMBOL s1 else E_COMP E_UNEQUAL s1 s2)"
| "expr_trans_bool env e = e"

text \<open>
  \<open>expr_trans_compare\<close> with \<open>type\<close> equality (\<open>eq\<close>) or inequality. For \<open>&&\<close> and \<open>||\<close> and a \<open>smb\<close>
  that is neither \<open>y\<close> nor \<open>n\<close> the source keeps the operand \<open>e\<close> itself; \<^term>\<open>None\<close> is the null
  pointer it returns in the cases it does not handle.
\<close>

fun expr_trans_compare :: "expr \<Rightarrow> bool \<Rightarrow> symbol \<Rightarrow> expr option" where
  "expr_trans_compare (E_BIN j a b) eq smb =
     (let e1 = expr_trans_compare a True smb; e2 = expr_trans_compare b True smb;
          e = (if smb = symbol_yes then do { x \<leftarrow> e1; y \<leftarrow> e2; Some (E_BIN j x y) }
               else if smb = symbol_no then
                 do { x \<leftarrow> e1; y \<leftarrow> e2; Some (E_BIN (if j = JAND then JOR else JAND) x y) }
               else Some (E_BIN j a b)) in
      if eq then e else map_option E_NOT e)"
| "expr_trans_compare (E_NOT e) eq smb = expr_trans_compare e (\<not> eq) smb"
| "expr_trans_compare (E_COMP r s1 s2) eq smb =
     (if eq then
        (if smb = symbol_yes then Some (E_COMP r s1 s2)
         else if smb = symbol_mod then Some (E_SYMBOL symbol_no)
         else if smb = symbol_no then Some (E_NOT (E_COMP r s1 s2))
         else None)
      else
        (if smb = symbol_yes then Some (E_NOT (E_COMP r s1 s2))
         else if smb = symbol_mod then Some (E_SYMBOL symbol_yes)
         else if smb = symbol_no then Some (E_COMP r s1 s2)
         else None))"
| "expr_trans_compare (E_SYMBOL s) eq smb = Some (E_COMP (if eq then E_EQUAL else E_UNEQUAL) s smb)"
| "expr_trans_compare _ eq smb = None"

subsection \<open>Symbol tables\<close>

text \<open>
  What \<open>symbol.c\<close> guarantees: the three constants have no type and their letter as value, a
  boolean symbol is never \<open>m\<close>, and no symbol is \<open>m\<close> while modules are off.
\<close>

definition env_ok :: "symbols \<Rightarrow> bool" where
  "env_ok env \<longleftrightarrow>
     sym_type env symbol_yes = S_UNKNOWN \<and> sym_type env symbol_mod = S_UNKNOWN \<and> sym_type env symbol_no = S_UNKNOWN \<and>
     curr_tri env symbol_yes = Yes \<and> curr_tri env symbol_mod = Mod \<and> curr_tri env symbol_no = No \<and>
     curr_val env symbol_yes = ''y'' \<and> curr_val env symbol_mod = ''m'' \<and> curr_val env symbol_no = ''n'' \<and>
     (\<forall>s. sym_type env s = S_BOOLEAN \<longrightarrow> curr_tri env s \<noteq> Mod) \<and>
     (\<forall>s. sym_type env s = S_TRISTATE \<and> curr_tri env s = Mod \<longrightarrow> modules_tri env \<noteq> No)"

definition tri_symbol :: "symbols \<Rightarrow> symbol \<Rightarrow> bool" where
  "tri_symbol env s \<longleftrightarrow> sym_type env s = S_BOOLEAN \<or> sym_type env s = S_TRISTATE"

definition tri_const :: "symbol \<Rightarrow> bool" where
  "tri_const c \<longleftrightarrow> c = symbol_yes \<or> c = symbol_mod \<or> c = symbol_no"

lemma env_ok_constants [simp]:
  assumes "env_ok env"
  shows "curr_tri env symbol_yes = Yes" "curr_tri env symbol_mod = Mod" "curr_tri env symbol_no = No"
    "sym_type env symbol_yes = S_UNKNOWN" "sym_type env symbol_mod = S_UNKNOWN" "sym_type env symbol_no = S_UNKNOWN"
    "curr_val env symbol_yes = ''y''" "curr_val env symbol_mod = ''m''" "curr_val env symbol_no = ''n''"
  using assms by (simp_all add: env_ok_def)

lemma string_of_tri_inject [simp]: "string_of_tri a = string_of_tri b \<longleftrightarrow> a = b"
  by (cases a; cases b) (simp_all add: string_of_tri_def)

lemma env_ok_mod:
  assumes "env_ok env" and "curr_tri env s = Mod"
  shows "sym_type env s \<noteq> S_BOOLEAN" and "sym_type env s = S_TRISTATE \<Longrightarrow> modules_tri env \<noteq> No"
  using assms unfolding env_ok_def by blast+

lemma string_value_tri:
  "env_ok env \<Longrightarrow> tri_symbol env s \<Longrightarrow> sym_get_string_value env s = string_of_tri (curr_tri env s)"
  using env_ok_mod [of env s]
  by (cases "curr_tri env s") (auto simp: tri_symbol_def sym_get_string_value_def string_of_tri_def)

lemma string_value_const:
  "env_ok env \<Longrightarrow> tri_const c \<Longrightarrow> sym_get_string_value env c = string_of_tri (curr_tri env c)"
  by (auto simp: tri_const_def sym_get_string_value_def string_of_tri_def)

lemma parse_letter: "fst (expr_parse_string (string_of_tri t) S_UNKNOWN) = k_string"
  by (cases t) (simp_all add: expr_parse_string_def string_of_tri_def scan_number_def parsed_def
      is_space_def is_0x_def digit_of_def Let_def)

text \<open>A comparison with one of the constants compares the strings.\<close>

lemma compare_const:
  assumes "env_ok env" and "tri_const c"
  shows "compare_values env s c = Inr (strcmp (sym_get_string_value env s) (string_of_tri (curr_tri env c)))"
proof -
  have "sym_type env c = S_UNKNOWN" using assms by (auto simp: tri_const_def)
  moreover obtain v where "expr_parse_string (string_of_tri (curr_tri env c)) S_UNKNOWN = (k_string, v)"
    using parse_letter [of "curr_tri env c"] by (cases "expr_parse_string (string_of_tri (curr_tri env c)) S_UNKNOWN") auto
  ultimately show ?thesis
    unfolding compare_values_def Let_def string_value_const [OF assms]
    by (simp split: prod.split)
qed

lemma compare_tri:
  "env_ok env \<Longrightarrow> tri_const c \<Longrightarrow> tri_symbol env s \<Longrightarrow>
    expr_calc_value env (E_COMP E_EQUAL s c) = tri_of_bool (curr_tri env s = curr_tri env c) \<and>
    expr_calc_value env (E_COMP E_UNEQUAL s c) = tri_of_bool (curr_tri env s \<noteq> curr_tri env c)"
  by (simp add: compare_const string_value_tri)

lemma tri_of_bool_simps [simp]:
  "tri_of_bool b \<noteq> Mod" "tri_of_bool b = Yes \<longleftrightarrow> b" "tri_of_bool b = No \<longleftrightarrow> \<not> b"
  "EXPR_NOT (tri_of_bool b) = tri_of_bool (\<not> b)"
  "max (tri_of_bool a) (tri_of_bool b) = tri_of_bool (a \<or> b)"
  "min (tri_of_bool a) (tri_of_bool b) = tri_of_bool (a \<and> b)"
  by (simp_all add: tri_of_bool_def max_def min_def tri_order)

lemma calc_comp_two_valued [simp]: "expr_calc_value env (E_COMP r s1 s2) \<noteq> Mod"
  by (simp split: sum.split)

lemma calc_bin: "expr_calc_value env (E_BIN j a b) =
  (if j = JAND then min (expr_calc_value env a) (expr_calc_value env b)
   else max (expr_calc_value env a) (expr_calc_value env b))"
  by (cases j) (simp_all add: EXPR_AND_min EXPR_OR_max)

subsection \<open>Lemmas on the simple transformations\<close>

fun logical :: "expr \<Rightarrow> bool" where
  "logical (E_BIN j a b) = (logical a \<and> logical b)"
| "logical (E_NOT e) = logical e"
| "logical (E_LIST ss) = False"
| "logical (E_RANGE s1 s2) = False"
| "logical _ = True"

lemma expr_copy_id: "logical e \<Longrightarrow> expr_copy e = Some e"
  by (induction e) auto

lemma expr_copy_Some: "expr_copy e = Some e' \<Longrightarrow> e' = e \<and> logical e"
  by (induction e arbitrary: e') (auto simp: bind_eq_Some_conv)

text \<open>The neutral and the absorbing constant of a junction.\<close>

definition unit_of :: "junction \<Rightarrow> symbol" where
  "unit_of j = (if j = JAND then symbol_yes else symbol_no)"

definition zero_of :: "junction \<Rightarrow> symbol" where
  "zero_of j = (if j = JAND then symbol_no else symbol_yes)"

lemma eliminate_yn_bin: "expr_eliminate_yn (E_BIN j e1 e2) =
  (let a = expr_eliminate_yn e1; b = expr_eliminate_yn e2 in
   if a = E_SYMBOL (zero_of j) then E_SYMBOL (zero_of j)
   else if a = E_SYMBOL (unit_of j) then b
   else if b = E_SYMBOL (zero_of j) then E_SYMBOL (zero_of j)
   else if b = E_SYMBOL (unit_of j) then a
   else E_BIN j a b)"
  by (cases j) (simp_all add: unit_of_def zero_of_def Let_def)

lemma eliminate_yn_calc: "env_ok env \<Longrightarrow> expr_calc_value env (expr_eliminate_yn e) = expr_calc_value env e"
proof (induction e)
  case (E_BIN j e1 e2)
  then have IH: "expr_calc_value env e1 = expr_calc_value env (expr_eliminate_yn e1)"
    "expr_calc_value env e2 = expr_calc_value env (expr_eliminate_yn e2)" by simp_all
  show ?case
    unfolding calc_bin [of env j e1 e2] IH
    using E_BIN.prems by (cases j) (auto simp: Let_def EXPR_AND_min EXPR_OR_max)
qed simp_all

text \<open>No constant is left below a junction.\<close>

fun yn_free :: "expr \<Rightarrow> bool" where
  "yn_free (E_BIN j a b) \<longleftrightarrow> yn_free a \<and> yn_free b \<and>
     a \<noteq> E_SYMBOL symbol_yes \<and> a \<noteq> E_SYMBOL symbol_no \<and> b \<noteq> E_SYMBOL symbol_yes \<and> b \<noteq> E_SYMBOL symbol_no"
| "yn_free _ = True"

lemma eliminate_yn_free: "yn_free (expr_eliminate_yn e)"
proof (induction e)
  case (E_BIN j e1 e2)
  then show ?case by (cases j) (auto simp: Let_def)
qed simp_all

lemma eliminate_yn_id: "yn_free e \<Longrightarrow> expr_eliminate_yn e = e"
proof (induction e)
  case (E_BIN j e1 e2)
  then show ?case by (cases j) (auto simp: Let_def)
qed simp_all

lemma eliminate_yn_logical: "logical e \<Longrightarrow> logical (expr_eliminate_yn e)"
proof (induction e)
  case (E_BIN j e1 e2)
  then show ?case by (cases j) (auto simp: Let_def)
qed simp_all

text \<open>Every operand of \<open>!\<close> is \<open>y\<close> or \<open>n\<close>, and the plain symbols are boolean, tristate or constant.\<close>

fun two_valued_nots :: "symbols \<Rightarrow> expr \<Rightarrow> bool" where
  "two_valued_nots env (E_BIN j a b) \<longleftrightarrow> two_valued_nots env a \<and> two_valued_nots env b"
| "two_valued_nots env (E_NOT e) \<longleftrightarrow> two_valued_nots env e \<and> expr_calc_value env e \<noteq> Mod"
| "two_valued_nots env _ \<longleftrightarrow> True"

fun tri_symbols :: "symbols \<Rightarrow> expr \<Rightarrow> bool" where
  "tri_symbols env (E_BIN j a b) \<longleftrightarrow> tri_symbols env a \<and> tri_symbols env b"
| "tri_symbols env (E_NOT e) \<longleftrightarrow> tri_symbols env e"
| "tri_symbols env (E_SYMBOL s) \<longleftrightarrow> tri_symbol env s \<or> tri_const s"
| "tri_symbols env _ \<longleftrightarrow> True"

lemma compare_symbol:
  assumes "env_ok env" and "tri_const c" and "tri_symbol env s \<or> tri_const s"
  shows "expr_calc_value env (E_COMP (if eq then E_EQUAL else E_UNEQUAL) s c) =
    tri_of_bool ((curr_tri env s = curr_tri env c) = eq)"
  using assms string_value_tri [OF assms(1), of s] string_value_const [OF assms(1), of s]
  by (auto simp: compare_const)

lemma min_max_Yes_No:
  "min a b = Yes \<longleftrightarrow> a = Yes \<and> b = Yes" "min a b = No \<longleftrightarrow> a = No \<or> b = No"
  "max a b = Yes \<longleftrightarrow> a = Yes \<or> b = Yes" "max a b = No \<longleftrightarrow> a = No \<and> b = No"
  by (cases a; cases b; simp add: min_def max_def tri_order)+

lemma trans_compare_calc:
  assumes env: "env_ok env"
  shows "c = symbol_yes \<or> c = symbol_no \<Longrightarrow> logical e \<Longrightarrow> two_valued_nots env e \<Longrightarrow> tri_symbols env e \<Longrightarrow>
    \<exists>e'. expr_trans_compare e eq c = Some e' \<and>
      expr_calc_value env e' = tri_of_bool ((expr_calc_value env e = curr_tri env c) = eq)"
proof (induction e eq c rule: expr_trans_compare.induct)
  case (1 j a b eq c)
  obtain x where x: "expr_trans_compare a True c = Some x"
    "expr_calc_value env x = tri_of_bool (expr_calc_value env a = curr_tri env c)"
    using "1.IH"(1) "1.prems" by auto
  obtain y where y: "expr_trans_compare b True c = Some y"
    "expr_calc_value env y = tri_of_bool (expr_calc_value env b = curr_tri env c)"
    using "1.IH"(2) "1.prems" by auto
  show ?case
    using "1.prems"(1) x y env
    by (cases eq; cases j) (auto simp: Let_def calc_bin min_max_Yes_No)
next
  case (2 e eq c)
  have "expr_calc_value env e \<noteq> Mod" using 2 by simp
  then have "(EXPR_NOT (expr_calc_value env e) = curr_tri env c) = (expr_calc_value env e \<noteq> curr_tri env c)"
    using "2.prems"(1) env by (cases "expr_calc_value env e") auto
  moreover obtain e' where "expr_trans_compare e (\<not> eq) c = Some e'"
    "expr_calc_value env e' = tri_of_bool ((expr_calc_value env e = curr_tri env c) = (\<not> eq))"
    using "2.IH" "2.prems" by auto
  ultimately show ?case by (cases eq) auto
next
  case (3 r s1 s2 eq c)
  have "expr_calc_value env (E_COMP r s1 s2) \<noteq> Mod" by (rule calc_comp_two_valued)
  then obtain b where b: "expr_calc_value env (E_COMP r s1 s2) = tri_of_bool b"
    by (metis tri_of_bool_def tristate.exhaust)
  show ?case
    using "3.prems"(1) env b by (cases eq) (auto simp del: expr_calc_value.simps(5))
next
  case (4 s eq c)
  then have "tri_const c" "tri_symbol env s \<or> tri_const s" by (auto simp: tri_const_def)
  from compare_symbol [OF env this, of eq] show ?case
    by (simp del: expr_calc_value.simps(5) cong: if_cong)
qed simp_all

lemma contains_symbol_agree:
  assumes "\<not> expr_contains_symbol e s"
    and "\<forall>s'. s' \<noteq> s \<longrightarrow> curr_tri env' s' = curr_tri env s' \<and> sym_type env' s' = sym_type env s' \<and>
      curr_val env' s' = curr_val env s'"
    and "modules_tri env' = modules_tri env"
  shows "expr_calc_value env' e = expr_calc_value env e"
  using assms(1)
proof (induction e)
  case (E_BIN j e1 e2)
  then show ?case by (simp add: calc_bin)
next
  case (E_COMP r s1 s2)
  then have "sym_get_string_value env' s1 = sym_get_string_value env s1"
    "sym_get_string_value env' s2 = sym_get_string_value env s2" "sym_type env' s1 = sym_type env s1"
    "sym_type env' s2 = sym_type env s2"
    using assms(2,3) by (auto simp: sym_get_string_value_def)
  then have "compare_values env' s1 s2 = compare_values env s1 s2"
    unfolding compare_values_def by (simp only:)
  then show ?case by simp
qed (use assms(2) in auto)

end
