(* ===== verification/Kconfig_Equal.thy ===== *)
theory Kconfig_Equal
  imports Kconfig_Expr
begin

text \<open>
  Equality of expressions in \<open>scripts/kconfig/expr.c\<close>: \<open>expr_eq\<close> removes the operands two
  expressions have in common (\<open>expr_eliminate_eq\<close>) and looks at what is left, and that removal
  compares operands with \<open>expr_eq\<close> again. The three functions carry fuel; the bound given here
  is always enough. \<open>trans_count\<close> is returned as the number of removals.
\<close>

subsection \<open>The functions\<close>

definition operands :: "junction \<Rightarrow> expr \<Rightarrow> (expr \<times> expr) option" where
  "operands type e = (case e of E_BIN j a b \<Rightarrow> (if j = type then Some (a, b) else None) | _ \<Rightarrow> None)"

definition top_junction :: "expr \<Rightarrow> junction option" where
  "top_junction e = (case e of E_BIN j a b \<Rightarrow> Some j | _ \<Rightarrow> None)"

text \<open>The same node type, the relation included.\<close>

fun same_type :: "expr \<Rightarrow> expr \<Rightarrow> bool" where
  "same_type (E_SYMBOL s) (E_SYMBOL t) = True"
| "same_type (E_NOT a) (E_NOT b) = True"
| "same_type (E_COMP r s1 s2) (E_COMP q t1 t2) = (r = q)"
| "same_type (E_BIN i a b) (E_BIN j c d) = (i = j)"
| "same_type (E_LIST ss) (E_LIST ts) = True"
| "same_type (E_RANGE s1 s2) (E_RANGE t1 t2) = True"
| "same_type _ _ = False"

definition same_constant :: "expr \<Rightarrow> expr \<Rightarrow> bool" where
  "same_constant e1 e2 \<longleftrightarrow> e1 = e2 \<and> (e1 = E_SYMBOL symbol_yes \<or> e1 = E_SYMBOL symbol_no)"

definition same_symbol :: "expr \<Rightarrow> expr \<Rightarrow> bool" where
  "same_symbol e1 e2 \<longleftrightarrow> (case (e1, e2) of (E_SYMBOL s, E_SYMBOL t) \<Rightarrow> s = t | _ \<Rightarrow> False)"

text \<open>
  \<open>eliminate_eq1\<close> is \<open>__expr_eliminate_eq\<close>: it walks both trees down to the leaves of \<open>type\<close>
  and replaces equal leaves by the constant that is neutral for \<open>type\<close>.
\<close>

fun eliminate_eq1 :: "nat \<Rightarrow> junction \<Rightarrow> expr \<Rightarrow> expr \<Rightarrow> (expr \<times> expr \<times> nat) option"
  and eliminate_eq :: "nat \<Rightarrow> expr \<Rightarrow> expr \<Rightarrow> (expr \<times> expr \<times> nat) option"
  and expr_eq :: "nat \<Rightarrow> expr \<Rightarrow> expr \<Rightarrow> bool option" where
  "eliminate_eq1 0 type e1 e2 = None"
| "eliminate_eq1 (Suc n) type e1 e2 =
     (case operands type e1 of
        Some (a, b) \<Rightarrow> do {
          (a', e2', c) \<leftarrow> eliminate_eq1 n type a e2;
          (b', e2'', d) \<leftarrow> eliminate_eq1 n type b e2';
          Some (E_BIN type a' b', e2'', c + d) }
      | None \<Rightarrow>
        (case operands type e2 of
           Some (a, b) \<Rightarrow> do {
             (e1', a', c) \<leftarrow> eliminate_eq1 n type e1 a;
             (e1'', b', d) \<leftarrow> eliminate_eq1 n type e1' b;
             Some (e1'', E_BIN type a' b', c + d) }
         | None \<Rightarrow>
           (if same_constant e1 e2 then Some (e1, e2, 0)
            else do {
              eq \<leftarrow> expr_eq n e1 e2;
              if \<not> eq then Some (e1, e2, 0)
              else Some (E_SYMBOL (unit_of type), E_SYMBOL (unit_of type), 1) })))"
| "eliminate_eq 0 e1 e2 = None"
| "eliminate_eq (Suc n) e1 e2 = do {
     (e1, e2, c) \<leftarrow> (case top_junction e1 of
        Some type \<Rightarrow> eliminate_eq1 n type e1 e2 | None \<Rightarrow> Some (e1, e2, 0));
     (e1, e2, d) \<leftarrow> (if same_type e1 e2 then Some (e1, e2, 0)
        else (case top_junction e2 of
          Some type \<Rightarrow> eliminate_eq1 n type e1 e2 | None \<Rightarrow> Some (e1, e2, 0)));
     Some (expr_eliminate_yn e1, expr_eliminate_yn e2, c + d) }"
| "expr_eq 0 e1 e2 = None"
| "expr_eq (Suc n) e1 e2 =
     (if \<not> same_type e1 e2 then Some False
      else (case (e1, e2) of
        (E_COMP r s1 s2, E_COMP q t1 t2) \<Rightarrow> Some (s1 = t1 \<and> s2 = t2)
      | (E_SYMBOL s, E_SYMBOL t) \<Rightarrow> Some (s = t)
      | (E_NOT a, E_NOT b) \<Rightarrow> expr_eq n a b
      | (E_BIN i a b, E_BIN j c d) \<Rightarrow> do {
          (x, y, _) \<leftarrow> eliminate_eq n e1 e2;
          Some (same_symbol x y) }
      | _ \<Rightarrow> Some False))"

text \<open>The number of nodes.\<close>

fun nodes :: "expr \<Rightarrow> nat" where
  "nodes (E_BIN j a b) = Suc (nodes a + nodes b)"
| "nodes (E_NOT e) = Suc (nodes e)"
| "nodes _ = 1"

definition eq_fuel :: "expr \<Rightarrow> expr \<Rightarrow> nat" where
  "eq_fuel e1 e2 = 4 * (nodes e1 + nodes e2) + 1"

definition expr_equal :: "expr \<Rightarrow> expr \<Rightarrow> bool" where
  "expr_equal e1 e2 \<longleftrightarrow> expr_eq (eq_fuel e1 e2) e1 e2 = Some True"

text \<open>\<open>expr_eliminate_eq\<close> on pointers: nothing happens if one is null.\<close>

definition expr_eliminate_eq :: "expr option \<Rightarrow> expr option \<Rightarrow> (expr option \<times> expr option) option" where
  "expr_eliminate_eq p1 p2 =
     (case (p1, p2) of
        (Some e1, Some e2) \<Rightarrow>
          map_option (\<lambda>(x, y, _). (Some x, Some y)) (eliminate_eq (eq_fuel e1 e2) e1 e2)
      | _ \<Rightarrow> Some (p1, p2))"

subsection \<open>Fuel\<close>

lemma nodes_pos [simp]: "0 < nodes e"
  by (cases e) simp_all

lemma operands_Some: "operands type e = Some (a, b) \<longleftrightarrow> e = E_BIN type a b"
  by (auto simp: operands_def split: expr.splits)

lemma top_junction_Some: "top_junction e = Some j \<longleftrightarrow> (\<exists>a b. e = E_BIN j a b)"
  by (auto simp: top_junction_def split: expr.splits)

lemma nodes_eliminate_yn: "nodes (expr_eliminate_yn e) \<le> nodes e"
proof (induction e)
  case (E_BIN j e1 e2)
  then show ?case unfolding eliminate_yn_bin by (simp add: Let_def)
qed simp_all

definition eq1_ok :: "nat \<Rightarrow> junction \<Rightarrow> expr \<Rightarrow> expr \<Rightarrow> bool" where
  "eq1_ok n type e1 e2 \<longleftrightarrow> (\<exists>x y c. eliminate_eq1 n type e1 e2 = Some (x, y, c) \<and>
     nodes x \<le> nodes e1 \<and> nodes y \<le> nodes e2)"

lemma eq1_split_ok:
  assumes IH: "\<And>type e1 e2. 4 * (nodes e1 + nodes e2) + 1 \<le> n \<Longrightarrow> eq1_ok n type e1 e2"
    and split: "operands type e1 \<noteq> None \<or> operands type e2 \<noteq> None"
    and fuel: "4 * (nodes e1 + nodes e2) \<le> Suc n + 2"
  shows "eq1_ok (Suc n) type e1 e2"
proof (cases "operands type e1")
  case (Some p)
  then obtain a b where e1: "e1 = E_BIN type a b" by (cases p) (auto simp: operands_Some)
  obtain a' y c where 1: "eliminate_eq1 n type a e2 = Some (a', y, c)" "nodes a' \<le> nodes a" "nodes y \<le> nodes e2"
    using IH [of a e2 type] fuel e1 by (auto simp: eq1_ok_def)
  obtain b' z d where 2: "eliminate_eq1 n type b y = Some (b', z, d)" "nodes b' \<le> nodes b" "nodes z \<le> nodes y"
    using IH [of b y type] fuel e1 1(3) by (auto simp: eq1_ok_def)
  show ?thesis using 1 2 e1 by (simp add: eq1_ok_def operands_def)
next
  case None
  then obtain a b where e2: "e2 = E_BIN type a b" using split by (auto simp: operands_Some)
  obtain x a' c where 1: "eliminate_eq1 n type e1 a = Some (x, a', c)" "nodes x \<le> nodes e1" "nodes a' \<le> nodes a"
    using IH [of e1 a type] fuel e2 by (auto simp: eq1_ok_def)
  obtain z b' d where 2: "eliminate_eq1 n type x b = Some (z, b', d)" "nodes z \<le> nodes x" "nodes b' \<le> nodes b"
    using IH [of x b type] fuel e2 1(2) by (auto simp: eq1_ok_def)
  show ?thesis using None 1 2 e2 by (simp add: eq1_ok_def operands_def)
qed

lemma fuel_suffices:
  "(4 * (nodes e1 + nodes e2) + 1 \<le> n \<longrightarrow> eq1_ok n type e1 e2) \<and>
   (4 * (nodes e1 + nodes e2) \<le> n + 2 \<and> (operands type e1 \<noteq> None \<or> operands type e2 \<noteq> None) \<longrightarrow>
      eq1_ok n type e1 e2) \<and>
   (4 * (nodes e1 + nodes e2) \<le> n + 1 \<longrightarrow> (\<exists>x y c. eliminate_eq n e1 e2 = Some (x, y, c) \<and>
      nodes x \<le> nodes e1 \<and> nodes y \<le> nodes e2)) \<and>
   (4 * (nodes e1 + nodes e2) \<le> n \<longrightarrow> expr_eq n e1 e2 \<noteq> None)"
proof (induction n arbitrary: type e1 e2)
  case 0
  have "2 \<le> nodes e1 + nodes e2" using nodes_pos [of e1] nodes_pos [of e2] by linarith
  then show ?case by auto
next
  case (Suc n)
  note IH1 = Suc.IH [THEN conjunct1, rule_format]
  note IH2 = Suc.IH [THEN conjunct2, THEN conjunct1, rule_format]
  note IH3 = Suc.IH [THEN conjunct2, THEN conjunct2, THEN conjunct1, rule_format]
  note IH4 = Suc.IH [THEN conjunct2, THEN conjunct2, THEN conjunct2, rule_format]
  have split: "eq1_ok (Suc n) type e1 e2"
    if "4 * (nodes e1 + nodes e2) \<le> Suc n + 2" "operands type e1 \<noteq> None \<or> operands type e2 \<noteq> None" for type e1 e2
    using eq1_split_ok [OF IH1] that by blast
  have leaf: "eq1_ok (Suc n) type e1 e2" if "4 * (nodes e1 + nodes e2) + 1 \<le> Suc n"
  proof (cases "operands type e1 \<noteq> None \<or> operands type e2 \<noteq> None")
    case True
    then show ?thesis using split that by simp
  next
    case False
    then have none: "operands type e1 = None" "operands type e2 = None" by blast+
    have "expr_eq n e1 e2 \<noteq> None" using IH4 that by simp
    then obtain eq where "expr_eq n e1 e2 = Some eq" by blast
    then show ?thesis using none by (simp add: eq1_ok_def Suc_le_eq)
  qed
  have elim: "\<exists>x y c. eliminate_eq (Suc n) e1 e2 = Some (x, y, c) \<and> nodes x \<le> nodes e1 \<and> nodes y \<le> nodes e2"
    if f: "4 * (nodes e1 + nodes e2) \<le> Suc n + 1"
  proof -
    have "\<exists>x y c. (case top_junction e1 of Some type \<Rightarrow> eliminate_eq1 n type e1 e2 | None \<Rightarrow> Some (e1, e2, 0)) =
        Some (x, y, c) \<and> nodes x \<le> nodes e1 \<and> nodes y \<le> nodes e2"
    proof (cases "top_junction e1")
      case (Some j)
      then have "operands j e1 \<noteq> None" by (auto simp: top_junction_Some operands_Some)
      then have "eq1_ok n j e1 e2" using IH2 [of e1 e2 j] f by simp
      then show ?thesis using Some by (auto simp: eq1_ok_def)
    qed simp
    then obtain x y c where 1: "(case top_junction e1 of Some type \<Rightarrow> eliminate_eq1 n type e1 e2 | None \<Rightarrow> Some (e1, e2, 0)) =
        Some (x, y, c)" "nodes x \<le> nodes e1" "nodes y \<le> nodes e2" by blast
    then have f': "4 * (nodes x + nodes y) \<le> n + 2" using f by simp
    have "\<exists>u v d. (if same_type x y then Some (x, y, 0) else (case top_junction y of
          Some type \<Rightarrow> eliminate_eq1 n type x y | None \<Rightarrow> Some (x, y, 0))) =
        Some (u, v, d) \<and> nodes u \<le> nodes x \<and> nodes v \<le> nodes y"
    proof (cases "top_junction y")
      case (Some j)
      then have "operands j y \<noteq> None" by (auto simp: top_junction_Some operands_Some)
      then have "eq1_ok n j x y" using IH2 [of x y j] f' by simp
      then show ?thesis using Some by (auto simp: eq1_ok_def)
    qed simp
    then obtain u v d where 2: "(if same_type x y then Some (x, y, 0) else (case top_junction y of
          Some type \<Rightarrow> eliminate_eq1 n type x y | None \<Rightarrow> Some (x, y, 0))) = Some (u, v, d)"
      "nodes u \<le> nodes x" "nodes v \<le> nodes y" by blast
    have "eliminate_eq (Suc n) e1 e2 = Some (expr_eliminate_yn u, expr_eliminate_yn v, c + d)"
      using 1(1) 2(1) by simp
    then show ?thesis
      using 1(2,3) 2(2,3) nodes_eliminate_yn [of u] nodes_eliminate_yn [of v] by auto
  qed
  have eq: "expr_eq (Suc n) e1 e2 \<noteq> None" if "4 * (nodes e1 + nodes e2) \<le> Suc n"
    using that IH3 [of e1 e2] IH4 by (cases e1; cases e2) auto
  show ?case using split leaf elim eq by auto
qed

lemma expr_eq_total: "expr_eq (eq_fuel e1 e2) e1 e2 \<noteq> None"
  using fuel_suffices [of e1 e2 "eq_fuel e1 e2" JAND] by (simp add: eq_fuel_def)

lemma eliminate_eq_total:
  "\<exists>x y c. eliminate_eq (eq_fuel e1 e2) e1 e2 = Some (x, y, c) \<and> nodes x \<le> nodes e1 \<and> nodes y \<le> nodes e2"
  using fuel_suffices [of e1 e2 "eq_fuel e1 e2" JAND] by (simp add: eq_fuel_def)

subsection \<open>Soundness\<close>

text \<open>
  What is removed from two expressions is common to both: each is what remains of it, joined
  with the value \<open>v\<close> of the removed part.
\<close>

definition common :: "junction \<Rightarrow> symbols \<Rightarrow> expr \<Rightarrow> expr \<Rightarrow> expr \<Rightarrow> expr \<Rightarrow> bool" where
  "common type env e1 e2 x y \<longleftrightarrow> (\<exists>v. (if type = JAND then
     expr_calc_value env e1 = min v (expr_calc_value env x) \<and> expr_calc_value env e2 = min v (expr_calc_value env y)
   else
     expr_calc_value env e1 = max v (expr_calc_value env x) \<and> expr_calc_value env e2 = max v (expr_calc_value env y)))"

lemma common_refl: "common type env e1 e2 e1 e2"
  by (cases type) (auto simp: common_def intro: exI [of _ Yes] exI [of _ No])

lemma common_unit:
  "env_ok env \<Longrightarrow> expr_calc_value env e1 = expr_calc_value env e2 \<Longrightarrow>
    common type env e1 e2 (E_SYMBOL (unit_of type)) (E_SYMBOL (unit_of type))"
  by (cases type) (auto simp: common_def unit_of_def)

lemma commonI:
  "expr_calc_value env e1 = (if type = JAND then min v (expr_calc_value env x) else max v (expr_calc_value env x)) \<Longrightarrow>
   expr_calc_value env e2 = (if type = JAND then min v (expr_calc_value env y) else max v (expr_calc_value env y)) \<Longrightarrow>
   common type env e1 e2 x y"
  by (auto simp: common_def)

lemma commonE:
  assumes "common type env e1 e2 x y"
  obtains v where
    "expr_calc_value env e1 = (if type = JAND then min v (expr_calc_value env x) else max v (expr_calc_value env x))"
    "expr_calc_value env e2 = (if type = JAND then min v (expr_calc_value env y) else max v (expr_calc_value env y))"
  using assms unfolding common_def by (elim exE) (cases type; simp)

lemma common_left:
  assumes "common type env a e2 a' y" and "common type env b y b' z"
  shows "common type env (E_BIN type a b) e2 (E_BIN type a' b') z"
proof -
  obtain v where v:
    "expr_calc_value env a = (if type = JAND then min v (expr_calc_value env a') else max v (expr_calc_value env a'))"
    "expr_calc_value env e2 = (if type = JAND then min v (expr_calc_value env y) else max v (expr_calc_value env y))"
    using assms(1) by (rule commonE)
  obtain w where w:
    "expr_calc_value env b = (if type = JAND then min w (expr_calc_value env b') else max w (expr_calc_value env b'))"
    "expr_calc_value env y = (if type = JAND then min w (expr_calc_value env z) else max w (expr_calc_value env z))"
    using assms(2) by (rule commonE)
  show ?thesis
    by (rule commonI [where v = "if type = JAND then min v w else max v w"])
      (simp_all only: calc_bin v w split: if_split, simp_all add: ac_simps)
qed

lemma common_right:
  assumes "common type env e1 a x a'" and "common type env x b z b'"
  shows "common type env e1 (E_BIN type a b) z (E_BIN type a' b')"
proof -
  obtain v where v:
    "expr_calc_value env e1 = (if type = JAND then min v (expr_calc_value env x) else max v (expr_calc_value env x))"
    "expr_calc_value env a = (if type = JAND then min v (expr_calc_value env a') else max v (expr_calc_value env a'))"
    using assms(1) by (rule commonE)
  obtain w where w:
    "expr_calc_value env x = (if type = JAND then min w (expr_calc_value env z) else max w (expr_calc_value env z))"
    "expr_calc_value env b = (if type = JAND then min w (expr_calc_value env b') else max w (expr_calc_value env b'))"
    using assms(2) by (rule commonE)
  show ?thesis
    by (rule commonI [where v = "if type = JAND then min v w else max v w"])
      (simp_all only: calc_bin v w split: if_split, simp_all add: ac_simps)
qed

lemma common_trans:
  assumes "common type env e1 e2 x y" and "common type env x y u z"
  shows "common type env e1 e2 u z"
proof -
  obtain v where v:
    "expr_calc_value env e1 = (if type = JAND then min v (expr_calc_value env x) else max v (expr_calc_value env x))"
    "expr_calc_value env e2 = (if type = JAND then min v (expr_calc_value env y) else max v (expr_calc_value env y))"
    using assms(1) by (rule commonE)
  obtain w where w:
    "expr_calc_value env x = (if type = JAND then min w (expr_calc_value env u) else max w (expr_calc_value env u))"
    "expr_calc_value env y = (if type = JAND then min w (expr_calc_value env z) else max w (expr_calc_value env z))"
    using assms(2) by (rule commonE)
  show ?thesis
    by (rule commonI [where v = "if type = JAND then min v w else max v w"])
      (simp_all only: v w split: if_split, simp_all add: ac_simps)
qed

lemma common_equal:
  "common type env e1 e2 x y \<Longrightarrow> expr_calc_value env x = expr_calc_value env y \<Longrightarrow>
    expr_calc_value env e1 = expr_calc_value env e2"
  by (erule commonE) simp

text \<open>
  The two passes of \<open>expr_eliminate_eq\<close> may go through different junctions: the first through
  that of the left expression, the second through that of the right one.
\<close>

lemma eliminate_sound:
  assumes env: "env_ok env"
  shows "(eliminate_eq1 n type e1 e2 = Some (x, y, c) \<longrightarrow> common type env e1 e2 x y) \<and>
    (eliminate_eq n e1 e2 = Some (x, y, c) \<and> expr_calc_value env x = expr_calc_value env y \<longrightarrow>
       expr_calc_value env e1 = expr_calc_value env e2) \<and>
    (expr_eq n e1 e2 = Some True \<longrightarrow> expr_calc_value env e1 = expr_calc_value env e2)"
proof (induction n arbitrary: type e1 e2 x y c)
  case 0
  show ?case by simp
next
  case (Suc n)
  note IH1 = Suc.IH [THEN conjunct1, rule_format]
  note IH2 = Suc.IH [THEN conjunct2, THEN conjunct1, rule_format, OF conjI]
  note IH3 = Suc.IH [THEN conjunct2, THEN conjunct2, rule_format]
  have eq1: "common type env e1 e2 x y" if s: "eliminate_eq1 (Suc n) type e1 e2 = Some (x, y, c)"
  proof (cases "operands type e1")
    case (Some p)
    then obtain a b where e1: "e1 = E_BIN type a b" by (cases p) (auto simp: operands_Some)
    show ?thesis using s unfolding e1
      by (auto simp: operands_def bind_eq_Some_conv intro: common_left IH1)
  next
    case none1: None
    show ?thesis
    proof (cases "operands type e2")
      case (Some p)
      then obtain a b where e2: "e2 = E_BIN type a b" by (cases p) (auto simp: operands_Some)
      show ?thesis using s none1 unfolding e2
        by (auto simp: operands_def [of type "E_BIN type a b"] bind_eq_Some_conv intro: common_right IH1)
    next
      case None
      show ?thesis using s none1 None
        by (auto simp: bind_eq_Some_conv split: if_splits intro: common_refl common_unit [OF env] IH3)
    qed
  qed
  have elim: "expr_calc_value env e1 = expr_calc_value env e2"
    if s: "eliminate_eq (Suc n) e1 e2 = Some (x, y, c)" and v: "expr_calc_value env x = expr_calc_value env y"
  proof -
    obtain u w k where 1: "(case top_junction e1 of
        Some type \<Rightarrow> eliminate_eq1 n type e1 e2 | None \<Rightarrow> Some (e1, e2, 0)) = Some (u, w, k)"
      using s by (auto simp: bind_eq_Some_conv)
    then obtain u' w' l where 2: "(if same_type u w then Some (u, w, 0)
        else (case top_junction w of
          Some type \<Rightarrow> eliminate_eq1 n type u w | None \<Rightarrow> Some (u, w, 0))) = Some (u', w', l)"
      and xy: "x = expr_eliminate_yn u'" "y = expr_eliminate_yn w'"
      using s by (auto simp: bind_eq_Some_conv)
    have "expr_calc_value env u' = expr_calc_value env w'"
      using v unfolding xy eliminate_yn_calc [OF env] .
    then have "expr_calc_value env u = expr_calc_value env w"
      using 2 by (auto split: if_splits option.splits intro: common_equal [OF IH1])
    then show ?thesis
      using 1 by (auto split: option.splits intro: common_equal [OF IH1])
  qed
  have same: "expr_calc_value env e1 = expr_calc_value env e2" if s: "expr_eq (Suc n) e1 e2 = Some True"
  proof (cases e1)
    case (E_BIN i a b)
    then obtain c d where e2: "e2 = E_BIN i c d" using s by (cases e2) (auto split: if_splits)
    obtain x y k where "eliminate_eq n e1 e2 = Some (x, y, k)" "same_symbol x y"
      using s E_BIN e2 by (auto simp: bind_eq_Some_conv)
    moreover have "x = y" using calculation(2) by (auto simp: same_symbol_def split: expr.splits)
    ultimately show ?thesis using IH2 [of e1 e2 x y k] by simp
  next
    case (E_NOT a)
    then show ?thesis using s IH3 by (cases e2) (auto split: if_splits)
  next
    case (E_SYMBOL p)
    then show ?thesis using s by (cases e2) (auto split: if_splits)
  next
    case (E_COMP r p q)
    then obtain r' p' q' where e2: "e2 = E_COMP r' p' q'" using s by (cases e2) (auto split: if_splits)
    have "r = r'" "p = p'" "q = q'" using s unfolding E_COMP e2 by (auto split: if_splits)
    then show ?thesis unfolding E_COMP e2 by simp
  next
    case (E_LIST ps)
    then show ?thesis using s by (cases e2) (auto split: if_splits)
  next
    case (E_RANGE p q)
    then show ?thesis using s by (cases e2) (auto split: if_splits)
  qed
  show ?case using eq1 elim same by blast
qed

lemma expr_equal_sound: "env_ok env \<Longrightarrow> expr_equal e1 e2 \<Longrightarrow> expr_calc_value env e1 = expr_calc_value env e2"
  using eliminate_sound [of env "eq_fuel e1 e2" JAND e1 e2] by (simp add: expr_equal_def)

end
