(* ===== verification/Kconfig_Simplify.thy ===== *)
theory Kconfig_Simplify
  imports Kconfig_Equal
begin

text \<open>
  The simplifications of \<open>scripts/kconfig/expr.c\<close> that look at two operands
  (\<open>expr_join_or\<close>, \<open>expr_join_and\<close>) or push negations inwards (\<open>expr_transform\<close>), and the
  printing of expressions.
\<close>

subsection \<open>Joining two operands\<close>

text \<open>
  The symbol of an operand. The left operand may be the negation of a comparison, the right one
  only that of a symbol; \<^term>\<open>None\<close> is the return with a null pointer.
\<close>

definition plain_sym :: "expr \<Rightarrow> symbol option" where
  "plain_sym e = (case e of
      E_SYMBOL s \<Rightarrow> Some s
    | E_COMP r s1 s2 \<Rightarrow> (if r = E_EQUAL \<or> r = E_UNEQUAL then Some s1 else None)
    | _ \<Rightarrow> None)"

definition join_sym1 :: "expr \<Rightarrow> symbol option" where
  "join_sym1 e = (case e of E_NOT tmp \<Rightarrow> plain_sym tmp | _ \<Rightarrow> plain_sym e)"

definition join_sym2 :: "expr \<Rightarrow> symbol option" where
  "join_sym2 e = (case e of
      E_NOT tmp \<Rightarrow> (case tmp of E_SYMBOL s \<Rightarrow> Some s | _ \<Rightarrow> None)
    | _ \<Rightarrow> plain_sym e)"

definition is_symbol :: "expr \<Rightarrow> bool" where
  "is_symbol e = (case e of E_SYMBOL s \<Rightarrow> True | _ \<Rightarrow> False)"

definition is_not_symbol :: "expr \<Rightarrow> bool" where
  "is_not_symbol e = (case e of E_NOT tmp \<Rightarrow> is_symbol tmp | _ \<Rightarrow> False)"

text \<open>The right symbol of a comparison with the given relation.\<close>

definition rhs_of :: "relation \<Rightarrow> expr \<Rightarrow> symbol option" where
  "rhs_of r e = (case e of E_COMP q s1 s2 \<Rightarrow> (if q = r then Some s2 else None) | _ \<Rightarrow> None)"

definition pair_of :: "symbol option \<Rightarrow> symbol option \<Rightarrow> symbol \<Rightarrow> symbol \<Rightarrow> bool" where
  "pair_of p q c d \<longleftrightarrow> p = Some c \<and> q = Some d \<or> p = Some d \<and> q = Some c"

definition expr_join_or :: "symbols \<Rightarrow> expr \<Rightarrow> expr \<Rightarrow> expr option" where
  "expr_join_or env e1 e2 =
     (if expr_equal e1 e2 then expr_copy e1
      else
        (case (join_sym1 e1, join_sym2 e2) of
           (Some sym1, Some sym2) \<Rightarrow>
             (if sym1 \<noteq> sym2 then None
              else if sym_type env sym1 \<noteq> S_BOOLEAN \<and> sym_type env sym1 \<noteq> S_TRISTATE then None
              else
                let eq1 = rhs_of E_EQUAL e1; eq2 = rhs_of E_EQUAL e2 in
                if sym_type env sym1 = S_TRISTATE \<and> pair_of eq1 eq2 symbol_yes symbol_mod
                then Some (expr_alloc_comp E_UNEQUAL sym1 symbol_no)
                else if sym_type env sym1 = S_TRISTATE \<and> pair_of eq1 eq2 symbol_yes symbol_no
                then Some (expr_alloc_comp E_UNEQUAL sym1 symbol_mod)
                else if sym_type env sym1 = S_TRISTATE \<and> pair_of eq1 eq2 symbol_mod symbol_no
                then Some (expr_alloc_comp E_UNEQUAL sym1 symbol_yes)
                else if sym_type env sym1 = S_BOOLEAN \<and>
                  (is_not_symbol e1 \<and> is_symbol e2 \<or> is_not_symbol e2 \<and> is_symbol e1)
                then Some (expr_alloc_symbol symbol_yes)
                else None)
         | _ \<Rightarrow> None))"

text \<open>\<open>(a)\<close> on one side, and on the other \<open>a\<close> compared with a constant.\<close>

definition symbol_and :: "relation \<Rightarrow> symbol \<Rightarrow> expr \<Rightarrow> expr \<Rightarrow> bool" where
  "symbol_and r c e1 e2 \<longleftrightarrow>
     is_symbol e1 \<and> rhs_of r e2 = Some c \<or> is_symbol e2 \<and> rhs_of r e1 = Some c"

text \<open>\<open>(a='b') && (a!='c')\<close>, both constants.\<close>

definition join_constants :: "symbols \<Rightarrow> symbol \<Rightarrow> symbol option \<Rightarrow> symbol option \<Rightarrow> expr option" where
  "join_constants env sym1 eq ne =
     (case (eq, ne) of
        (Some b, Some c) \<Rightarrow>
          (if sym_const env c \<and> sym_const env b
           then Some (if b \<noteq> c then expr_alloc_comp E_EQUAL sym1 b else expr_alloc_symbol symbol_no)
           else None)
      | _ \<Rightarrow> None)"

definition expr_join_and :: "symbols \<Rightarrow> expr \<Rightarrow> expr \<Rightarrow> expr option" where
  "expr_join_and env e1 e2 =
     (if expr_equal e1 e2 then expr_copy e1
      else
        (case (join_sym1 e1, join_sym2 e2) of
           (Some sym1, Some sym2) \<Rightarrow>
             (if sym1 \<noteq> sym2 then None
              else if sym_type env sym1 \<noteq> S_BOOLEAN \<and> sym_type env sym1 \<noteq> S_TRISTATE then None
              else if symbol_and E_EQUAL symbol_yes e1 e2 then Some (expr_alloc_comp E_EQUAL sym1 symbol_yes)
              else if symbol_and E_UNEQUAL symbol_no e1 e2 then Some (expr_alloc_symbol sym1)
              else if symbol_and E_UNEQUAL symbol_mod e1 e2 then Some (expr_alloc_comp E_EQUAL sym1 symbol_yes)
              else if sym_type env sym1 = S_TRISTATE then
                let ne1 = rhs_of E_UNEQUAL e1; ne2 = rhs_of E_UNEQUAL e2 in
                (case join_constants env sym1 (rhs_of E_EQUAL e1) ne2 of
                   Some e \<Rightarrow> Some e
                 | None \<Rightarrow>
                   (case join_constants env sym1 (rhs_of E_EQUAL e2) ne1 of
                      Some e \<Rightarrow> Some e
                    | None \<Rightarrow>
                      (if pair_of ne1 ne2 symbol_yes symbol_no then Some (expr_alloc_comp E_EQUAL sym1 symbol_mod)
                       else if pair_of ne1 ne2 symbol_yes symbol_mod then Some (expr_alloc_comp E_EQUAL sym1 symbol_no)
                       else if pair_of ne1 ne2 symbol_mod symbol_no then Some (expr_alloc_comp E_EQUAL sym1 symbol_yes)
                       else None)))
              else None)
         | _ \<Rightarrow> None))"

subsection \<open>Joining keeps the value\<close>

text \<open>The only constants are the three of the language.\<close>

definition letters_only :: "symbols \<Rightarrow> bool" where
  "letters_only env \<longleftrightarrow> (\<forall>s. sym_const env s \<longrightarrow> tri_const s)"

lemma tri_value:
  assumes "env_ok env" and "sym_type env s = S_BOOLEAN \<or> sym_type env s = S_TRISTATE" and "tri_const c"
  shows "expr_calc_value env (E_COMP E_EQUAL s c) = tri_of_bool (curr_tri env s = curr_tri env c)"
    and "expr_calc_value env (E_COMP E_UNEQUAL s c) = tri_of_bool (curr_tri env s \<noteq> curr_tri env c)"
  using compare_tri [OF assms(1,3), of s] assms(2) by (simp_all add: tri_symbol_def)

lemma tri_consts [simp]: "tri_const symbol_yes" "tri_const symbol_mod" "tri_const symbol_no"
  by (simp_all add: tri_const_def)

lemma boolean_value: "env_ok env \<Longrightarrow> sym_type env s = S_BOOLEAN \<Longrightarrow> curr_tri env s \<noteq> Mod"
  using env_ok_mod(1) [of env s] by blast

lemma rhs_of_Some: "rhs_of r e = Some c \<longleftrightarrow> (\<exists>s. e = E_COMP r s c)"
  by (cases e) (auto simp: rhs_of_def)

lemma plain_sym_comp: "plain_sym (E_COMP r s c) = Some s' \<Longrightarrow> s = s'"
  by (auto simp: plain_sym_def split: if_splits)

lemma join_syms_comp: "join_sym1 (E_COMP r s c) = Some s' \<Longrightarrow> s = s'" "join_sym2 (E_COMP r s c) = Some s' \<Longrightarrow> s = s'"
  using plain_sym_comp [of r s c s'] by (auto simp: join_sym1_def join_sym2_def)

lemma join_syms_symbol: "join_sym1 (E_SYMBOL s) = Some s' \<longleftrightarrow> s = s'" "join_sym2 (E_SYMBOL s) = Some s' \<longleftrightarrow> s = s'"
  by (auto simp: join_sym1_def join_sym2_def plain_sym_def)

lemma is_symbol_iff: "is_symbol e \<longleftrightarrow> (\<exists>s. e = E_SYMBOL s)"
  by (cases e) (auto simp: is_symbol_def)

lemma is_not_symbol_iff: "is_not_symbol e \<longleftrightarrow> (\<exists>s. e = E_NOT (E_SYMBOL s))"
  by (cases e) (auto simp: is_not_symbol_def is_symbol_iff)

lemma pair_of_comps:
  "pair_of (rhs_of r e1) (rhs_of r e2) c d \<Longrightarrow> join_sym1 e1 = Some s \<Longrightarrow> join_sym2 e2 = Some s \<Longrightarrow>
    e1 = E_COMP r s c \<and> e2 = E_COMP r s d \<or> e1 = E_COMP r s d \<and> e2 = E_COMP r s c"
  by (auto simp: pair_of_def rhs_of_Some dest: join_syms_comp)

lemma symbol_and_comps:
  "symbol_and r c e1 e2 \<Longrightarrow> join_sym1 e1 = Some s \<Longrightarrow> join_sym2 e2 = Some s \<Longrightarrow>
    e1 = E_SYMBOL s \<and> e2 = E_COMP r s c \<or> e1 = E_COMP r s c \<and> e2 = E_SYMBOL s"
  by (auto simp: symbol_and_def rhs_of_Some is_symbol_iff join_syms_symbol dest: join_syms_comp)

lemma join_or_calc:
  assumes env: "env_ok env" and join: "expr_join_or env e1 e2 = Some e"
  shows "expr_calc_value env e = max (expr_calc_value env e1) (expr_calc_value env e2)"
proof (cases "expr_equal e1 e2")
  case True
  then show ?thesis using join expr_equal_sound [OF env True] expr_copy_Some [of e1 e] by (simp add: expr_join_or_def)
next
  case False
  then obtain s where s: "join_sym1 e1 = Some s" "join_sym2 e2 = Some s"
    and type: "sym_type env s = S_BOOLEAN \<or> sym_type env s = S_TRISTATE"
    using join by (auto simp: expr_join_or_def split: option.splits if_splits)
  note val = tri_value [OF env type]
  consider (ym) "pair_of (rhs_of E_EQUAL e1) (rhs_of E_EQUAL e2) symbol_yes symbol_mod" "e = E_COMP E_UNEQUAL s symbol_no"
    | (yn) "pair_of (rhs_of E_EQUAL e1) (rhs_of E_EQUAL e2) symbol_yes symbol_no" "e = E_COMP E_UNEQUAL s symbol_mod"
    | (mn) "pair_of (rhs_of E_EQUAL e1) (rhs_of E_EQUAL e2) symbol_mod symbol_no" "e = E_COMP E_UNEQUAL s symbol_yes"
    | (flag) "sym_type env s = S_BOOLEAN" "e = E_SYMBOL symbol_yes"
        "is_not_symbol e1 \<and> is_symbol e2 \<or> is_not_symbol e2 \<and> is_symbol e1"
    using join False s
    by (auto simp: expr_join_or_def Let_def expr_alloc_comp_def expr_alloc_symbol_def split: if_splits)
  then show ?thesis
  proof cases
    case ym
    then show ?thesis using pair_of_comps [OF ym(1) s] env
      by (cases "curr_tri env s") (auto simp: val simp del: expr_calc_value.simps(5))
  next
    case yn
    then show ?thesis using pair_of_comps [OF yn(1) s] env
      by (cases "curr_tri env s") (auto simp: val simp del: expr_calc_value.simps(5))
  next
    case mn
    then show ?thesis using pair_of_comps [OF mn(1) s] env
      by (cases "curr_tri env s") (auto simp: val simp del: expr_calc_value.simps(5))
  next
    case flag
    then have "e1 = E_NOT (E_SYMBOL s) \<and> e2 = E_SYMBOL s \<or> e1 = E_SYMBOL s \<and> e2 = E_NOT (E_SYMBOL s)"
      using s by (auto simp: is_symbol_iff is_not_symbol_iff join_sym1_def join_sym2_def plain_sym_def)
    then show ?thesis using boolean_value [OF env flag(1)] env flag(2)
      by (cases "curr_tri env s") auto
  qed
qed

lemma join_constants_Some:
  "join_constants env s (rhs_of E_EQUAL e) (rhs_of E_UNEQUAL e') = Some x \<Longrightarrow>
    \<exists>b c p q. e = E_COMP E_EQUAL p b \<and> e' = E_COMP E_UNEQUAL q c \<and> sym_const env b \<and> sym_const env c \<and>
      x = (if b \<noteq> c then E_COMP E_EQUAL s b else E_SYMBOL symbol_no)"
  by (auto simp: join_constants_def rhs_of_Some expr_alloc_comp_def expr_alloc_symbol_def split: option.splits if_splits)

lemma const_inject:
  "env_ok env \<Longrightarrow> tri_const b \<Longrightarrow> tri_const c \<Longrightarrow> curr_tri env b = curr_tri env c \<longleftrightarrow> b = c"
  by (auto simp: tri_const_def)

lemma join_and_calc:
  assumes env: "env_ok env" and const: "letters_only env" and join: "expr_join_and env e1 e2 = Some e"
  shows "expr_calc_value env e = min (expr_calc_value env e1) (expr_calc_value env e2)"
proof (cases "expr_equal e1 e2")
  case True
  then show ?thesis using join expr_equal_sound [OF env True] expr_copy_Some [of e1 e] by (simp add: expr_join_and_def)
next
  case False
  then obtain s where s: "join_sym1 e1 = Some s" "join_sym2 e2 = Some s"
    and type: "sym_type env s = S_BOOLEAN \<or> sym_type env s = S_TRISTATE"
    using join by (auto simp: expr_join_and_def split: option.splits if_splits)
  note val = tri_value [OF env type]
  have constants: ?thesis
    if jc: "join_constants env s (rhs_of E_EQUAL x) (rhs_of E_UNEQUAL y) = Some e" and xy: "x = e1 \<and> y = e2 \<or> x = e2 \<and> y = e1" for x y
  proof -
    obtain b c p q where *: "x = E_COMP E_EQUAL p b" "y = E_COMP E_UNEQUAL q c" "tri_const b" "tri_const c"
      "e = (if b \<noteq> c then E_COMP E_EQUAL s b else E_SYMBOL symbol_no)"
      using join_constants_Some [OF jc] const unfolding letters_only_def by blast
    have "p = s" "q = s" using xy s join_syms_comp unfolding * by auto
    then have v: "expr_calc_value env x = tri_of_bool (curr_tri env s = curr_tri env b)"
      "expr_calc_value env y = tri_of_bool (curr_tri env s \<noteq> curr_tri env c)"
      unfolding * using val(1) [OF *(3)] val(2) [OF *(4)] by (simp_all del: expr_calc_value.simps(5))
    have "expr_calc_value env e = min (expr_calc_value env x) (expr_calc_value env y)"
      unfolding v *(5) using val(1) [OF *(3)] const_inject [OF env *(3,4)] env
      by (auto simp: tri_of_bool_def min_def tri_order simp del: expr_calc_value.simps(5))
    then show ?thesis using xy by (auto simp: min.commute)
  qed
  let ?ne = "\<lambda>c d. pair_of (rhs_of E_UNEQUAL e1) (rhs_of E_UNEQUAL e2) c d"
  consider (sy) "symbol_and E_EQUAL symbol_yes e1 e2" "e = E_COMP E_EQUAL s symbol_yes"
    | (sn) "symbol_and E_UNEQUAL symbol_no e1 e2" "e = E_SYMBOL s"
    | (sm) "symbol_and E_UNEQUAL symbol_mod e1 e2" "e = E_COMP E_EQUAL s symbol_yes"
    | (c1) "join_constants env s (rhs_of E_EQUAL e1) (rhs_of E_UNEQUAL e2) = Some e"
    | (c2) "join_constants env s (rhs_of E_EQUAL e2) (rhs_of E_UNEQUAL e1) = Some e"
    | (yn) "?ne symbol_yes symbol_no" "e = E_COMP E_EQUAL s symbol_mod"
    | (ym) "?ne symbol_yes symbol_mod" "e = E_COMP E_EQUAL s symbol_no"
    | (mn) "?ne symbol_mod symbol_no" "e = E_COMP E_EQUAL s symbol_yes"
    using join False s
    by (auto simp: expr_join_and_def Let_def expr_alloc_comp_def expr_alloc_symbol_def split: if_splits option.splits)
  then show ?thesis
  proof cases
    case sy
    then show ?thesis using symbol_and_comps [OF sy(1) s] env
      by (cases "curr_tri env s") (auto simp: val tri_of_bool_def simp del: expr_calc_value.simps(5))
  next
    case sn
    then show ?thesis using symbol_and_comps [OF sn(1) s] env
      by (cases "curr_tri env s") (auto simp: val tri_of_bool_def simp del: expr_calc_value.simps(5))
  next
    case sm
    then show ?thesis using symbol_and_comps [OF sm(1) s] env
      by (cases "curr_tri env s") (auto simp: val tri_of_bool_def simp del: expr_calc_value.simps(5))
  next
    case c1
    then show ?thesis by (rule constants) simp
  next
    case c2
    then show ?thesis by (rule constants) simp
  next
    case yn
    then show ?thesis using pair_of_comps [OF yn(1) s] env
      by (cases "curr_tri env s") (auto simp: val simp del: expr_calc_value.simps(5))
  next
    case ym
    then show ?thesis using pair_of_comps [OF ym(1) s] env
      by (cases "curr_tri env s") (auto simp: val simp del: expr_calc_value.simps(5))
  next
    case mn
    then show ?thesis using pair_of_comps [OF mn(1) s] env
      by (cases "curr_tri env s") (auto simp: val simp del: expr_calc_value.simps(5))
  qed
qed

subsection \<open>Pushing negations inwards\<close>

text \<open>A comparison of a boolean symbol with one of the constants.\<close>

definition transform_comp :: "symbols \<Rightarrow> relation \<Rightarrow> symbol \<Rightarrow> symbol \<Rightarrow> expr" where
  "transform_comp env r s1 s2 =
     (if r = E_EQUAL \<and> sym_type env s1 = S_BOOLEAN then
        (if s2 = symbol_no then E_NOT (expr_alloc_symbol s1)
         else if s2 = symbol_mod then E_SYMBOL symbol_no
         else if s2 = symbol_yes then E_SYMBOL s1
         else E_COMP r s1 s2)
      else if r = E_UNEQUAL \<and> sym_type env s1 = S_BOOLEAN then
        (if s2 = symbol_no then E_SYMBOL s1
         else if s2 = symbol_mod then E_SYMBOL symbol_yes
         else if s2 = symbol_yes then E_NOT (expr_alloc_symbol s1)
         else E_COMP r s1 s2)
      else E_COMP r s1 s2)"

fun negated :: "relation \<Rightarrow> relation" where
  "negated E_EQUAL = E_UNEQUAL"
| "negated E_UNEQUAL = E_EQUAL"
| "negated E_LEQ = E_GTH"
| "negated E_GEQ = E_LTH"
| "negated E_LTH = E_GEQ"
| "negated E_GTH = E_LEQ"

definition dual :: "junction \<Rightarrow> junction" where
  "dual j = (if j = JOR then JAND else JOR)"

definition negated_symbol :: "symbol \<Rightarrow> expr" where
  "negated_symbol s =
     (if s = symbol_yes then E_SYMBOL symbol_no
      else if s = symbol_mod then E_SYMBOL symbol_mod
      else if s = symbol_no then E_SYMBOL symbol_yes
      else E_NOT (E_SYMBOL s))"

text \<open>
  \<open>expr_transform\<close> calls itself on what it has just built, so the recursion has fuel. On
  \<open>E_RANGE\<close> the source takes the two symbols for expressions: no result.
\<close>

fun transform :: "nat \<Rightarrow> symbols \<Rightarrow> expr \<Rightarrow> expr option" where
  "transform 0 env e = None"
| "transform (Suc n) env (E_SYMBOL s) = Some (E_SYMBOL s)"
| "transform (Suc n) env (E_COMP r s1 s2) = Some (transform_comp env r s1 s2)"
| "transform (Suc n) env (E_LIST ss) = Some (E_LIST ss)"
| "transform (Suc n) env (E_RANGE s1 s2) = None"
| "transform (Suc n) env (E_BIN j a b) =
     do { x \<leftarrow> transform n env a; y \<leftarrow> transform n env b; Some (E_BIN j x y) }"
| "transform (Suc n) env (E_NOT a) =
     do { tmp \<leftarrow> transform n env a;
          case tmp of
            E_NOT x \<Rightarrow> transform n env x
          | E_COMP r s1 s2 \<Rightarrow> Some (E_COMP (negated r) s1 s2)
          | E_BIN j x y \<Rightarrow> transform n env (E_BIN (dual j) (E_NOT x) (E_NOT y))
          | E_SYMBOL s \<Rightarrow> Some (negated_symbol s)
          | _ \<Rightarrow> Some (E_NOT tmp) }"

fun height :: "expr \<Rightarrow> nat" where
  "height (E_BIN j a b) = Suc (max (height a) (height b))"
| "height (E_NOT e) = Suc (height e)"
| "height (E_COMP r s1 s2) = 1"
| "height _ = 0"

definition expr_transform :: "symbols \<Rightarrow> expr \<Rightarrow> expr option" where
  "expr_transform env e = transform (2 * height e + 2) env e"

text \<open>The fuel is enough on every expression without a range.\<close>

fun range_free :: "expr \<Rightarrow> bool" where
  "range_free (E_BIN j a b) \<longleftrightarrow> range_free a \<and> range_free b"
| "range_free (E_NOT e) \<longleftrightarrow> range_free e"
| "range_free (E_RANGE s1 s2) \<longleftrightarrow> False"
| "range_free _ \<longleftrightarrow> True"

fun cost :: "expr \<Rightarrow> nat" where
  "cost (E_NOT e) = 2 * height (E_NOT e) + 2"
| "cost e = 2 * height e + 1"

lemma cost_le: "cost e \<le> 2 * height e + 2"
  by (cases e) simp_all

lemma transform_comp_height: "height (transform_comp env r s1 s2) \<le> Suc 0"
  and transform_comp_range_free: "range_free (transform_comp env r s1 s2)"
  by (simp_all add: transform_comp_def expr_alloc_symbol_def)

lemma transform_total:
  "range_free e \<Longrightarrow> cost e \<le> n \<Longrightarrow>
    \<exists>e'. transform n env e = Some e' \<and> range_free e' \<and> height e' \<le> height e"
proof (induction n arbitrary: e)
  case 0
  then show ?case by (cases e) simp_all
next
  case (Suc n)
  show ?case
  proof (cases e)
    case (E_COMP r s1 s2)
    then show ?thesis by (simp add: transform_comp_height transform_comp_range_free)
  next
    case (E_BIN j a b)
    have c: "cost a \<le> n \<and> cost b \<le> n"
      using Suc.prems(2) cost_le [of a] cost_le [of b] max.cobounded1 [of "height a" "height b"]
        max.cobounded2 [of "height b" "height a"]
      unfolding E_BIN cost.simps height.simps by (auto simp: max_def split: if_splits)
    obtain x where "transform n env a = Some x" "range_free x" "height x \<le> height a"
      using Suc.IH [OF _ conjunct1 [OF c]] Suc.prems(1) unfolding E_BIN by auto
    moreover obtain y where "transform n env b = Some y" "range_free y" "height y \<le> height b"
      using Suc.IH [OF _ conjunct2 [OF c]] Suc.prems(1) unfolding E_BIN by auto
    ultimately show ?thesis unfolding E_BIN by auto
  next
    case (E_NOT a)
    obtain x where x: "transform n env a = Some x" "range_free x" "height x \<le> height a"
      using Suc.IH [of a] Suc.prems cost_le [of a] unfolding E_NOT by auto
    show ?thesis
    proof (cases x)
      case (E_NOT y)
      obtain z where "transform n env y = Some z" "range_free z" "height z \<le> height y"
        using Suc.IH [of y] Suc.prems cost_le [of y] x unfolding \<open>e = E_NOT a\<close> E_NOT by auto
      then show ?thesis using x unfolding \<open>e = E_NOT a\<close> E_NOT by auto
    next
      case (E_BIN j y z)
      obtain w where "transform n env (E_BIN (dual j) (E_NOT y) (E_NOT z)) = Some w" "range_free w"
        "height w \<le> height (E_BIN (dual j) (E_NOT y) (E_NOT z))"
        using Suc.IH [of "E_BIN (dual j) (E_NOT y) (E_NOT z)"] Suc.prems x unfolding E_NOT E_BIN by auto
      then show ?thesis using x unfolding E_NOT E_BIN by auto
    qed (use x E_NOT in \<open>auto simp: negated_symbol_def\<close>)
  qed (use Suc.prems in auto)
qed

text \<open>The value is kept when every comparison has a result.\<close>

definition no_choices :: "symbols \<Rightarrow> bool" where
  "no_choices env \<longleftrightarrow> (\<forall>s. sym_type env s \<noteq> S_OTHER)"

lemma parse_valid: "type \<noteq> S_OTHER \<Longrightarrow> fst (expr_parse_string str type) \<noteq> k_invalid"
  by (cases type) (auto simp: expr_parse_string_def parsed_def split: prod.splits)

lemma comparable: "no_choices env \<Longrightarrow> \<exists>i. compare_values env s1 s2 = Inr i"
  using parse_valid [of "sym_type env s1" "sym_get_string_value env s1"]
    parse_valid [of "sym_type env s2" "sym_get_string_value env s2"]
  by (auto simp: no_choices_def compare_values_def Let_def split: prod.splits)

lemma negated_calc:
  assumes "no_choices env"
  shows "expr_calc_value env (E_COMP (negated r) s1 s2) = EXPR_NOT (expr_calc_value env (E_COMP r s1 s2))"
proof -
  obtain i where "compare_values env s1 s2 = Inr i" using comparable [OF assms] by blast
  then show ?thesis by (cases r) (auto simp: not_less not_le)
qed

lemma negated_symbol_calc: "env_ok env \<Longrightarrow> expr_calc_value env (negated_symbol s) = EXPR_NOT (curr_tri env s)"
  by (auto simp: negated_symbol_def)

lemma dual_calc:
  "expr_calc_value env (E_BIN (dual j) (E_NOT a) (E_NOT b)) = EXPR_NOT (expr_calc_value env (E_BIN j a b))"
  by (cases j) (simp_all add: dual_def calc_bin EXPR_De_Morgan)

lemma transform_comp_calc:
  assumes env: "env_ok env"
  shows "expr_calc_value env (transform_comp env r s1 s2) = expr_calc_value env (E_COMP r s1 s2)"
proof (cases "sym_type env s1 = S_BOOLEAN \<and> tri_const s2 \<and> (r = E_EQUAL \<or> r = E_UNEQUAL)")
  case True
  then have val: "expr_calc_value env (E_COMP E_EQUAL s1 s2) = tri_of_bool (curr_tri env s1 = curr_tri env s2)"
    "expr_calc_value env (E_COMP E_UNEQUAL s1 s2) = tri_of_bool (curr_tri env s1 \<noteq> curr_tri env s2)"
    using tri_value [OF env, of s1 s2] by (simp_all del: expr_calc_value.simps(5))
  show ?thesis
    using True val boolean_value [OF env, of s1] env
    by (cases "curr_tri env s1")
      (auto simp: transform_comp_def tri_const_def expr_alloc_symbol_def tri_of_bool_def simp del: expr_calc_value.simps(5))
next
  case False
  then have "transform_comp env r s1 s2 = E_COMP r s1 s2"
    by (auto simp: transform_comp_def tri_const_def)
  then show ?thesis by simp
qed

lemma transform_calc:
  "env_ok env \<Longrightarrow> no_choices env \<Longrightarrow> transform n env e = Some e' \<Longrightarrow>
    expr_calc_value env e' = expr_calc_value env e"
proof (induction n env e arbitrary: e' rule: transform.induct)
  case (3 n env r s1 s2)
  then show ?case using transform_comp_calc [of env r s1 s2] by (simp del: expr_calc_value.simps(5))
next
  case (6 n env j a b)
  then show ?case by (auto simp: bind_eq_Some_conv calc_bin)
next
  case (7 n env a)
  obtain x where x: "transform n env a = Some x" using "7.prems" by (auto simp: bind_eq_Some_conv)
  have v: "expr_calc_value env a = expr_calc_value env x" using "7.IH"(1) [of x] "7.prems"(1,2) x by simp
  note call = "7.prems"(3) [unfolded transform.simps x bind.simps]
  show ?case
  proof (cases x)
    case (E_NOT y)
    then have "expr_calc_value env e' = expr_calc_value env y"
      using call "7.IH"(2) [OF x E_NOT, of e'] "7.prems"(1,2) by simp
    then show ?thesis using v E_NOT by simp
  next
    case (E_BIN j y z)
    then have "expr_calc_value env e' = expr_calc_value env (E_BIN (dual j) (E_NOT y) (E_NOT z))"
      using call "7.IH"(3) [OF x E_BIN, of e'] "7.prems"(1,2) by simp
    then show ?thesis using v E_BIN unfolding dual_calc by simp
  next
    case (E_COMP r s1 s2)
    then have "e' = E_COMP (negated r) s1 s2" using call by simp
    then show ?thesis using v E_COMP negated_calc [OF "7.prems"(2), of r s1 s2] by (simp del: expr_calc_value.simps(5))
  next
    case (E_SYMBOL s)
    then show ?thesis using v call "7.prems"(1) by (auto simp: negated_symbol_calc)
  qed (use v call in auto)
qed auto

text \<open>
  The result: \<open>!\<close> stands only before symbols that are not constants (and before lists), and no
  comparison of a boolean symbol with a constant is left.
\<close>

fun transformed :: "symbols \<Rightarrow> expr \<Rightarrow> bool" where
  "transformed env (E_BIN j a b) \<longleftrightarrow> transformed env a \<and> transformed env b"
| "transformed env (E_NOT e) \<longleftrightarrow>
     (case e of E_SYMBOL s \<Rightarrow> \<not> tri_const s | E_LIST ss \<Rightarrow> True | _ \<Rightarrow> False)"
| "transformed env (E_COMP r s1 s2) \<longleftrightarrow>
     \<not> ((r = E_EQUAL \<or> r = E_UNEQUAL) \<and> sym_type env s1 = S_BOOLEAN \<and> tri_const s2)"
| "transformed env (E_SYMBOL s) \<longleftrightarrow> True"
| "transformed env (E_LIST ss) \<longleftrightarrow> True"
| "transformed env (E_RANGE s1 s2) \<longleftrightarrow> False"

lemma transformed_comp: "env_ok env \<Longrightarrow> transformed env (transform_comp env r s1 s2)"
  by (auto simp: transform_comp_def tri_const_def expr_alloc_symbol_def)

lemma transformed_negated: "transformed env (E_COMP (negated r) s1 s2) = transformed env (E_COMP r s1 s2)"
  by (cases r) auto

lemma transformed_negated_symbol: "transformed env (negated_symbol s)"
  by (auto simp: negated_symbol_def tri_const_def)

lemma transform_normal: "env_ok env \<Longrightarrow> transform n env e = Some e' \<Longrightarrow> transformed env e'"
proof (induction n env e arbitrary: e' rule: transform.induct)
  case (3 n env r s1 s2)
  then show ?case using transformed_comp by auto
next
  case (6 n env j a b)
  then show ?case by (auto simp: bind_eq_Some_conv)
next
  case (7 n env a)
  obtain x where x: "transform n env a = Some x" using "7.prems" by (auto simp: bind_eq_Some_conv)
  have t: "transformed env x" using "7.IH"(1) [of x] "7.prems"(1) x by simp
  note call = "7.prems"(2) [unfolded transform.simps x bind.simps]
  show ?case
  proof (cases x)
    case (E_COMP r s1 s2)
    then show ?thesis using call t transformed_negated [of env r s1 s2] by (simp del: transformed.simps)
  next
    case (E_SYMBOL s)
    then show ?thesis using call transformed_negated_symbol [of env s] by simp
  next
    case (E_NOT y)
    show ?thesis using call "7.IH"(2) [OF x E_NOT, of e'] "7.prems"(1) E_NOT by simp
  next
    case (E_BIN j y z)
    show ?thesis using call "7.IH"(3) [OF x E_BIN, of e'] "7.prems"(1) E_BIN by simp
  qed (use call t in auto)
qed auto

lemma transform_comp_id: "transformed env (E_COMP r s1 s2) \<Longrightarrow> transform_comp env r s1 s2 = E_COMP r s1 s2"
  by (auto simp: transform_comp_def tri_const_def)

lemma transform_id: "transformed env e \<Longrightarrow> cost e \<le> n \<Longrightarrow> transform n env e = Some e"
proof (induction n arbitrary: e)
  case 0
  then show ?case by (cases e) simp_all
next
  case (Suc n)
  show ?case
  proof (cases e)
    case (E_COMP r s1 s2)
    then show ?thesis using transform_comp_id Suc.prems by simp
  next
    case (E_BIN j a b)
    then show ?thesis
      using Suc.IH [of a] Suc.IH [of b] Suc.prems cost_le [of a] cost_le [of b] by simp
  next
    case (E_NOT a)
    obtain m where n: "n = Suc m" using Suc.prems E_NOT by (cases n) auto
    show ?thesis using Suc.prems unfolding E_NOT n
      by (cases a) (auto simp: negated_symbol_def tri_const_def)
  qed (use Suc.prems in auto)
qed

lemma transform_some: "range_free e \<Longrightarrow> \<exists>e'. expr_transform env e = Some e' \<and> range_free e' \<and> height e' \<le> height e"
  using transform_total [of e "2 * height e + 2" env] cost_le [of e] unfolding expr_transform_def by blast

lemma transform_idem: "env_ok env \<Longrightarrow> expr_transform env e = Some e' \<Longrightarrow> expr_transform env e' = Some e'"
  using transform_normal [of env _ e e'] transform_id [of env e' "2 * height e' + 2"] cost_le [of e']
  unfolding expr_transform_def by blast

end
