(* ===== verification/Kconfig_Print.thy ===== *)
theory Kconfig_Print
  imports Kconfig_Simplify
begin

text \<open>
  The printing of expressions in \<open>scripts/kconfig/expr.c\<close> (\<open>expr_print\<close>,
  \<open>expr_print_revdep\<close>), as the list of calls of the output function, and the grammar of
  expressions in \<open>zconf.y\<close> over the same pieces.
\<close>

subsection \<open>Printing\<close>

datatype expr_type = T_NONE | T_OR | T_AND | T_NOT | T_COMP relation | T_LIST | T_SYMBOL | T_RANGE

fun type_of :: "expr \<Rightarrow> expr_type" where
  "type_of (E_BIN j a b) = (case j of JOR \<Rightarrow> T_OR | JAND \<Rightarrow> T_AND)"
| "type_of (E_NOT e) = T_NOT"
| "type_of (E_COMP r s1 s2) = T_COMP r"
| "type_of (E_LIST ss) = T_LIST"
| "type_of (E_SYMBOL s) = T_SYMBOL"
| "type_of (E_RANGE s1 s2) = T_RANGE"

text \<open>The labels of the switch, each with those it falls through to.\<close>

definition past_list :: "expr_type \<Rightarrow> bool" where
  "past_list t2 \<longleftrightarrow> t2 = T_NONE"

definition past_or :: "expr_type \<Rightarrow> bool" where
  "past_or t2 \<longleftrightarrow> t2 = T_LIST \<or> past_list t2"

definition past_and :: "expr_type \<Rightarrow> bool" where
  "past_and t2 \<longleftrightarrow> t2 = T_OR \<or> past_or t2"

definition past_not :: "expr_type \<Rightarrow> bool" where
  "past_not t2 \<longleftrightarrow> t2 = T_AND \<or> past_and t2"

definition past_equal :: "expr_type \<Rightarrow> bool" where
  "past_equal t2 \<longleftrightarrow> t2 = T_NOT \<or> past_not t2"

definition past_order :: "expr_type \<Rightarrow> bool" where
  "past_order t2 \<longleftrightarrow> t2 = T_COMP E_EQUAL \<or> t2 = T_COMP E_UNEQUAL \<or> past_equal t2"

definition expr_compare_type :: "expr_type \<Rightarrow> expr_type \<Rightarrow> int" where
  "expr_compare_type t1 t2 =
     (if t1 = t2 then 0
      else if (case t1 of
          T_COMP r \<Rightarrow> (if r = E_EQUAL \<or> r = E_UNEQUAL then past_equal t2 else past_order t2)
        | T_NOT \<Rightarrow> past_not t2
        | T_AND \<Rightarrow> past_and t2
        | T_OR \<Rightarrow> past_or t2
        | T_LIST \<Rightarrow> past_list t2
        | _ \<Rightarrow> False) then 1
      else -1)"

text \<open>A call of the output function: its symbol and its string, either possibly null.\<close>

type_synonym piece = "symbol option \<times> string option"

abbreviation txt_piece :: "string \<Rightarrow> piece" where
  "txt_piece s \<equiv> (None, Some s)"

definition left_name :: "symbols \<Rightarrow> symbol \<Rightarrow> piece" where
  "left_name env s =
     (case sym_name env s of Some n \<Rightarrow> (Some s, Some n) | None \<Rightarrow> txt_piece ''<choice>'')"

definition right_name :: "symbols \<Rightarrow> symbol \<Rightarrow> piece" where
  "right_name env s = (Some s, sym_name env s)"

fun relation_text :: "relation \<Rightarrow> string" where
  "relation_text E_EQUAL = ''=''"
| "relation_text E_LEQ = ''<=''"
| "relation_text E_LTH = ''<''"
| "relation_text E_GEQ = ''>=''"
| "relation_text E_GTH = ''>''"
| "relation_text E_UNEQUAL = ''!=''"

definition parens :: "expr_type \<Rightarrow> expr_type \<Rightarrow> piece list \<Rightarrow> piece list" where
  "parens prevtoken type ps =
     (if expr_compare_type prevtoken type > 0 then txt_piece ''('' # ps @ [txt_piece '')''] else ps)"

fun print_list :: "symbols \<Rightarrow> symbol list \<Rightarrow> piece list" where
  "print_list env [] = []"
| "print_list env (s # ss) = right_name env s # (if ss = [] then [] else txt_piece '' ^ '' # print_list env ss)"

fun expr_print :: "symbols \<Rightarrow> expr \<Rightarrow> expr_type \<Rightarrow> piece list" where
  "expr_print env (E_SYMBOL s) prevtoken = parens prevtoken T_SYMBOL [left_name env s]"
| "expr_print env (E_NOT e) prevtoken = parens prevtoken T_NOT (txt_piece ''!'' # expr_print env e T_NOT)"
| "expr_print env (E_COMP r s1 s2) prevtoken =
     parens prevtoken (T_COMP r) [left_name env s1, txt_piece (relation_text r), right_name env s2]"
| "expr_print env (E_BIN JOR e1 e2) prevtoken =
     parens prevtoken T_OR (expr_print env e1 T_OR @ txt_piece '' || '' # expr_print env e2 T_OR)"
| "expr_print env (E_BIN JAND e1 e2) prevtoken =
     parens prevtoken T_AND (expr_print env e1 T_AND @ txt_piece '' && '' # expr_print env e2 T_AND)"
| "expr_print env (E_LIST ss) prevtoken = parens prevtoken T_LIST (print_list env ss)"
| "expr_print env (E_RANGE s1 s2) prevtoken =
     parens prevtoken T_RANGE [txt_piece ''['', right_name env s1, txt_piece '' '', right_name env s2, txt_piece '']'']"

definition expr_print_ptr :: "symbols \<Rightarrow> expr option \<Rightarrow> expr_type \<Rightarrow> piece list" where
  "expr_print_ptr env e prevtoken =
     (case e of None \<Rightarrow> [txt_piece ''y''] | Some e \<Rightarrow> expr_print env e prevtoken)"

text \<open>The title is printed before the first line and then set to null.\<close>

fun expr_print_revdep :: "symbols \<Rightarrow> expr \<Rightarrow> tristate \<Rightarrow> string option \<Rightarrow> piece list \<times> string option" where
  "expr_print_revdep env (E_BIN JOR e1 e2) pr_type title =
     (let (ps, title) = expr_print_revdep env e1 pr_type title;
          (qs, title) = expr_print_revdep env e2 pr_type title
      in (ps @ qs, title))"
| "expr_print_revdep env e pr_type title =
     (if expr_calc_value env e = pr_type then
        ((case title of Some t \<Rightarrow> [txt_piece t] | None \<Rightarrow> [])
          @ txt_piece ''  - '' # expr_print env e T_NONE @ [txt_piece [CHR 0x0A]], None)
      else ([], title))"

subsection \<open>The grammar of expressions\<close>

text \<open>
  The rules for \<open>expr\<close> in \<open>zconf.y\<close>, with the precedences of \<open>T_OR\<close>, \<open>T_AND\<close> and \<open>T_NOT\<close>
  as levels 0, 1 and 2 of the left-associative grammar.
\<close>

inductive reads :: "nat \<Rightarrow> piece list \<Rightarrow> expr \<Rightarrow> bool" where
  reads_symbol: "reads 2 [(Some s, n)] (expr_alloc_symbol s)"
| reads_comp: "reads 2 [(Some s, n), txt_piece (relation_text r), (Some t, m)] (expr_alloc_comp r s t)"
| reads_paren: "reads 0 ps e \<Longrightarrow> reads 2 (txt_piece ''('' # ps @ [txt_piece '')'']) e"
| reads_not: "reads 2 ps e \<Longrightarrow> reads 2 (txt_piece ''!'' # ps) (E_NOT e)"
| reads_and: "reads 1 ps a \<Longrightarrow> reads 2 qs b \<Longrightarrow> reads 1 (ps @ txt_piece '' && '' # qs) (expr_alloc_two JAND a b)"
| reads_or: "reads 0 ps a \<Longrightarrow> reads 1 qs b \<Longrightarrow> reads 0 (ps @ txt_piece '' || '' # qs) (expr_alloc_two JOR a b)"
| reads_and_unit: "reads 2 ps e \<Longrightarrow> reads 1 ps e"
| reads_or_unit: "reads 1 ps e \<Longrightarrow> reads 0 ps e"

lemma reads_to_0: "reads 2 ps e \<Longrightarrow> reads 0 ps e"
  by (intro reads_or_unit reads_and_unit)

text \<open>Two expressions with the same value whatever the symbols are.\<close>

definition same_value :: "expr \<Rightarrow> expr \<Rightarrow> bool" where
  "same_value a b \<longleftrightarrow> (\<forall>env. expr_calc_value env a = expr_calc_value env b)"

lemma same_value_refl [intro]: "same_value a a"
  by (simp add: same_value_def)

lemma same_value_trans: "same_value a b \<Longrightarrow> same_value b c \<Longrightarrow> same_value a c"
  by (simp add: same_value_def)

lemma same_value_bin: "same_value a a' \<Longrightarrow> same_value b b' \<Longrightarrow> same_value (E_BIN j a b) (E_BIN j a' b')"
  by (simp add: same_value_def calc_bin)

lemma same_value_not: "same_value a a' \<Longrightarrow> same_value (E_NOT a) (E_NOT a')"
  by (simp add: same_value_def)

lemma same_value_assoc: "same_value (E_BIN j (E_BIN j a b) c) (E_BIN j a (E_BIN j b c))"
  by (cases j) (simp_all add: same_value_def calc_bin min.assoc max.assoc)

text \<open>An operand of the right that is itself a chain joins the chain of the left.\<close>

lemma reads_and_operand:
  "reads 1 ps a \<Longrightarrow> reads 2 qs b \<Longrightarrow> \<exists>c. reads 1 (ps @ txt_piece '' && '' # qs) c \<and> same_value c (E_AND a b)"
  using reads_and [of ps a qs b] unfolding expr_alloc_two_def by blast

lemma reads_or_operand:
  "reads 0 ps a \<Longrightarrow> reads 1 qs b \<Longrightarrow> \<exists>c. reads 0 (ps @ txt_piece '' || '' # qs) c \<and> same_value c (E_OR a b)"
  using reads_or [of ps a qs b] unfolding expr_alloc_two_def by blast

lemma reads_and_chain:
  assumes "reads 1 ps a"
  shows "reads l qs b \<Longrightarrow> 1 \<le> l \<Longrightarrow> \<exists>c. reads 1 (ps @ txt_piece '' && '' # qs) c \<and> same_value c (E_AND a b)"
proof (induction l qs b rule: reads.induct)
  case (reads_and qs b rs c)
  then obtain d where d: "reads 1 (ps @ txt_piece '' && '' # qs) d" "same_value d (E_AND a b)" by auto
  have "reads 1 ((ps @ txt_piece '' && '' # qs) @ txt_piece '' && '' # rs) (E_AND d c)"
    using reads.reads_and [OF d(1) reads_and.hyps(2)] by (simp add: expr_alloc_two_def)
  moreover have "same_value (E_AND d c) (E_AND a (expr_alloc_two JAND b c))"
    using same_value_trans [OF same_value_bin [OF d(2) same_value_refl] same_value_assoc]
    by (simp add: expr_alloc_two_def)
  ultimately show ?case by auto
next
  case (reads_paren qs b)
  have "reads 2 (txt_piece ''('' # qs @ [txt_piece '')'']) b" using reads_paren.hyps by (rule reads.reads_paren)
  then show ?case using reads_and_operand [OF assms] by blast
next
  case (reads_not qs b)
  have "reads 2 (txt_piece ''!'' # qs) (E_NOT b)" using reads_not.hyps by (rule reads.reads_not)
  then show ?case using reads_and_operand [OF assms] by blast
next
  case (reads_symbol s n)
  then show ?case using reads_and_operand [OF assms, OF reads.reads_symbol] by blast
next
  case (reads_comp s n r t m)
  then show ?case using reads_and_operand [OF assms, OF reads.reads_comp] by blast
qed (use reads_and_operand [OF assms] in auto)

lemma reads_or_chain:
  assumes "reads 0 ps a"
  shows "reads l qs b \<Longrightarrow> \<exists>c. reads 0 (ps @ txt_piece '' || '' # qs) c \<and> same_value c (E_OR a b)"
proof (induction l qs b rule: reads.induct)
  case (reads_or qs b rs c)
  then obtain d where d: "reads 0 (ps @ txt_piece '' || '' # qs) d" "same_value d (E_OR a b)" by auto
  have "reads 0 ((ps @ txt_piece '' || '' # qs) @ txt_piece '' || '' # rs) (E_OR d c)"
    using reads.reads_or [OF d(1) reads_or.hyps(2)] by (simp add: expr_alloc_two_def)
  moreover have "same_value (E_OR d c) (E_OR a (expr_alloc_two JOR b c))"
    using same_value_trans [OF same_value_bin [OF d(2) same_value_refl] same_value_assoc]
    by (simp add: expr_alloc_two_def)
  ultimately show ?case by auto
next
  case (reads_and qs b rs c)
  then have "reads 1 (qs @ txt_piece '' && '' # rs) (expr_alloc_two JAND b c)" by (intro reads.reads_and)
  then show ?case using reads.reads_or [OF assms] by (auto simp: expr_alloc_two_def)
next
  case (reads_paren qs b)
  have "reads 2 (txt_piece ''('' # qs @ [txt_piece '')'']) b" using reads_paren.hyps by (rule reads.reads_paren)
  then show ?case using reads_or_operand [OF assms reads.reads_and_unit] by blast
next
  case (reads_not qs b)
  have "reads 2 (txt_piece ''!'' # qs) (E_NOT b)" using reads_not.hyps by (rule reads.reads_not)
  then show ?case using reads_or_operand [OF assms reads.reads_and_unit] by blast
next
  case (reads_symbol s n)
  then show ?case using reads_or_operand [OF assms reads.reads_and_unit, OF reads.reads_symbol] by blast
next
  case (reads_comp s n r t m)
  then show ?case using reads_or_operand [OF assms reads.reads_and_unit, OF reads.reads_comp] by blast
next
  case (reads_and_unit qs b)
  then show ?case using reads_or_operand [OF assms] reads.reads_and_unit by blast
qed (use reads_or_operand [OF assms] in auto)

subsection \<open>What is printed reads back\<close>

text \<open>The symbols before a relation and the lone ones have names (choices have none).\<close>

fun named :: "symbols \<Rightarrow> expr \<Rightarrow> bool" where
  "named env (E_BIN j a b) \<longleftrightarrow> named env a \<and> named env b"
| "named env (E_NOT e) \<longleftrightarrow> named env e"
| "named env (E_COMP r s1 s2) \<longleftrightarrow> sym_name env s1 \<noteq> None"
| "named env (E_SYMBOL s) \<longleftrightarrow> sym_name env s \<noteq> None"
| "named env _ \<longleftrightarrow> True"

definition token_level :: "expr_type \<Rightarrow> nat" where
  "token_level t = (case t of T_NOT \<Rightarrow> 2 | T_AND \<Rightarrow> 1 | _ \<Rightarrow> 0)"

lemmas past = past_order_def past_equal_def past_not_def past_and_def past_or_def past_list_def

lemma left_name_some: "sym_name env s \<noteq> None \<Longrightarrow> \<exists>n. left_name env s = (Some s, n)"
  by (auto simp: left_name_def)

lemma reads_level: "reads 2 ps e \<Longrightarrow> reads (token_level t) ps e"
  using reads_to_0 reads_and_unit by (cases t) (simp_all add: token_level_def)

text \<open>The contexts in which the operands of \<open>||\<close>, \<open>&&\<close> and \<open>!\<close> are printed.\<close>

definition context_token :: "expr_type \<Rightarrow> bool" where
  "context_token t \<longleftrightarrow> t = T_NONE \<or> t = T_OR \<or> t = T_AND \<or> t = T_NOT"

lemma parens_none:
  "context_token p \<Longrightarrow> t = T_SYMBOL \<or> t = T_NOT \<or> (\<exists>r. t = T_COMP r) \<Longrightarrow> parens p t ps = ps"
  by (auto simp: parens_def expr_compare_type_def context_token_def past)

lemma parens_reads:
  assumes "context_token p" and "reads 0 ps e" and "p = T_NONE \<or> p = T_OR \<or> t = T_OR \<or> t = T_AND"
    and "t = T_AND \<Longrightarrow> reads 1 ps e" and "t = T_AND \<or> t = T_OR"
  shows "reads (token_level p) (parens p t ps) e"
proof -
  consider "parens p t ps = txt_piece ''('' # ps @ [txt_piece '')'']"
    | "parens p t ps = ps" "token_level p = 0" | "parens p t ps = ps" "token_level p = 1" "t = T_AND"
    using assms(1,5) by (auto simp: parens_def expr_compare_type_def context_token_def token_level_def past)
  then show ?thesis
  proof cases
    case 1
    then show ?thesis using reads_level [OF reads_paren [OF assms(2)]] by simp
  next
    case 2
    then show ?thesis using assms(2) by simp
  next
    case 3
    then show ?thesis using assms(4) by simp
  qed
qed

lemma print_reads:
  "logical e \<Longrightarrow> named env e \<Longrightarrow> context_token p \<Longrightarrow>
    \<exists>e'. reads (token_level p) (expr_print env e p) e' \<and> same_value e' e"
proof (induction e arbitrary: p)
  case (E_SYMBOL s)
  then obtain n where "left_name env s = (Some s, n)" using left_name_some by auto
  then show ?case
    using reads_level [OF reads_symbol [of s n]] E_SYMBOL.prems(3)
    by (auto simp: parens_none expr_alloc_symbol_def)
next
  case (E_COMP r s1 s2)
  then obtain n where "left_name env s1 = (Some s1, n)" using left_name_some by auto
  then show ?case
    using reads_level [OF reads_comp [of s1 n r s2 "sym_name env s2"]] E_COMP.prems(3)
    by (auto simp: parens_none right_name_def expr_alloc_comp_def)
next
  case (E_NOT e)
  have "context_token T_NOT" by (simp add: context_token_def)
  then obtain e' where e': "reads 2 (expr_print env e T_NOT) e'" "same_value e' e"
    using E_NOT.IH [of T_NOT] E_NOT.prems by (auto simp: token_level_def)
  show ?case
    using reads_level [OF reads_not [OF e'(1)]] same_value_not [OF e'(2)] E_NOT.prems(3)
    by (auto simp: parens_none)
next
  case (E_BIN j a b)
  show ?case
  proof (cases j)
    case JOR
    have "context_token T_OR" by (simp add: context_token_def)
    then obtain a' b' where a': "reads 0 (expr_print env a T_OR) a'" "same_value a' a"
      and b': "reads 0 (expr_print env b T_OR) b'" "same_value b' b"
      using E_BIN.IH(1) [of T_OR] E_BIN.IH(2) [of T_OR] E_BIN.prems by (auto simp: token_level_def)
    obtain c where c: "reads 0 (expr_print env a T_OR @ txt_piece '' || '' # expr_print env b T_OR) c"
      "same_value c (E_OR a' b')"
      using reads_or_chain [OF a'(1) b'(1)] by blast
    have "same_value c (E_OR a b)"
      by (rule same_value_trans [OF c(2) same_value_bin [OF a'(2) b'(2)]])
    then show ?thesis using parens_reads [OF E_BIN.prems(3) c(1), of T_OR] JOR by auto
  next
    case JAND
    have "context_token T_AND" by (simp add: context_token_def)
    then obtain a' b' where a': "reads 1 (expr_print env a T_AND) a'" "same_value a' a"
      and b': "reads 1 (expr_print env b T_AND) b'" "same_value b' b"
      using E_BIN.IH(1) [of T_AND] E_BIN.IH(2) [of T_AND] E_BIN.prems by (auto simp: token_level_def)
    obtain c where c: "reads 1 (expr_print env a T_AND @ txt_piece '' && '' # expr_print env b T_AND) c"
      "same_value c (E_AND a' b')"
      using reads_and_chain [OF a'(1) b'(1)] by blast
    have "same_value c (E_AND a b)"
      by (rule same_value_trans [OF c(2) same_value_bin [OF a'(2) b'(2)]])
    then show ?thesis using parens_reads [OF E_BIN.prems(3) reads_or_unit [OF c(1)], of T_AND] c(1) JAND by auto
  qed
qed simp_all

subsection \<open>Reverse dependencies\<close>

fun or_operands :: "expr \<Rightarrow> expr list" where
  "or_operands (E_BIN JOR a b) = or_operands a @ or_operands b"
| "or_operands e = [e]"

definition revdep_line :: "symbols \<Rightarrow> expr \<Rightarrow> piece list" where
  "revdep_line env e = txt_piece ''  - '' # expr_print env e T_NONE @ [txt_piece [CHR 0x0A]]"

definition selecting :: "symbols \<Rightarrow> tristate \<Rightarrow> expr \<Rightarrow> expr list" where
  "selecting env t e = filter (\<lambda>x. expr_calc_value env x = t) (or_operands e)"

lemma revdep_untitled:
  "expr_print_revdep env e t None = (concat (map (revdep_line env) (selecting env t e)), None)"
  by (induction env e t "None :: string option" rule: expr_print_revdep.induct)
    (simp_all add: selecting_def revdep_line_def)

lemma revdep_titled:
  "expr_print_revdep env e t (Some title) =
     (if selecting env t e = [] then ([], Some title)
      else (txt_piece title # concat (map (revdep_line env) (selecting env t e)), None))"
proof (induction e)
  case (E_BIN j a b)
  show ?case
  proof (cases j)
    case JOR
    have "selecting env t (E_OR a b) = selecting env t a @ selecting env t b"
      by (simp add: selecting_def)
    then show ?thesis using E_BIN.IH JOR by (simp add: revdep_untitled)
  qed (simp add: selecting_def revdep_line_def)
qed (simp_all add: selecting_def revdep_line_def)

lemma operands_value: "expr_calc_value env e = No \<or> expr_calc_value env e \<in> expr_calc_value env ` set (or_operands e)"
proof (induction e)
  case (E_BIN j a b)
  then show ?case by (cases j) (auto simp: EXPR_OR_max max_def)
qed simp_all

lemma operands_below: "x \<in> set (or_operands e) \<Longrightarrow> expr_calc_value env x \<le> expr_calc_value env e"
proof (induction e)
  case (E_BIN j a b)
  then show ?case by (cases j) (auto simp: EXPR_OR_max le_max_iff_disj)
qed simp_all

end
