(* ===== verification/Kconfig_Properties.thy ===== *)
theory Kconfig_Properties
  imports Kconfig_Print
begin

text \<open>
  The properties of the configuration expressions, with a table of symbols on which each is
  applied.
\<close>

text \<open>Symbol 0 is boolean and \<open>y\<close>, symbol 1 an integer, the others are tristate and \<open>m\<close>.\<close>

definition demo :: symbols where
  "demo = \<lparr>
     sym_type = \<lambda>s. case s of Symbol n \<Rightarrow> (if n = 0 then S_BOOLEAN else if n = 1 then S_INT else S_TRISTATE)
                  | _ \<Rightarrow> S_UNKNOWN,
     sym_const = \<lambda>s. s = symbol_yes \<or> s = symbol_mod \<or> s = symbol_no,
     sym_name = \<lambda>s. case s of symbol_yes \<Rightarrow> Some ''y'' | symbol_mod \<Rightarrow> Some ''m'' | symbol_no \<Rightarrow> Some ''n''
                  | Symbol n \<Rightarrow> Some (replicate n CHR ''A''),
     curr_tri = \<lambda>s. case s of symbol_yes \<Rightarrow> Yes | symbol_mod \<Rightarrow> Mod | symbol_no \<Rightarrow> No
                  | Symbol n \<Rightarrow> (if n = 0 then Yes else if n = 1 then No else Mod),
     curr_val = \<lambda>s. case s of symbol_yes \<Rightarrow> ''y'' | symbol_mod \<Rightarrow> ''m'' | symbol_no \<Rightarrow> ''n''
                  | Symbol n \<Rightarrow> ''12'',
     modules_tri = Mod \<rparr>"

lemma demo_ok: "env_ok demo" "letters_only demo" "no_choices demo"
  by (auto simp: demo_def env_ok_def letters_only_def tri_const_def no_choices_def split: symbol.splits if_splits)

lemma demo_simps [simp]:
  "curr_tri demo (Symbol n) = (if n = 0 then Yes else if n = 1 then No else Mod)"
  "sym_type demo (Symbol n) = (if n = 0 then S_BOOLEAN else if n = 1 then S_INT else S_TRISTATE)"
  "sym_name demo (Symbol n) = Some (replicate n CHR ''A'')"
  "modules_tri demo = Mod"
  by (simp_all add: demo_def)

lemma expr_equal_comp: "expr_equal (E_COMP r a b) (E_COMP q c d) \<longleftrightarrow> r = q \<and> a = c \<and> b = d"
  by (simp add: expr_equal_def eq_fuel_def eval_nat_numeral)

subsection \<open>Simplifications keep the value\<close>

text \<open>
  Removing the constants \<open>y\<close> and \<open>n\<close> keeps the value of an expression, leaves none of them
  below \<open>&&\<close> and \<open>||\<close>, and has nothing more to do on its result.
\<close>

theorem eliminate_yn_correct:
  assumes "env_ok env"
  shows "expr_calc_value env (expr_eliminate_yn e) = expr_calc_value env e \<and>
    yn_free (expr_eliminate_yn e) \<and> expr_eliminate_yn (expr_eliminate_yn e) = expr_eliminate_yn e"
  using eliminate_yn_calc [OF assms] eliminate_yn_free eliminate_yn_id by blast

theorem eliminate_yn_correct_witness:
  "expr_calc_value demo (expr_eliminate_yn (E_AND (E_SYMBOL (Symbol 2)) (E_SYMBOL symbol_yes))) = Mod"
  using eliminate_yn_correct [OF demo_ok(1), of "E_AND (E_SYMBOL (Symbol 2)) (E_SYMBOL symbol_yes)"]
  by (simp add: EXPR_AND_min demo_ok)

text \<open>
  The mutual recursion of \<open>expr_eq\<close>, \<open>expr_eliminate_eq\<close> and its helper ends: a recursion depth
  of four times the nodes of both expressions is always enough, and the result does not depend
  on how much deeper it may go.
\<close>

theorem expr_eq_returns:
  "expr_eq (eq_fuel e1 e2) e1 e2 \<noteq> None \<and> expr_eliminate_eq (Some e1) (Some e2) \<noteq> None"
  using expr_eq_total [of e1 e2] eliminate_eq_total [of e1 e2] by (auto simp: expr_eliminate_eq_def)

text \<open>
  C14. Two expressions that \<open>expr_eq\<close> calls equal have the same value for every setting of the
  symbols.
\<close>

theorem equal_expressions_agree:
  assumes "env_ok env" and "expr_equal e1 e2"
  shows "expr_calc_value env e1 = expr_calc_value env e2"
  using expr_equal_sound [OF assms] .

definition demo_eq1 :: expr where
  "demo_eq1 = E_AND (E_SYMBOL (Symbol 0)) (E_SYMBOL (Symbol 2))"

definition demo_eq2 :: expr where
  "demo_eq2 = E_AND (E_SYMBOL (Symbol 2)) (E_SYMBOL (Symbol 0))"

theorem equal_expressions_agree_witness:
  "expr_equal demo_eq1 demo_eq2 \<and> expr_calc_value demo demo_eq1 = expr_calc_value demo demo_eq2"
proof -
  have "expr_equal demo_eq1 demo_eq2" by code_simp
  then show ?thesis using equal_expressions_agree [OF demo_ok(1), of demo_eq1 demo_eq2] by blast
qed

text \<open>
  An expression \<open>expr_join_or\<close> finds for two operands has the value of their disjunction, and one
  \<open>expr_join_and\<close> finds that of their conjunction when \<open>y\<close>, \<open>m\<close> and \<open>n\<close> are the only constants.
\<close>

theorem joined_operands_value:
  assumes "env_ok env"
  shows "(expr_join_or env e1 e2 = Some e \<longrightarrow> expr_calc_value env e = expr_calc_value env (E_OR e1 e2)) \<and>
    (expr_join_and env e1 e2 = Some e \<and> letters_only env \<longrightarrow>
       expr_calc_value env e = expr_calc_value env (E_AND e1 e2))"
  using join_or_calc [OF assms] join_and_calc [OF assms] by (simp add: calc_bin)

theorem joined_operands_value_witness:
  "expr_calc_value demo (E_COMP E_UNEQUAL (Symbol 2) symbol_no) =
   expr_calc_value demo (E_OR (E_COMP E_EQUAL (Symbol 2) symbol_yes) (E_COMP E_EQUAL (Symbol 2) symbol_mod))"
proof -
  have "expr_join_or demo (E_COMP E_EQUAL (Symbol 2) symbol_yes) (E_COMP E_EQUAL (Symbol 2) symbol_mod) =
    Some (E_COMP E_UNEQUAL (Symbol 2) symbol_no)"
    by (simp add: expr_join_or_def expr_equal_comp join_sym1_def join_sym2_def plain_sym_def
        rhs_of_def pair_of_def expr_alloc_comp_def)
  then show ?thesis
    using joined_operands_value [OF demo_ok(1), of "E_COMP E_EQUAL (Symbol 2) symbol_yes"
        "E_COMP E_EQUAL (Symbol 2) symbol_mod"] by blast
qed

text \<open>
  \<open>expr_join_and\<close> is wrong for other constants: a numeric constant compares equal to a tristate
  value by its number (\<open>n\<close>, \<open>m\<close>, \<open>y\<close> are 0, 1, 2). With a constant \<open>2\<close> the conjunction of
  \<open>a = y\<close> and \<open>a != 2\<close> is never \<open>y\<close>, but the code replaces it by \<open>a = y\<close>.
\<close>

theorem join_and_numeric_constant:
  assumes "env_ok env" and "sym_type env a = S_TRISTATE" and "curr_tri env a = Yes"
    and "sym_const env symbol_yes" and "sym_const env two" and "sym_type env two = S_UNKNOWN"
    and "curr_val env two = ''2''"
  shows "\<exists>e. expr_join_and env (E_COMP E_EQUAL a symbol_yes) (E_COMP E_UNEQUAL a two) = Some e \<and>
    expr_calc_value env e = Yes \<and>
    expr_calc_value env (E_AND (E_COMP E_EQUAL a symbol_yes) (E_COMP E_UNEQUAL a two)) = No"
proof -
  have two: "two \<noteq> symbol_yes" using env_ok_constants(7) [OF assms(1)] assms(7) by auto
  have "tri_symbol env a" using assms(2) by (simp add: tri_symbol_def)
  then have str: "sym_get_string_value env a = ''y''" "sym_get_string_value env two = ''2''"
    using string_value_tri [OF assms(1), of a] assms(3,6,7)
    by (simp_all add: string_of_tri_def sym_get_string_value_def)
  have "compare_values env a two = Inr 0"
    by (simp add: compare_values_def str assms(2,6) expr_parse_string_def scan_number_def parsed_def
        is_space_def is_0x_def digit_of_def number_of_digits_def fits_signed_def is_xdigit_def)
  then have ne: "expr_calc_value env (E_COMP E_UNEQUAL a two) = No" by (simp add: tri_of_bool_def)
  have eq: "expr_calc_value env (E_COMP E_EQUAL a symbol_yes) = Yes"
    using tri_value(1) [OF assms(1) disjI2 [OF assms(2)], of symbol_yes] assms(1,3)
    by (simp del: expr_calc_value.simps(5))
  have "expr_join_and env (E_COMP E_EQUAL a symbol_yes) (E_COMP E_UNEQUAL a two) = Some (E_COMP E_EQUAL a symbol_yes)"
    using assms(2,4,5) two
    by (simp add: expr_join_and_def expr_equal_comp join_sym1_def join_sym2_def plain_sym_def symbol_and_def
        is_symbol_def rhs_of_def join_constants_def expr_alloc_comp_def)
  then show ?thesis using eq ne by (simp add: calc_bin del: expr_calc_value.simps(5))
qed

text \<open>The table with symbol 2 set to \<open>y\<close> and symbol 3 the constant \<open>2\<close>.\<close>

definition demo_two :: symbols where
  "demo_two = demo\<lparr>
     sym_type := (sym_type demo)(Symbol 3 := S_UNKNOWN),
     sym_const := (sym_const demo)(Symbol 3 := True),
     curr_tri := (curr_tri demo)(Symbol 2 := Yes),
     curr_val := (curr_val demo)(Symbol 3 := ''2'') \<rparr>"

theorem join_and_numeric_constant_witness:
  "\<exists>e. expr_join_and demo_two (E_COMP E_EQUAL (Symbol 2) symbol_yes) (E_COMP E_UNEQUAL (Symbol 2) (Symbol 3)) = Some e \<and>
    expr_calc_value demo_two e = Yes \<and>
    expr_calc_value demo_two (E_AND (E_COMP E_EQUAL (Symbol 2) symbol_yes) (E_COMP E_UNEQUAL (Symbol 2) (Symbol 3))) = No"
proof (rule join_and_numeric_constant)
  show "env_ok demo_two" by (auto simp: demo_two_def demo_def env_ok_def split: symbol.splits if_splits)
qed (simp_all add: demo_two_def demo_def)

text \<open>
  C13. \<open>expr_transform\<close> returns on every expression without a range. Its result is no higher, has
  negations only before symbols (and lists), compares no boolean symbol with a constant, has the
  same value when no choice is compared, and is left as it is by a second transformation.
\<close>

theorem expr_transform_correct:
  assumes "env_ok env" and "range_free e"
  shows "\<exists>e'. expr_transform env e = Some e' \<and> height e' \<le> height e \<and> transformed env e' \<and>
    (no_choices env \<longrightarrow> expr_calc_value env e' = expr_calc_value env e) \<and>
    expr_transform env e' = Some e'"
proof -
  obtain e' where e': "expr_transform env e = Some e'" "height e' \<le> height e"
    using transform_some [OF assms(2)] by blast
  note t = e'(1) [unfolded expr_transform_def]
  show ?thesis
    using e' transform_normal [OF assms(1) t] transform_calc [OF assms(1) _ t] transform_idem [OF assms(1) e'(1)]
    by blast
qed

definition demo_not :: expr where
  "demo_not = E_NOT (E_AND (E_SYMBOL (Symbol 2)) (E_NOT (E_COMP E_EQUAL (Symbol 0) symbol_yes)))"

theorem expr_transform_correct_witness:
  "\<exists>e'. expr_transform demo demo_not = Some e' \<and> transformed demo e' \<and> expr_calc_value demo e' = Yes"
proof -
  have "range_free demo_not" by (simp add: demo_not_def)
  moreover have "expr_calc_value demo demo_not = Yes"
    by (simp add: demo_not_def calc_bin compare_const [OF demo_ok(1)] sym_get_string_value_def
        string_of_tri_def demo_ok(1) tri_of_bool_def del: expr_calc_value.simps(2))
  ultimately show ?thesis using expr_transform_correct [OF demo_ok(1), of demo_not] demo_ok(3) by auto
qed

text \<open>
  Comparing an expression with \<open>y\<close> or \<open>n\<close> (\<open>expr_trans_compare\<close>) gives an expression that is
  \<open>y\<close> when the value is that constant and \<open>n\<close> otherwise, and the other way round for inequality,
  provided the operands of negations are not \<open>m\<close> and its plain symbols are tristate.
\<close>

theorem trans_compare_value:
  assumes "env_ok env" and "c = symbol_yes \<or> c = symbol_no" and "logical e" and "two_valued_nots env e"
    and "tri_symbols env e"
  shows "\<exists>e'. expr_trans_compare e eq c = Some e' \<and>
    expr_calc_value env e' = tri_of_bool ((expr_calc_value env e = curr_tri env c) = eq)"
  using trans_compare_calc [OF assms] .

theorem trans_compare_value_witness:
  "\<exists>e'. expr_trans_compare (E_OR (E_SYMBOL (Symbol 0)) (E_SYMBOL (Symbol 2))) False symbol_no = Some e' \<and>
    expr_calc_value demo e' = Yes"
  using trans_compare_value [OF demo_ok(1), of symbol_no "E_OR (E_SYMBOL (Symbol 0)) (E_SYMBOL (Symbol 2))" False] demo_ok(1)
  by (auto simp: tri_symbol_def calc_bin EXPR_OR_max tri_of_bool_def)

text \<open>
  The value of an expression does not change with a symbol it does not contain according to
  \<open>expr_contains_symbol\<close>; and an expression that depends on a boolean or tristate symbol
  according to \<open>expr_depends_symbol\<close> is \<open>n\<close> whenever that symbol is \<open>n\<close>.
\<close>

theorem symbol_dependence:
  assumes "env_ok env"
  shows "(\<not> expr_contains_symbol e s \<longrightarrow>
       expr_calc_value (env\<lparr>curr_tri := (curr_tri env)(s := t), curr_val := (curr_val env)(s := v)\<rparr>) e =
       expr_calc_value env e) \<and>
    (expr_depends_symbol e s \<and> tri_symbol env s \<and> curr_tri env s = No \<longrightarrow> expr_calc_value env e = No)"
proof -
  have "expr_calc_value env e = No" if "expr_depends_symbol e s" "tri_symbol env s" "curr_tri env s = No"
    using that
  proof (induction e s rule: expr_depends_symbol.induct)
    case (1 a b s)
    then show ?case by (auto simp: EXPR_AND_min)
  next
    case (3 s1 s2 s)
    have "tri_const s2" using 3 by (auto simp: tri_const_def)
    then show ?case using 3 compare_tri [OF assms(1), of s2 s1] assms(1) by (auto simp del: expr_calc_value.simps(5))
  next
    case (4 s1 s2 s)
    have "tri_const s2" using 4 by (auto simp: tri_const_def)
    then show ?case using 4 compare_tri [OF assms(1), of s2 s1] assms(1) by (auto simp del: expr_calc_value.simps(5))
  qed simp_all
  moreover have "expr_calc_value (env\<lparr>curr_tri := (curr_tri env)(s := t), curr_val := (curr_val env)(s := v)\<rparr>) e =
      expr_calc_value env e" if "\<not> expr_contains_symbol e s"
    by (rule contains_symbol_agree [OF that]) simp_all
  ultimately show ?thesis by blast
qed

theorem symbol_dependence_witness:
  "expr_calc_value (demo\<lparr>curr_tri := (curr_tri demo)(Symbol 2 := No), curr_val := (curr_val demo)(Symbol 2 := [])\<rparr>)
     (E_SYMBOL (Symbol 0)) = Yes"
  using symbol_dependence [OF demo_ok(1), of "E_SYMBOL (Symbol 0)" "Symbol 2" "[]" No] by simp

subsection \<open>Printing\<close>



text \<open>
  The reverse dependencies printed for a value are the operands of the disjunction with that
  value, in order, one line each, with the title once before the first; and when the whole
  disjunction has that value and it is not \<open>n\<close>, there is at least one line.
\<close>

theorem revdep_lists_selecting:
  "fst (expr_print_revdep env e t (Some title)) =
     (if selecting env t e = [] then []
      else txt_piece title # concat (map (revdep_line env) (selecting env t e))) \<and>
   (selecting env t e = [] \<longrightarrow> t = No \<or> expr_calc_value env e \<noteq> t)"
  using revdep_titled [of env e t title] operands_value [of env e]
  by (auto simp: selecting_def filter_empty_conv)

theorem revdep_lists_selecting_witness:
  "fst (expr_print_revdep demo (E_OR (E_SYMBOL (Symbol 0)) (E_SYMBOL (Symbol 2))) Mod (Some ''T'')) =
    txt_piece ''T'' # revdep_line demo (E_SYMBOL (Symbol 2))"
  using revdep_lists_selecting [of demo "E_OR (E_SYMBOL (Symbol 0)) (E_SYMBOL (Symbol 2))" Mod "''T''"]
  by (simp add: selecting_def)

end
