(* ===== verification/Kconfig_Symbol.thy ===== *)
theory Kconfig_Symbol
  imports Kconfig_Expr Alias_Format
begin

text \<open>
  The values of configuration symbols (\<open>scripts/kconfig/symbol.c\<close>, with the inline functions of
  \<open>lkc.h\<close> and \<open>set_all_choice_values\<close> of \<open>confdata.c\<close>): what a symbol is declared as, the state
  its calculation works on, and \<open>sym_calc_value\<close> with the expressions it evaluates, which call it
  again. The depth of these calls is bounded by an argument: \<^term>\<open>None\<close> if it is used up, and
  where the code follows a null pointer.
\<close>

subsection \<open>Declarations\<close>

datatype prop_type =
  P_UNKNOWN | P_PROMPT | P_COMMENT | P_MENU | P_DEFAULT | P_CHOICE | P_SELECT | P_IMPLY | P_RANGE | P_SYMBOL

record property =
  prop_type :: prop_type
  prop_text :: "string option"
  prop_visible :: "expr option"
  prop_expr :: "expr option"

text \<open>What \<open>val\<close> of a value points to.\<close>

datatype val_pointer = Null | Text string | Pointed symbol

text \<open>
  The fields of the symbols that calculations do not change, the flags among them. \<open>all_symbols\<close>
  is the order of the hash table. \<open>text_at\<close> is what is read as a string at any other pointer.
\<close>

record config =
  type_of :: "symbol \<Rightarrow> symbol_type"
  name_of :: "symbol \<Rightarrow> string option"
  const_flag :: "symbol \<Rightarrow> bool"
  choice_flag :: "symbol \<Rightarrow> bool"
  choiceval_flag :: "symbol \<Rightarrow> bool"
  no_write_flag :: "symbol \<Rightarrow> bool"
  props :: "symbol \<Rightarrow> property list"
  dir_dep_expr :: "symbol \<Rightarrow> expr option"
  rev_dep_expr :: "symbol \<Rightarrow> expr option"
  implied_expr :: "symbol \<Rightarrow> expr option"
  modules_sym :: symbol
  all_symbols :: "symbol list"
  text_at :: "val_pointer \<Rightarrow> string"

subsection \<open>State\<close>

text \<open>
  The other fields of a symbol. \<open>SYMBOL_CHANGED\<close>, a mark for the user interfaces, is left out.
\<close>

record sym_state =
  cur_tri :: tristate
  cur_val :: val_pointer
  user_tri :: tristate
  user_val :: val_pointer
  visible :: tristate
  dir_dep_tri :: tristate
  rev_dep_tri :: tristate
  implied_tri :: tristate
  valid_flag :: bool
  write_flag :: bool
  user_flag :: bool
  need_set_flag :: bool

record state =
  node :: "symbol \<Rightarrow> sym_state"
  modules_val :: tristate
  change_count :: int

definition set_node :: "symbol \<Rightarrow> (sym_state \<Rightarrow> sym_state) \<Rightarrow> state \<Rightarrow> state" where
  "set_node s f st = st\<lparr>node := (node st)(s := f (node st s))\<rparr>"

lemma node_set_node [simp]: "node (set_node s f st) t = (if t = s then f (node st s) else node st t)"
  by (simp add: set_node_def)

lemma modules_val_set_node [simp]: "modules_val (set_node s f st) = modules_val st"
  by (simp add: set_node_def)

definition pointer_text :: "config \<Rightarrow> val_pointer \<Rightarrow> string" where
  "pointer_text cfg p = (case p of Text s \<Rightarrow> s | _ \<Rightarrow> text_at cfg p)"

text \<open>The symbols as the expressions see them.\<close>

definition symbols_of :: "config \<Rightarrow> state \<Rightarrow> symbols" where
  "symbols_of cfg st =
     \<lparr>sym_type = type_of cfg, sym_const = const_flag cfg, sym_name = name_of cfg,
      curr_tri = (\<lambda>s. cur_tri (node st s)), curr_val = (\<lambda>s. pointer_text cfg (cur_val (node st s))),
      modules_tri = cur_tri (node st (modules_sym cfg))\<rparr>"

subsection \<open>Reading a symbol\<close>

definition sym_get_type :: "config \<Rightarrow> state \<Rightarrow> symbol \<Rightarrow> symbol_type" where
  "sym_get_type cfg st s =
     (if type_of cfg s = S_TRISTATE then
        (if choiceval_flag cfg s \<and> visible (node st s) = Yes then S_BOOLEAN
         else if modules_val st = No then S_BOOLEAN
         else S_TRISTATE)
      else type_of cfg s)"

definition sym_get_choice_prop :: "config \<Rightarrow> symbol \<Rightarrow> property option" where
  "sym_get_choice_prop cfg s = find (\<lambda>p. prop_type p = P_CHOICE) (props cfg s)"

text \<open>
  For a list the code returns the next node of the list as if it were a symbol; here this has no
  value.
\<close>

definition prop_get_symbol :: "property \<Rightarrow> symbol option" where
  "prop_get_symbol p = (case prop_expr p of Some (E_SYMBOL s) \<Rightarrow> Some s | _ \<Rightarrow> None)"

text \<open>The choice of a value, and the values of a choice.\<close>

definition choice_of :: "config \<Rightarrow> symbol \<Rightarrow> symbol option" where
  "choice_of cfg s = do { p \<leftarrow> sym_get_choice_prop cfg s; prop_get_symbol p }"

definition choice_values :: "config \<Rightarrow> symbol \<Rightarrow> symbol list option" where
  "choice_values cfg s =
     do { p \<leftarrow> sym_get_choice_prop cfg s;
          case prop_expr p of Some (E_LIST ss) \<Rightarrow> Some ss | None \<Rightarrow> Some [] | _ \<Rightarrow> None }"

subsection \<open>Evaluation with calculation\<close>

text \<open>
  The functions below get \<open>sym_calc_value\<close> as an argument. Evaluating an expression first
  calculates its symbols; the strings are read in the order of the code, because reading one may
  calculate \<open>modules_sym\<close>.
\<close>

type_synonym calculation = "state \<Rightarrow> symbol \<Rightarrow> state option"

definition compare_texts :: "symbol_type \<Rightarrow> string \<Rightarrow> symbol_type \<Rightarrow> string \<Rightarrow> int + int" where
  "compare_texts type1 str1 type2 str2 =
     (let strings = (type1 = S_STRING \<and> type2 = S_STRING);
          (k1, lval) = (if strings then (k_string, 0) else expr_parse_string str1 type1);
          (k2, rval) = (if strings then (k_string, 0) else expr_parse_string str2 type2) in
      if k1 = k_string \<or> k2 = k_string then Inr (strcmp str1 str2)
      else if k1 = k_invalid \<or> k2 = k_invalid then Inl (strcmp str1 str2)
      else if k1 = k_unsigned \<or> k2 = k_unsigned then
        Inr (if lval > rval then 1 else if lval < rval then -1 else 0)
      else Inr (if sint lval > sint rval then 1 else if sint lval < sint rval then -1 else 0))"

definition relation_value :: "relation \<Rightarrow> int + int \<Rightarrow> tristate" where
  "relation_value r res =
     (case res of
        Inl res \<Rightarrow> (if r \<noteq> E_EQUAL \<and> r \<noteq> E_UNEQUAL then No else tri_of_bool (holds_sign r res))
      | Inr res \<Rightarrow> tri_of_bool (holds_sign r res))"

definition string_value :: "calculation \<Rightarrow> config \<Rightarrow> state \<Rightarrow> symbol \<Rightarrow> (string \<times> state) option" where
  "string_value calc cfg st s =
     (if type_of cfg s = S_BOOLEAN \<or> type_of cfg s = S_TRISTATE then
        (case cur_tri (node st s) of
           No \<Rightarrow> Some (''n'', st)
         | Mod \<Rightarrow> do { st \<leftarrow> calc st (modules_sym cfg);
                      Some (if cur_tri (node st (modules_sym cfg)) = No then ''n'' else ''m'', st) }
         | Yes \<Rightarrow> Some (''y'', st))
      else Some (pointer_text cfg (cur_val (node st s)), st))"

fun calc_expr :: "calculation \<Rightarrow> config \<Rightarrow> state \<Rightarrow> expr \<Rightarrow> (tristate \<times> state) option" where
  "calc_expr calc cfg st (E_SYMBOL s) = do { st \<leftarrow> calc st s; Some (cur_tri (node st s), st) }"
| "calc_expr calc cfg st (E_BIN j e1 e2) =
     do { (val1, st) \<leftarrow> calc_expr calc cfg st e1;
          (val2, st) \<leftarrow> calc_expr calc cfg st e2;
          Some (case j of JAND \<Rightarrow> EXPR_AND val1 val2 | JOR \<Rightarrow> EXPR_OR val1 val2, st) }"
| "calc_expr calc cfg st (E_NOT e) =
     do { (val1, st) \<leftarrow> calc_expr calc cfg st e; Some (EXPR_NOT val1, st) }"
| "calc_expr calc cfg st (E_COMP r s1 s2) =
     do { st \<leftarrow> calc st s1;
          st \<leftarrow> calc st s2;
          (str1, st) \<leftarrow> string_value calc cfg st s1;
          (str2, st) \<leftarrow> string_value calc cfg st s2;
          Some (relation_value r (compare_texts (type_of cfg s1) str1 (type_of cfg s2) str2), st) }"
| "calc_expr calc cfg st (E_LIST ss) = Some (No, st)"
| "calc_expr calc cfg st (E_RANGE s1 s2) = Some (No, st)"

definition calc_expr_ptr :: "calculation \<Rightarrow> config \<Rightarrow> state \<Rightarrow> expr option \<Rightarrow> (tristate \<times> state) option" where
  "calc_expr_ptr calc cfg st e = (case e of None \<Rightarrow> Some (Yes, st) | Some e \<Rightarrow> calc_expr calc cfg st e)"

text \<open>The first property of a kind whose condition is not \<open>n\<close>, with its visibility.\<close>

fun first_visible :: "calculation \<Rightarrow> config \<Rightarrow> prop_type \<Rightarrow> state \<Rightarrow> property list \<Rightarrow>
    ((property \<times> tristate) option \<times> state) option" where
  "first_visible calc cfg kind st [] = Some (None, st)"
| "first_visible calc cfg kind st (p # ps) =
     (if prop_type p \<noteq> kind then first_visible calc cfg kind st ps
      else do {
        (tri, st) \<leftarrow> calc_expr_ptr calc cfg st (prop_visible p);
        if tri \<noteq> No then Some (Some (p, tri), st) else first_visible calc cfg kind st ps })"

definition sym_get_default_prop ::
  "calculation \<Rightarrow> config \<Rightarrow> state \<Rightarrow> symbol \<Rightarrow> ((property \<times> tristate) option \<times> state) option" where
  "sym_get_default_prop calc cfg st s = first_visible calc cfg P_DEFAULT st (props cfg s)"

definition sym_get_range_prop ::
  "calculation \<Rightarrow> config \<Rightarrow> state \<Rightarrow> symbol \<Rightarrow> ((property \<times> tristate) option \<times> state) option" where
  "sym_get_range_prop calc cfg st s = first_visible calc cfg P_RANGE st (props cfg s)"

subsection \<open>Ranges\<close>

definition strtoll :: "nat \<Rightarrow> string \<Rightarrow> int" where
  "strtoll base str = max (- (2 ^ 63)) (min (2 ^ 63 - 1) (fst (scan_number base str)))"

definition sym_get_range_val :: "calculation \<Rightarrow> config \<Rightarrow> state \<Rightarrow> symbol \<Rightarrow> nat \<Rightarrow> (int \<times> state) option" where
  "sym_get_range_val calc cfg st s base =
     do { st \<leftarrow> calc st s;
          let base = (case type_of cfg s of S_INT \<Rightarrow> 10 | S_HEX \<Rightarrow> 16 | _ \<Rightarrow> base)
          in Some (strtoll base (pointer_text cfg (cur_val (node st s))), st) }"

text \<open>\<open>sprintf\<close> with \<open>%lld\<close> and \<open>0x%llx\<close>.\<close>

definition printf_lld :: "int \<Rightarrow> string" where
  "printf_lld i = (if i < 0 then ''-'' @ printf_dec (nat (- i)) else printf_dec (nat i))"

definition printf_llx :: "int \<Rightarrow> string" where
  "printf_llx i = ''0x'' @ printf_hex False (nat (i mod 2 ^ 64))"

definition range_bounds :: "property \<Rightarrow> (symbol \<times> symbol) option" where
  "range_bounds p = (case prop_expr p of Some (E_RANGE l r) \<Rightarrow> Some (l, r) | _ \<Rightarrow> None)"

text \<open>The value of a symbol moved to the nearer bound of a range.\<close>

definition store_number :: "config \<Rightarrow> symbol \<Rightarrow> int \<Rightarrow> state \<Rightarrow> state" where
  "store_number cfg s v st = set_node s (\<lambda>n. n\<lparr>cur_val :=
     Text (if type_of cfg s = S_INT then printf_lld v else printf_llx v)\<rparr>) st"

definition clamp_to_range :: "calculation \<Rightarrow> config \<Rightarrow> state \<Rightarrow> symbol \<Rightarrow> property \<Rightarrow> state option" where
  "clamp_to_range calc cfg st s p =
     (let base = (if type_of cfg s = S_INT then 10 else 16);
          val = strtoll base (pointer_text cfg (cur_val (node st s))) in
      do {
        (left, right) \<leftarrow> range_bounds p;
        (val2, st) \<leftarrow> sym_get_range_val calc cfg st left base;
        if val \<ge> val2 then do {
          (val2, st) \<leftarrow> sym_get_range_val calc cfg st right base;
          Some (if val \<le> val2 then st else store_number cfg s val2 st) }
        else Some (store_number cfg s val2 st) })"

definition sym_validate_range :: "calculation \<Rightarrow> config \<Rightarrow> state \<Rightarrow> symbol \<Rightarrow> state option" where
  "sym_validate_range calc cfg st s =
     (if type_of cfg s \<noteq> S_INT \<and> type_of cfg s \<noteq> S_HEX then Some st
      else do {
        (prop, st) \<leftarrow> sym_get_range_prop calc cfg st s;
        case prop of None \<Rightarrow> Some st | Some (p, _) \<Rightarrow> clamp_to_range calc cfg st s p })"

subsection \<open>Visibility\<close>

text \<open>The loop over the prompts.\<close>

fun prompts_visible :: "calculation \<Rightarrow> config \<Rightarrow> symbol \<Rightarrow> symbol option \<Rightarrow> tristate \<Rightarrow> state \<Rightarrow> property list \<Rightarrow>
    (tristate \<times> state) option" where
  "prompts_visible calc cfg s choice_sym tri st [] = Some (tri, st)"
| "prompts_visible calc cfg s choice_sym tri st (p # ps) =
     (if prop_text p = None then prompts_visible calc cfg s choice_sym tri st ps
      else do {
        (v, st) \<leftarrow> calc_expr_ptr calc cfg st (prop_visible p);
        let v = (case choice_sym of
            Some c \<Rightarrow> if type_of cfg s = S_TRISTATE \<and> v = Mod \<and> cur_tri (node st c) = Yes then No else v
          | None \<Rightarrow> v)
        in prompts_visible calc cfg s choice_sym (EXPR_OR tri v) st ps })"

definition mod_to_yes :: "bool \<Rightarrow> tristate \<Rightarrow> tristate" where
  "mod_to_yes two_valued tri = (if tri = Mod \<and> two_valued then Yes else tri)"

definition boolean_now :: "config \<Rightarrow> state \<Rightarrow> symbol \<Rightarrow> bool" where
  "boolean_now cfg st s \<longleftrightarrow> sym_get_type cfg st s = S_BOOLEAN"

text \<open>The value of an expression, or a default where there is none.\<close>

definition calc_expr_or :: "tristate \<Rightarrow> calculation \<Rightarrow> config \<Rightarrow> state \<Rightarrow> expr option \<Rightarrow> (tristate \<times> state) option" where
  "calc_expr_or other calc cfg st e =
     (case e of None \<Rightarrow> Some (other, st) | Some e \<Rightarrow> calc_expr calc cfg st e)"

text \<open>The four fields that \<open>sym_calc_visibility\<close> sets, one after the other.\<close>

definition calc_visible :: "calculation \<Rightarrow> config \<Rightarrow> state \<Rightarrow> symbol \<Rightarrow> state option" where
  "calc_visible calc cfg st s = do {
     choice_sym \<leftarrow> (if choiceval_flag cfg s
                   then (case sym_get_choice_prop cfg s of None \<Rightarrow> None | Some p \<Rightarrow> Some (prop_get_symbol p))
                   else Some None);
     (tri, st) \<leftarrow> prompts_visible calc cfg s choice_sym No st (props cfg s);
     let tri = mod_to_yes (type_of cfg s \<noteq> S_TRISTATE \<or> modules_val st = No) tri;
     Some (set_node s (\<lambda>n. n\<lparr>visible := tri\<rparr>) st) }"

definition calc_dir_dep :: "calculation \<Rightarrow> config \<Rightarrow> state \<Rightarrow> symbol \<Rightarrow> state option" where
  "calc_dir_dep calc cfg st s = do {
     (tri, st) \<leftarrow> calc_expr_or Yes calc cfg st (dir_dep_expr cfg s);
     Some (set_node s (\<lambda>n. n\<lparr>dir_dep_tri := mod_to_yes (boolean_now cfg st s) tri\<rparr>) st) }"

definition calc_rev_dep :: "calculation \<Rightarrow> config \<Rightarrow> state \<Rightarrow> symbol \<Rightarrow> state option" where
  "calc_rev_dep calc cfg st s = do {
     (tri, st) \<leftarrow> calc_expr_or No calc cfg st (rev_dep_expr cfg s);
     Some (set_node s (\<lambda>n. n\<lparr>rev_dep_tri := mod_to_yes (boolean_now cfg st s) tri\<rparr>) st) }"

definition calc_implied :: "calculation \<Rightarrow> config \<Rightarrow> state \<Rightarrow> symbol \<Rightarrow> state option" where
  "calc_implied calc cfg st s = do {
     (tri, st) \<leftarrow> (if dir_dep_tri (node st s) \<noteq> No then calc_expr_or No calc cfg st (implied_expr cfg s)
                  else Some (No, st));
     Some (set_node s (\<lambda>n. n\<lparr>implied_tri := mod_to_yes (boolean_now cfg st s) tri\<rparr>) st) }"

definition sym_calc_visibility :: "calculation \<Rightarrow> config \<Rightarrow> state \<Rightarrow> symbol \<Rightarrow> state option" where
  "sym_calc_visibility calc cfg st s = do {
     st \<leftarrow> calc_visible calc cfg st s;
     if choiceval_flag cfg s then Some st
     else do { st \<leftarrow> calc_dir_dep calc cfg st s; st \<leftarrow> calc_rev_dep calc cfg st s; calc_implied calc cfg st s } }"

subsection \<open>Choices\<close>

text \<open>The first default of a choice that is itself visible; a default that is no symbol faults.\<close>

fun visible_default :: "calculation \<Rightarrow> config \<Rightarrow> state \<Rightarrow> property list \<Rightarrow> (symbol option \<times> state) option" where
  "visible_default calc cfg st [] = Some (None, st)"
| "visible_default calc cfg st (p # ps) =
     (if prop_type p \<noteq> P_DEFAULT then visible_default calc cfg st ps
      else do {
        (tri, st) \<leftarrow> calc_expr_ptr calc cfg st (prop_visible p);
        if tri = No then visible_default calc cfg st ps
        else do {
          def_sym \<leftarrow> prop_get_symbol p;
          if visible (node st def_sym) \<noteq> No then Some (Some def_sym, st) else visible_default calc cfg st ps } })"

definition first_visible_value :: "state \<Rightarrow> symbol list \<Rightarrow> symbol option" where
  "first_visible_value st ss = find (\<lambda>s. visible (node st s) \<noteq> No) ss"

definition sym_choice_default :: "calculation \<Rightarrow> config \<Rightarrow> state \<Rightarrow> symbol \<Rightarrow> (symbol option \<times> state) option" where
  "sym_choice_default calc cfg st s = do {
     (d, st) \<leftarrow> visible_default calc cfg st (props cfg s);
     case d of Some d \<Rightarrow> Some (Some d, st)
     | None \<Rightarrow> do { ss \<leftarrow> choice_values cfg s; Some (first_visible_value st ss, st) } }"

text \<open>
  The visibilities of the values, and whether the user flags of the choice and of its visible
  values are all set: what \<open>flags\<close> keeps of \<open>SYMBOL_DEF_USER\<close>, the only bit it is used for.
\<close>

fun values_visible :: "calculation \<Rightarrow> config \<Rightarrow> bool \<Rightarrow> state \<Rightarrow> symbol list \<Rightarrow> (bool \<times> state) option" where
  "values_visible calc cfg flags st [] = Some (flags, st)"
| "values_visible calc cfg flags st (v # vs) = do {
     st \<leftarrow> sym_calc_visibility calc cfg st v;
     values_visible calc cfg (if visible (node st v) \<noteq> No then flags \<and> user_flag (node st v) else flags) st vs }"

definition user_choice :: "state \<Rightarrow> symbol \<Rightarrow> symbol option" where
  "user_choice st s =
     (case user_val (node st s) of Pointed d \<Rightarrow> (if visible (node st d) \<noteq> No then Some d else None) | _ \<Rightarrow> None)"

definition sym_calc_choice :: "calculation \<Rightarrow> config \<Rightarrow> state \<Rightarrow> symbol \<Rightarrow> (symbol option \<times> state) option" where
  "sym_calc_choice calc cfg st s = do {
     ss \<leftarrow> choice_values cfg s;
     (flags, st) \<leftarrow> values_visible calc cfg (user_flag (node st s)) st ss;
     let st = set_node s (\<lambda>n. n\<lparr>user_flag := user_flag n \<and> flags\<rparr>) st
     in case user_choice st s of
       Some d \<Rightarrow> Some (Some d, st)
     | None \<Rightarrow> do {
         (d, st) \<leftarrow> sym_choice_default calc cfg st s;
         Some (d, if d = None then set_node s (\<lambda>n. n\<lparr>cur_tri := No\<rparr>) st else st) } }"

definition set_all_choice_values :: "config \<Rightarrow> state \<Rightarrow> symbol \<Rightarrow> state option" where
  "set_all_choice_values cfg st csym = do {
     ss \<leftarrow> choice_values cfg csym;
     let st = fold (\<lambda>v st. if user_flag (node st v) then st else set_node v (\<lambda>n. n\<lparr>user_tri := No\<rparr>) st) ss st
     in Some (set_node csym (\<lambda>n. n\<lparr>user_flag := True, valid_flag := False, need_set_flag := False\<rparr>) st) }"

subsection \<open>The value of a symbol\<close>

definition set_curr :: "symbol \<Rightarrow> val_pointer \<Rightarrow> tristate \<Rightarrow> state \<Rightarrow> state" where
  "set_curr s v t st = set_node s (\<lambda>n. n\<lparr>cur_val := v, cur_tri := t\<rparr>) st"

definition set_write :: "symbol \<Rightarrow> bool \<Rightarrow> state \<Rightarrow> state" where
  "set_write s w st = (if w then set_node s (\<lambda>n. n\<lparr>write_flag := True\<rparr>) st else st)"

text \<open>Without a user value: the default, unless the symbol is a choice, and what implies it.\<close>

definition default_tristate :: "calculation \<Rightarrow> config \<Rightarrow> state \<Rightarrow> symbol \<Rightarrow> (tristate \<times> state) option" where
  "default_tristate calc cfg st s =
     (let st = set_write s (rev_dep_tri (node st s) \<noteq> No) st in
      if choice_flag cfg s then Some (No, st)
      else do {
        (prop, st) \<leftarrow> sym_get_default_prop calc cfg st s;
        (tri, st) \<leftarrow>
          (case prop of
             None \<Rightarrow> Some (No, st)
           | Some (p, v) \<Rightarrow> do {
               (x, st) \<leftarrow> calc_expr_ptr calc cfg st (prop_expr p);
               Some (EXPR_AND x v, set_write s (EXPR_AND x v \<noteq> No) st) });
        let implied = implied_tri (node st s)
        in Some (if implied \<noteq> No then EXPR_OR tri implied else tri, set_write s (implied \<noteq> No) st) })"

definition calc_tristate :: "calculation \<Rightarrow> config \<Rightarrow> state \<Rightarrow> symbol \<Rightarrow> (tristate \<times> state) option" where
  "calc_tristate calc cfg st s = do {
     (tri, st) \<leftarrow>
       (if choiceval_flag cfg s \<and> visible (node st s) = Yes then do {
          c \<leftarrow> choice_of cfg s;
          Some (if cur_val (node st c) = Pointed s then Yes else No, st) }
        else do {
          (tri, st) \<leftarrow>
            (if visible (node st s) \<noteq> No \<and> user_flag (node st s)
             then Some (EXPR_AND (user_tri (node st s)) (visible (node st s)), st)
             else default_tristate calc cfg st s);
          Some (EXPR_OR tri (rev_dep_tri (node st s)), st) });
     Some (mod_to_yes (boolean_now cfg st s \<or> implied_tri (node st s) = Yes) tri, st) }"

definition calc_string :: "calculation \<Rightarrow> config \<Rightarrow> state \<Rightarrow> symbol \<Rightarrow> (val_pointer \<times> state) option" where
  "calc_string calc cfg st s =
     (if visible (node st s) \<noteq> No \<and> user_flag (node st s) then Some (user_val (node st s), st)
      else do {
        (prop, st) \<leftarrow> sym_get_default_prop calc cfg st s;
        case prop of
          None \<Rightarrow> Some (Text [], st)
        | Some (p, _) \<Rightarrow>
            (case prop_get_symbol p of
               None \<Rightarrow> Some (Text [], st)
             | Some ds \<Rightarrow> do {
                 st \<leftarrow> calc (set_write s True st) ds;
                 Some (cur_val (node st ds), st) }) })"

text \<open>
  The value is stored and checked; a choice also gets its chosen value, and \<open>modules_sym\<close> sets
  \<open>modules_val\<close> if it changed.
\<close>

definition store_choice :: "calculation \<Rightarrow> config \<Rightarrow> state \<Rightarrow> symbol \<Rightarrow> state option" where
  "store_choice calc cfg st s =
     (if choice_flag cfg s \<and> cur_tri (node st s) = Yes then do {
        (d, st) \<leftarrow> sym_calc_choice calc cfg st s;
        Some (set_node s (\<lambda>n. n\<lparr>cur_val := (case d of Some d \<Rightarrow> Pointed d | None \<Rightarrow> Null)\<rparr>) st) }
      else Some st)"

definition note_modules :: "config \<Rightarrow> val_pointer \<times> tristate \<Rightarrow> state \<Rightarrow> symbol \<Rightarrow> state" where
  "note_modules cfg oldval st s =
     (if oldval \<noteq> (cur_val (node st s), cur_tri (node st s)) \<and> modules_sym cfg = s
      then st\<lparr>modules_val := cur_tri (node st s)\<rparr> else st)"

text \<open>The write marks of the values of a choice, and of symbols that are never written.\<close>

definition pass_on :: "config \<Rightarrow> state \<Rightarrow> symbol \<Rightarrow> state option" where
  "pass_on cfg st s = do {
     st \<leftarrow> (if choice_flag cfg s then do {
            ss \<leftarrow> choice_values cfg s;
            Some (fold (\<lambda>v st. set_write v (write_flag (node st s) \<and> visible (node st v) \<noteq> No) st) ss st) }
          else Some st);
     Some (if no_write_flag cfg s then set_node s (\<lambda>n. n\<lparr>write_flag := False\<rparr>) st else st) }"

definition store_value :: "calculation \<Rightarrow> config \<Rightarrow> val_pointer \<times> tristate \<Rightarrow> state \<Rightarrow> symbol \<Rightarrow> state option" where
  "store_value calc cfg oldval st s = do {
     st \<leftarrow> store_choice calc cfg st s;
     st \<leftarrow> sym_validate_range calc cfg st s;
     pass_on cfg (note_modules cfg oldval st s) s }"

text \<open>The value at the start, for a symbol that has a type.\<close>

definition start_value :: "symbol_type \<Rightarrow> val_pointer option" where
  "start_value type =
     (case type of
        S_INT \<Rightarrow> Some (Text []) | S_HEX \<Rightarrow> Some (Text []) | S_STRING \<Rightarrow> Some (Text [])
      | S_BOOLEAN \<Rightarrow> Some (Text ''n'') | S_TRISTATE \<Rightarrow> Some (Text ''n'')
      | _ \<Rightarrow> None)"

definition name_pointer :: "config \<Rightarrow> symbol \<Rightarrow> val_pointer" where
  "name_pointer cfg s = (case name_of cfg s of Some n \<Rightarrow> Text n | None \<Rightarrow> Null)"

text \<open>\<open>sym_calc_value\<close> after the symbol has been marked as valid, first for one with a type.\<close>

definition calc_typed :: "calculation \<Rightarrow> config \<Rightarrow> val_pointer \<Rightarrow> state \<Rightarrow> symbol \<Rightarrow> state option" where
  "calc_typed calc cfg start st s =
     (let oldval = (cur_val (node st s), cur_tri (node st s)) in
      do {
        st \<leftarrow> sym_calc_visibility calc cfg (set_node s (\<lambda>n. n\<lparr>write_flag := False\<rparr>) st) s;
        let st = set_curr s start No (set_write s (visible (node st s) \<noteq> No) st);
        if type_of cfg s = S_BOOLEAN \<or> type_of cfg s = S_TRISTATE then do {
          (tri, st) \<leftarrow> calc_tristate calc cfg st s;
          store_value calc cfg oldval (set_curr s start tri st) s }
        else do {
          (v, st) \<leftarrow> calc_string calc cfg st s;
          store_value calc cfg oldval (set_curr s v No st) s } })"

definition calc_marked :: "calculation \<Rightarrow> config \<Rightarrow> state \<Rightarrow> symbol \<Rightarrow> state option" where
  "calc_marked calc cfg st s =
     (case start_value (type_of cfg s) of
        None \<Rightarrow> Some (set_curr s (name_pointer cfg s) No st)
      | Some start \<Rightarrow> do {
          st \<leftarrow> calc_typed calc cfg start st s;
          if need_set_flag (node st s) then set_all_choice_values cfg st s else Some st })"

fun sym_calc_value :: "nat \<Rightarrow> config \<Rightarrow> state \<Rightarrow> symbol \<Rightarrow> state option" where
  "sym_calc_value 0 cfg st s = None"
| "sym_calc_value (Suc depth) cfg st s =
     (if valid_flag (node st s) then Some st
      else do {
        st \<leftarrow> (if choiceval_flag cfg s \<and> need_set_flag (node st s) then do {
               c \<leftarrow> choice_of cfg s;
               sym_calc_value depth cfg (set_node s (\<lambda>n. n\<lparr>need_set_flag := False\<rparr>) st) c }
             else Some st);
        calc_marked (sym_calc_value depth cfg) cfg (set_node s (\<lambda>n. n\<lparr>valid_flag := True\<rparr>) st) s })"

end
