(* ===== verification/Kconfig_Calc.thy ===== *)
theory Kconfig_Calc
  imports Kconfig_Symbol
begin

text \<open>
  What a calculation of \<open>Kconfig_Symbol\<close> keeps and that it ends. A locale states what the
  evaluation of expressions, the visibilities and the choices rely on in the calculation they
  call; \<open>sym_calc_value\<close> with enough depth provides it, by induction on the depth.
\<close>

subsection \<open>Well-formed declarations\<close>

fun expr_symbols :: "expr \<Rightarrow> symbol set" where
  "expr_symbols (E_SYMBOL s) = {s}"
| "expr_symbols (E_NOT e) = expr_symbols e"
| "expr_symbols (E_COMP r s1 s2) = {s1, s2}"
| "expr_symbols (E_BIN j e1 e2) = expr_symbols e1 \<union> expr_symbols e2"
| "expr_symbols (E_LIST ss) = {}"
| "expr_symbols (E_RANGE s1 s2) = {}"

definition expr_within :: "symbol set \<Rightarrow> expr option \<Rightarrow> bool" where
  "expr_within U e \<longleftrightarrow> (case e of None \<Rightarrow> True | Some e \<Rightarrow> expr_symbols e \<subseteq> U)"

definition prop_ok :: "config \<Rightarrow> symbol set \<Rightarrow> symbol \<Rightarrow> property \<Rightarrow> bool" where
  "prop_ok cfg U s p \<longleftrightarrow>
     expr_within U (prop_visible p) \<and>
     (prop_type p = P_DEFAULT \<longrightarrow> expr_within U (prop_expr p)) \<and>
     (prop_type p = P_DEFAULT \<and> choice_flag cfg s \<longrightarrow> prop_get_symbol p \<noteq> None) \<and>
     (prop_type p = P_RANGE \<longrightarrow> (\<exists>l \<in> U. \<exists>r \<in> U. range_bounds p = Some (l, r)))"

text \<open>
  The symbols in a finite set refer to symbols in it; values have a choice, choices a list of
  values.
\<close>

definition symbol_ok :: "config \<Rightarrow> symbol set \<Rightarrow> symbol \<Rightarrow> bool" where
  "symbol_ok cfg U s \<longleftrightarrow>
     (\<forall>p \<in> set (props cfg s). prop_ok cfg U s p) \<and>
     expr_within U (dir_dep_expr cfg s) \<and> expr_within U (rev_dep_expr cfg s) \<and> expr_within U (implied_expr cfg s) \<and>
     (choiceval_flag cfg s \<longrightarrow> (\<exists>c \<in> U. choice_of cfg s = Some c \<and> choice_flag cfg c)) \<and>
     (choice_flag cfg s \<longrightarrow> (\<exists>ss. choice_values cfg s = Some ss \<and> set ss \<subseteq> U))"

definition config_ok :: "config \<Rightarrow> symbol set \<Rightarrow> bool" where
  "config_ok cfg U \<longleftrightarrow> finite U \<and> modules_sym cfg \<in> U \<and> (\<forall>s \<in> U. symbol_ok cfg U s)"

lemma prop_get_symbol_within:
  "expr_within U (prop_expr p) \<Longrightarrow> prop_get_symbol p = Some s \<Longrightarrow> s \<in> U"
  by (auto simp: expr_within_def prop_get_symbol_def split: option.splits expr.splits)

subsection \<open>What a step keeps\<close>

text \<open>
  Valid symbols stay valid and keep their value, marks of choices are only taken away, and what
  becomes valid has a value of its type; for the symbols in \<open>X\<close>, whose calculation is under way,
  only their validity is kept.
\<close>

definition well_typed :: "config \<Rightarrow> state \<Rightarrow> symbol \<Rightarrow> bool" where
  "well_typed cfg st s \<longleftrightarrow>
     (case type_of cfg s of
        S_BOOLEAN \<Rightarrow> cur_tri (node st s) \<noteq> Mod
      | S_TRISTATE \<Rightarrow> modules_val st = No \<longrightarrow> cur_tri (node st s) \<noteq> Mod
      | _ \<Rightarrow> cur_tri (node st s) = No)"

definition keeps :: "config \<Rightarrow> symbol set \<Rightarrow> symbol set \<Rightarrow> state \<Rightarrow> state \<Rightarrow> bool" where
  "keeps cfg U X st st' \<longleftrightarrow>
     (\<forall>s. need_set_flag (node st' s) \<longrightarrow> need_set_flag (node st s)) \<and>
     (\<forall>s. valid_flag (node st s) \<longrightarrow> valid_flag (node st' s)) \<and>
     (\<forall>s. s \<notin> U \<longrightarrow> valid_flag (node st' s) = valid_flag (node st s)) \<and>
     (\<forall>s. valid_flag (node st s) \<and> s \<notin> X \<longrightarrow>
        cur_tri (node st' s) = cur_tri (node st s) \<and> cur_val (node st' s) = cur_val (node st s)) \<and>
     (\<forall>s. valid_flag (node st' s) \<and> \<not> valid_flag (node st s) \<and> s \<notin> X \<and> type_of cfg s = S_BOOLEAN \<longrightarrow>
        cur_tri (node st' s) \<noteq> Mod) \<and>
     (valid_flag (node st (modules_sym cfg)) \<and> modules_sym cfg \<notin> X \<longrightarrow>
        modules_val st' = modules_val st \<and>
        (\<forall>s. valid_flag (node st' s) \<and> \<not> valid_flag (node st s) \<and> s \<notin> X \<longrightarrow> well_typed cfg st' s))"

lemma keeps_refl [simp]: "keeps cfg U X st st"
  by (auto simp: keeps_def)

lemma keeps_trans [trans]:
  assumes "keeps cfg U X st st'" and "keeps cfg U X st' st''"
  shows "keeps cfg U X st st''"
proof -
  have "well_typed cfg st'' s"
    if m: "valid_flag (node st (modules_sym cfg))" "modules_sym cfg \<notin> X"
      and s: "valid_flag (node st'' s)" "\<not> valid_flag (node st s)" "s \<notin> X" for s
  proof (cases "valid_flag (node st' s)")
    case True
    then have "well_typed cfg st' s" using assms(1) m s unfolding keeps_def by blast
    moreover have "modules_val st'' = modules_val st'" "cur_tri (node st'' s) = cur_tri (node st' s)"
      using assms m s True unfolding keeps_def by blast+
    ultimately show ?thesis by (simp add: well_typed_def split: symbol_type.splits)
  next
    case False
    then show ?thesis using assms m s unfolding keeps_def by blast
  qed
  moreover have "cur_tri (node st'' s) \<noteq> Mod"
    if "valid_flag (node st'' s)" "\<not> valid_flag (node st s)" "s \<notin> X" "type_of cfg s = S_BOOLEAN" for s
    using assms that unfolding keeps_def by (cases "valid_flag (node st' s)") simp_all
  ultimately show ?thesis using assms unfolding keeps_def by simp
qed

lemma keeps_weaken: "keeps cfg U {} st st' \<Longrightarrow> keeps cfg U X st st'"
  by (simp add: keeps_def)

lemma keeps_set_node:
  assumes "valid_flag (f (node st s)) = valid_flag (node st s)" and "need_set_flag (f (node st s)) \<Longrightarrow> need_set_flag (node st s)"
    and "s \<in> X \<or> cur_tri (f (node st s)) = cur_tri (node st s) \<and> cur_val (f (node st s)) = cur_val (node st s)"
  shows "keeps cfg U X st (set_node s f st)"
  using assms by (auto simp: keeps_def)

text \<open>The calls that are left: one for each invalid symbol and two for each mark.\<close>

definition calls_left :: "symbol set \<Rightarrow> state \<Rightarrow> nat" where
  "calls_left U st =
     card {s \<in> U. \<not> valid_flag (node st s)} + 2 * card {s \<in> U. need_set_flag (node st s)}"

lemma keeps_calls_left:
  assumes "finite U" and "keeps cfg U X st st'"
  shows "calls_left U st' \<le> calls_left U st"
proof -
  have "card {s \<in> U. \<not> valid_flag (node st' s)} \<le> card {s \<in> U. \<not> valid_flag (node st s)}"
    "card {s \<in> U. need_set_flag (node st' s)} \<le> card {s \<in> U. need_set_flag (node st s)}"
    using assms by (auto intro!: card_mono simp: keeps_def)
  then show ?thesis by (simp add: calls_left_def)
qed

text \<open>A state in which the marks are on choices and their values, with few enough calls left.\<close>

definition ready :: "config \<Rightarrow> symbol set \<Rightarrow> nat \<Rightarrow> state \<Rightarrow> bool" where
  "ready cfg U n st \<longleftrightarrow>
     (\<forall>s. need_set_flag (node st s) \<longrightarrow> choice_flag cfg s \<or> choiceval_flag cfg s) \<and> calls_left U st < n"

lemma keeps_ready: "finite U \<Longrightarrow> keeps cfg U X st st' \<Longrightarrow> ready cfg U n st \<Longrightarrow> ready cfg U n st'"
  using keeps_calls_left [of U cfg X st st'] unfolding ready_def keeps_def by fastforce

text \<open>A step that returns, and keeps what it should.\<close>

definition step_ok :: "config \<Rightarrow> symbol set \<Rightarrow> symbol set \<Rightarrow> state \<Rightarrow> ('a \<times> state) option \<Rightarrow> bool" where
  "step_ok cfg U X st r \<longleftrightarrow> (\<exists>x st'. r = Some (x, st') \<and> keeps cfg U X st st')"

lemma step_okE: "step_ok cfg U X st r \<Longrightarrow> (\<And>x st'. r = Some (x, st') \<Longrightarrow> keeps cfg U X st st' \<Longrightarrow> P) \<Longrightarrow> P"
  unfolding step_ok_def by blast

lemma step_ok_Some [simp]: "step_ok cfg U X st (Some (x, st'))  \<longleftrightarrow> keeps cfg U X st st'"
  by (simp add: step_ok_def)

lemma step_ok_from: "keeps cfg U X st st1 \<Longrightarrow> step_ok cfg U X st1 r \<Longrightarrow> step_ok cfg U X st r"
  unfolding step_ok_def using keeps_trans by blast

lemma step_ok_weaken: "step_ok cfg U {} st r \<Longrightarrow> step_ok cfg U X st r"
  unfolding step_ok_def using keeps_weaken by blast

text \<open>The same for a step without a result.\<close>

definition state_ok :: "config \<Rightarrow> symbol set \<Rightarrow> symbol set \<Rightarrow> state \<Rightarrow> state option \<Rightarrow> bool" where
  "state_ok cfg U X st r \<longleftrightarrow> (\<exists>st'. r = Some st' \<and> keeps cfg U X st st')"

lemma state_okE: "state_ok cfg U X st r \<Longrightarrow> (\<And>st'. r = Some st' \<Longrightarrow> keeps cfg U X st st' \<Longrightarrow> P) \<Longrightarrow> P"
  unfolding state_ok_def by blast

lemma state_ok_Some [simp]: "state_ok cfg U X st (Some st') \<longleftrightarrow> keeps cfg U X st st'"
  by (simp add: state_ok_def)

lemma state_ok_from: "keeps cfg U X st st1 \<Longrightarrow> state_ok cfg U X st1 r \<Longrightarrow> state_ok cfg U X st r"
  unfolding state_ok_def using keeps_trans by blast

lemma step_bind_step:
  assumes "step_ok cfg U X st r" and "\<And>x st'. r = Some (x, st') \<Longrightarrow> keeps cfg U X st st' \<Longrightarrow> step_ok cfg U X st' (f (x, st'))"
  shows "step_ok cfg U X st (r \<bind> f)"
  using assms(1) by (rule step_okE) (use assms(2) in \<open>auto intro: step_ok_from\<close>)

lemma step_bind_state:
  assumes "step_ok cfg U X st r" and "\<And>x st'. r = Some (x, st') \<Longrightarrow> keeps cfg U X st st' \<Longrightarrow> state_ok cfg U X st' (f (x, st'))"
  shows "state_ok cfg U X st (r \<bind> f)"
  using assms(1) by (rule step_okE) (use assms(2) in \<open>auto intro: state_ok_from\<close>)

lemma state_bind_step:
  assumes "state_ok cfg U X st r" and "\<And>st'. r = Some st' \<Longrightarrow> keeps cfg U X st st' \<Longrightarrow> step_ok cfg U X st' (f st')"
  shows "step_ok cfg U X st (r \<bind> f)"
  using assms(1) by (rule state_okE) (use assms(2) in \<open>auto intro: step_ok_from\<close>)

lemma state_bind_state:
  assumes "state_ok cfg U X st r" and "\<And>st'. r = Some st' \<Longrightarrow> keeps cfg U X st st' \<Longrightarrow> state_ok cfg U X st' (f st')"
  shows "state_ok cfg U X st (r \<bind> f)"
  using assms(1) by (rule state_okE) (use assms(2) in \<open>auto intro: state_ok_from\<close>)

lemmas bind_ok = step_bind_step step_bind_state state_bind_step state_bind_state

text \<open>A step of the calculation of \<open>s\<close> itself: its tristate value is kept or becomes \<open>n\<close>.\<close>

definition own_ok :: "config \<Rightarrow> symbol set \<Rightarrow> symbol \<Rightarrow> state \<Rightarrow> state option \<Rightarrow> bool" where
  "own_ok cfg U s st r \<longleftrightarrow>
     (\<exists>st'. r = Some st' \<and> keeps cfg U {s} st st' \<and>
        (cur_tri (node st' s) = cur_tri (node st s) \<or> cur_tri (node st' s) = No))"

lemma own_okE: "own_ok cfg U s st r \<Longrightarrow> (\<And>st'. r = Some st' \<Longrightarrow> keeps cfg U {s} st st' \<Longrightarrow>
    cur_tri (node st' s) = cur_tri (node st s) \<or> cur_tri (node st' s) = No \<Longrightarrow> P) \<Longrightarrow> P"
  unfolding own_ok_def by blast

lemma own_ok_Some: "keeps cfg U {s} st st' \<Longrightarrow> cur_tri (node st' s) = cur_tri (node st s) \<or> cur_tri (node st' s) = No \<Longrightarrow>
    own_ok cfg U s st (Some st')"
  unfolding own_ok_def by blast

lemma own_ok_from:
  "keeps cfg U {s} st st1 \<Longrightarrow> cur_tri (node st1 s) = cur_tri (node st s) \<or> cur_tri (node st1 s) = No \<Longrightarrow>
    own_ok cfg U s st1 r \<Longrightarrow> own_ok cfg U s st r"
  unfolding own_ok_def using keeps_trans by metis

lemma own_bind:
  assumes "own_ok cfg U s st r" and "\<And>st'. r = Some st' \<Longrightarrow> keeps cfg U {s} st st' \<Longrightarrow> own_ok cfg U s st' (f st')"
  shows "own_ok cfg U s st (r \<bind> f)"
  using assms(1) by (rule own_okE) (use assms(2) in \<open>auto intro: own_ok_from\<close>)

lemma keeps_own: "keeps cfg U {} st st' \<Longrightarrow> valid_flag (node st s) \<Longrightarrow> cur_tri (node st' s) = cur_tri (node st s)"
  by (simp add: keeps_def)

lemma keeps_valid: "keeps cfg U X st st' \<Longrightarrow> valid_flag (node st s) \<Longrightarrow> valid_flag (node st' s)"
  by (simp add: keeps_def)

text \<open>A step of a called calculation, inside that of \<open>s\<close>.\<close>

lemma step_bind_own:
  assumes "step_ok cfg U {} st r" and "valid_flag (node st s)"
    and "\<And>x st'. r = Some (x, st') \<Longrightarrow> keeps cfg U {} st st' \<Longrightarrow> own_ok cfg U s st' (f (x, st'))"
  shows "own_ok cfg U s st (r \<bind> f)"
  using assms(1)
proof (rule step_okE)
  fix x st' assume r: "r = Some (x, st')" "keeps cfg U {} st st'"
  then show ?thesis
    using own_ok_from [OF keeps_weaken disjI1 [OF keeps_own], OF r(2) r(2) assms(2) assms(3)] by simp
qed

subsection \<open>What a calculation provides to those that call it\<close>

locale calculation =
  fixes calc :: calculation and cfg :: config and U :: "symbol set" and n :: nat
  assumes calc_ok: "config_ok cfg U \<Longrightarrow> ready cfg U n st \<Longrightarrow> s \<in> U \<Longrightarrow>
    \<exists>st'. calc st s = Some st' \<and> keeps cfg U {} st st'"
begin

lemma then_ready: "config_ok cfg U \<Longrightarrow> keeps cfg U X st st' \<Longrightarrow> ready cfg U n st \<Longrightarrow> ready cfg U n st'"
  using keeps_ready by (simp add: config_ok_def)

lemma string_value_ok:
  "config_ok cfg U \<Longrightarrow> ready cfg U n st \<Longrightarrow> step_ok cfg U {} st (string_value calc cfg st s)"
  using calc_ok [of st "modules_sym cfg"]
  by (auto simp: string_value_def config_ok_def split: tristate.split)

lemma calc_expr_ok:
  assumes U: "config_ok cfg U"
  shows "expr_symbols e \<subseteq> U \<Longrightarrow> ready cfg U n st \<Longrightarrow> step_ok cfg U {} st (calc_expr calc cfg st e)"
proof (induction e arbitrary: st)
  case (E_SYMBOL s)
  then show ?case using calc_ok [OF U, of st s] by auto
next
  case (E_NOT e)
  then have "step_ok cfg U {} st (calc_expr calc cfg st e)" by simp
  then show ?case by (auto elim: step_okE)
next
  case (E_COMP r s1 s2)
  obtain st1 where 1: "calc st s1 = Some st1" "keeps cfg U {} st st1"
    using calc_ok [OF U E_COMP(2), of s1] E_COMP(1) by auto
  note r1 = then_ready [OF U 1(2) E_COMP(2)]
  obtain st2 where 2: "calc st1 s2 = Some st2" "keeps cfg U {} st1 st2" using calc_ok [OF U r1, of s2] E_COMP(1) by auto
  note r2 = then_ready [OF U 2(2) r1]
  obtain t1 st3 where 3: "string_value calc cfg st2 s1 = Some (t1, st3)" "keeps cfg U {} st2 st3"
    by (rule step_okE [OF string_value_ok [OF U r2]])
  note r3 = then_ready [OF U 3(2) r2]
  obtain t2 st4 where 4: "string_value calc cfg st3 s2 = Some (t2, st4)" "keeps cfg U {} st3 st4"
    by (rule step_okE [OF string_value_ok [OF U r3]])
  have "keeps cfg U {} st st4" using 1(2) 2(2) 3(2) 4(2) keeps_trans by blast
  then show ?case by (simp add: 1 2 3 4)
next
  case (E_BIN j e1 e2)
  obtain v1 st1 where 1: "calc_expr calc cfg st e1 = Some (v1, st1)" "keeps cfg U {} st st1"
    using E_BIN.IH(1) [OF _ E_BIN.prems(2)] E_BIN.prems(1) by (auto elim: step_okE)
  obtain v2 st2 where 2: "calc_expr calc cfg st1 e2 = Some (v2, st2)" "keeps cfg U {} st1 st2"
    using E_BIN.IH(2) [OF _ then_ready [OF U 1(2) E_BIN.prems(2)]] E_BIN.prems(1) by (auto elim: step_okE)
  show ?case using keeps_trans [OF 1(2) 2(2)] by (simp add: 1 2)
qed simp_all

lemma calc_expr_ptr_ok:
  "config_ok cfg U \<Longrightarrow> expr_within U e \<Longrightarrow> ready cfg U n st \<Longrightarrow> step_ok cfg U {} st (calc_expr_ptr calc cfg st e)"
  using calc_expr_ok by (cases e) (simp_all add: calc_expr_ptr_def expr_within_def)

lemma calc_expr_or_ok:
  "config_ok cfg U \<Longrightarrow> expr_within U e \<Longrightarrow> ready cfg U n st \<Longrightarrow> step_ok cfg U {} st (calc_expr_or v calc cfg st e)"
  using calc_expr_ok by (cases e) (simp_all add: calc_expr_or_def expr_within_def)

lemma first_visible_ok:
  assumes U: "config_ok cfg U"
  shows "\<forall>p \<in> set ps. prop_ok cfg U s p \<Longrightarrow> ready cfg U n st \<Longrightarrow> step_ok cfg U {} st (first_visible calc cfg kind st ps)"
proof (induction ps arbitrary: st)
  case (Cons p ps)
  obtain v st1 where 1: "calc_expr_ptr calc cfg st (prop_visible p) = Some (v, st1)" "keeps cfg U {} st st1"
    using calc_expr_ptr_ok [OF U _ Cons.prems(2), of "prop_visible p"] Cons.prems(1)
    by (auto simp: prop_ok_def elim: step_okE)
  have "step_ok cfg U {} st (first_visible calc cfg kind st ps)" "step_ok cfg U {} st1 (first_visible calc cfg kind st1 ps)"
    using Cons then_ready [OF U 1(2) Cons.prems(2)] by simp_all
  then show ?case using 1 by (auto intro: step_ok_from)
qed simp

end

lemma first_visible_in:
  "first_visible calc cfg kind st ps = Some (Some (p, v), st') \<Longrightarrow> p \<in> set ps \<and> prop_type p = kind \<and> v \<noteq> No"
  by (induction ps arbitrary: st) (fastforce split: if_splits bind_splits)+

context calculation
begin

lemma prompts_visible_ok:
  assumes U: "config_ok cfg U"
  shows "\<forall>p \<in> set ps. prop_ok cfg U s p \<Longrightarrow> ready cfg U n st \<Longrightarrow>
    step_ok cfg U {} st (prompts_visible calc cfg s c tri st ps)"
proof (induction ps arbitrary: st tri)
  case (Cons p ps)
  have "step_ok cfg U {} st (calc_expr_ptr calc cfg st (prop_visible p))"
    using calc_expr_ptr_ok [OF U _ Cons.prems(2)] Cons.prems(1) by (simp add: prop_ok_def)
  then have "step_ok cfg U {} st (calc_expr_ptr calc cfg st (prop_visible p) \<bind> (\<lambda>(v, st).
        prompts_visible calc cfg s c (EXPR_OR tri (f v st)) st ps))" for f
    by (rule step_bind_step) (simp add: Cons then_ready [OF U _ Cons.prems(2)])
  then show ?case using Cons by (simp add: Let_def)
qed simp

lemma then_state:
  assumes "config_ok cfg U" and "ready cfg U n st" and "state_ok cfg U X st r"
    and "\<And>st'. r = Some st' \<Longrightarrow> keeps cfg U X st st' \<Longrightarrow> ready cfg U n st' \<Longrightarrow> state_ok cfg U X st' (f st')"
  shows "state_ok cfg U X st (r \<bind> f)"
  using assms(3) by (rule state_bind_state) (use assms then_ready in blast)

lemma calc_visible_ok:
  assumes U: "config_ok cfg U" and s: "s \<in> U" and r: "ready cfg U n st"
  shows "state_ok cfg U {} st (calc_visible calc cfg st s)"
proof -
  have ok: "symbol_ok cfg U s" using U s by (simp add: config_ok_def)
  then have "\<exists>c. (if choiceval_flag cfg s
      then (case sym_get_choice_prop cfg s of None \<Rightarrow> None | Some p \<Rightarrow> Some (prop_get_symbol p))
      else Some None) = Some c" by (auto simp: symbol_ok_def choice_of_def split: bind_splits)
  then obtain c where "(if choiceval_flag cfg s
      then (case sym_get_choice_prop cfg s of None \<Rightarrow> None | Some p \<Rightarrow> Some (prop_get_symbol p))
      else Some None) = Some c" ..
  then have "calc_visible calc cfg st s = do {
      (tri, st) \<leftarrow> prompts_visible calc cfg s c No st (props cfg s);
      Some (set_node s (\<lambda>n. n\<lparr>visible := mod_to_yes (type_of cfg s \<noteq> S_TRISTATE \<or> modules_val st = No) tri\<rparr>) st) }"
    by (simp add: calc_visible_def)
  moreover have "step_ok cfg U {} st (prompts_visible calc cfg s c No st (props cfg s))"
    using ok by (intro prompts_visible_ok [OF U _ r]) (simp add: symbol_ok_def)
  ultimately show ?thesis by (auto intro!: step_bind_state keeps_set_node)
qed

lemma sym_calc_visibility_ok:
  assumes U: "config_ok cfg U" and s: "s \<in> U" and r: "ready cfg U n st"
  shows "state_ok cfg U {} st (sym_calc_visibility calc cfg st s)"
proof -
  have ok: "symbol_ok cfg U s" using U s by (simp add: config_ok_def)
  have e: "expr_within U (dir_dep_expr cfg s)" "expr_within U (rev_dep_expr cfg s)" "expr_within U (implied_expr cfg s)"
    using ok by (auto simp: symbol_ok_def)
  have d: "ready cfg U n st \<Longrightarrow> state_ok cfg U {} st (calc_dir_dep calc cfg st s)" for st
    unfolding calc_dir_dep_def
    using calc_expr_or_ok [OF U e(1)] by (auto intro!: step_bind_state keeps_set_node)
  have v: "ready cfg U n st \<Longrightarrow> state_ok cfg U {} st (calc_rev_dep calc cfg st s)" for st
    unfolding calc_rev_dep_def
    using calc_expr_or_ok [OF U e(2)] by (auto intro!: step_bind_state keeps_set_node)
  have i: "ready cfg U n st \<Longrightarrow> state_ok cfg U {} st (calc_implied calc cfg st s)" for st
    unfolding calc_implied_def
    using calc_expr_or_ok [OF U e(3)] by (auto intro!: step_bind_state keeps_set_node)
  show ?thesis
    unfolding sym_calc_visibility_def
    by (rule then_state [OF U r calc_visible_ok [OF U s r]])
      (auto intro!: then_state [OF U _ d] then_state [OF U _ v] i)
qed

end

context calculation
begin

lemma sym_get_range_val_ok:
  "config_ok cfg U \<Longrightarrow> s \<in> U \<Longrightarrow> ready cfg U n st \<Longrightarrow> step_ok cfg U {} st (sym_get_range_val calc cfg st s base)"
  using calc_ok [of st s] by (auto simp: sym_get_range_val_def)

lemma clamp_to_range_ok:
  assumes U: "config_ok cfg U" and p: "range_bounds p = Some (left, right)" "left \<in> U" "right \<in> U"
    and r: "ready cfg U n st" and v: "valid_flag (node st s)"
  shows "own_ok cfg U s st (clamp_to_range calc cfg st s p)"
proof -
  have "keeps cfg U {s} st' (store_number cfg s i st')" for st' i
    unfolding store_number_def by (rule keeps_set_node) simp_all
  then have store: "own_ok cfg U s st' (Some (store_number cfg s i st'))" "own_ok cfg U s st' (Some st')" for st' i
    by (auto intro!: own_ok_Some simp: store_number_def)
  have right: "own_ok cfg U s st1 (do {
      (val2, st) \<leftarrow> sym_get_range_val calc cfg st1 right base;
      Some (if val \<le> val2 then st else store_number cfg s val2 st) })"
    if "ready cfg U n st1" "valid_flag (node st1 s)" for st1 base val
    by (rule step_bind_own [OF sym_get_range_val_ok [OF U p(3) that(1)] that(2)]) (simp add: store)
  show ?thesis
    unfolding clamp_to_range_def Let_def p(1) Option.bind.bind_lunit prod.case
    by (rule step_bind_own [OF sym_get_range_val_ok [OF U p(2) r] v])
      (auto simp: store intro!: right then_ready [OF U _ r] keeps_valid [OF _ v])
qed

lemma sym_validate_range_ok:
  assumes U: "config_ok cfg U" and s: "s \<in> U" and r: "ready cfg U n st" and v: "valid_flag (node st s)"
  shows "own_ok cfg U s st (sym_validate_range calc cfg st s)"
proof -
  have props: "\<forall>p \<in> set (props cfg s). prop_ok cfg U s p" using U s by (simp add: config_ok_def symbol_ok_def)
  have step: "step_ok cfg U {} st (sym_get_range_prop calc cfg st s)"
    unfolding sym_get_range_prop_def by (rule first_visible_ok [OF U props r])
  have same: "own_ok cfg U s st' (Some st')" for st' by (rule own_ok_Some) simp_all
  have clamp: "own_ok cfg U s st1 (clamp_to_range calc cfg st1 s p)"
    if "sym_get_range_prop calc cfg st s = Some (Some (p, t), st1)" "keeps cfg U {} st st1" for p t st1
  proof -
    have "p \<in> set (props cfg s)" "prop_type p = P_RANGE"
      using first_visible_in that(1) unfolding sym_get_range_prop_def by blast+
    then obtain left right where "left \<in> U" "right \<in> U" "range_bounds p = Some (left, right)"
      using props unfolding prop_ok_def by blast
    then show ?thesis
      using clamp_to_range_ok [OF U _ _ _ then_ready [OF U that(2) r] keeps_valid [OF that(2) v]] by blast
  qed
  show ?thesis
    unfolding sym_validate_range_def
    by (cases "type_of cfg s \<noteq> S_INT \<and> type_of cfg s \<noteq> S_HEX")
      (auto simp: same split: option.split intro!: step_bind_own [OF step v] clamp)
qed

end

context calculation
begin

lemma visible_default_ok:
  assumes U: "config_ok cfg U" and c: "choice_flag cfg s"
  shows "\<forall>p \<in> set ps. prop_ok cfg U s p \<Longrightarrow> ready cfg U n st \<Longrightarrow> step_ok cfg U {} st (visible_default calc cfg st ps)"
proof (induction ps arbitrary: st)
  case (Cons p ps)
  have 1: "step_ok cfg U {} st (calc_expr_ptr calc cfg st (prop_visible p))"
    using calc_expr_ptr_ok [OF U _ Cons.prems(2)] Cons.prems(1) by (simp add: prop_ok_def)
  have 2: "prop_type p = P_DEFAULT \<Longrightarrow> prop_get_symbol p \<noteq> None" using Cons.prems(1) c by (auto simp: prop_ok_def)
  have 3: "keeps cfg U {} st st1 \<Longrightarrow> step_ok cfg U {} st1 (visible_default calc cfg st1 ps)" for st1
    using Cons then_ready [OF U _ Cons.prems(2)] by simp
  show ?case
  proof (cases "prop_type p = P_DEFAULT")
    case True
    then obtain d where "prop_get_symbol p = Some d" using 2 by blast
    then show ?thesis using True by (auto intro!: step_bind_step [OF 1] 3)
  qed (simp add: 3)
qed simp

lemma sym_choice_default_ok:
  assumes U: "config_ok cfg U" and s: "s \<in> U" "choice_flag cfg s" and r: "ready cfg U n st"
  shows "step_ok cfg U {} st (sym_choice_default calc cfg st s)"
proof -
  have ok: "\<forall>p \<in> set (props cfg s). prop_ok cfg U s p" "\<exists>ss. choice_values cfg s = Some ss"
    using U s by (auto simp: config_ok_def symbol_ok_def)
  then obtain ss where "choice_values cfg s = Some ss" by blast
  then show ?thesis
    unfolding sym_choice_default_def
    by (auto intro!: step_bind_step [OF visible_default_ok [OF U s(2) ok(1) r]] split: option.split)
qed

lemma values_visible_ok:
  assumes U: "config_ok cfg U"
  shows "set ss \<subseteq> U \<Longrightarrow> ready cfg U n st \<Longrightarrow> step_ok cfg U {} st (values_visible calc cfg flags st ss)"
proof (induction ss arbitrary: flags st)
  case (Cons v ss)
  have "state_ok cfg U {} st (sym_calc_visibility calc cfg st v)"
    using sym_calc_visibility_ok [OF U _ Cons.prems(2)] Cons.prems(1) by simp
  then show ?case
    unfolding values_visible.simps
    by (rule state_bind_step) (use Cons then_ready [OF U _ Cons.prems(2)] in simp)
qed simp

lemma sym_calc_choice_ok:
  assumes U: "config_ok cfg U" and s: "s \<in> U" "choice_flag cfg s" and r: "ready cfg U n st" and v: "valid_flag (node st s)"
  shows "\<exists>d st'. sym_calc_choice calc cfg st s = Some (d, st') \<and> keeps cfg U {s} st st' \<and>
    (cur_tri (node st' s) = cur_tri (node st s) \<or> cur_tri (node st' s) = No)"
proof -
  obtain ss where ss: "choice_values cfg s = Some ss" "set ss \<subseteq> U"
    using U s by (auto simp: config_ok_def symbol_ok_def)
  obtain fl st1 where 1: "values_visible calc cfg (user_flag (node st s)) st ss = Some (fl, st1)" "keeps cfg U {} st st1"
    by (rule step_okE [OF values_visible_ok [OF U ss(2) r]])
  let ?st2 = "set_node s (\<lambda>n. n\<lparr>user_flag := user_flag n \<and> fl\<rparr>) st1"
  have "keeps cfg U {} st1 ?st2" by (rule keeps_set_node) simp_all
  with 1(2) have k2: "keeps cfg U {} st ?st2" by (rule keeps_trans)
  obtain d st3 where 3: "sym_choice_default calc cfg ?st2 s = Some (d, st3)" "keeps cfg U {} ?st2 st3"
    by (rule step_okE [OF sym_choice_default_ok [OF U s then_ready [OF U k2 r]]])
  have k3: "keeps cfg U {} st st3" using k2 3(2) by (rule keeps_trans)
  let ?st4 = "if d = None then set_node s (\<lambda>n. n\<lparr>cur_tri := No\<rparr>) st3 else st3"
  have "keeps cfg U {s} st3 ?st4" by (auto intro: keeps_set_node)
  with keeps_weaken [OF k3] have k4: "keeps cfg U {s} st ?st4" by (rule keeps_trans)
  have t: "cur_tri (node ?st2 s) = cur_tri (node st s)" "cur_tri (node st3 s) = cur_tri (node st s)"
    using keeps_own [OF k2 v] keeps_own [OF k3 v] by blast+
  have "sym_calc_choice calc cfg st s =
      Some (case user_choice ?st2 s of Some d \<Rightarrow> (Some d, ?st2) | None \<Rightarrow> (d, ?st4))"
    unfolding sym_calc_choice_def ss(1) Option.bind.bind_lunit 1(1) prod.case Let_def 3(1)
    by (cases "user_choice ?st2 s") (simp_all only: option.case Option.bind.bind_lunit prod.case 3(1))
  then show ?thesis
    using k4 keeps_weaken [OF k2] t by (cases "user_choice ?st2 s") auto
qed

lemma store_choice_ok:
  assumes U: "config_ok cfg U" and s: "s \<in> U" and r: "ready cfg U n st" and v: "valid_flag (node st s)"
  shows "own_ok cfg U s st (store_choice calc cfg st s)"
proof (cases "choice_flag cfg s \<and> cur_tri (node st s) = Yes")
  case True
  then obtain d st' where 1: "sym_calc_choice calc cfg st s = Some (d, st')" "keeps cfg U {s} st st'"
    "cur_tri (node st' s) = cur_tri (node st s) \<or> cur_tri (node st' s) = No"
    using sym_calc_choice_ok [OF U s _ r v] by blast
  let ?st2 = "set_node s (\<lambda>n. n\<lparr>cur_val := case d of None \<Rightarrow> Null | Some d \<Rightarrow> Pointed d\<rparr>) st'"
  have "keeps cfg U {s} st' ?st2" by (rule keeps_set_node) simp_all
  with 1(2) have "keeps cfg U {s} st ?st2" by (rule keeps_trans)
  then show ?thesis using True 1(1,3) by (simp add: store_choice_def own_ok_def)
qed (auto simp: store_choice_def intro: own_ok_Some)

end

lemma keeps_set_write [simp]: "keeps cfg U X st (set_write s w st)"
  unfolding set_write_def by (auto intro: keeps_set_node)

lemma keeps_set_curr [simp]: "s \<in> X \<Longrightarrow> keeps cfg U X st (set_curr s v t st)"
  unfolding set_curr_def by (rule keeps_set_node) simp_all

lemma fold_keeps: "(\<And>v st. keeps cfg U X st (f v st)) \<Longrightarrow> keeps cfg U X st (fold f vs st)"
  by (induction vs arbitrary: st) (auto intro: keeps_trans)

lemma cur_tri_set_write [simp]: "cur_tri (node (set_write v w st) s) = cur_tri (node st s)"
  by (simp add: set_write_def)

lemma cur_tri_fold_write [simp]:
  "cur_tri (node (fold (\<lambda>v st. set_write v (w st v) st) vs st) s) = cur_tri (node st s)"
  by (induction vs arbitrary: st) simp_all

context calculation
begin

lemma default_tristate_ok:
  assumes U: "config_ok cfg U" and s: "s \<in> U" and r: "ready cfg U n st"
  shows "step_ok cfg U {} st (default_tristate calc cfg st s)"
proof -
  have props: "\<forall>p \<in> set (props cfg s). prop_ok cfg U s p" using U s by (simp add: config_ok_def symbol_ok_def)
  let ?st1 = "set_write s (rev_dep_tri (node st s) \<noteq> No) st"
  have r1: "ready cfg U n ?st1" by (rule then_ready [OF U keeps_set_write r])
  have step: "step_ok cfg U {} ?st1 (sym_get_default_prop calc cfg ?st1 s)"
    unfolding sym_get_default_prop_def by (rule first_visible_ok [OF U props r1])
  have "step_ok cfg U {} st2 (case x of None \<Rightarrow> Some (No, st2)
      | Some (p, v) \<Rightarrow> do {
          (x, st) \<leftarrow> calc_expr_ptr calc cfg st2 (prop_expr p);
          Some (EXPR_AND x v, set_write s (EXPR_AND x v \<noteq> No) st) })"
    if x: "sym_get_default_prop calc cfg ?st1 s = Some (x, st2)" "keeps cfg U {} ?st1 st2" for x st2
  proof (cases x)
    case (Some pv)
    obtain p v where pv: "pv = (p, v)" by (cases pv)
    then have "p \<in> set (props cfg s)" "prop_type p = P_DEFAULT"
      using first_visible_in x(1) Some unfolding sym_get_default_prop_def by blast+
    then have "expr_within U (prop_expr p)" using props by (auto simp: prop_ok_def)
    then have "step_ok cfg U {} st2 (calc_expr_ptr calc cfg st2 (prop_expr p))"
      by (rule calc_expr_ptr_ok [OF U _ then_ready [OF U x(2) r1]])
    then show ?thesis unfolding Some pv option.case prod.case by (rule step_bind_step) simp
  qed simp
  note value_step = this
  show ?thesis
  proof (cases "choice_flag cfg s")
    case False
    have "step_ok cfg U {} ?st1 (default_tristate calc cfg st s)"
      unfolding default_tristate_def Let_def if_not_P [OF False]
    proof (rule step_bind_step [OF step], unfold prod.case, rule step_bind_step [OF value_step])
      fix tri st3
      show "step_ok cfg U {} st3 (case (tri, st3) of (tri, st) \<Rightarrow>
          Some (if implied_tri (node st s) \<noteq> No then EXPR_OR tri (implied_tri (node st s)) else tri,
            set_write s (implied_tri (node st s) \<noteq> No) st))" by simp
    qed
    then show ?thesis by (rule step_ok_from [OF keeps_set_write])
  qed (simp add: default_tristate_def)
qed

lemma calc_tristate_ok:
  assumes U: "config_ok cfg U" and s: "s \<in> U" and r: "ready cfg U n st"
  shows "\<exists>tri st'. calc_tristate calc cfg st s = Some (tri, st') \<and> keeps cfg U {} st st' \<and>
    (boolean_now cfg st' s \<longrightarrow> tri \<noteq> Mod)"
proof -
  have two: "mod_to_yes (b \<or> c) tri \<noteq> Mod" if b for b c tri using that by (simp add: mod_to_yes_def)
  show ?thesis
  proof (cases "choiceval_flag cfg s \<and> visible (node st s) = Yes")
    case True
    then obtain c where "choice_of cfg s = Some c" using U s by (auto simp: config_ok_def symbol_ok_def)
    then show ?thesis using True two by (auto simp: calc_tristate_def)
  next
    case False
    obtain tri st' where "(if visible (node st s) \<noteq> No \<and> user_flag (node st s)
        then Some (EXPR_AND (user_tri (node st s)) (visible (node st s)), st)
        else default_tristate calc cfg st s) = Some (tri, st')" "keeps cfg U {} st st'"
      using default_tristate_ok [OF U s r] by (cases "visible (node st s) \<noteq> No \<and> user_flag (node st s)") (auto elim: step_okE)
    then show ?thesis using False two by (auto simp: calc_tristate_def)
  qed
qed

lemma calc_string_ok:
  assumes U: "config_ok cfg U" and s: "s \<in> U" and r: "ready cfg U n st"
  shows "step_ok cfg U {} st (calc_string calc cfg st s)"
proof -
  have props: "\<forall>p \<in> set (props cfg s). prop_ok cfg U s p" using U s by (simp add: config_ok_def symbol_ok_def)
  have step: "step_ok cfg U {} st (sym_get_default_prop calc cfg st s)"
    unfolding sym_get_default_prop_def by (rule first_visible_ok [OF U props r])
  have "step_ok cfg U {} st2 (do { st \<leftarrow> calc (set_write s True st2) ds; Some (cur_val (node st ds), st) })"
    if x: "sym_get_default_prop calc cfg st s = Some (Some (p, v), st2)" "keeps cfg U {} st st2"
      "prop_get_symbol p = Some ds" for p v st2 ds
  proof -
    have "p \<in> set (props cfg s)" "prop_type p = P_DEFAULT"
      using first_visible_in x(1) unfolding sym_get_default_prop_def by blast+
    then have "ds \<in> U" using props prop_get_symbol_within [OF _ x(3)] by (auto simp: prop_ok_def)
    moreover have "ready cfg U n (set_write s True st2)" by (rule then_ready [OF U keeps_set_write then_ready [OF U x(2) r]])
    ultimately obtain st3 where "calc (set_write s True st2) ds = Some st3" "keeps cfg U {} (set_write s True st2) st3"
      using calc_ok [OF U] by blast
    then show ?thesis using keeps_trans [OF keeps_set_write] by auto
  qed
  then show ?thesis
    unfolding calc_string_def by (auto intro!: step_bind_step [OF step] split: option.split)
qed

lemma store_value_ok:
  assumes U: "config_ok cfg U" and s: "s \<in> U" and r: "ready cfg U n st" and v: "valid_flag (node st s)"
  shows "own_ok cfg U s st (store_value calc cfg oldval st s)"
  unfolding store_value_def
proof (rule own_bind [OF store_choice_ok [OF U s r v]], rule own_bind)
  fix st1 assume k1: "keeps cfg U {s} st st1"
  show "own_ok cfg U s st1 (sym_validate_range calc cfg st1 s)"
    by (rule sym_validate_range_ok [OF U s then_ready [OF U k1 r] keeps_valid [OF k1 v]])
next
  fix st1 st2
  have "keeps cfg U {s} st2 (note_modules cfg oldval st2 s)"
    by (auto simp: note_modules_def keeps_def)
  moreover have "cur_tri (node (note_modules cfg oldval st2 s) s) = cur_tri (node st2 s)"
    by (simp add: note_modules_def)
  moreover have "own_ok cfg U s st' (pass_on cfg st' s)" for st'
  proof -
    obtain ss where ss: "choice_flag cfg s \<Longrightarrow> choice_values cfg s = Some ss"
      using U s by (auto simp: config_ok_def symbol_ok_def)
    let ?f = "\<lambda>st. fold (\<lambda>v st. set_write v (write_flag (node st s) \<and> visible (node st v) \<noteq> No) st) ss st"
    have "keeps cfg U {s} st' (if choice_flag cfg s then ?f st' else st')" by (auto intro!: fold_keeps)
    moreover have "keeps cfg U {s} st1 (if no_write_flag cfg s then set_node s (\<lambda>n. n\<lparr>write_flag := False\<rparr>) st1 else st1)" for st1
      by (auto intro: keeps_set_node)
    ultimately show ?thesis
      using ss by (cases "choice_flag cfg s") (auto simp: pass_on_def intro!: own_ok_Some elim: keeps_trans)
  qed
  ultimately show "own_ok cfg U s st2 (pass_on cfg (note_modules cfg oldval st2 s) s)"
    using own_ok_from by metis
qed

end

text \<open>From a step of the calculation of an invalid symbol to the calculation.\<close>

lemma keeps_close:
  assumes "keeps cfg U {s} st st'" and "\<not> valid_flag (node st s)"
    and "valid_flag (node st (modules_sym cfg)) \<Longrightarrow> well_typed cfg st' s"
    and "type_of cfg s = S_BOOLEAN \<Longrightarrow> cur_tri (node st' s) \<noteq> Mod"
  shows "keeps cfg U {} st st'"
proof -
  have m: "valid_flag (node st (modules_sym cfg)) \<Longrightarrow> modules_sym cfg \<notin> {s}" using assms(2) by auto
  have "well_typed cfg st' t"
    if "valid_flag (node st (modules_sym cfg))" "valid_flag (node st' t)" "\<not> valid_flag (node st t)" for t
    using assms m [OF that(1)] that unfolding keeps_def by (cases "t = s") blast+
  moreover have "valid_flag (node st t) \<Longrightarrow> t \<notin> {s}" for t using assms(2) by auto
  moreover have "cur_tri (node st' t) \<noteq> Mod"
    if "valid_flag (node st' t)" "\<not> valid_flag (node st t)" "type_of cfg t = S_BOOLEAN" for t
    using assms that unfolding keeps_def by (cases "t = s") simp_all
  ultimately show ?thesis using assms(1) m unfolding keeps_def by simp
qed

lemma keeps_invalidate:
  assumes "keeps cfg U {} st st'" and "\<not> valid_flag (node st s)" and "\<not> valid_flag (f (node st' s))"
    and "need_set_flag (f (node st' s)) \<Longrightarrow> need_set_flag (node st' s)"
  shows "keeps cfg U {} st (set_node s f st')"
  using assms unfolding keeps_def by (auto simp: well_typed_def split: symbol_type.splits)

lemma set_all_choice_values_keeps:
  assumes "choice_values cfg s = Some ss" and "keeps cfg U {} st st'" and "\<not> valid_flag (node st s)"
  shows "\<exists>st''. set_all_choice_values cfg st' s = Some st'' \<and> keeps cfg U {} st st''"
proof -
  let ?f = "fold (\<lambda>v st. if user_flag (node st v) then st else set_node v (\<lambda>n. n\<lparr>user_tri := No\<rparr>) st) ss st'"
  have "keeps cfg U {} st' ?f" by (rule fold_keeps) (auto intro: keeps_set_node)
  with assms(2) have "keeps cfg U {} st ?f" by (rule keeps_trans)
  then show ?thesis
    unfolding set_all_choice_values_def assms(1) by (auto intro!: keeps_invalidate [OF _ assms(3)])
qed

lemma calls_left_less:
  assumes "finite U" and "keeps cfg U X st st'" and "s \<in> U"
    and "\<not> valid_flag (node st s) \<and> valid_flag (node st' s) \<or> need_set_flag (node st s) \<and> \<not> need_set_flag (node st' s)"
  shows "calls_left U st' < calls_left U st"
proof -
  let ?v = "\<lambda>st. {s \<in> U. \<not> valid_flag (node st s)}" and ?n = "\<lambda>st. {s \<in> U. need_set_flag (node st s)}"
  have sub: "?v st' \<subseteq> ?v st" "?n st' \<subseteq> ?n st" using assms(2) by (auto simp: keeps_def)
  have fin: "finite (?v st)" "finite (?n st)" using assms(1) by simp_all
  from assms(4) have "?v st' \<subset> ?v st \<or> ?n st' \<subset> ?n st" using sub assms(3) by auto
  then have "card (?v st') < card (?v st) \<or> card (?n st') < card (?n st)" 
    using psubset_card_mono [OF fin(1)] psubset_card_mono [OF fin(2)] by blast
  moreover have "card (?v st') \<le> card (?v st)" "card (?n st') \<le> card (?n st)" 
    using card_mono [OF fin(1) sub(1)] card_mono [OF fin(2) sub(2)] by blast+
  ultimately show ?thesis by (auto simp: calls_left_def)
qed

lemma start_value_None: "start_value t = None \<longleftrightarrow> t = S_UNKNOWN \<or> t = S_OTHER"
  by (cases t) (simp_all add: start_value_def)

context calculation
begin

lemma calc_typed_ok:
  assumes U: "config_ok cfg U" and s: "s \<in> U" and r: "ready cfg U n st" and v: "valid_flag (node st s)"
  shows "\<exists>st'. calc_typed calc cfg start st s = Some st' \<and> keeps cfg U {s} st st' \<and>
    (valid_flag (node st (modules_sym cfg)) \<and> s \<noteq> modules_sym cfg \<and> start_value (type_of cfg s) = Some start \<longrightarrow>
       well_typed cfg st' s) \<and>
    (type_of cfg s = S_BOOLEAN \<longrightarrow> cur_tri (node st' s) \<noteq> Mod)"
proof -
  let ?oldval = "(cur_val (node st s), cur_tri (node st s))"
  let ?st0 = "set_node s (\<lambda>n. n\<lparr>write_flag := False\<rparr>) st"
  have k0: "keeps cfg U {} st ?st0" by (rule keeps_set_node) simp_all
  obtain st1 where 1: "sym_calc_visibility calc cfg ?st0 s = Some st1" "keeps cfg U {} ?st0 st1"
    by (rule state_okE [OF sym_calc_visibility_ok [OF U s then_ready [OF U k0 r]]])
  let ?st2 = "set_curr s start No (set_write s (visible (node st1 s) \<noteq> No) st1)"
  have "keeps cfg U {s} st st1" by (rule keeps_weaken [OF keeps_trans [OF k0 1(2)]])
  moreover have "keeps cfg U {s} st1 ?st2" 
    by (rule keeps_trans [of cfg U "{s}" st1 "set_write s (visible (node st1 s) \<noteq> No) st1"]) simp_all
  ultimately have k2: "keeps cfg U {s} st ?st2" by (rule keeps_trans)
  note r2 = then_ready [OF U k2 r]
  have final: "\<exists>st'. store_value calc cfg ?oldval (set_curr s w t st3) s = Some st' \<and> keeps cfg U {s} st st' \<and>
      keeps cfg U {s} st3 st' \<and> (cur_tri (node st' s) = t \<or> cur_tri (node st' s) = No)"
    if k3: "keeps cfg U {} ?st2 st3" for st3 w t
  proof -
    have k4: "keeps cfg U {s} st3 (set_curr s w t st3)" by simp
    have k5: "keeps cfg U {s} st (set_curr s w t st3)" using k2 keeps_weaken [OF k3] k4 keeps_trans by blast
    obtain st' where "store_value calc cfg ?oldval (set_curr s w t st3) s = Some st'"
      "keeps cfg U {s} (set_curr s w t st3) st'"
      "cur_tri (node st' s) = cur_tri (node (set_curr s w t st3) s) \<or> cur_tri (node st' s) = No"
      by (rule own_okE [OF store_value_ok [OF U s then_ready [OF U k5 r] keeps_valid [OF k5 v]]])
    then show ?thesis using keeps_trans [OF k5] keeps_trans [OF k4] by (auto simp: set_curr_def)
  qed
  show ?thesis
  proof (cases "type_of cfg s = S_BOOLEAN \<or> type_of cfg s = S_TRISTATE")
    case True
    obtain tri st3 where 3: "calc_tristate calc cfg ?st2 s = Some (tri, st3)" "keeps cfg U {} ?st2 st3"
      "boolean_now cfg st3 s \<longrightarrow> tri \<noteq> Mod" using calc_tristate_ok [OF U s r2] by blast
    obtain st' where st': "store_value calc cfg ?oldval (set_curr s start tri st3) s = Some st'" "keeps cfg U {s} st st'"
      "keeps cfg U {s} st3 st'" "cur_tri (node st' s) = tri \<or> cur_tri (node st' s) = No"
      using final [OF 3(2)] by blast
    have "well_typed cfg st' s" if "valid_flag (node st (modules_sym cfg))" "s \<noteq> modules_sym cfg"
    proof -
      have "valid_flag (node st3 (modules_sym cfg))"
        using keeps_valid [OF 3(2)] keeps_valid [OF k2] that(1) by blast
      then have "modules_val st' = modules_val st3" using st'(3) that(2) by (simp add: keeps_def)
      moreover have "modules_val st3 = No \<or> type_of cfg s = S_BOOLEAN \<longrightarrow> boolean_now cfg st3 s"
        using True by (auto simp: boolean_now_def sym_get_type_def)
      ultimately show ?thesis using True st'(4) 3(3) by (auto simp: well_typed_def)
    qed
    moreover have "type_of cfg s = S_BOOLEAN \<longrightarrow> cur_tri (node st' s) \<noteq> Mod"
      using st'(4) 3(3) by (auto simp: boolean_now_def sym_get_type_def)
    ultimately show ?thesis using True st' 1(1) 3(1) by (auto simp: calc_typed_def Let_def)
  next
    case False
    obtain w st3 where 3: "calc_string calc cfg ?st2 s = Some (w, st3)" "keeps cfg U {} ?st2 st3"
      by (rule step_okE [OF calc_string_ok [OF U s r2]])
    obtain st' where st': "store_value calc cfg ?oldval (set_curr s w No st3) s = Some st'" "keeps cfg U {s} st st'"
      "cur_tri (node st' s) = No"
      using final [OF 3(2)] by blast
    have "well_typed cfg st' s" using False st'(3) by (cases "type_of cfg s") (simp_all add: well_typed_def)
    then show ?thesis using False st' 1(1) 3(1) by (auto simp: calc_typed_def Let_def)
  qed
qed

end

context calculation
begin

text \<open>From the state in which \<open>s\<close> is invalid to the end of its calculation.\<close>

lemma calc_marked_ok:
  assumes U: "config_ok cfg U" and s: "s \<in> U" and pre: "keeps cfg U {s} st0 st" "\<not> valid_flag (node st0 s)"
    and r: "ready cfg U n st" and v: "valid_flag (node st s)" and need: "choiceval_flag cfg s \<Longrightarrow> \<not> need_set_flag (node st s)"
  shows "state_ok cfg U {} st0 (calc_marked calc cfg st s)"
proof (cases "start_value (type_of cfg s)")
  case None
  have "keeps cfg U {s} st0 (set_curr s (name_pointer cfg s) No st)"
    using keeps_trans [OF pre(1)] by simp
  moreover have "well_typed cfg (set_curr s (name_pointer cfg s) No st) s"
    using None by (cases "type_of cfg s") (simp_all add: well_typed_def set_curr_def start_value_def)
  ultimately have "keeps cfg U {} st0 (set_curr s (name_pointer cfg s) No st)"
    by (rule keeps_close [OF _ pre(2)]) (simp add: set_curr_def)
  then show ?thesis by (simp add: calc_marked_def None)
next
  case (Some start)
  obtain st' where st': "calc_typed calc cfg start st s = Some st'" "keeps cfg U {s} st st'"
    "valid_flag (node st (modules_sym cfg)) \<and> s \<noteq> modules_sym cfg \<longrightarrow> well_typed cfg st' s"
    "type_of cfg s = S_BOOLEAN \<longrightarrow> cur_tri (node st' s) \<noteq> Mod"
    using calc_typed_ok [OF U s r v, of start] Some by blast
  have "keeps cfg U {s} st0 st'" using pre(1) st'(2) by (rule keeps_trans)
  moreover have "well_typed cfg st' s" if "valid_flag (node st0 (modules_sym cfg))"
    using st'(3) keeps_valid [OF pre(1) that] that pre(2) by metis
  ultimately have k: "keeps cfg U {} st0 st'" using keeps_close pre(2) st'(4) by blast
  show ?thesis
  proof (cases "need_set_flag (node st' s)")
    case True
    then have need_st: "need_set_flag (node st s)" using st'(2) by (simp add: keeps_def)
    then have "choice_flag cfg s" using r need unfolding ready_def by blast
    then obtain ss where ss: "choice_values cfg s = Some ss" using U s by (auto simp: config_ok_def symbol_ok_def)
    obtain st'' where "set_all_choice_values cfg st' s = Some st''" "keeps cfg U {} st0 st''"
      using set_all_choice_values_keeps [OF ss k pre(2)] by blast
    then show ?thesis using True st'(1) by (simp add: calc_marked_def Some)
  qed (use k st'(1) in \<open>simp add: calc_marked_def Some\<close>)
qed

end

text \<open>\<open>sym_calc_value\<close> returns if its depth exceeds the calls that are left.\<close>

lemma sym_calc_value_ok:
  assumes U: "config_ok cfg U"
  shows "ready cfg U depth st \<Longrightarrow> s \<in> U \<Longrightarrow> state_ok cfg U {} st (sym_calc_value depth cfg st s)"
proof (induction depth arbitrary: st s)
  case 0
  then show ?case by (simp add: ready_def)
next
  case (Suc depth)
  have calc: "calculation (sym_calc_value depth cfg) cfg U depth"
    by unfold_locales (use Suc.IH in \<open>auto simp: state_ok_def\<close>)
  have fin: "finite U" using U by (simp add: config_ok_def)
  let ?mark = "set_node s (\<lambda>n. n\<lparr>valid_flag := True\<rparr>)"
  show ?case
  proof (cases "valid_flag (node st s)")
    case inv: False
    have marked: "state_ok cfg U {} st (calc_marked (sym_calc_value depth cfg) cfg (?mark st1) s)"
      if k: "keeps cfg U {} st st1" and need: "choiceval_flag cfg s \<Longrightarrow> \<not> need_set_flag (node st1 s)"
        and less: "calls_left U (?mark st1) < calls_left U st" for st1
    proof (rule calculation.calc_marked_ok [OF calc U Suc.prems(2) _ inv])
      have "keeps cfg U {s} st1 (?mark st1)" using Suc.prems(2) by (auto simp: keeps_def)
      with keeps_weaken [OF k] show "keeps cfg U {s} st (?mark st1)" by (rule keeps_trans)
      then show "ready cfg U depth (?mark st1)"
        using Suc.prems(1) less unfolding ready_def keeps_def by fastforce
    qed (use need in simp_all)
    show ?thesis
    proof (cases "choiceval_flag cfg s \<and> need_set_flag (node st s)")
      case True
      then obtain c where c: "c \<in> U" "choice_of cfg s = Some c"
        using U Suc.prems(2) by (auto simp: config_ok_def symbol_ok_def)
      let ?st1 = "set_node s (\<lambda>n. n\<lparr>need_set_flag := False\<rparr>) st"
      have k1: "keeps cfg U {} st ?st1" by (rule keeps_set_node) simp_all
      have less: "calls_left U ?st1 < calls_left U st"
        by (rule calls_left_less [OF fin k1 Suc.prems(2)]) (use True in simp)
      then have r1: "ready cfg U depth ?st1" using Suc.prems(1) k1 unfolding ready_def keeps_def by fastforce
      obtain st2 where st2: "sym_calc_value depth cfg ?st1 c = Some st2" "keeps cfg U {} ?st1 st2"
        by (rule state_okE [OF Suc.IH [OF r1 c(1)]])
      have "keeps cfg U {s} st2 (?mark st2)" using Suc.prems(2) by (auto simp: keeps_def)
      then have "calls_left U (?mark st2) \<le> calls_left U ?st1"
        using keeps_calls_left [OF fin] st2(2) le_trans by blast
      moreover have "\<not> need_set_flag (node st2 s)" using st2(2) by (auto simp: keeps_def)
      ultimately show ?thesis
        using marked [OF keeps_trans [OF k1 st2(2)]] less inv True by (simp add: c(2) st2(1))
    next
      case False
      have "keeps cfg U {s} st (?mark st)" using Suc.prems(2) by (auto simp: keeps_def)
      then have "calls_left U (?mark st) < calls_left U st"
        by (rule calls_left_less [OF fin _ Suc.prems(2)]) (use inv in simp)
      then have "state_ok cfg U {} st (calc_marked (sym_calc_value depth cfg) cfg (?mark st) s)"
        using marked [of st] False by simp
      then show ?thesis using inv False by auto
    qed
  qed simp
qed

interpretation sym_calc: calculation "sym_calc_value depth cfg" cfg U depth for depth cfg U
  by unfold_locales (use sym_calc_value_ok in \<open>auto simp: state_ok_def\<close>)

end
