(* ===== verification/Kconfig_Depth.thy ===== *)
theory Kconfig_Depth
  imports Kconfig_Calc
begin

text \<open>
  The depth of \<open>sym_calc_value\<close> does not matter once it is enough: a larger one gives the same
  result. Every function of \<open>Kconfig_Symbol\<close> is monotone in the calculation it calls.
\<close>

subsection \<open>Results that may be missing\<close>

definition at_most :: "'a option \<Rightarrow> 'a option \<Rightarrow> bool" where
  "at_most a b \<longleftrightarrow> a = None \<or> a = b"

named_theorems at_most_intros

lemma at_most_refl [at_most_intros, simp]: "at_most a a"
  by (simp add: at_most_def)

lemma at_most_bind [at_most_intros]:
  "at_most a b \<Longrightarrow> (\<And>x. at_most (f x) (g x)) \<Longrightarrow> at_most (a \<bind> f) (b \<bind> g)"
  unfolding at_most_def by (cases a) fastforce+

lemma at_most_if [at_most_intros]:
  "at_most a c \<Longrightarrow> at_most b d \<Longrightarrow> at_most (if p then a else b) (if p then c else d)"
  by simp

lemma at_most_prod [at_most_intros]:
  "(\<And>x y. at_most (f x y) (g x y)) \<Longrightarrow> at_most (case p of (x, y) \<Rightarrow> f x y) (case p of (x, y) \<Rightarrow> g x y)"
  by (cases p) simp

lemma at_most_option [at_most_intros]:
  "at_most a c \<Longrightarrow> (\<And>x. at_most (f x) (g x)) \<Longrightarrow> at_most (case_option a f x) (case_option c g x)"
  by (cases x) simp_all

lemma at_most_tristate [at_most_intros]:
  "at_most a a' \<Longrightarrow> at_most b b' \<Longrightarrow> at_most c c' \<Longrightarrow> at_most (case_tristate a b c x) (case_tristate a' b' c' x)"
  by (cases x) simp_all

lemma at_most_Let [at_most_intros]: "(\<And>x. at_most (f x) (g x)) \<Longrightarrow> at_most (Let a f) (Let a g)"
  by simp

lemma at_most_Some: "at_most a b \<Longrightarrow> a = Some x \<Longrightarrow> b = Some x"
  by (simp add: at_most_def)

subsection \<open>Monotone functions\<close>

locale deeper =
  fixes calc calc' :: calculation
  assumes calc_at_most [at_most_intros]: "at_most (calc st s) (calc' st s)"
begin

lemma string_value_mono [at_most_intros]: "at_most (string_value calc cfg st s) (string_value calc' cfg st s)"
  unfolding string_value_def by (intro at_most_intros)

lemma calc_expr_mono [at_most_intros]: "at_most (calc_expr calc cfg st e) (calc_expr calc' cfg st e)"
proof (induction e arbitrary: st)
  case (E_BIN j e1 e2)
  show ?case unfolding calc_expr.simps by (intro at_most_intros E_BIN.IH)
next
  case (E_NOT e)
  show ?case unfolding calc_expr.simps by (intro at_most_intros E_NOT.IH)
qed (unfold calc_expr.simps, (intro at_most_intros)+)

lemma calc_expr_ptr_mono [at_most_intros]: "at_most (calc_expr_ptr calc cfg st e) (calc_expr_ptr calc' cfg st e)"
  unfolding calc_expr_ptr_def by (intro at_most_intros)

lemma calc_expr_or_mono [at_most_intros]: "at_most (calc_expr_or v calc cfg st e) (calc_expr_or v calc' cfg st e)"
  unfolding calc_expr_or_def by (intro at_most_intros)

lemma first_visible_mono [at_most_intros]:
  "at_most (first_visible calc cfg kind st ps) (first_visible calc' cfg kind st ps)"
  by (induction ps arbitrary: st) (unfold first_visible.simps, (intro at_most_intros; assumption?)+)

lemma get_prop_mono [at_most_intros]:
  "at_most (sym_get_default_prop calc cfg st s) (sym_get_default_prop calc' cfg st s)"
  "at_most (sym_get_range_prop calc cfg st s) (sym_get_range_prop calc' cfg st s)"
  unfolding sym_get_default_prop_def sym_get_range_prop_def by (intro at_most_intros)+

lemma range_mono [at_most_intros]:
  "at_most (sym_get_range_val calc cfg st s base) (sym_get_range_val calc' cfg st s base)"
  unfolding sym_get_range_val_def by (intro at_most_intros)

lemma clamp_mono [at_most_intros]: "at_most (clamp_to_range calc cfg st s p) (clamp_to_range calc' cfg st s p)"
  unfolding clamp_to_range_def by (intro at_most_intros)

lemma validate_mono [at_most_intros]: "at_most (sym_validate_range calc cfg st s) (sym_validate_range calc' cfg st s)"
  unfolding sym_validate_range_def by (intro at_most_intros)

lemma prompts_mono [at_most_intros]:
  "at_most (prompts_visible calc cfg s c tri st ps) (prompts_visible calc' cfg s c tri st ps)"
  by (induction ps arbitrary: tri st) (unfold prompts_visible.simps, (intro at_most_intros; assumption?)+)

lemma visibility_mono [at_most_intros]:
  "at_most (sym_calc_visibility calc cfg st s) (sym_calc_visibility calc' cfg st s)"
  unfolding sym_calc_visibility_def calc_visible_def calc_dir_dep_def calc_rev_dep_def calc_implied_def
  by (intro at_most_intros)

lemma visible_default_mono [at_most_intros]:
  "at_most (visible_default calc cfg st ps) (visible_default calc' cfg st ps)"
  by (induction ps arbitrary: st) (unfold visible_default.simps, (intro at_most_intros; assumption?)+)

lemma choice_default_mono [at_most_intros]:
  "at_most (sym_choice_default calc cfg st s) (sym_choice_default calc' cfg st s)"
  unfolding sym_choice_default_def by (intro at_most_intros)

lemma values_visible_mono [at_most_intros]:
  "at_most (values_visible calc cfg flags st ss) (values_visible calc' cfg flags st ss)"
  by (induction ss arbitrary: flags st) (unfold values_visible.simps, (intro at_most_intros; assumption?)+)

lemma calc_choice_mono [at_most_intros]: "at_most (sym_calc_choice calc cfg st s) (sym_calc_choice calc' cfg st s)"
  unfolding sym_calc_choice_def by (intro at_most_intros)

lemma calc_marked_mono [at_most_intros]: "at_most (calc_marked calc cfg st s) (calc_marked calc' cfg st s)"
  unfolding calc_marked_def calc_typed_def store_value_def store_choice_def calc_tristate_def default_tristate_def
    calc_string_def
  by (intro at_most_intros)

end

lemma sym_calc_value_mono: "at_most (sym_calc_value depth cfg st s) (sym_calc_value (depth + extra) cfg st s)"
proof (induction depth arbitrary: st s extra)
  case 0
  show ?case by (simp add: at_most_def)
next
  case (Suc depth)
  have d: "deeper (sym_calc_value depth cfg) (sym_calc_value (depth + extra) cfg)"
    by unfold_locales (rule Suc.IH)
  show ?case
    unfolding add_Suc sym_calc_value.simps
    by (intro at_most_intros Suc.IH deeper.calc_marked_mono [OF d])
qed

interpretation depth: deeper "sym_calc_value depth cfg" "sym_calc_value (depth + extra) cfg" for depth extra cfg
  by unfold_locales (rule sym_calc_value_mono)

end
