(* ===== verification/Kconfig_Value.thy ===== *)
theory Kconfig_Value
  imports Kconfig_Depth
begin

text \<open>
  Setting the value of a symbol (\<open>scripts/kconfig/symbol.c\<close>): what is accepted for a tristate, a
  number and a string, the change of the user's value, and the calculation of the whole
  configuration after it (\<open>sym_clear_all_valid\<close>, and the loop of \<open>conf_read\<close>). The depth is that
  of \<open>sym_calc_value\<close>.
\<close>

subsection \<open>The whole configuration\<close>

definition clear_valid :: "config \<Rightarrow> state \<Rightarrow> state" where
  "clear_valid cfg st = fold (\<lambda>s. set_node s (\<lambda>n. n\<lparr>valid_flag := False\<rparr>)) (all_symbols cfg) st"

definition sym_clear_all_valid :: "nat \<Rightarrow> config \<Rightarrow> state \<Rightarrow> state option" where
  "sym_clear_all_valid depth cfg st =
     (let st = clear_valid cfg st in
      sym_calc_value depth cfg (st\<lparr>change_count := change_count st + 1\<rparr>) (modules_sym cfg))"

fun calc_all :: "nat \<Rightarrow> config \<Rightarrow> state \<Rightarrow> symbol list \<Rightarrow> state option" where
  "calc_all depth cfg st [] = Some st"
| "calc_all depth cfg st (s # ss) = do { st \<leftarrow> sym_calc_value depth cfg st s; calc_all depth cfg st ss }"

subsection \<open>Tristate values\<close>

definition sym_tristate_within_range :: "config \<Rightarrow> state \<Rightarrow> symbol \<Rightarrow> tristate \<Rightarrow> bool" where
  "sym_tristate_within_range cfg st s val =
     (let type = sym_get_type cfg st s; n = node st s in
      if visible n = No then False
      else if type \<noteq> S_BOOLEAN \<and> type \<noteq> S_TRISTATE then False
      else if type = S_BOOLEAN \<and> val = Mod then False
      else if visible n \<le> rev_dep_tri n then False
      else if implied_tri n = Yes \<and> val = Mod then False
      else if choiceval_flag cfg s \<and> visible n = Yes then val = Yes
      else val \<ge> rev_dep_tri n \<and> val \<le> visible n)"

text \<open>A chosen value is stored in its choice, and the new flags of the choice are reset.\<close>

definition set_user_choice :: "config \<Rightarrow> state \<Rightarrow> symbol \<Rightarrow> state option" where
  "set_user_choice cfg st s = do {
     cs \<leftarrow> choice_of cfg s;
     ss \<leftarrow> choice_values cfg cs;
     let st = set_node cs (\<lambda>n. n\<lparr>user_val := Pointed s, user_flag := True\<rparr>) st;
     Some (fold (\<lambda>v st. if visible (node st v) \<noteq> No then set_node v (\<lambda>n. n\<lparr>user_flag := True\<rparr>) st else st) ss st) }"

definition sym_set_tristate_value :: "nat \<Rightarrow> config \<Rightarrow> state \<Rightarrow> symbol \<Rightarrow> tristate \<Rightarrow> (bool \<times> state) option" where
  "sym_set_tristate_value depth cfg st s val =
     (let oldval = cur_tri (node st s) in
      if oldval \<noteq> val \<and> \<not> sym_tristate_within_range cfg st s val then Some (False, st)
      else do {
        let st = set_node s (\<lambda>n. n\<lparr>user_flag := True\<rparr>) st;
        st \<leftarrow> (if choiceval_flag cfg s \<and> val = Yes then set_user_choice cfg st s else Some st);
        let st = set_node s (\<lambda>n. n\<lparr>user_tri := val\<rparr>) st;
        st \<leftarrow> (if oldval \<noteq> val then sym_clear_all_valid depth cfg st else Some st);
        Some (True, st) })"

fun next_tristate :: "tristate \<Rightarrow> tristate" where
  "next_tristate No = Mod"
| "next_tristate Mod = Yes"
| "next_tristate Yes = No"

text \<open>How many more values until the loop of \<open>sym_toggle_tristate_value\<close> is back at the old one.\<close>

definition values_left :: "tristate \<Rightarrow> tristate \<Rightarrow> nat" where
  "values_left oldval newval =
     (if newval = oldval then 3 else if next_tristate newval = oldval then 1 else 2)"

function toggle_loop :: "nat \<Rightarrow> config \<Rightarrow> symbol \<Rightarrow> tristate \<Rightarrow> state \<Rightarrow> tristate \<Rightarrow> (tristate \<times> state) option" where
  "toggle_loop depth cfg s oldval st newval =
     (let newval = next_tristate newval in do {
        (set, st) \<leftarrow> sym_set_tristate_value depth cfg st s newval;
        if set then Some (newval, st)
        else if oldval \<noteq> newval then toggle_loop depth cfg s oldval st newval
        else Some (newval, st) })"
  by pat_completeness auto
termination
proof (relation "measure (\<lambda>(depth, cfg, s, oldval, st, newval). values_left oldval newval)", simp)
  fix depth cfg s oldval st newval x and r :: "bool \<times> state" and set st'
  assume "x = next_tristate newval" "oldval \<noteq> x"
  then show "((depth, cfg, s, oldval, st', x), depth, cfg, s, oldval, st, newval)
      \<in> measure (\<lambda>(depth, cfg, s, oldval, st, newval). values_left oldval newval)"
    by (cases oldval; cases newval) (simp_all add: values_left_def)
qed

declare toggle_loop.simps [simp del]

definition sym_toggle_tristate_value :: "nat \<Rightarrow> config \<Rightarrow> state \<Rightarrow> symbol \<Rightarrow> (tristate \<times> state) option" where
  "sym_toggle_tristate_value depth cfg st s =
     toggle_loop depth cfg s (cur_tri (node st s)) st (cur_tri (node st s))"

subsection \<open>Strings and numbers\<close>

definition is_digit :: "char \<Rightarrow> bool" where
  "is_digit c \<longleftrightarrow> digit_of c < 10"

definition sym_string_valid :: "config \<Rightarrow> symbol \<Rightarrow> string \<Rightarrow> bool" where
  "sym_string_valid cfg s str =
     (case type_of cfg s of
        S_STRING \<Rightarrow> True
      | S_INT \<Rightarrow>
          (let ds = (case str of c # cs \<Rightarrow> if c = CHR ''-'' then cs else str | [] \<Rightarrow> [])
           in case ds of
             [] \<Rightarrow> False
           | d # rest \<Rightarrow>
               if \<not> is_digit d then False
               else if d = CHR ''0'' \<and> rest \<noteq> [] then False
               else \<forall>c \<in> set rest. is_digit c)
      | S_HEX \<Rightarrow>
          (let ds = (case str of a # b # cs \<Rightarrow>
               if a = CHR ''0'' \<and> (b = CHR ''x'' \<or> b = CHR ''X'') then cs else str | _ \<Rightarrow> str)
           in ds \<noteq> [] \<and> (\<forall>c \<in> set ds. is_xdigit c))
      | S_BOOLEAN \<Rightarrow> str \<noteq> [] \<and> hd str \<in> set ''yYmMnN''
      | S_TRISTATE \<Rightarrow> str \<noteq> [] \<and> hd str \<in> set ''yYmMnN''
      | _ \<Rightarrow> False)"

text \<open>The letter of a tristate value.\<close>

definition tristate_letter :: "string \<Rightarrow> tristate option" where
  "tristate_letter str =
     (case str of
        c # _ \<Rightarrow>
          if c \<in> {CHR ''y'', CHR ''Y''} then Some Yes
          else if c \<in> {CHR ''m'', CHR ''M''} then Some Mod
          else if c \<in> {CHR ''n'', CHR ''N''} then Some No
          else None
      | [] \<Rightarrow> None)"

definition number_within_range :: "nat \<Rightarrow> config \<Rightarrow> state \<Rightarrow> symbol \<Rightarrow> nat \<Rightarrow> string \<Rightarrow> (bool \<times> state) option" where
  "number_within_range depth cfg st s base str =
     (if \<not> sym_string_valid cfg s str then Some (False, st)
      else do {
        (prop, st) \<leftarrow> sym_get_range_prop (sym_calc_value depth cfg) cfg st s;
        case prop of
          None \<Rightarrow> Some (True, st)
        | Some (p, _) \<Rightarrow> do {
            (left, right) \<leftarrow> range_bounds p;
            (low, st) \<leftarrow> sym_get_range_val (sym_calc_value depth cfg) cfg st left base;
            if strtoll base str \<ge> low then do {
              (high, st) \<leftarrow> sym_get_range_val (sym_calc_value depth cfg) cfg st right base;
              Some (strtoll base str \<le> high, st) }
            else Some (False, st) } })"

definition sym_string_within_range :: "nat \<Rightarrow> config \<Rightarrow> state \<Rightarrow> symbol \<Rightarrow> string \<Rightarrow> (bool \<times> state) option" where
  "sym_string_within_range depth cfg st s str =
     (case type_of cfg s of
        S_STRING \<Rightarrow> Some (sym_string_valid cfg s str, st)
      | S_INT \<Rightarrow> number_within_range depth cfg st s 10 str
      | S_HEX \<Rightarrow> number_within_range depth cfg st s 16 str
      | S_BOOLEAN \<Rightarrow> Some (case tristate_letter str of Some v \<Rightarrow> sym_tristate_within_range cfg st s v | None \<Rightarrow> False, st)
      | S_TRISTATE \<Rightarrow> Some (case tristate_letter str of Some v \<Rightarrow> sym_tristate_within_range cfg st s v | None \<Rightarrow> False, st)
      | _ \<Rightarrow> Some (False, st))"

text \<open>What is stored for a string: a hexadecimal number gets its prefix.\<close>

definition stored_string :: "config \<Rightarrow> symbol \<Rightarrow> string \<Rightarrow> string" where
  "stored_string cfg s newval =
     (case newval of
        a # b # _ \<Rightarrow> if type_of cfg s = S_HEX \<and> (a \<noteq> CHR ''0'' \<or> (b \<noteq> CHR ''x'' \<and> b \<noteq> CHR ''X'')) then ''0x'' @ newval else newval
      | _ \<Rightarrow> if type_of cfg s = S_HEX then ''0x'' @ newval else newval)"

definition sym_set_string_value :: "nat \<Rightarrow> config \<Rightarrow> state \<Rightarrow> symbol \<Rightarrow> string \<Rightarrow> (bool \<times> state) option" where
  "sym_set_string_value depth cfg st s newval =
     (if type_of cfg s = S_BOOLEAN \<or> type_of cfg s = S_TRISTATE then
        (case tristate_letter newval of
           Some v \<Rightarrow> sym_set_tristate_value depth cfg st s v
         | None \<Rightarrow> Some (False, st))
      else do {
        (within, st) \<leftarrow> sym_string_within_range depth cfg st s newval;
        if \<not> within then Some (False, st)
        else do {
          let st = set_node s (\<lambda>n. n\<lparr>user_flag := True\<rparr>) st;
          if stored_string cfg s newval = newval \<and> user_val (node st s) = Text newval then Some (True, st)
          else do {
            st \<leftarrow> sym_clear_all_valid depth cfg
                   (set_node s (\<lambda>n. n\<lparr>user_val := Text (stored_string cfg s newval)\<rparr>) st);
            Some (True, st) } } })"

subsection \<open>The calculation returns\<close>

text \<open>The marks are on choices and on their values.\<close>

definition marks_ok :: "config \<Rightarrow> state \<Rightarrow> bool" where
  "marks_ok cfg st \<longleftrightarrow> (\<forall>s. need_set_flag (node st s) \<longrightarrow> choice_flag cfg s \<or> choiceval_flag cfg s)"

lemma calls_left_bound: "finite U \<Longrightarrow> calls_left U st \<le> 3 * card U"
  using card_mono [of U "{s \<in> U. \<not> valid_flag (node st s)}"] card_mono [of U "{s \<in> U. need_set_flag (node st s)}"]
  by (simp add: calls_left_def)

lemma ready_deep: "config_ok cfg U \<Longrightarrow> marks_ok cfg st \<Longrightarrow> 3 * card U < depth \<Longrightarrow> ready cfg U depth st"
  using calls_left_bound [of U st] by (simp add: ready_def marks_ok_def config_ok_def)

lemma keeps_marks_ok: "keeps cfg U X st st' \<Longrightarrow> marks_ok cfg st \<Longrightarrow> marks_ok cfg st'"
  unfolding marks_ok_def keeps_def by blast

lemma sym_calc_value_deep:
  assumes "config_ok cfg U" and "marks_ok cfg st" and "s \<in> U" and "3 * card U < depth"
  shows "\<exists>st'. sym_calc_value depth cfg st s = Some st' \<and> keeps cfg U {} st st'"
  using sym_calc_value_ok [OF assms(1) ready_deep [OF assms(1,2,4)] assms(3)] by (simp add: state_ok_def)

text \<open>Without a mark the symbol is valid afterwards.\<close>

lemma sym_calc_value_valid:
  assumes U: "config_ok cfg U" and "ready cfg U depth st" and s: "s \<in> U" and need: "\<not> need_set_flag (node st s)"
    and c: "sym_calc_value depth cfg st s = Some st'"
  shows "valid_flag (node st' s)"
proof (cases "valid_flag (node st s)")
  case True
  then show ?thesis using c by (cases depth) simp_all
next
  case False
  then obtain d where d: "depth = Suc d" using c by (cases depth) simp_all
  let ?st = "set_node s (\<lambda>n. n\<lparr>valid_flag := True\<rparr>) st"
  have marked: "calc_marked (sym_calc_value d cfg) cfg ?st s = Some st'" using c False need by (simp add: d)
  have k: "keeps cfg U {s} st ?st" using s by (auto simp: keeps_def)
  have "ready cfg U d ?st"
    using assms(2) calls_left_less [OF _ k s] U False k unfolding ready_def keeps_def d config_ok_def by fastforce
  then have typed: "\<exists>st1. calc_typed (sym_calc_value d cfg) cfg start ?st s = Some st1 \<and> keeps cfg U {s} ?st st1" for start
    using sym_calc.calc_typed_ok [OF U s, of d ?st start] by auto
  show ?thesis
  proof (cases "start_value (type_of cfg s)")
    case None
    then show ?thesis using marked by (auto simp: calc_marked_def set_curr_def)
  next
    case (Some start)
    obtain st1 where st1: "calc_typed (sym_calc_value d cfg) cfg start ?st s = Some st1" "keeps cfg U {s} ?st st1"
      using typed by blast
    have "\<not> need_set_flag (node st1 s)" "valid_flag (node st1 s)" using st1(2) need by (auto simp: keeps_def)
    then show ?thesis using marked st1(1) Some by (simp add: calc_marked_def)
  qed
qed

subsection \<open>The type of the values\<close>

text \<open>\<open>modules_sym\<close> is an ordinary boolean or tristate symbol.\<close>

definition modules_ok :: "config \<Rightarrow> bool" where
  "modules_ok cfg \<longleftrightarrow> (let m = modules_sym cfg in
     type_of cfg m \<in> {S_BOOLEAN, S_TRISTATE} \<and> \<not> choice_flag cfg m \<and> \<not> choiceval_flag cfg m)"

definition modules_current :: "config \<Rightarrow> state \<Rightarrow> bool" where
  "modules_current cfg st \<longleftrightarrow> modules_val st = cur_tri (node st (modules_sym cfg))"

lemma modules_val_set_write [simp]: "modules_val (set_write v w st) = modules_val st"
  by (simp add: set_write_def)

lemma modules_val_set_curr [simp]: "modules_val (set_curr s v t st) = modules_val st"
  by (simp add: set_curr_def)

lemma cur_set_curr [simp]: "cur_tri (node (set_curr s v t st) s) = t" "cur_val (node (set_curr s v t st) s) = v"
  by (simp_all add: set_curr_def)

lemma store_value_plain:
  assumes "type_of cfg s \<in> {S_BOOLEAN, S_TRISTATE}" and "\<not> choice_flag cfg s"
  shows "\<exists>st'. store_value calc cfg oldval st s = Some st' \<and> cur_tri (node st' s) = cur_tri (node st s) \<and>
    modules_val st' = modules_val (note_modules cfg oldval st s)"
  using assms by (auto simp: store_value_def store_choice_def sym_validate_range_def pass_on_def note_modules_def)

lemma modules_calculated:
  assumes U: "config_ok cfg U" and m: "modules_ok cfg" and r: "ready cfg U depth st" and sync: "modules_current cfg st"
    and c: "sym_calc_value depth cfg st (modules_sym cfg) = Some st'"
  shows "modules_current cfg st'"
proof (cases "valid_flag (node st (modules_sym cfg))")
  case True
  then show ?thesis using c sync by (cases depth) simp_all
next
  case False
  let ?m = "modules_sym cfg"
  have mU: "?m \<in> U" using U by (simp add: config_ok_def)
  have type: "type_of cfg ?m \<in> {S_BOOLEAN, S_TRISTATE}" and plain: "\<not> choice_flag cfg ?m" "\<not> choiceval_flag cfg ?m"
    using m by (simp_all add: modules_ok_def Let_def)
  have need: "\<not> need_set_flag (node st ?m)" using r plain unfolding ready_def by blast
  from False obtain d where d: "depth = Suc d" using c by (cases depth) simp_all
  let ?st = "set_node ?m (\<lambda>n. n\<lparr>valid_flag := True\<rparr>) st"
  let ?calc = "sym_calc_value d cfg"
  have marked: "calc_marked ?calc cfg ?st ?m = Some st'" using c False need plain by (simp add: d)
  have k: "keeps cfg U {?m} st ?st" using mU by (auto simp: keeps_def)
  have r1: "ready cfg U d ?st"
    using r calls_left_less [OF _ k mU] U False k unfolding ready_def keeps_def d config_ok_def by fastforce
  let ?clear = "set_node ?m (\<lambda>n. n\<lparr>write_flag := False\<rparr>) ?st"
  have k0: "keeps cfg U {} ?st ?clear" by (rule keeps_set_node) simp_all
  have r0: "ready cfg U d ?clear" using U keeps_ready [OF _ k0 r1] by (simp add: config_ok_def)
  obtain st1 where 1: "sym_calc_visibility ?calc cfg ?clear ?m = Some st1" "keeps cfg U {} ?clear st1"
    by (rule state_okE [OF sym_calc.sym_calc_visibility_ok [OF U mU r0]])
  let ?st2 = "set_curr ?m (Text ''n'') No (set_write ?m (visible (node st1 ?m) \<noteq> No) st1)"
  have k1: "keeps cfg U {} ?st st1" using k0 1(2) by (rule keeps_trans)
  have "keeps cfg U {?m} st1 ?st2"
    by (rule keeps_trans [of cfg U "{?m}" st1 "set_write ?m (visible (node st1 ?m) \<noteq> No) st1"]) simp_all
  with keeps_weaken [OF k1] have k2: "keeps cfg U {?m} ?st ?st2" by (rule keeps_trans)
  have r2: "ready cfg U d ?st2" using U keeps_ready [OF _ k2 r1] by (simp add: config_ok_def)
  obtain tri st3 where 3: "calc_tristate ?calc cfg ?st2 ?m = Some (tri, st3)" "keeps cfg U {} ?st2 st3"
    using sym_calc.calc_tristate_ok [OF U mU r2] by blast
  have "modules_val st1 = modules_val st" using k1 by (simp add: keeps_def)
  moreover have "valid_flag (node ?st2 ?m)" using keeps_valid [OF k2] by simp
  ultimately have mv: "modules_val st3 = cur_tri (node st ?m)"
    using 3(2) sync by (simp add: keeps_def modules_current_def)
  let ?old = "(cur_val (node ?st ?m), cur_tri (node ?st ?m))"
  let ?st4 = "set_curr ?m (Text ''n'') tri st3"
  obtain st5 where 5: "store_value ?calc cfg ?old ?st4 ?m = Some st5" "cur_tri (node st5 ?m) = tri"
    "modules_val st5 = modules_val (note_modules cfg ?old ?st4 ?m)"
    using store_value_plain [OF type plain(1), of ?calc ?old ?st4] by auto
  have start: "start_value (type_of cfg ?m) = Some (Text ''n'')" using type by (auto simp: start_value_def)
  have typed: "calc_typed ?calc cfg (Text ''n'') ?st ?m = Some st5"
    using type 1(1) 3(1) 5(1) by (auto simp: calc_typed_def Let_def)
  have "keeps cfg U {?m} ?st st5" using sym_calc.calc_typed_ok [OF U mU r1, of "Text ''n''"] typed by auto
  then have "\<not> need_set_flag (node st5 ?m)" using need by (auto simp: keeps_def)
  then have "st' = st5" using marked typed start by (simp add: calc_marked_def)
  then show ?thesis
    using 5(2,3) mv by (auto simp: modules_current_def note_modules_def)
qed

lemma node_clear_valid:
  "node (clear_valid cfg st) s =
    (if s \<in> set (all_symbols cfg) then (node st s)\<lparr>valid_flag := False\<rparr> else node st s)"
proof -
  have "node (fold (\<lambda>s. set_node s (\<lambda>n. n\<lparr>valid_flag := False\<rparr>)) ss st) s =
    (if s \<in> set ss then (node st s)\<lparr>valid_flag := False\<rparr> else node st s)" for ss st
    by (induction ss arbitrary: st) auto
  then show ?thesis by (simp add: clear_valid_def)
qed

lemma modules_val_clear_valid [simp]: "modules_val (clear_valid cfg st) = modules_val st"
proof -
  have "modules_val (fold (\<lambda>s. set_node s (\<lambda>n. n\<lparr>valid_flag := False\<rparr>)) ss st) = modules_val st" for ss st
    by (induction ss arbitrary: st) simp_all
  then show ?thesis by (simp add: clear_valid_def)
qed

definition no_marks :: "state \<Rightarrow> bool" where
  "no_marks st \<longleftrightarrow> (\<forall>s. \<not> need_set_flag (node st s))"

lemma no_marks_ok: "no_marks st \<Longrightarrow> marks_ok cfg st"
  by (simp add: no_marks_def marks_ok_def)

lemma keeps_no_marks: "keeps cfg U X st st' \<Longrightarrow> no_marks st \<Longrightarrow> no_marks st'"
  unfolding keeps_def no_marks_def by blast

lemma calc_all_ok:
  assumes U: "config_ok cfg U" and d: "3 * card U < depth"
  shows "set ss \<subseteq> U \<Longrightarrow> no_marks st \<Longrightarrow>
    \<exists>st'. calc_all depth cfg st ss = Some st' \<and> keeps cfg U {} st st' \<and> (\<forall>s \<in> set ss. valid_flag (node st' s))"
proof (induction ss arbitrary: st)
  case (Cons s ss)
  have s: "s \<in> U" using Cons.prems(1) by simp
  obtain st1 where 1: "sym_calc_value depth cfg st s = Some st1" "keeps cfg U {} st st1"
    using sym_calc_value_deep [OF U no_marks_ok [OF Cons.prems(2)] s d] by blast
  have v: "valid_flag (node st1 s)"
    by (rule sym_calc_value_valid [OF U ready_deep [OF U no_marks_ok [OF Cons.prems(2)] d] s _ 1(1)])
      (use Cons.prems(2) in \<open>simp add: no_marks_def\<close>)
  obtain st2 where 2: "calc_all depth cfg st1 ss = Some st2" "keeps cfg U {} st1 st2" "\<forall>s \<in> set ss. valid_flag (node st2 s)"
    using Cons.IH [OF _ keeps_no_marks [OF 1(2) Cons.prems(2)]] Cons.prems(1) by auto
  show ?case using 1(1) 2 keeps_trans [OF 1(2) 2(2)] keeps_valid [OF 2(2) v] by auto
qed simp

text \<open>The three constants, and what is known of a configuration when its symbols have been read.\<close>

definition constants_ok :: "config \<Rightarrow> state \<Rightarrow> bool" where
  "constants_ok cfg st \<longleftrightarrow>
     (\<forall>(c, t, n) \<in> {(symbol_yes, Yes, ''y''), (symbol_mod, Mod, ''m''), (symbol_no, No, ''n'')}.
        type_of cfg c = S_UNKNOWN \<and> c \<notin> set (all_symbols cfg) \<and> valid_flag (node st c) \<and>
        cur_tri (node st c) = t \<and> cur_val (node st c) = Text n)"

definition configuration_read :: "config \<Rightarrow> symbol set \<Rightarrow> state \<Rightarrow> bool" where
  "configuration_read cfg U st \<longleftrightarrow>
     config_ok cfg U \<and> modules_ok cfg \<and> constants_ok cfg st \<and> no_marks st \<and> modules_current cfg st \<and>
     set (all_symbols cfg) \<subseteq> U \<and> modules_sym cfg \<in> set (all_symbols cfg) \<and>
     (\<forall>s. s \<notin> set (all_symbols cfg) \<longrightarrow> type_of cfg s = S_UNKNOWN)"

text \<open>What \<open>modules_sym\<close> depends on is in a set of symbols without another tristate symbol.\<close>

definition modules_first :: "config \<Rightarrow> symbol set \<Rightarrow> bool" where
  "modules_first cfg M \<longleftrightarrow> config_ok cfg M \<and> (\<forall>s \<in> M. type_of cfg s = S_TRISTATE \<longrightarrow> s = modules_sym cfg)"

lemma sym_calc_value_agree:
  assumes "sym_calc_value d cfg st s = Some a" and "sym_calc_value d' cfg st s = Some b"
  shows "a = b"
proof -
  have "sym_calc_value (max d d') cfg st s = Some a" "sym_calc_value (max d d') cfg st s = Some b"
    using sym_calc_value_mono [of d cfg st s "max d d' - d"] sym_calc_value_mono [of d' cfg st s "max d d' - d'"] assms
    by (auto simp: at_most_def max_def)
  then show ?thesis by simp
qed

lemma configuration_typed_lemma:
  assumes read: "configuration_read cfg U st" and first: "modules_first cfg M" and d: "3 * card U < depth"
  shows "\<exists>st' st''. sym_clear_all_valid depth cfg st = Some st' \<and> calc_all depth cfg st' (all_symbols cfg) = Some st'' \<and>
    (\<forall>s \<in> set (all_symbols cfg). valid_flag (node st'' s)) \<and> env_ok (symbols_of cfg st'')"
proof -
  have U: "config_ok cfg U" and m: "modules_ok cfg" and c: "constants_ok cfg st" and marks: "no_marks st"
    and sync: "modules_current cfg st" and all: "set (all_symbols cfg) \<subseteq> U" "modules_sym cfg \<in> set (all_symbols cfg)"
    and other: "\<forall>s. s \<notin> set (all_symbols cfg) \<longrightarrow> type_of cfg s = S_UNKNOWN"
    using read by (simp_all add: configuration_read_def)
  let ?m = "modules_sym cfg"
  define st0 where "st0 = (clear_valid cfg st)\<lparr>change_count := change_count (clear_valid cfg st) + 1\<rparr>"
  have node0: "node st0 s = (if s \<in> set (all_symbols cfg) then (node st s)\<lparr>valid_flag := False\<rparr> else node st s)" for s
    by (simp add: st0_def node_clear_valid)
  have marks0: "no_marks st0" using marks by (simp add: no_marks_def node0)
  have sync0: "modules_current cfg st0" using sync by (simp add: modules_current_def node0) (simp add: st0_def)
  have mU: "?m \<in> U" using all by blast
  obtain st1 where 1: "sym_calc_value depth cfg st0 ?m = Some st1" "keeps cfg U {} st0 st1"
    using sym_calc_value_deep [OF U no_marks_ok [OF marks0] mU d] by blast
  note r0 = ready_deep [OF U no_marks_ok [OF marks0] d]
  have v1: "valid_flag (node st1 ?m)"
    by (rule sym_calc_value_valid [OF U r0 mU _ 1(1)]) (use marks0 in \<open>simp add: no_marks_def\<close>)
  have sync1: "modules_current cfg st1" by (rule modules_calculated [OF U m r0 sync0 1(1)])
  have tri1: "s = ?m" if s: "valid_flag (node st1 s)" "s \<in> set (all_symbols cfg)" "type_of cfg s = S_TRISTATE" for s
  proof -
    have M: "config_ok cfg M" "?m \<in> M" using first by (simp_all add: modules_first_def config_ok_def)
    obtain st1' where "sym_calc_value (Suc (3 * card M)) cfg st0 ?m = Some st1'" "keeps cfg M {} st0 st1'"
      using sym_calc_value_deep [OF M(1) no_marks_ok [OF marks0] M(2)] by blast
    then have "keeps cfg M {} st0 st1" using sym_calc_value_agree 1(1) by blast
    moreover have "\<not> valid_flag (node st0 s)" using s(2) by (simp add: node0)
    ultimately have "s \<in> M" using s(1) by (auto simp: keeps_def)
    then show ?thesis using first s(3) by (simp add: modules_first_def)
  qed
  obtain st2 where 2: "calc_all depth cfg st1 (all_symbols cfg) = Some st2" "keeps cfg U {} st1 st2"
    "\<forall>s \<in> set (all_symbols cfg). valid_flag (node st2 s)"
    using calc_all_ok [OF U d all(1) keeps_no_marks [OF 1(2) marks0]] by blast
  have sync2: "modules_val st2 = cur_tri (node st2 ?m)"
    using 2(2) v1 sync1 by (simp add: keeps_def modules_current_def)
  have same: "cur_tri (node st2 s) = cur_tri (node st s) \<and> cur_val (node st2 s) = cur_val (node st s)"
    if "valid_flag (node st s)" "s \<notin> set (all_symbols cfg)" for s
    using keeps_trans [OF 1(2) 2(2)] that by (simp add: keeps_def node0)
  have typed: "cur_tri (node st2 s) \<noteq> Mod" if s: "s \<in> set (all_symbols cfg)" "type_of cfg s = S_BOOLEAN" for s
    using keeps_trans [OF 1(2) 2(2)] 2(3) s by (simp add: keeps_def node0)
  have tri: "cur_tri (node st2 ?m) \<noteq> No"
    if s: "s \<in> set (all_symbols cfg)" "type_of cfg s = S_TRISTATE" "cur_tri (node st2 s) = Mod" for s
  proof (cases "valid_flag (node st1 s)")
    case False
    then have "well_typed cfg st2 s" using 2(2,3) v1 s(1) by (simp add: keeps_def)
    then show ?thesis using s sync2 by (auto simp: well_typed_def)
  next
    case True
    then show ?thesis using tri1 s by fastforce
  qed
  have mem: "type_of cfg s \<noteq> S_UNKNOWN \<Longrightarrow> s \<in> set (all_symbols cfg)" for s using other by blast
  have "type_of cfg s = S_BOOLEAN \<longrightarrow> cur_tri (node st2 s) \<noteq> Mod"
    "type_of cfg s = S_TRISTATE \<and> cur_tri (node st2 s) = Mod \<longrightarrow> cur_tri (node st2 ?m) \<noteq> No" for s
    using typed [OF mem] tri [OF mem] by auto
  then have "env_ok (symbols_of cfg st2)"
    using c same unfolding env_ok_def constants_ok_def symbols_of_def
    by (auto simp: pointer_text_def)
  then show ?thesis using 1(1) 2(1,3) unfolding sym_clear_all_valid_def Let_def st0_def [symmetric] by blast
qed

end
