(* ===== verification/Kconfig_Accept.thy ===== *)
theory Kconfig_Accept
  imports Kconfig_Value
begin

text \<open>
  What the functions of \<open>Kconfig_Value\<close> accept and what becomes of it: tristate values that are set
  or toggled, and numbers moved into a range.
\<close>

subsection \<open>Tristate values\<close>

lemma accepted_value:
  assumes "sym_tristate_within_range cfg st s val" and "\<not> (choiceval_flag cfg s \<and> visible (node st s) = Yes)"
    and "user_flag (node st s)" and "user_tri (node st s) = val"
  shows "calc_tristate calc cfg st s = Some (val, st)"
proof -
  let ?n = "node st s"
  have v: "visible ?n \<noteq> No" "rev_dep_tri ?n \<le> val" "val \<le> visible ?n"
    and m: "val = Mod \<Longrightarrow> sym_get_type cfg st s \<noteq> S_BOOLEAN \<and> implied_tri ?n \<noteq> Yes"
    using assms(1,2) unfolding sym_tristate_within_range_def Let_def by (auto split: if_splits)
  have "EXPR_OR (EXPR_AND val (visible ?n)) (rev_dep_tri ?n) = val"
    using v by (simp add: EXPR_OR_max EXPR_AND_min max_def min_def)
  moreover have "mod_to_yes (boolean_now cfg st s \<or> implied_tri ?n = Yes) val = val"
    using m by (auto simp: mod_to_yes_def boolean_now_def)
  ultimately show ?thesis
    using assms(2-4) v(1) by (auto simp: calc_tristate_def)
qed

lemma set_user_choice_ok:
  assumes "config_ok cfg U" and "s \<in> U" and "choiceval_flag cfg s"
  shows "\<exists>st'. set_user_choice cfg st s = Some st' \<and> (\<forall>t. need_set_flag (node st' t) = need_set_flag (node st t))"
proof -
  obtain c where "c \<in> U" "choice_flag cfg c" "choice_of cfg s = Some c"
    using assms by (auto simp: config_ok_def symbol_ok_def)
  then obtain ss where c: "choice_of cfg s = Some c" "choice_values cfg c = Some ss"
    using assms(1) by (auto simp: config_ok_def symbol_ok_def)
  have "need_set_flag (node (fold (\<lambda>v st. if visible (node st v) \<noteq> No
      then set_node v (\<lambda>n. n\<lparr>user_flag := True\<rparr>) st else st) ss st) t) = need_set_flag (node st t)" for st t
    by (induction ss arbitrary: st) auto
  then show ?thesis using c by (simp add: set_user_choice_def)
qed

lemma sym_clear_all_valid_ok:
  assumes "config_ok cfg U" and "marks_ok cfg st" and "3 * card U < depth"
  shows "\<exists>st'. sym_clear_all_valid depth cfg st = Some st'"
proof -
  let ?st = "(clear_valid cfg st)\<lparr>change_count := change_count (clear_valid cfg st) + 1\<rparr>"
  have "marks_ok cfg ?st" using assms(2) by (auto simp: marks_ok_def node_clear_valid split: if_splits)
  then show ?thesis
    using sym_calc_value_deep [OF assms(1) _ _ assms(3), of ?st "modules_sym cfg"] assms(1)
    by (auto simp: sym_clear_all_valid_def Let_def config_ok_def)
qed

text \<open>A value is taken exactly if it is the old one or within range.\<close>

lemma sym_set_tristate_value_ok:
  assumes U: "config_ok cfg U" and m: "marks_ok cfg st" and s: "s \<in> U" and d: "3 * card U < depth"
  shows "if cur_tri (node st s) = val \<or> sym_tristate_within_range cfg st s val
    then \<exists>st'. sym_set_tristate_value depth cfg st s val = Some (True, st')
    else sym_set_tristate_value depth cfg st s val = Some (False, st)"
proof (cases "cur_tri (node st s) = val \<or> sym_tristate_within_range cfg st s val")
  case True
  let ?st1 = "set_node s (\<lambda>n. n\<lparr>user_flag := True\<rparr>) st"
  obtain st2 where 2: "(if choiceval_flag cfg s \<and> val = Yes then set_user_choice cfg ?st1 s else Some ?st1) = Some st2"
    "\<forall>t. need_set_flag (node st2 t) = need_set_flag (node ?st1 t)"
    using set_user_choice_ok [OF U s, of ?st1] by (cases "choiceval_flag cfg s \<and> val = Yes") auto
  let ?st3 = "set_node s (\<lambda>n. n\<lparr>user_tri := val\<rparr>) st2"
  have "marks_ok cfg ?st3" using m 2(2) by (auto simp: marks_ok_def split: if_splits)
  then obtain st4 where 4: "sym_clear_all_valid depth cfg ?st3 = Some st4"
    using sym_clear_all_valid_ok [OF U _ d] by blast
  show ?thesis
    using True 4 unfolding sym_set_tristate_value_def Let_def 2(1) Option.bind.bind_lunit by auto
next
  case False
  then show ?thesis by (simp add: sym_set_tristate_value_def)
qed

text \<open>The value that toggling arrives at.\<close>

definition toggled :: "config \<Rightarrow> state \<Rightarrow> symbol \<Rightarrow> tristate" where
  "toggled cfg st s =
     (let old = cur_tri (node st s) in
      if sym_tristate_within_range cfg st s (next_tristate old) then next_tristate old
      else if sym_tristate_within_range cfg st s (next_tristate (next_tristate old)) then next_tristate (next_tristate old)
      else old)"

lemma toggle_reaches:
  assumes U: "config_ok cfg U" and m: "marks_ok cfg st" and s: "s \<in> U" and d: "3 * card U < depth"
  shows "\<exists>st'. sym_toggle_tristate_value depth cfg st s = Some (toggled cfg st s, st')"
proof -
  let ?old = "cur_tri (node st s)" and ?in = "sym_tristate_within_range cfg st s"
  have step: "toggle_loop depth cfg s ?old st v =
      (if ?old = next_tristate v \<or> ?in (next_tristate v) then
         map_option (\<lambda>(_, st'). (next_tristate v, st')) (sym_set_tristate_value depth cfg st s (next_tristate v))
       else toggle_loop depth cfg s ?old st (next_tristate v))" for v
    using sym_set_tristate_value_ok [OF assms, of "next_tristate v"]
    by (subst toggle_loop.simps) (auto simp: Let_def split: if_splits)
  have taken: "\<exists>st'. map_option (\<lambda>(_, st'). (v, st')) (sym_set_tristate_value depth cfg st s v) = Some (v, st')"
    if "?old = v \<or> ?in v" for v
    using sym_set_tristate_value_ok [OF assms, of v] that by auto
  have three: "next_tristate (next_tristate (next_tristate ?old)) = ?old" "next_tristate ?old \<noteq> ?old"
    "next_tristate (next_tristate ?old) \<noteq> ?old" by (cases ?old; simp)+
  show ?thesis
    unfolding sym_toggle_tristate_value_def toggled_def Let_def
    using taken [of "next_tristate ?old"] taken [of "next_tristate (next_tristate ?old)"] taken [of ?old] three
    by (subst step, subst step, subst step) auto
qed

subsection \<open>Numbers\<close>

lemma digit_char:
  assumes "d < 10"
  shows "digit_of (''0123456789'' ! d) = d" "\<not> is_space (''0123456789'' ! d)"
    "''0123456789'' ! d \<noteq> CHR ''-''" "''0123456789'' ! d \<noteq> CHR ''+''"
proof -
  from assms have "d = 0 \<or> d = 1 \<or> d = 2 \<or> d = 3 \<or> d = 4 \<or> d = 5 \<or> d = 6 \<or> d = 7 \<or> d = 8 \<or> d = 9" by presburger
  then show "digit_of (''0123456789'' ! d) = d" "\<not> is_space (''0123456789'' ! d)"
    "''0123456789'' ! d \<noteq> CHR ''-''" "''0123456789'' ! d \<noteq> CHR ''+''"
    by (auto simp: digit_of_def is_space_def)
qed

lemma number_of_digits_snoc: "number_of_digits b (ds @ [c]) = number_of_digits b ds * b + digit_of c"
  by (simp add: number_of_digits_def)

lemma printf_dec_number:
  "number_of_digits 10 (printf_dec n) = n \<and> printf_dec n \<noteq> [] \<and>
    (\<forall>c \<in> set (printf_dec n). digit_of c < 10 \<and> \<not> is_space c \<and> c \<noteq> CHR ''-'' \<and> c \<noteq> CHR ''+'')"
proof (induction n rule: printf_dec.induct)
  case (1 n)
  show ?case
  proof (cases "n < 10")
    case True
    then show ?thesis
      using digit_char [OF True] by (simp add: printf_dec.simps [of n] number_of_digits_def)
  next
    case False
    have "n mod 10 < 10" by simp
    then show ?thesis
      using 1 [OF False] digit_char [of "n mod 10"] False
      by (simp add: printf_dec.simps [of n] number_of_digits_snoc ball_Un)
  qed
qed

lemma scan_printf_dec:
  "scan_number 10 (printf_dec n) = (int n, printf_dec n, [])"
  "scan_number 10 (CHR ''-'' # printf_dec n) = (- int n, CHR ''-'' # printf_dec n, [])"
proof -
  let ?s = "printf_dec n"
  have s: "number_of_digits 10 ?s = n" "?s \<noteq> []"
    "\<forall>c \<in> set ?s. digit_of c < 10" "\<forall>c \<in> set ?s. \<not> is_space c"
    "hd ?s \<noteq> CHR ''-''" "hd ?s \<noteq> CHR ''+''"
    using printf_dec_number [of n] by (auto simp: hd_in_set)
  have d: "dropWhile is_space ?s = ?s" using s(2,4) by (cases ?s) simp_all
  have t: "takeWhile (\<lambda>c. digit_of c < 10) ?s = ?s" using s(3) by simp
  show "scan_number 10 ?s = (int n, ?s, [])"
    unfolding scan_number_def Let_def d using s by (simp add: t)
  have d': "dropWhile is_space (CHR ''-'' # ?s) = CHR ''-'' # ?s" by (simp add: is_space_def)
  show "scan_number 10 (CHR ''-'' # ?s) = (- int n, CHR ''-'' # ?s, [])"
    unfolding scan_number_def Let_def d' using s by (simp add: t)
qed

lemma strtoll_printf_lld: "- (2 ^ 63) \<le> i \<Longrightarrow> i < 2 ^ 63 \<Longrightarrow> strtoll 10 (printf_lld i) = i"
  by (auto simp: strtoll_def printf_lld_def scan_printf_dec max_def min_def)

lemma strtoll_bounds: "- (2 ^ 63) \<le> strtoll base str" "strtoll base str < 2 ^ 63"
  by (auto simp: strtoll_def max_def min_def)

text \<open>A bound of a range, read as a number in its own base.\<close>

definition bound_value :: "config \<Rightarrow> state \<Rightarrow> nat \<Rightarrow> symbol \<Rightarrow> int" where
  "bound_value cfg st base s =
     strtoll (case type_of cfg s of S_INT \<Rightarrow> 10 | S_HEX \<Rightarrow> 16 | _ \<Rightarrow> base) (pointer_text cfg (cur_val (node st s)))"

lemma valid_bound:
  "valid_flag (node st s) \<Longrightarrow> sym_get_range_val (sym_calc_value (Suc d) cfg) cfg st s base = Some (bound_value cfg st base s, st)"
  by (simp add: sym_get_range_val_def bound_value_def Let_def)

lemma clamped_integer:
  assumes "type_of cfg s = S_INT" and "range_bounds p = Some (left, right)"
    and "valid_flag (node st left)" and "valid_flag (node st right)"
    and "bound_value cfg st 10 left \<le> bound_value cfg st 10 right"
  shows "\<exists>st'. clamp_to_range (sym_calc_value (Suc d) cfg) cfg st s p = Some st' \<and>
    strtoll 10 (pointer_text cfg (cur_val (node st' s))) =
      max (bound_value cfg st 10 left) (min (strtoll 10 (pointer_text cfg (cur_val (node st s)))) (bound_value cfg st 10 right))"
proof -
  let ?v = "strtoll 10 (pointer_text cfg (cur_val (node st s)))"
  let ?l = "bound_value cfg st 10 left" and ?r = "bound_value cfg st 10 right"
  have stored: "strtoll 10 (pointer_text cfg (cur_val (node (store_number cfg s i st) s))) = i"
    if "- (2 ^ 63) \<le> i" "i < 2 ^ 63" for i
    using strtoll_printf_lld [OF that] assms(1) by (simp add: store_number_def pointer_text_def)
  have lr: "strtoll 10 (pointer_text cfg (cur_val (node (store_number cfg s ?l st) s))) = ?l"
    "strtoll 10 (pointer_text cfg (cur_val (node (store_number cfg s ?r st) s))) = ?r"
    by (rule stored; simp add: bound_value_def strtoll_bounds [simplified])+
  have c: "clamp_to_range (sym_calc_value (Suc d) cfg) cfg st s p =
      (if ?v \<ge> ?l then Some (if ?v \<le> ?r then st else store_number cfg s ?r st) else Some (store_number cfg s ?l st))"
    using assms(1,3,4) by (simp add: clamp_to_range_def Let_def assms(2) valid_bound del: sym_calc_value.simps)
  show ?thesis
  proof (cases "?l \<le> ?v")
    case True
    then show ?thesis using c lr(2) assms(5) by (cases "?v \<le> ?r") (auto simp: max_def min_def)
  next
    case False
    then show ?thesis using c lr(1) assms(5) by (auto simp: max_def min_def)
  qed
qed

end
