(* ===== verification/Kconfig_Table.thy ===== *)
theory Kconfig_Table
  imports Kconfig_Expr
begin

text \<open>
  The table of symbols of \<open>scripts/kconfig/symbol.c\<close>: the hash of a name, \<open>sym_lookup\<close>, which
  makes a symbol that is missing, and \<open>sym_find\<close>. Buckets are lists, the newest symbol first.
\<close>

subsection \<open>The code\<close>

type_synonym flags = "32 word"

abbreviation (input) SYMBOL_CONST :: flags where "SYMBOL_CONST \<equiv> 0x0001"
abbreviation (input) SYMBOL_CHOICE :: flags where "SYMBOL_CHOICE \<equiv> 0x0010"

text \<open>A character is signed: it is extended before the exclusive or.\<close>

definition strhash :: "string \<Rightarrow> 32 word" where
  "strhash s = foldl (\<lambda>hash c. (hash XOR scast (of_char c :: 8 word)) * 0x01000193) 2166136261 s"

definition SYMBOL_HASHSIZE :: nat where
  "SYMBOL_HASHSIZE = 9973"

record table_entry =
  entry_name :: "string option"
  entry_flags :: flags
  entry_symbol :: symbol

record table =
  symbol_hash :: "nat \<Rightarrow> table_entry list"
  allocated :: nat

definition bucket :: "string \<Rightarrow> nat" where
  "bucket name = unat (strhash name) mod SYMBOL_HASHSIZE"

definition constant_symbol :: "string \<Rightarrow> symbol option" where
  "constant_symbol name =
     (if name = ''y'' then Some symbol_yes else if name = ''m'' then Some symbol_mod
      else if name = ''n'' then Some symbol_no else None)"

definition alloc_symbol :: "table \<Rightarrow> string option \<Rightarrow> flags \<Rightarrow> nat \<Rightarrow> symbol \<times> table" where
  "alloc_symbol t name flags h =
     (let new = Symbol (allocated t) in
      (new, t\<lparr>symbol_hash := (symbol_hash t)
                (h := \<lparr>entry_name = name, entry_flags = flags, entry_symbol = new\<rparr> # symbol_hash t h),
              allocated := allocated t + 1\<rparr>))"

definition wanted :: "flags \<Rightarrow> string \<Rightarrow> table_entry \<Rightarrow> bool" where
  "wanted flags name e \<longleftrightarrow> entry_name e = Some name \<and>
     (if flags \<noteq> 0 then entry_flags e AND flags \<noteq> 0 else entry_flags e AND (SYMBOL_CONST OR SYMBOL_CHOICE) = 0)"

definition sym_lookup :: "table \<Rightarrow> string option \<Rightarrow> flags \<Rightarrow> symbol \<times> table" where
  "sym_lookup t name flags =
     (case name of
        None \<Rightarrow> alloc_symbol t None flags 0
      | Some n \<Rightarrow>
          (case constant_symbol n of
             Some s \<Rightarrow> (s, t)
           | None \<Rightarrow>
               (case find (wanted flags n) (symbol_hash t (bucket n)) of
                  Some e \<Rightarrow> (entry_symbol e, t)
                | None \<Rightarrow> alloc_symbol t (Some n) flags (bucket n))))"

definition sym_find :: "table \<Rightarrow> string option \<Rightarrow> symbol option" where
  "sym_find t name =
     (case name of
        None \<Rightarrow> None
      | Some n \<Rightarrow>
          (case constant_symbol n of
             Some s \<Rightarrow> Some s
           | None \<Rightarrow> map_option entry_symbol
               (find (\<lambda>e. entry_name e = Some n \<and> entry_flags e AND SYMBOL_CONST = 0) (symbol_hash t (bucket n)))))"

subsection \<open>A map from names to symbols\<close>

text \<open>The symbol of a name, for symbols with a given mark or for plain ones.\<close>

definition symbol_of :: "table \<Rightarrow> flags \<Rightarrow> string \<Rightarrow> symbol option" where
  "symbol_of t flags n =
     (case constant_symbol n of
        Some s \<Rightarrow> Some s
      | None \<Rightarrow> map_option entry_symbol (find (wanted flags n) (symbol_hash t (bucket n))))"

text \<open>Named symbols are in the bucket of their name, and each symbol was allocated once.\<close>

definition table_ok :: "table \<Rightarrow> bool" where
  "table_ok t \<longleftrightarrow>
     (\<forall>h. \<forall>e \<in> set (symbol_hash t h). (\<forall>n. entry_name e = Some n \<longrightarrow> bucket n = h) \<and>
        (\<exists>i < allocated t. entry_symbol e = Symbol i)) \<and>
     (\<forall>h h' e e'. e \<in> set (symbol_hash t h) \<and> e' \<in> set (symbol_hash t h') \<and> entry_symbol e = entry_symbol e' \<longrightarrow> e = e')"

definition empty_table :: table where
  "empty_table = \<lparr>symbol_hash = (\<lambda>_. []), allocated = 0\<rparr>"

lemma empty_table_ok: "table_ok empty_table"
  by (simp add: table_ok_def empty_table_def)

lemma bucket_alloc:
  "set (symbol_hash (snd (alloc_symbol t name flags h)) h') =
    (if h' = h then insert \<lparr>entry_name = name, entry_flags = flags, entry_symbol = Symbol (allocated t)\<rparr> (set (symbol_hash t h))
     else set (symbol_hash t h'))"
  by (simp add: alloc_symbol_def Let_def)

lemma alloc_symbol_ok:
  assumes "table_ok t" and "\<And>n. name = Some n \<Longrightarrow> bucket n = h"
  shows "table_ok (snd (alloc_symbol t name flags h))"
proof -
  have old: "e \<in> set (symbol_hash t h') \<Longrightarrow> entry_symbol e \<noteq> Symbol (allocated t)" for e h'
    using assms(1) unfolding table_ok_def by fastforce
  have a: "allocated (snd (alloc_symbol t name flags h)) = allocated t + 1" by (simp add: alloc_symbol_def Let_def)
  have once: "\<forall>h h' e e'. e \<in> set (symbol_hash t h) \<and> e' \<in> set (symbol_hash t h') \<and> entry_symbol e = entry_symbol e' \<longrightarrow> e = e'"
    and home: "\<forall>h. \<forall>e \<in> set (symbol_hash t h). (\<forall>n. entry_name e = Some n \<longrightarrow> bucket n = h) \<and>
        (\<exists>i < allocated t. entry_symbol e = Symbol i)"
    using assms(1) unfolding table_ok_def by blast+
  let ?new = "\<lparr>entry_name = name, entry_flags = flags, entry_symbol = Symbol (allocated t)\<rparr>"
  have "e = e'"
    if "e = ?new \<or> e \<in> set (symbol_hash t h1)" "e' = ?new \<or> e' \<in> set (symbol_hash t h2)"
      "entry_symbol e = entry_symbol e'" for e e' h1 h2
    using that once old by (elim disjE) (auto, metis+)
  moreover have "\<forall>n. name = Some n \<longrightarrow> bucket n = h" using assms(2) by blast
  moreover have "\<forall>h. \<forall>e \<in> set (symbol_hash t h). (\<forall>n. entry_name e = Some n \<longrightarrow> bucket n = h) \<and>
        (\<exists>i < allocated t + 1. entry_symbol e = Symbol i)" using home by (meson less_Suc_eq Suc_eq_plus1 trans_less_add1)
  ultimately show ?thesis
    unfolding table_ok_def bucket_alloc a by (auto split: if_splits)
qed

lemma wanted_new: "wanted flags n \<lparr>entry_name = Some n, entry_flags = flags, entry_symbol = s\<rparr>"
  by (simp add: wanted_def)

lemma constant_not_allocated: "constant_symbol n = Some s \<Longrightarrow> s \<noteq> Symbol i"
  by (auto simp: constant_symbol_def split: if_splits)

lemma symbol_of_alloc_other:
  assumes "m \<noteq> n"
  shows "symbol_of (snd (alloc_symbol t (Some n) flags (bucket n))) f m = symbol_of t f m"
  using assms by (auto simp: symbol_of_def alloc_symbol_def Let_def wanted_def split: option.split)

lemma symbol_of_fresh:
  assumes "table_ok t"
  shows "symbol_of t f m \<noteq> Some (Symbol (allocated t))"
proof
  assume "symbol_of t f m = Some (Symbol (allocated t))"
  then consider "constant_symbol m = Some (Symbol (allocated t))"
    | e where "find (wanted f m) (symbol_hash t (bucket m)) = Some e" "entry_symbol e = Symbol (allocated t)"
    by (auto simp: symbol_of_def split: option.splits)
  then show False
  proof cases
    case 1
    then show ?thesis using constant_not_allocated by blast
  next
    case 2
    then have "e \<in> set (symbol_hash t (bucket m))" by (auto simp: find_Some_iff)
    then show ?thesis using assms 2(2) unfolding table_ok_def by fastforce
  qed
qed

lemma sym_lookup_named:
  "sym_lookup t (Some n) flags =
    (case symbol_of t flags n of Some s \<Rightarrow> (s, t) | None \<Rightarrow> alloc_symbol t (Some n) flags (bucket n))"
  by (simp add: sym_lookup_def symbol_of_def split: option.split)

lemma sym_find_plain:
  assumes "\<forall>e \<in> set (symbol_hash t (bucket n)). entry_name e = Some n \<longrightarrow> entry_flags e AND SYMBOL_CHOICE = 0"
  shows "sym_find t (Some n) = symbol_of t 0 n"
proof -
  have "f AND (1 OR 0x10) = (f AND 1) OR (f AND 0x10)" for f :: flags by (rule bit.conj_disj_distrib)
  then have eq: "find (\<lambda>e. entry_name e = Some n \<and> entry_flags e AND SYMBOL_CONST = 0) es = find (wanted 0 n) es"
    if "set es \<subseteq> set (symbol_hash t (bucket n))" for es
    using that assms by (induction es) (auto simp: wanted_def)
  show ?thesis unfolding sym_find_def symbol_of_def option.case eq [OF order_refl] ..
qed

subsection \<open>Properties\<close>

text \<open>
  C19. The table is a map: looking up a name gives the symbol it has, or a new one that no name had,
  and changes nothing else. Looking it up again, or finding it, gives the same symbol, unless a
  choice has that name.
\<close>

theorem table_is_map:
  assumes "table_ok t" and "sym_lookup t (Some n) flags = (s, t')"
  shows "table_ok t' \<and> symbol_of t' flags n = Some s \<and> sym_lookup t' (Some n) flags = (s, t') \<and>
    (\<forall>m f. m \<noteq> n \<longrightarrow> symbol_of t' f m = symbol_of t f m) \<and>
    (if symbol_of t flags n = None then \<forall>m f. symbol_of t f m \<noteq> Some s else t' = t \<and> symbol_of t flags n = Some s) \<and>
    ((\<forall>e \<in> set (symbol_hash t' (bucket n)). entry_name e = Some n \<longrightarrow> entry_flags e AND SYMBOL_CHOICE = 0) \<and> flags = 0 \<longrightarrow>
       sym_find t' (Some n) = Some s)"
proof (cases "symbol_of t flags n")
  case (Some s')
  then show ?thesis using assms sym_find_plain [of t n] by (auto simp: sym_lookup_named)
next
  case None
  then have new: "alloc_symbol t (Some n) flags (bucket n) = (s, t')" using assms(2) by (simp add: sym_lookup_named)
  have s: "s = Symbol (allocated t)" using new by (simp add: alloc_symbol_def Let_def)
  have t': "snd (alloc_symbol t (Some n) flags (bucket n)) = t'" using new by simp
  have ok: "table_ok t'" using alloc_symbol_ok [OF assms(1), of "Some n" "bucket n" flags] t' by simp
  have "constant_symbol n = None" using None by (simp add: symbol_of_def split: option.splits)
  then have found: "symbol_of t' flags n = Some s"
    using new by (auto simp: symbol_of_def alloc_symbol_def Let_def wanted_new)
  then show ?thesis
    using ok None symbol_of_fresh [OF assms(1)] symbol_of_alloc_other [of _ n t flags] sym_find_plain [of t' n]
    unfolding t' s by (auto simp: sym_lookup_named)
qed

theorem table_is_map_witness:
  "\<exists>s t'. sym_lookup empty_table (Some ''FOO'') 0 = (s, t') \<and> sym_lookup t' (Some ''FOO'') 0 = (s, t') \<and> table_ok t'"
proof -
  obtain s t' where "sym_lookup empty_table (Some ''FOO'') 0 = (s, t')" by fastforce
  then show ?thesis using table_is_map [OF empty_table_ok] by blast
qed

end
