(* ===== verification/Kconfig_File.thy ===== *)
theory Kconfig_File
  imports Kconfig_Accept Kconfig_Table
begin

text \<open>
  The configuration file (\<open>scripts/kconfig/confdata.c\<close>): the line written for a symbol, the lines
  of a file and what reading them does to the user's values. The prefix of the names is an
  argument (it can be set in the environment); warnings and line numbers are left out.
\<close>

subsection \<open>Writing\<close>

fun escaped_chars :: "string \<Rightarrow> string" where
  "escaped_chars [] = []"
| "escaped_chars (c # cs) = (if c = CHR 0x22 \<or> c = CHR 0x5C then CHR 0x5C # c # escaped_chars cs else c # escaped_chars cs)"

definition sym_escape_string_value :: "string \<Rightarrow> string" where
  "sym_escape_string_value s = CHR 0x22 # escaped_chars s @ [CHR 0x22]"

definition newline :: char where
  "newline = CHR 0x0A"

definition kconfig_print_symbol :: "string \<Rightarrow> bool \<Rightarrow> symbol_type \<Rightarrow> string \<Rightarrow> string \<Rightarrow> string" where
  "kconfig_print_symbol prefix skip_unset type name val =
     (if (type = S_BOOLEAN \<or> type = S_TRISTATE) \<and> val \<noteq> [] \<and> hd val = CHR ''n''
      then (if skip_unset then [] else ''# '' @ prefix @ name @ '' is not set'' @ [newline])
      else prefix @ name @ ''='' @ val @ [newline])"

text \<open>
  What a printer prints for a symbol of a type, given the text of its value; strings are escaped.
\<close>

type_synonym printer = "symbol_type \<Rightarrow> string \<Rightarrow> string \<Rightarrow> string"

definition written_text :: "symbol_type \<Rightarrow> string \<Rightarrow> string" where
  "written_text type v = (if type = S_STRING then sym_escape_string_value v else v)"

definition conf_write_symbol :: "printer \<Rightarrow> calculation \<Rightarrow> config \<Rightarrow> state \<Rightarrow> symbol \<Rightarrow> (string \<times> state) option" where
  "conf_write_symbol print calc cfg st s =
     (let type = type_of cfg s; name = (case name_of cfg s of Some n \<Rightarrow> n | None \<Rightarrow> ''(null)'') in
      case type of
        S_OTHER \<Rightarrow> Some ([], st)
      | S_UNKNOWN \<Rightarrow> Some ([], st)
      | _ \<Rightarrow> do { (str, st) \<leftarrow> string_value calc cfg st s; Some (print type name (written_text type str), st) })"

subsection \<open>Reading\<close>

text \<open>A string up to the closing quote, its backslashes taken away; \<^term>\<open>None\<close> without a quote.\<close>

fun unquote :: "string \<Rightarrow> string option" where
  "unquote [] = None"
| "unquote (c # cs) =
     (if c = CHR 0x22 then Some []
      else if c = CHR 0x5C then (case cs of [] \<Rightarrow> None | d # ds \<Rightarrow> map_option ((#) d) (unquote ds))
      else map_option ((#) c) (unquote cs))"

definition set_user_tri :: "symbol \<Rightarrow> tristate \<Rightarrow> state \<Rightarrow> state" where
  "set_user_tri s t st = set_node s (\<lambda>n. n\<lparr>user_tri := t, user_flag := True\<rparr>) st"

definition set_user_text :: "config \<Rightarrow> symbol \<Rightarrow> string \<Rightarrow> state \<Rightarrow> bool \<times> state" where
  "set_user_text cfg s p st =
     (if sym_string_valid cfg s p then (False, set_node s (\<lambda>n. n\<lparr>user_val := Text p, user_flag := True\<rparr>) st)
      else (True, st))"

text \<open>
  \<open>conf_set_sym_val\<close> for the user's values; the result tells whether the value is invalid. Only
  reading \<open>auto.conf\<close> makes symbols of type \<open>S_OTHER\<close>.
\<close>

definition conf_set_sym_val :: "config \<Rightarrow> symbol \<Rightarrow> string \<Rightarrow> state \<Rightarrow> (bool \<times> state) option" where
  "conf_set_sym_val cfg s p st =
     (case type_of cfg s of
        S_TRISTATE \<Rightarrow>
          Some (if p \<noteq> [] \<and> hd p = CHR ''m'' then (False, set_user_tri s Mod st)
                else if p \<noteq> [] \<and> hd p = CHR ''y'' then (False, set_user_tri s Yes st)
                else if p \<noteq> [] \<and> hd p = CHR ''n'' then (False, set_user_tri s No st)
                else (True, st))
      | S_BOOLEAN \<Rightarrow>
          Some (if p \<noteq> [] \<and> hd p = CHR ''y'' then (False, set_user_tri s Yes st)
                else if p \<noteq> [] \<and> hd p = CHR ''n'' then (False, set_user_tri s No st)
                else (True, st))
      | S_OTHER \<Rightarrow> None
      | S_STRING \<Rightarrow>
          Some (case p of
             [] \<Rightarrow> (False, st)
           | c # cs \<Rightarrow>
               if c \<noteq> CHR 0x22 then (False, st)
               else (case unquote cs of None \<Rightarrow> (True, st) | Some t \<Rightarrow> set_user_text cfg s t st))
      | S_INT \<Rightarrow> Some (set_user_text cfg s p st)
      | S_HEX \<Rightarrow> Some (set_user_text cfg s p st)
      | S_UNKNOWN \<Rightarrow> Some (False, st))"

text \<open>What a line says.\<close>

datatype line = Skipped | Unset string | Assigned string string

definition has_prefix :: "string \<Rightarrow> string \<Rightarrow> bool" where
  "has_prefix p s \<longleftrightarrow> take (length p) s = p"

definition parse_line :: "string \<Rightarrow> string \<Rightarrow> line" where
  "parse_line prefix line =
     (if line \<noteq> [] \<and> hd line = CHR ''#'' then
        (if \<not> has_prefix prefix (drop 2 line) then Skipped
         else
           let rest = drop (2 + length prefix) line; name = takeWhile (\<lambda>c. c \<noteq> CHR '' '') rest in
           if name = rest then Skipped
           else if \<not> has_prefix ''is not set'' (drop (length name + 1) rest) then Skipped
           else Unset name)
      else if has_prefix prefix line then
        (let rest = drop (length prefix) line; name = takeWhile (\<lambda>c. c \<noteq> CHR ''='') rest in
         if name = rest then Skipped
         else
           let p = drop (length name + 1) rest; val = takeWhile (\<lambda>c. c \<noteq> newline) p;
               val = (if val \<noteq> p \<and> val \<noteq> [] \<and> last val = CHR 0x0D then butlast val else val)
           in Assigned name val)
      else Skipped)"

text \<open>What a value does to its choice.\<close>

definition note_choice :: "config \<Rightarrow> symbol \<Rightarrow> state \<Rightarrow> state option" where
  "note_choice cfg s st =
     (if \<not> choiceval_flag cfg s then Some st
      else do {
        cs \<leftarrow> choice_of cfg s;
        let tri = user_tri (node st s);
        let st = (case tri of
            No \<Rightarrow> st
          | Mod \<Rightarrow> if user_tri (node st cs) = Yes then set_node cs (\<lambda>n. n\<lparr>user_flag := False\<rparr>) st else st
          | Yes \<Rightarrow> set_node cs (\<lambda>n. n\<lparr>user_val := Pointed s\<rparr>) st);
        Some (set_node cs (\<lambda>n. n\<lparr>user_tri := EXPR_OR (user_tri n) (user_tri (node st s))\<rparr>) st) })"

definition read_line :: "string \<Rightarrow> config \<Rightarrow> table \<Rightarrow> state \<Rightarrow> string \<Rightarrow> state option" where
  "read_line prefix cfg tab st line =
     (case parse_line prefix line of
        Skipped \<Rightarrow> Some st
      | Unset name \<Rightarrow>
          (case sym_find tab (Some name) of
             None \<Rightarrow> Some (st\<lparr>change_count := change_count st + 1\<rparr>)
           | Some s \<Rightarrow>
               note_choice cfg s
                 (if type_of cfg s = S_BOOLEAN \<or> type_of cfg s = S_TRISTATE then set_user_tri s No st else st))
      | Assigned name p \<Rightarrow>
          (case sym_find tab (Some name) of
             None \<Rightarrow> Some (st\<lparr>change_count := change_count st + 1\<rparr>)
           | Some s \<Rightarrow> do {
               (invalid, st) \<leftarrow> conf_set_sym_val cfg s p st;
               if invalid then Some st else note_choice cfg s st }))"

text \<open>The lines of a file, each with its newline.\<close>

function config_lines :: "string \<Rightarrow> string list" where
  "config_lines cs =
     (if cs = [] then []
      else
        let line = takeWhile (\<lambda>c. c \<noteq> newline) cs; line = take (length line + 1) cs
        in line # config_lines (drop (length line) cs))"
  by pat_completeness auto
termination by (relation "measure length") (auto simp: min_def)

declare config_lines.simps [simp del]

fun read_lines :: "string \<Rightarrow> config \<Rightarrow> table \<Rightarrow> state \<Rightarrow> string list \<Rightarrow> state option" where
  "read_lines prefix cfg tab st [] = Some st"
| "read_lines prefix cfg tab st (l # ls) = do { st \<leftarrow> read_line prefix cfg tab st l; read_lines prefix cfg tab st ls }"

text \<open>The user's values are reset, those of choices stay marked, and the lines are read.\<close>

definition reset_user :: "config \<Rightarrow> state \<Rightarrow> symbol \<Rightarrow> state" where
  "reset_user cfg st s =
     set_node s (\<lambda>n. n\<lparr>user_flag := choice_flag cfg s, valid_flag := False, user_val := Null, user_tri := No\<rparr>) st"

definition conf_read_simple :: "string \<Rightarrow> config \<Rightarrow> table \<Rightarrow> state \<Rightarrow> string \<Rightarrow> state option" where
  "conf_read_simple prefix cfg tab st file =
     read_lines prefix cfg tab (fold (\<lambda>s st. reset_user cfg st s) (all_symbols cfg) st) (config_lines file)"

subsection \<open>Written lines read back\<close>

lemma unquote_escaped: "unquote (escaped_chars s @ CHR 0x22 # rest) = Some s"
  by (induction s rule: escaped_chars.induct) simp_all

lemma newline_escaped: "newline \<notin> set s \<Longrightarrow> newline \<notin> set (escaped_chars s)"
  by (induction s rule: escaped_chars.induct) (auto simp: newline_def)

text \<open>The values that can be saved, and the line saved for one.\<close>

definition saved_line :: "string \<Rightarrow> symbol_type \<Rightarrow> string \<Rightarrow> string \<Rightarrow> string" where
  "saved_line prefix type name v = kconfig_print_symbol prefix False type name (written_text type v)"

definition tri_of_text :: "string \<Rightarrow> tristate" where
  "tri_of_text v = (if v = ''y'' then Yes else if v = ''m'' then Mod else No)"

definition value_ok :: "config \<Rightarrow> symbol \<Rightarrow> string \<Rightarrow> bool" where
  "value_ok cfg s v \<longleftrightarrow>
     (case type_of cfg s of
        S_BOOLEAN \<Rightarrow> v = ''y'' \<or> v = ''n''
      | S_TRISTATE \<Rightarrow> v = ''y'' \<or> v = ''m'' \<or> v = ''n''
      | S_STRING \<Rightarrow> newline \<notin> set v
      | S_INT \<Rightarrow> sym_string_valid cfg s v
      | S_HEX \<Rightarrow> sym_string_valid cfg s v
      | _ \<Rightarrow> False)"

definition name_ok :: "string \<Rightarrow> bool" where
  "name_ok name \<longleftrightarrow> CHR '' '' \<notin> set name \<and> CHR ''='' \<notin> set name \<and> newline \<notin> set name"

definition saved :: "config \<Rightarrow> table \<Rightarrow> (symbol \<Rightarrow> string) \<Rightarrow> (symbol \<Rightarrow> string) \<Rightarrow> symbol \<Rightarrow> bool" where
  "saved cfg tab name val s \<longleftrightarrow>
     sym_find tab (Some (name s)) = Some s \<and> name_ok (name s) \<and> value_ok cfg s (val s) \<and> \<not> choice_flag cfg s \<and>
     (choiceval_flag cfg s \<longrightarrow> (\<exists>c. choice_of cfg s = Some c \<and> choice_flag cfg c))"

definition restore :: "config \<Rightarrow> symbol \<Rightarrow> string \<Rightarrow> state \<Rightarrow> state" where
  "restore cfg s v st =
     (if type_of cfg s = S_BOOLEAN \<or> type_of cfg s = S_TRISTATE then set_user_tri s (tri_of_text v) st
      else set_node s (\<lambda>n. n\<lparr>user_val := Text v, user_flag := True\<rparr>) st)"

lemma digit_no_newline: "digit_of c < 16 \<Longrightarrow> c \<noteq> newline \<and> c \<noteq> CHR 0x0D"
  by (auto simp: digit_of_def newline_def)

lemma valid_number_chars:
  assumes "sym_string_valid cfg s v" and "type_of cfg s = S_INT \<or> type_of cfg s = S_HEX" and "c \<in> set v"
  shows "c \<noteq> newline \<and> c \<noteq> CHR 0x0D"
proof -
  have char: "c = CHR ''-'' \<or> c = CHR ''x'' \<or> c = CHR ''X'' \<or> digit_of c < 16"
  proof (cases "type_of cfg s = S_INT")
    case True
    have "c = CHR ''-'' \<or> digit_of c < 10"
    proof (cases v)
      case (Cons a cs)
      then show ?thesis
        using assms(1,3) True
        by (cases "a = CHR ''-''"; cases cs) (auto simp: sym_string_valid_def is_digit_def split: if_splits)
    qed (use assms in simp)
    then show ?thesis by auto
  next
    case False
    then have hex: "type_of cfg s = S_HEX" using assms(2) by simp
    show ?thesis
    proof (cases "\<exists>b cs. v = CHR ''0'' # b # cs \<and> (b = CHR ''x'' \<or> b = CHR ''X'')")
      case True
      then obtain b cs where v: "v = CHR ''0'' # b # cs" "b = CHR ''x'' \<or> b = CHR ''X''" by blast
      then have "\<forall>d \<in> set cs. digit_of d < 16"
        using assms(1) hex by (simp add: sym_string_valid_def is_xdigit_def)
      moreover have "digit_of CHR ''0'' < 16" by (simp add: digit_of_def)
      ultimately show ?thesis using v assms(3) by auto
    next
      case False
      then have "\<forall>d \<in> set v. is_xdigit d"
        using assms(1) hex by (auto simp: sym_string_valid_def split: list.splits if_splits)
      then show ?thesis using assms(3) by (simp add: is_xdigit_def)
    qed
  qed
  have "CHR ''-'' \<noteq> newline \<and> CHR ''x'' \<noteq> newline \<and> CHR ''X'' \<noteq> newline" by (simp add: newline_def)
  then show ?thesis using char digit_no_newline [of c] by auto
qed

lemma written_chars:
  assumes "value_ok cfg s v"
  shows "newline \<notin> set (written_text (type_of cfg s) v)"
    and "written_text (type_of cfg s) v \<noteq> [] \<Longrightarrow> last (written_text (type_of cfg s) v) \<noteq> CHR 0x0D"
proof -
  show "newline \<notin> set (written_text (type_of cfg s) v)"
    using assms valid_number_chars [of cfg s v newline] newline_escaped [of v]
    by (auto simp: value_ok_def written_text_def sym_escape_string_value_def split: symbol_type.splits)
      (auto simp: newline_def)
  assume "written_text (type_of cfg s) v \<noteq> []"
  then show "last (written_text (type_of cfg s) v) \<noteq> CHR 0x0D"
    using assms valid_number_chars [of cfg s v "last v"]
    by (auto simp: value_ok_def written_text_def sym_escape_string_value_def split: symbol_type.splits if_splits)
qed

lemma takeWhile_until: "c \<notin> set xs \<Longrightarrow> takeWhile (\<lambda>x. x \<noteq> c) (xs @ c # ys) = xs"
  by (subst takeWhile_append2) auto

lemma parse_assigned:
  assumes "prefix \<noteq> []" and "hd prefix \<noteq> CHR ''#''" and "name_ok name" and "newline \<notin> set v"
    and "v \<noteq> [] \<Longrightarrow> last v \<noteq> CHR 0x0D"
  shows "parse_line prefix (prefix @ name @ ''='' @ v @ [newline]) = Assigned name v"
  using assms takeWhile_until [of "CHR ''=''" name "v @ [newline]"] takeWhile_until [of newline v "[]"]
  by (auto simp: parse_line_def has_prefix_def name_ok_def Let_def)

lemma parse_unset:
  assumes "name_ok name"
  shows "parse_line prefix (''# '' @ prefix @ name @ '' is not set'' @ [newline]) = Unset name"
  using assms takeWhile_until [of "CHR '' ''" name "''is not set'' @ [newline]"]
  by (auto simp: parse_line_def has_prefix_def name_ok_def Let_def)

text \<open>Apart from choices.\<close>

definition same_but_choices :: "config \<Rightarrow> state \<Rightarrow> state \<Rightarrow> bool" where
  "same_but_choices cfg st st' \<longleftrightarrow> (\<forall>t. \<not> choice_flag cfg t \<longrightarrow> node st' t = node st t)"

lemma note_choice_same:
  assumes "saved cfg tab name val s"
  shows "\<exists>st'. note_choice cfg s st = Some st' \<and> same_but_choices cfg st st'"
proof (cases "choiceval_flag cfg s")
  case True
  then obtain c where "choice_of cfg s = Some c" "choice_flag cfg c" using assms by (auto simp: saved_def)
  then show ?thesis
    by (cases "user_tri (node st s)") (auto simp: note_choice_def same_but_choices_def Let_def)
qed (simp add: note_choice_def same_but_choices_def)

lemma read_saved_line:
  assumes p: "prefix \<noteq> []" "hd prefix \<noteq> CHR ''#''" and s: "saved cfg tab name val s"
  shows "\<exists>st'. read_line prefix cfg tab st (saved_line prefix (type_of cfg s) (name s) (val s)) = Some st' \<and>
    same_but_choices cfg (restore cfg s (val s) st) st'"
proof -
  have find: "sym_find tab (Some (name s)) = Some s" and name: "name_ok (name s)" and v: "value_ok cfg s (val s)"
    using s by (simp_all add: saved_def)
  let ?t = "type_of cfg s" and ?w = "written_text (type_of cfg s) (val s)"
  obtain st' where st': "note_choice cfg s (restore cfg s (val s) st) = Some st'"
      "same_but_choices cfg (restore cfg s (val s) st) st'"
    using note_choice_same [OF s] by blast
  have "read_line prefix cfg tab st (saved_line prefix ?t (name s) (val s)) =
    note_choice cfg s (restore cfg s (val s) st)"
  proof (cases "(?t = S_BOOLEAN \<or> ?t = S_TRISTATE) \<and> val s = ''n''")
    case True
    then have "saved_line prefix ?t (name s) (val s) = ''# '' @ prefix @ name s @ '' is not set'' @ [newline]"
      by (auto simp: saved_line_def kconfig_print_symbol_def written_text_def)
    then show ?thesis
      using True find parse_unset [OF name, of prefix]
      by (auto simp: read_line_def restore_def tri_of_text_def)
  next
    case False
    then have w: "saved_line prefix ?t (name s) (val s) = prefix @ name s @ ''='' @ ?w @ [newline]"
      using v by (auto simp: saved_line_def kconfig_print_symbol_def written_text_def value_ok_def split: symbol_type.splits)
    have set: "conf_set_sym_val cfg s ?w st = Some (False, restore cfg s (val s) st)"
      using v False unquote_escaped [of "val s" "[]"]
      by (cases ?t) (auto simp: conf_set_sym_val_def value_ok_def written_text_def restore_def tri_of_text_def
          set_user_text_def sym_escape_string_value_def sym_string_valid_def [of cfg s "val s"])
    have "parse_line prefix (prefix @ name s @ ''='' @ ?w @ [newline]) = Assigned (name s) ?w"
      using parse_assigned [OF p name] written_chars [OF v] by blast
    then show ?thesis
      unfolding w read_line_def by (simp only: line.case find option.case set bind.bind_lunit prod.case if_False)
  qed
  then show ?thesis using st' by simp
qed

end
