(* ===== verification/Kconfig_Configuration.thy ===== *)
theory Kconfig_Configuration
  imports Kconfig_Accept
begin

text \<open>
  The properties of the values of symbols, and a small configuration they are shown on: \<open>MODULES\<close>,
  a tristate \<open>FOO\<close> that depends on it and an integer \<open>NUM\<close> between 2 and 40.
\<close>

subsection \<open>An example\<close>

definition plain_property :: "prop_type \<Rightarrow> property" where
  "plain_property t = \<lparr>prop_type = t, prop_text = None, prop_visible = None, prop_expr = None\<rparr>"

definition prompt :: "string \<Rightarrow> property" where
  "prompt t = (plain_property P_PROMPT)\<lparr>prop_text := Some t\<rparr>"

definition example_type :: "symbol \<Rightarrow> symbol_type" where
  "example_type s = (if s = Symbol 0 then S_BOOLEAN else if s = Symbol 1 then S_TRISTATE
     else if s = Symbol 2 then S_INT else S_UNKNOWN)"

definition example_name :: "symbol \<Rightarrow> string" where
  "example_name s = (if s = Symbol 0 then ''MODULES'' else if s = Symbol 1 then ''FOO'' else if s = Symbol 2 then ''NUM''
     else if s = Symbol 3 then ''2'' else if s = Symbol 4 then ''40''
     else if s = symbol_yes then ''y'' else if s = symbol_mod then ''m'' else ''n'')"

definition num_range :: property where
  "num_range = (plain_property P_RANGE)\<lparr>prop_expr := Some (E_RANGE (Symbol 3) (Symbol 4))\<rparr>"

definition example_config :: config where
  "example_config =
     \<lparr>type_of = example_type, name_of = (\<lambda>s. Some (example_name s)),
      const_flag = (\<lambda>s. s \<in> {symbol_yes, symbol_mod, symbol_no, Symbol 3, Symbol 4}),
      choice_flag = (\<lambda>_. False), choiceval_flag = (\<lambda>_. False), no_write_flag = (\<lambda>_. False),
      props = (\<lambda>s. if s = Symbol 0 \<or> s = Symbol 1 then [prompt ''x'']
        else if s = Symbol 2 then [prompt ''n'', num_range] else []),
      dir_dep_expr = (\<lambda>s. if s = Symbol 1 then Some (E_SYMBOL (Symbol 0)) else None),
      rev_dep_expr = (\<lambda>_. None), implied_expr = (\<lambda>_. None),
      modules_sym = Symbol 0, all_symbols = [Symbol 0, Symbol 1, Symbol 2, Symbol 3, Symbol 4],
      text_at = (\<lambda>_. '''')\<rparr>"

definition example_symbols :: "symbol set" where
  "example_symbols = {Symbol 0, Symbol 1, Symbol 2, Symbol 3, Symbol 4}"

definition unset_node :: sym_state where
  "unset_node =
     \<lparr>cur_tri = No, cur_val = Null, user_tri = No, user_val = Null, visible = No, dir_dep_tri = No, rev_dep_tri = No,
      implied_tri = No, valid_flag = False, write_flag = False, user_flag = False, need_set_flag = False\<rparr>"

definition constant_node :: "tristate \<Rightarrow> string \<Rightarrow> sym_state" where
  "constant_node t n = unset_node\<lparr>cur_tri := t, cur_val := Text n, valid_flag := True\<rparr>"

definition example_state :: state where
  "example_state =
     \<lparr>node = (\<lambda>_. unset_node)(symbol_yes := constant_node Yes ''y'', symbol_mod := constant_node Mod ''m'',
        symbol_no := constant_node No ''n''),
      modules_val = No, change_count = 0\<rparr>"

lemmas example_defs = example_config_def example_symbols_def example_state_def unset_node_def constant_node_def
  plain_property_def prompt_def num_range_def

lemma example_config_ok: "config_ok example_config example_symbols"
  by (simp add: config_ok_def symbol_ok_def prop_ok_def expr_within_def range_bounds_def example_defs)

lemma example_read: "configuration_read example_config example_symbols example_state"
  unfolding configuration_read_def
  by (intro conjI example_config_ok)
    (auto simp: modules_ok_def constants_ok_def no_marks_def modules_current_def example_defs example_type_def)

lemma example_first: "modules_first example_config {Symbol 0}"
  by (simp add: modules_first_def config_ok_def symbol_ok_def prop_ok_def expr_within_def example_defs example_type_def)

lemma example_small: "3 * card example_symbols < 16"
  by (simp add: example_symbols_def)

subsection \<open>Properties\<close>

text \<open>
  C16. \<open>sym_calc_value\<close> ends: in a declared configuration, whatever the symbols refer to (cycles
  included), the calculation of a symbol returns, with nested calls no deeper than three times
  the number of symbols, and a larger bound gives the same result. It leaves every value alone
  that was already valid.
\<close>

theorem calculation_returns:
  assumes "config_ok cfg U" and "marks_ok cfg st" and "s \<in> U" and "3 * card U < depth"
  shows "\<exists>st'. (\<forall>extra. sym_calc_value (depth + extra) cfg st s = Some st') \<and>
    (\<forall>t. valid_flag (node st t) \<longrightarrow> valid_flag (node st' t) \<and>
       cur_tri (node st' t) = cur_tri (node st t) \<and> cur_val (node st' t) = cur_val (node st t))"
proof -
  obtain st' where st': "sym_calc_value depth cfg st s = Some st'" "keeps cfg U {} st st'"
    using sym_calc_value_deep [OF assms] by blast
  then have "sym_calc_value (depth + extra) cfg st s = Some st'" for extra
    using sym_calc_value_mono [of depth cfg st s extra] by (simp add: at_most_def)
  then show ?thesis using st'(2) unfolding keeps_def by blast
qed

theorem calculation_returns_witness:
  "\<exists>st'. \<forall>extra. sym_calc_value (16 + extra) example_config example_state (Symbol 1) = Some st'"
  using calculation_returns [OF example_config_ok no_marks_ok _ example_small, of example_state "Symbol 1"] example_read
  by (auto simp: configuration_read_def example_symbols_def)

text \<open>
  C15. The values have their types: when the configuration is calculated anew, every symbol gets a
  valid value, no boolean symbol is \<open>m\<close>, and no tristate symbol is \<open>m\<close> while modules are off, as
  the evaluation of expressions assumes. \<open>modules_sym\<close> must not depend on another tristate symbol:
  that one would keep the value from before modules were switched off.
\<close>

theorem configuration_typed:
  assumes "configuration_read cfg U st" and "modules_first cfg M" and "3 * card U < depth"
  shows "\<exists>st' st''. sym_clear_all_valid depth cfg st = Some st' \<and> calc_all depth cfg st' (all_symbols cfg) = Some st'' \<and>
    (\<forall>s \<in> set (all_symbols cfg). valid_flag (node st'' s)) \<and> env_ok (symbols_of cfg st'')"
  using assms by (rule configuration_typed_lemma)

theorem configuration_typed_witness:
  "\<exists>st' st''. sym_clear_all_valid 16 example_config example_state = Some st' \<and>
    calc_all 16 example_config st' (all_symbols example_config) = Some st'' \<and> env_ok (symbols_of example_config st'')"
  using configuration_typed [OF example_read example_first example_small] by blast

text \<open>
  Toggling goes through the values in the order \<open>n\<close>, \<open>m\<close>, \<open>y\<close> and stops at the first that
  is within the range of the symbol; if there is none, it comes back to the old one.
\<close>

theorem toggle_stops:
  assumes "config_ok cfg U" and "marks_ok cfg st" and "s \<in> U" and "3 * card U < depth"
  shows "\<exists>st'. sym_toggle_tristate_value depth cfg st s = Some (toggled cfg st s, st')"
  using assms by (rule toggle_reaches)

theorem toggle_stops_witness:
  "\<exists>st'. sym_toggle_tristate_value 16 example_config example_state (Symbol 1) = Some (No, st')"
  using toggle_stops [OF example_config_ok no_marks_ok _ example_small, of example_state "Symbol 1"] example_read
  by (auto simp: configuration_read_def example_symbols_def toggled_def sym_tristate_within_range_def example_state_def
      unset_node_def)

text \<open>
  C38. What \<open>sym_tristate_within_range\<close> accepts is what is calculated: with an accepted value as the
  user's value and the same visibility and dependencies, \<open>sym_calc_value\<close> computes that value.
  The value of a visible choice is excepted: it follows its choice.
\<close>

theorem accepted_is_calculated:
  assumes "sym_tristate_within_range cfg st s val" and "\<not> (choiceval_flag cfg s \<and> visible (node st s) = Yes)"
    and "user_flag (node st s)" and "user_tri (node st s) = val"
  shows "calc_tristate calc cfg st s = Some (val, st)"
  using assms by (rule accepted_value)

theorem accepted_is_calculated_witness:
  "\<forall>calc. let st = set_node (Symbol 1) (\<lambda>n. n\<lparr>visible := Mod, user_flag := True, user_tri := Mod\<rparr>)
       (example_state\<lparr>modules_val := Yes\<rparr>)
   in calc_tristate calc example_config st (Symbol 1) = Some (Mod, st)"
  unfolding Let_def
  by (intro allI accepted_is_calculated)
    (simp_all add: sym_tristate_within_range_def sym_get_type_def example_defs example_type_def tri_order)

text \<open>
  C40. An integer is moved to the nearer end of its range: \<open>sym_validate_range\<close> stores a text that
  reads back as the value itself if it lies between the bounds, and as the bound otherwise.
\<close>

theorem integer_in_range:
  assumes "type_of cfg s = S_INT" and "range_bounds p = Some (left, right)"
    and "valid_flag (node st left)" and "valid_flag (node st right)"
    and "bound_value cfg st 10 left \<le> bound_value cfg st 10 right"
  shows "\<exists>st'. clamp_to_range (sym_calc_value (Suc d) cfg) cfg st s p = Some st' \<and>
    strtoll 10 (pointer_text cfg (cur_val (node st' s))) =
      max (bound_value cfg st 10 left) (min (strtoll 10 (pointer_text cfg (cur_val (node st s)))) (bound_value cfg st 10 right))"
  using assms by (rule clamped_integer)

definition bounds_state :: state where
  "bounds_state = set_node (Symbol 3) (\<lambda>_. constant_node No ''2'') (set_node (Symbol 4) (\<lambda>_. constant_node No ''40'')
     (set_node (Symbol 2) (\<lambda>n. n\<lparr>cur_val := Text ''-7''\<rparr>) example_state))"

theorem integer_in_range_witness:
  "\<exists>st'. clamp_to_range (sym_calc_value 1 example_config) example_config bounds_state (Symbol 2) num_range = Some st' \<and>
    strtoll 10 (pointer_text example_config (cur_val (node st' (Symbol 2)))) = 2"
proof -
  have b: "bound_value example_config bounds_state 10 (Symbol 3) = 2" "bound_value example_config bounds_state 10 (Symbol 4) = 40"
    "strtoll 10 (pointer_text example_config (cur_val (node bounds_state (Symbol 2)))) = -7" by code_simp+
  show ?thesis
    using integer_in_range [of example_config "Symbol 2" num_range "Symbol 3" "Symbol 4" bounds_state 0]
    unfolding b by (simp add: bounds_state_def example_defs example_type_def range_bounds_def)
qed

end
