(* ===== verification/Kconfig_Save.thy ===== *)
theory Kconfig_Save
  imports Kconfig_File Kconfig_Configuration
begin

text \<open>
  The configuration file as a whole (\<open>scripts/kconfig/confdata.c\<close>): \<open>conf_write\<close> goes through the
  menus and writes their titles and the values of their symbols, \<open>conf_write_autoconf\<close> writes
  the values of all symbols for make, for the module build and as C macros. Opening, renaming and
  the names of the files are left out; the depth is that of \<open>sym_calc_value\<close>.
\<close>

subsection \<open>Comments and headings\<close>

lemma drop_shorter: "x # xs = drop n p \<Longrightarrow> length xs < length p"
  by (drule arg_cong [where f = length]) simp

text \<open>A comment's lines, each after a mark.\<close>

function marked_lines :: "string \<Rightarrow> string \<Rightarrow> string" where
  "marked_lines mark p =
     (let l = takeWhile (\<lambda>c. c \<noteq> newline) p; rest = drop (length l) p in
      mark @ (if l \<noteq> [] then '' '' @ l else []) @ [newline] @
      (case rest of [] \<Rightarrow> [] | _ # r \<Rightarrow> marked_lines mark r))"
  by pat_completeness auto
termination by (relation "measure (\<lambda>(mark, p). length p)") (auto dest: drop_shorter)

declare marked_lines.simps [simp del]

definition kconfig_print_comment :: "string \<Rightarrow> string" where
  "kconfig_print_comment val = marked_lines ''#'' val"

definition header_print_comment :: "string \<Rightarrow> string" where
  "header_print_comment val = ''/*'' @ [newline] @ marked_lines '' *'' val @ '' */'' @ [newline]"

text \<open>The buffer of the heading has 256 bytes.\<close>

definition conf_write_heading :: "(string \<Rightarrow> string) \<Rightarrow> string \<Rightarrow> string" where
  "conf_write_heading print title =
     print (take 255 ([newline] @ ''Automatically generated file; DO NOT EDIT.'' @ [newline] @ title @ [newline]))"

subsection \<open>The other printers\<close>

definition header_print_symbol :: "string \<Rightarrow> symbol_type \<Rightarrow> string \<Rightarrow> string \<Rightarrow> string" where
  "header_print_symbol prefix type name val =
     (let define = (\<lambda>name val. ''#define '' @ prefix @ name @ '' '' @ val @ [newline]) in
      case type of
        S_BOOLEAN \<Rightarrow> (if val \<noteq> [] \<and> hd val = CHR ''n'' then []
          else define (if val \<noteq> [] \<and> hd val = CHR ''m'' then name @ ''_MODULE'' else name) ''1'')
      | S_TRISTATE \<Rightarrow> (if val \<noteq> [] \<and> hd val = CHR ''n'' then []
          else define (if val \<noteq> [] \<and> hd val = CHR ''m'' then name @ ''_MODULE'' else name) ''1'')
      | S_HEX \<Rightarrow> define name
          ((case val of a # b # _ \<Rightarrow> if a \<noteq> CHR ''0'' \<or> (b \<noteq> CHR ''x'' \<and> b \<noteq> CHR ''X'') then ''0x'' else [] | _ \<Rightarrow> ''0x'') @ val)
      | S_STRING \<Rightarrow> define name val
      | S_INT \<Rightarrow> define name val
      | _ \<Rightarrow> [])"

definition tristate_print_symbol :: "string \<Rightarrow> symbol_type \<Rightarrow> string \<Rightarrow> string \<Rightarrow> string" where
  "tristate_print_symbol prefix type name val =
     (case val of
        [] \<Rightarrow> (if type = S_TRISTATE then prefix @ name @ ''='' @ [CHR 0x00] @ [newline] else [])
      | c # _ \<Rightarrow> (if type = S_TRISTATE \<and> c \<noteq> CHR ''n'' then prefix @ name @ ''='' @ [toupper c] @ [newline] else []))"

subsection \<open>Menus\<close>

text \<open>A menu, a comment (both without symbol), or the entry of a symbol, with what it contains.\<close>

datatype menu = Menu "symbol option" "property option" "expr option" "menu list"

text \<open>The visibility of an entry without symbol.\<close>

definition menu_is_visible :: "calculation \<Rightarrow> config \<Rightarrow> state \<Rightarrow> property option \<Rightarrow> expr option \<Rightarrow> (bool \<times> state) option" where
  "menu_is_visible calc cfg st pr vis =
     (case pr of
        None \<Rightarrow> Some (False, st)
      | Some p \<Rightarrow> do {
          (hidden, st) \<leftarrow> (case vis of
             None \<Rightarrow> Some (False, st)
           | Some e \<Rightarrow> do { (v, st) \<leftarrow> calc_expr calc cfg st e; Some (v = No, st) });
          if hidden then Some (False, st)
          else do { (v, st) \<leftarrow> calc_expr_ptr calc cfg st (prop_visible p); Some (v \<noteq> No, st) } })"

definition menu_text :: "string \<Rightarrow> string" where
  "menu_text title = [newline] @ ''#'' @ [newline] @ ''# '' @ title @ [newline] @ ''#'' @ [newline]"

definition write_entry :: "string \<Rightarrow> calculation \<Rightarrow> config \<Rightarrow> state \<Rightarrow> symbol option \<Rightarrow> property option \<Rightarrow> expr option \<Rightarrow>
    (string \<times> state) option" where
  "write_entry prefix calc cfg st entry pr vis =
     (case entry of
        None \<Rightarrow> do {
          (visible, st) \<leftarrow> menu_is_visible calc cfg st pr vis;
          Some (case pr of Some p \<Rightarrow> if visible then menu_text (case prop_text p of Some t \<Rightarrow> t | None \<Rightarrow> ''(null)'') else []
            | None \<Rightarrow> [], st) }
      | Some s \<Rightarrow>
          if choice_flag cfg s then Some ([], st)
          else do {
            st \<leftarrow> calc st s;
            if \<not> write_flag (node st s) then Some ([], st)
            else conf_write_symbol (kconfig_print_symbol prefix False) calc cfg (set_node s (\<lambda>n. n\<lparr>write_flag := False\<rparr>) st) s })"

text \<open>An entry, then what it contains, then the next entry.\<close>

fun write_menu :: "string \<Rightarrow> calculation \<Rightarrow> config \<Rightarrow> state \<Rightarrow> menu \<Rightarrow> (string \<times> state) option"
  and write_menus :: "string \<Rightarrow> calculation \<Rightarrow> config \<Rightarrow> state \<Rightarrow> menu list \<Rightarrow> (string \<times> state) option" where
  "write_menu prefix calc cfg st (Menu entry pr vis ms) =
     do { (out, st) \<leftarrow> write_entry prefix calc cfg st entry pr vis;
          (rest, st) \<leftarrow> write_menus prefix calc cfg st ms;
          Some (out @ rest, st) }"
| "write_menus prefix calc cfg st [] = Some ([], st)"
| "write_menus prefix calc cfg st (m # ms) =
     do { (out, st) \<leftarrow> write_menu prefix calc cfg st m;
          (rest, st) \<leftarrow> write_menus prefix calc cfg st ms;
          Some (out @ rest, st) }"

text \<open>If nothing was changed, the configuration is calculated anew.\<close>

definition conf_write :: "string \<Rightarrow> nat \<Rightarrow> config \<Rightarrow> state \<Rightarrow> string \<Rightarrow> menu list \<Rightarrow> (string \<times> state) option" where
  "conf_write prefix depth cfg st title menus = do {
     st \<leftarrow> (if change_count st = 0 then sym_clear_all_valid depth cfg st else Some st);
     (out, st) \<leftarrow> write_menus prefix (sym_calc_value depth cfg) cfg st menus;
     Some (conf_write_heading kconfig_print_comment title @ out, st\<lparr>change_count := 0\<rparr>) }"

subsection \<open>The files of the build\<close>

fun write_autoconf :: "string \<Rightarrow> calculation \<Rightarrow> config \<Rightarrow> state \<Rightarrow> symbol list \<Rightarrow> (string \<times> string \<times> string \<times> state) option" where
  "write_autoconf prefix calc cfg st [] = Some ([], [], [], st)"
| "write_autoconf prefix calc cfg st (s # ss) = do {
     st \<leftarrow> calc st s;
     if \<not> write_flag (node st s) \<or> name_of cfg s = None then write_autoconf prefix calc cfg st ss
     else do {
       (out, st) \<leftarrow> conf_write_symbol (kconfig_print_symbol prefix True) calc cfg st s;
       (tri, st) \<leftarrow> conf_write_symbol (tristate_print_symbol prefix) calc cfg st s;
       (out_h, st) \<leftarrow> conf_write_symbol (header_print_symbol prefix) calc cfg st s;
       (outs, tris, out_hs, st) \<leftarrow> write_autoconf prefix calc cfg st ss;
       Some (out @ outs, tri @ tris, out_h @ out_hs, st) } }"

definition conf_write_autoconf :: "string \<Rightarrow> nat \<Rightarrow> config \<Rightarrow> state \<Rightarrow> string \<Rightarrow> (string \<times> string \<times> string \<times> state) option" where
  "conf_write_autoconf prefix depth cfg st title = do {
     st \<leftarrow> sym_clear_all_valid depth cfg st;
     (out, tri, out_h, st) \<leftarrow> write_autoconf prefix (sym_calc_value depth cfg) cfg st (all_symbols cfg);
     Some (conf_write_heading kconfig_print_comment title @ out, conf_write_heading kconfig_print_comment title @ tri,
       conf_write_heading header_print_comment title @ out_h, st) }"

end
