(* ===== verification/Kconfig_Reload.thy ===== *)
theory Kconfig_Reload
  imports Kconfig_Save
begin

text \<open>
  A saved configuration is read back: what \<open>conf_write\<close> prints is a sequence of comments and of
  lines for symbols, \<open>conf_read_simple\<close> skips the former and restores the user's values from the
  latter.
\<close>

subsection \<open>Lines\<close>

lemma config_lines_Nil [simp]: "config_lines [] = []"
  by (simp add: config_lines.simps)

lemma config_lines_line:
  assumes "newline \<notin> set l"
  shows "config_lines (l @ newline # rest) = (l @ [newline]) # config_lines rest"
  by (subst config_lines.simps) (simp add: takeWhile_until [OF assms] Let_def)

definition ends_line :: "string \<Rightarrow> bool" where
  "ends_line cs \<longleftrightarrow> cs = [] \<or> last cs = newline"

lemma ends_line_split:
  assumes "ends_line cs" and "cs \<noteq> []"
  obtains l rest where "cs = l @ newline # rest" "newline \<notin> set l" "ends_line rest"
proof -
  have "newline \<in> set cs" using assms last_in_set by (fastforce simp: ends_line_def)
  then obtain l rest where "cs = l @ newline # rest" "newline \<notin> set l" by (meson split_list_first)
  moreover from this have "ends_line rest" using assms by (simp add: ends_line_def split: if_splits)
  ultimately show ?thesis using that by blast
qed

lemma config_lines_append:
  "ends_line cs \<Longrightarrow> config_lines (cs @ ds) = config_lines cs @ config_lines ds"
proof (induction cs rule: length_induct)
  case (1 cs)
  show ?case
  proof (cases "cs = []")
    case False
    then obtain l rest where "cs = l @ newline # rest" "newline \<notin> set l" "ends_line rest"
      using ends_line_split 1(2) by blast
    then show ?thesis using 1(1) by (simp add: config_lines_line)
  qed simp
qed

lemma ends_line_append: "ends_line cs \<Longrightarrow> ends_line ds \<Longrightarrow> ends_line (cs @ ds)"
  by (auto simp: ends_line_def last_append)

text \<open>Text that reading skips.\<close>

definition harmless :: "string \<Rightarrow> string \<Rightarrow> bool" where
  "harmless prefix cs \<longleftrightarrow> ends_line cs \<and> (\<forall>l \<in> set (config_lines cs). parse_line prefix l = Skipped)"

lemma harmless_Nil [simp]: "harmless prefix []"
  by (simp add: harmless_def ends_line_def)

lemma harmless_append: "harmless prefix cs \<Longrightarrow> harmless prefix ds \<Longrightarrow> harmless prefix (cs @ ds)"
  by (auto simp: harmless_def ends_line_append config_lines_append)

lemma harmless_line:
  assumes "newline \<notin> set l" and "parse_line prefix (l @ [newline]) = Skipped"
  shows "harmless prefix (l @ [newline])"
  using assms config_lines_line [of l "[]"] by (simp add: harmless_def ends_line_def)

text \<open>A prefix as \<open>CONFIG_\<close>, and titles that do not look like a symbol.\<close>

definition prefix_ok :: "string \<Rightarrow> bool" where
  "prefix_ok prefix \<longleftrightarrow> prefix \<noteq> [] \<and> hd prefix \<noteq> CHR ''#'' \<and> newline \<notin> set prefix \<and>
     \<not> has_prefix prefix ''Automatically generated file; DO NOT EDIT.''"

definition title_ok :: "string \<Rightarrow> string \<Rightarrow> bool" where
  "title_ok prefix title \<longleftrightarrow> newline \<notin> set title \<and> \<not> has_prefix prefix title"

lemma has_prefix_append:
  assumes "newline \<notin> set prefix" and "has_prefix prefix (l @ [newline])"
  shows "has_prefix prefix l"
proof -
  have eq: "take (length prefix) l @ take (length prefix - length l) [newline] = prefix"
    using assms(2) by (simp add: has_prefix_def)
  have "length prefix \<le> length l"
  proof (rule ccontr)
    assume "\<not> length prefix \<le> length l"
    then have "newline \<in> set (take (length prefix - length l) [newline])"
      by (cases "length prefix - length l") auto
    then have "newline \<in> set prefix" using eq by (metis Un_iff set_append)
    then show False using assms(1) by blast
  qed
  then show ?thesis using eq by (simp add: has_prefix_def)
qed

lemma has_prefix_take: "has_prefix prefix (take k t) \<Longrightarrow> has_prefix prefix t"
proof -
  assume "has_prefix prefix (take k t)"
  then have p: "take (min (length prefix) k) t = prefix" by (simp add: has_prefix_def)
  then have "length prefix \<le> k" by (metis length_take min.cobounded1 min.cobounded2 order.trans)
  then show "has_prefix prefix t" using p by (simp add: has_prefix_def min_absorb1)
qed

lemma comment_skipped:
  assumes "prefix_ok prefix" and "\<not> has_prefix prefix l"
  shows "parse_line prefix (''# '' @ l @ [newline]) = Skipped"
  using assms has_prefix_append by (auto simp: parse_line_def prefix_ok_def)

lemma comment_harmless:
  assumes "prefix_ok prefix" and "title_ok prefix l"
  shows "harmless prefix (''# '' @ l @ [newline])"
  using comment_skipped [of prefix l] assms harmless_line [of "''# '' @ l" prefix]
  by (simp add: title_ok_def newline_def)

lemma blank_harmless: "prefix_ok prefix \<Longrightarrow> harmless prefix (''#'' @ [newline])" "prefix_ok prefix \<Longrightarrow> harmless prefix [newline]"
  using harmless_line [of "''#''" prefix] harmless_line [of "[]" prefix]
  by (auto simp: parse_line_def prefix_ok_def has_prefix_def newline_def neq_Nil_conv take_Cons')

lemma menu_text_harmless:
  assumes "prefix_ok prefix" and "title_ok prefix title"
  shows "harmless prefix (menu_text title)"
proof -
  have "harmless prefix ([newline] @ (''#'' @ [newline]) @ (''# '' @ title @ [newline]) @ (''#'' @ [newline]))"
    by (intro harmless_append blank_harmless comment_harmless assms)
  then show ?thesis by (simp add: menu_text_def)
qed

lemma marked_lines_last: "newline \<notin> set l \<Longrightarrow>
    marked_lines mark l = mark @ (if l \<noteq> [] then '' '' @ l else []) @ [newline]"
proof -
  assume "newline \<notin> set l"
  then have first: "takeWhile (\<lambda>c. c \<noteq> newline) l = l" by (auto simp: takeWhile_eq_all_conv)
  show ?thesis by (subst marked_lines.simps) (simp only: first Let_def drop_all order_refl list.case append_Nil2)
qed

lemma marked_lines_line: "newline \<notin> set l \<Longrightarrow>
    marked_lines mark (l @ newline # rest) = mark @ (if l \<noteq> [] then '' '' @ l else []) @ [newline] @ marked_lines mark rest"
  by (subst marked_lines.simps) (simp add: takeWhile_until Let_def)

lemma marked_lines_harmless:
  assumes p: "prefix_ok prefix"
  shows "\<forall>l. title_ok prefix l \<or> l = [] \<longrightarrow> harmless prefix (marked_lines ''#'' l)"
    and "\<forall>l. (title_ok prefix l \<or> l = []) \<and> harmless prefix (marked_lines ''#'' rest) \<longrightarrow>
      harmless prefix (marked_lines ''#'' (l @ newline # rest))"
proof -
  have line: "harmless prefix (''#'' @ (if l \<noteq> [] then '' '' @ l else []) @ [newline])"
    if "title_ok prefix l \<or> l = []" for l
    using that comment_harmless [OF p, of l] blank_harmless(1) [OF p] by (auto split: if_splits)
  then show "\<forall>l. title_ok prefix l \<or> l = [] \<longrightarrow> harmless prefix (marked_lines ''#'' l)"
    using marked_lines_last [of _ "''#''"] by (metis empty_iff list.set(1) title_ok_def)
  show "\<forall>l. (title_ok prefix l \<or> l = []) \<and> harmless prefix (marked_lines ''#'' rest) \<longrightarrow>
      harmless prefix (marked_lines ''#'' (l @ newline # rest))"
  proof (intro allI impI, elim conjE)
    fix l assume l: "title_ok prefix l \<or> l = []" and rest: "harmless prefix (marked_lines ''#'' rest)"
    have "marked_lines ''#'' (l @ newline # rest) =
      (''#'' @ (if l \<noteq> [] then '' '' @ l else []) @ [newline]) @ marked_lines ''#'' rest"
      using l marked_lines_line [of l "''#''" rest] by (auto simp: title_ok_def)
    then show "harmless prefix (marked_lines ''#'' (l @ newline # rest))"
      using harmless_append [OF line [OF l] rest] by simp
  qed
qed

lemma take_title:
  assumes "prefix_ok prefix" and "title_ok prefix t"
  shows "take k (t @ [newline]) = take k t \<or> take k (t @ [newline]) = t @ [newline]"
    and "title_ok prefix (take k t)"
  using assms has_prefix_take [of prefix k t] in_set_takeD [of newline k t]
  by (cases "k - length t"; auto simp: title_ok_def)+

lemma heading_harmless:
  assumes p: "prefix_ok prefix" and t: "title_ok prefix title"
  shows "harmless prefix (conf_write_heading kconfig_print_comment title)"
proof -
  let ?a = "''Automatically generated file; DO NOT EDIT.''"
  have "title_ok prefix ?a" using p by (simp add: title_ok_def prefix_ok_def newline_def)
  moreover have "harmless prefix (marked_lines ''#'' (take k (title @ [newline])))" for k
  proof (cases "take k (title @ [newline]) = take k title")
    case True
    then show ?thesis using take_title [OF p t] marked_lines_harmless(1) [OF p] by simp
  next
    case False
    then have "take k (title @ [newline]) = title @ [newline]" using take_title [OF p t, of k] by simp
    then show ?thesis using marked_lines_harmless [OF p] t by simp
  qed
  then have "harmless prefix (marked_lines ''#'' (take (255 - 44) (title @ [newline])))" by blast
  moreover have "take 255 ([newline] @ ?a @ [newline] @ title @ [newline]) =
      [] @ newline # (?a @ newline # take (255 - 44) (title @ [newline]))"
    by (simp only: take_append) (simp add: take_Cons')
  ultimately show ?thesis
    unfolding conf_write_heading_def kconfig_print_comment_def using marked_lines_harmless(2) [OF p] by metis
qed

subsection \<open>What is written\<close>

text \<open>Nothing is calculated again for expressions over valid symbols.\<close>

lemma calc_expr_valid:
  assumes "\<And>s. s \<in> expr_symbols e \<union> {modules_sym cfg} \<Longrightarrow> calc st s = Some st"
  shows "\<exists>v. calc_expr calc cfg st e = Some (v, st)"
  using assms
proof (induction e)
  case (E_COMP r s1 s2)
  have "\<exists>v. string_value calc cfg st s = Some (v, st)" for s
    using E_COMP by (cases "cur_tri (node st s)") (simp_all add: string_value_def)
  then obtain v1 v2 where "string_value calc cfg st s1 = Some (v1, st)" "string_value calc cfg st s2 = Some (v2, st)" by metis
  then show ?case using E_COMP by simp
next
  case (E_BIN j e1 e2)
  then obtain v1 v2 where "calc_expr calc cfg st e1 = Some (v1, st)" "calc_expr calc cfg st e2 = Some (v2, st)" by force
  then show ?case by simp
next
  case (E_NOT e)
  then obtain v where "calc_expr calc cfg st e = Some (v, st)" by force
  then show ?case by simp
qed simp_all

text \<open>The symbols of some menus, those whose values are written among them, and the titles.\<close>

fun menu_symbols :: "menu \<Rightarrow> symbol list" and menus_symbols :: "menu list \<Rightarrow> symbol list" where
  "menu_symbols (Menu entry pr vis ms) = (case entry of None \<Rightarrow> [] | Some s \<Rightarrow> [s]) @ menus_symbols ms"
| "menus_symbols [] = []"
| "menus_symbols (m # ms) = menu_symbols m @ menus_symbols ms"

definition entry_ok :: "string \<Rightarrow> symbol set \<Rightarrow> symbol option \<Rightarrow> property option \<Rightarrow> expr option \<Rightarrow> bool" where
  "entry_ok prefix U entry pr vis \<longleftrightarrow>
     (case entry of
        Some s \<Rightarrow> s \<in> U
      | None \<Rightarrow> expr_within U vis \<and>
          (case pr of None \<Rightarrow> True
           | Some p \<Rightarrow> expr_within U (prop_visible p) \<and> (\<exists>t. prop_text p = Some t \<and> title_ok prefix t)))"

fun menu_ok :: "string \<Rightarrow> symbol set \<Rightarrow> menu \<Rightarrow> bool" where
  "menu_ok prefix U (Menu entry pr vis ms) \<longleftrightarrow> entry_ok prefix U entry pr vis \<and> (\<forall>m \<in> set ms. menu_ok prefix U m)"

definition written :: "config \<Rightarrow> state \<Rightarrow> symbol set \<Rightarrow> symbol set" where
  "written cfg st S = {s \<in> S. \<not> choice_flag cfg s \<and> write_flag (node st s)}"

text \<open>The state after the symbols of a set have been written.\<close>

definition after :: "config \<Rightarrow> symbol set \<Rightarrow> state \<Rightarrow> state" where
  "after cfg S st = st\<lparr>node := \<lambda>s. if s \<in> written cfg st S then (node st s)\<lparr>write_flag := False\<rparr> else node st s\<rparr>"

datatype piece = Comment string | Saved symbol

fun piece_text :: "string \<Rightarrow> config \<Rightarrow> state \<Rightarrow> piece \<Rightarrow> string" where
  "piece_text prefix cfg st (Comment cs) = cs"
| "piece_text prefix cfg st (Saved s) = saved_line prefix (type_of cfg s) (the (name_of cfg s)) (sym_get_string_value (symbols_of cfg st) s)"

fun saved_symbols :: "piece list \<Rightarrow> symbol list" where
  "saved_symbols [] = []"
| "saved_symbols (Comment cs # ps) = saved_symbols ps"
| "saved_symbols (Saved s # ps) = s # saved_symbols ps"

definition pieces_ok :: "string \<Rightarrow> config \<Rightarrow> state \<Rightarrow> symbol set \<Rightarrow> symbol set \<Rightarrow> piece list \<Rightarrow> bool" where
  "pieces_ok prefix cfg st before S ps \<longleftrightarrow>
     distinct (saved_symbols ps) \<and> set (saved_symbols ps) = written cfg st S - before \<and>
     (\<forall>cs. Comment cs \<in> set ps \<longrightarrow> harmless prefix cs)"

lemma saved_symbols_append [simp]: "saved_symbols (ps @ qs) = saved_symbols ps @ saved_symbols qs"
  by (induction ps rule: saved_symbols.induct) simp_all

lemma pieces_ok_append:
  assumes "pieces_ok prefix cfg st B S ps" and "pieces_ok prefix cfg st (B \<union> S) T qs"
  shows "pieces_ok prefix cfg st B (S \<union> T) (ps @ qs)"
  using assms unfolding pieces_ok_def by (auto simp: written_def)

lemma node_after:
  "node (after cfg S st) s =
    (node st s)\<lparr>write_flag := write_flag (node st s) \<and> (s \<notin> S \<or> choice_flag cfg s)\<rparr>"
  by (auto simp: after_def written_def)

lemma modules_val_after [simp]: "modules_val (after cfg S st) = modules_val st"
  by (simp add: after_def)

lemma after_same: "written cfg st S = written cfg st T \<Longrightarrow> after cfg S st = after cfg T st"
  by (simp add: after_def)

lemma symbols_of_after [simp]: "symbols_of cfg (after cfg S st) = symbols_of cfg st"
  by (simp add: symbols_of_def node_after)

lemma calc_after:
  "depth \<noteq> 0 \<Longrightarrow> valid_flag (node st s) \<Longrightarrow> sym_calc_value depth cfg (after cfg S st) s = Some (after cfg S st)"
  by (cases depth) (simp_all add: node_after)

lemma string_value_after:
  assumes "depth \<noteq> 0" and "valid_flag (node st (modules_sym cfg))"
  shows "string_value (sym_calc_value depth cfg) cfg (after cfg S st) s =
    Some (sym_get_string_value (symbols_of cfg st) s, after cfg S st)"
  using calc_after [OF assms, of cfg S]
  by (cases "cur_tri (node st s)") (auto simp: string_value_def sym_get_string_value_def symbols_of_def node_after)

text \<open>A configuration that has been calculated, whose values can be saved.\<close>

definition saveable :: "string \<Rightarrow> config \<Rightarrow> table \<Rightarrow> symbol set \<Rightarrow> state \<Rightarrow> bool" where
  "saveable prefix cfg tab U st \<longleftrightarrow>
     prefix_ok prefix \<and> modules_sym cfg \<in> U \<and> (\<forall>s \<in> U. valid_flag (node st s)) \<and>
     (\<forall>s \<in> written cfg st U. name_of cfg s \<noteq> None \<and>
        saved cfg tab (\<lambda>s. the (name_of cfg s)) (sym_get_string_value (symbols_of cfg st)) s)"

lemma write_entry_pieces:
  assumes save: "saveable prefix cfg tab U st" and d: "depth \<noteq> 0" and e: "entry_ok prefix U entry pr vis"
  shows "\<exists>ps. write_entry prefix (sym_calc_value depth cfg) cfg (after cfg B st) entry pr vis =
      Some (concat (map (piece_text prefix cfg st) ps), after cfg (B \<union> set_option entry) st) \<and>
    pieces_ok prefix cfg st B (set_option entry) ps"
proof -
  have valid: "\<And>s. s \<in> U \<Longrightarrow> sym_calc_value depth cfg (after cfg B st) s = Some (after cfg B st)"
    and m: "modules_sym cfg \<in> U" "valid_flag (node st (modules_sym cfg))" and p: "prefix_ok prefix"
    using save calc_after [OF d] by (auto simp: saveable_def)
  have expr: "\<exists>v. calc_expr_ptr (sym_calc_value depth cfg) cfg (after cfg B st) e = Some (v, after cfg B st)"
    if "expr_within U e" for e
    using that calc_expr_valid [of "the e" cfg "sym_calc_value depth cfg" "after cfg B st"] valid m(1)
    by (cases e) (auto simp: calc_expr_ptr_def expr_within_def)
  show ?thesis
  proof (cases entry)
    case None
    let ?c = "sym_calc_value depth cfg" and ?a = "after cfg B st"
    have "\<exists>v. menu_is_visible ?c cfg ?a pr vis = Some (v, ?a)"
    proof (cases pr)
      case (Some q)
      then obtain v w where v: "calc_expr_ptr ?c cfg ?a vis = Some (v, ?a)" "calc_expr_ptr ?c cfg ?a (prop_visible q) = Some (w, ?a)"
        using e expr None unfolding entry_ok_def by fastforce
      then show ?thesis using Some by (cases vis) (auto simp: menu_is_visible_def calc_expr_ptr_def)
    qed (auto simp: menu_is_visible_def)
    then obtain v where v: "menu_is_visible ?c cfg ?a pr vis = Some (v, ?a)" by blast
    define cs where "cs = (case pr of Some p \<Rightarrow> if v then menu_text (case prop_text p of Some t \<Rightarrow> t | None \<Rightarrow> ''(null)'') else []
            | None \<Rightarrow> [])"
    have "harmless prefix cs"
      using e None menu_text_harmless [OF p] by (auto simp: cs_def entry_ok_def split: option.splits)
    then show ?thesis
      using None v by (intro exI [of _ "[Comment cs]"]) (simp add: write_entry_def cs_def pieces_ok_def written_def)
  next
    case (Some s)
    then have s: "s \<in> U" using e by (simp add: entry_ok_def)
    show ?thesis
    proof (cases "s \<in> written cfg st {s} - B")
      case False
      then have "after cfg (B \<union> {s}) st = after cfg B st" by (intro after_same) (auto simp: written_def)
      then show ?thesis
        using False Some valid [OF s]
        by (intro exI [of _ "[]"]) (auto simp: write_entry_def node_after pieces_ok_def written_def)
    next
      case True
      then have w: "\<not> choice_flag cfg s" "write_flag (node st s)" "s \<notin> B" by (auto simp: written_def)
      have set: "set_node s (\<lambda>n. n\<lparr>write_flag := False\<rparr>) (after cfg B st) = after cfg (B \<union> {s}) st"
        using w by (intro state.equality ext) (auto simp: set_node_def after_def written_def)
      have ok: "name_of cfg s \<noteq> None" "value_ok cfg s (sym_get_string_value (symbols_of cfg st) s)"
        using save s w by (auto simp: saveable_def saved_def written_def)
      then have "conf_write_symbol (kconfig_print_symbol prefix False) (sym_calc_value depth cfg) cfg
            (after cfg (B \<union> {s}) st) s =
          Some (piece_text prefix cfg st (Saved s), after cfg (B \<union> {s}) st)"
        using string_value_after [OF d m(2), of "B \<union> {s}" s]
        by (auto simp: conf_write_symbol_def value_ok_def saved_line_def Let_def split: symbol_type.splits)
      then show ?thesis
        using Some w valid [OF s] set
        by (intro exI [of _ "[Saved s]"]) (auto simp: write_entry_def node_after pieces_ok_def written_def)
    qed
  qed
qed

lemma write_pieces:
  assumes save: "saveable prefix cfg tab U st" and d: "depth \<noteq> 0"
  shows "menu_ok prefix U m \<Longrightarrow>
      \<exists>ps. write_menu prefix (sym_calc_value depth cfg) cfg (after cfg B st) m =
        Some (concat (map (piece_text prefix cfg st) ps), after cfg (B \<union> set (menu_symbols m)) st) \<and>
      pieces_ok prefix cfg st B (set (menu_symbols m)) ps"
    and "\<forall>m \<in> set ms. menu_ok prefix U m \<Longrightarrow>
      \<exists>ps. write_menus prefix (sym_calc_value depth cfg) cfg (after cfg B st) ms =
        Some (concat (map (piece_text prefix cfg st) ps), after cfg (B \<union> set (menus_symbols ms)) st) \<and>
      pieces_ok prefix cfg st B (set (menus_symbols ms)) ps"
proof (induction m and ms arbitrary: B and B rule: menu_symbols_menus_symbols.induct)
  case (1 entry pr vis ms)
  then have e: "entry_ok prefix U entry pr vis" "\<forall>m \<in> set ms. menu_ok prefix U m" by auto
  obtain ps where ps: "write_entry prefix (sym_calc_value depth cfg) cfg (after cfg B st) entry pr vis =
      Some (concat (map (piece_text prefix cfg st) ps), after cfg (B \<union> set_option entry) st)"
    "pieces_ok prefix cfg st B (set_option entry) ps"
    using write_entry_pieces [OF save d e(1)] by blast
  obtain qs where qs: "write_menus prefix (sym_calc_value depth cfg) cfg (after cfg (B \<union> set_option entry) st) ms =
      Some (concat (map (piece_text prefix cfg st) qs), after cfg (B \<union> set_option entry \<union> set (menus_symbols ms)) st)"
    "pieces_ok prefix cfg st (B \<union> set_option entry) (set (menus_symbols ms)) qs"
    using 1(1) [OF e(2)] by blast
  have "set (menu_symbols (Menu entry pr vis ms)) = set_option entry \<union> set (menus_symbols ms)" by (cases entry) auto
  then show ?case
    using ps(1) qs(1) pieces_ok_append [OF ps(2) qs(2)] by (intro exI [of _ "ps @ qs"]) (simp add: Un_assoc)
next
  case (3 m ms)
  then have e: "menu_ok prefix U m" "\<forall>m \<in> set ms. menu_ok prefix U m" by auto
  obtain ps where ps: "write_menu prefix (sym_calc_value depth cfg) cfg (after cfg B st) m =
      Some (concat (map (piece_text prefix cfg st) ps), after cfg (B \<union> set (menu_symbols m)) st)"
    "pieces_ok prefix cfg st B (set (menu_symbols m)) ps"
    using 3(1) [OF e(1)] by blast
  obtain qs where qs: "write_menus prefix (sym_calc_value depth cfg) cfg (after cfg (B \<union> set (menu_symbols m)) st) ms =
      Some (concat (map (piece_text prefix cfg st) qs), after cfg (B \<union> set (menu_symbols m) \<union> set (menus_symbols ms)) st)"
    "pieces_ok prefix cfg st (B \<union> set (menu_symbols m)) (set (menus_symbols ms)) qs"
    using 3(2) [OF e(2)] by blast
  show ?case
    using ps(1) qs(1) pieces_ok_append [OF ps(2) qs(2)] by (intro exI [of _ "ps @ qs"]) (simp add: Un_assoc)
qed (intro exI [of _ "[]"], simp add: pieces_ok_def written_def)

lemma after_nothing [simp]: "after cfg {} st = st"
  by (simp add: after_def written_def)

subsection \<open>What is read\<close>

lemma read_lines_append:
  "read_lines prefix cfg tab st (ls @ ks) =
    do { st \<leftarrow> read_lines prefix cfg tab st ls; read_lines prefix cfg tab st ks }"
proof (induction ls arbitrary: st)
  case (Cons l ls)
  then show ?case by (cases "read_line prefix cfg tab st l") simp_all
qed simp

lemma read_harmless:
  assumes "harmless prefix cs"
  shows "read_lines prefix cfg tab st (config_lines cs) = Some st"
proof -
  have "read_lines prefix cfg tab st ls = Some st" if "\<forall>l \<in> set ls. parse_line prefix l = Skipped" for ls
    using that by (induction ls) (simp_all add: read_line_def)
  then show ?thesis using assms by (simp add: harmless_def)
qed

text \<open>A symbol whose user value was restored from a text.\<close>

definition restored :: "config \<Rightarrow> symbol \<Rightarrow> string \<Rightarrow> sym_state \<Rightarrow> bool" where
  "restored cfg s v n \<longleftrightarrow> user_flag n \<and>
     (if type_of cfg s = S_BOOLEAN \<or> type_of cfg s = S_TRISTATE then user_tri n = tri_of_text v else user_val n = Text v)"

lemma node_restore:
  "restored cfg s v (node (restore cfg s v st) s)" "t \<noteq> s \<Longrightarrow> node (restore cfg s v st) t = node st t"
  by (simp_all add: restore_def restored_def set_user_tri_def)

lemma saved_line_lines:
  assumes "saved cfg tab name val s" and "newline \<notin> set prefix"
  shows "config_lines (saved_line prefix (type_of cfg s) (name s) (val s)) = [saved_line prefix (type_of cfg s) (name s) (val s)]"
    and "ends_line (saved_line prefix (type_of cfg s) (name s) (val s))"
proof -
  let ?w = "written_text (type_of cfg s) (val s)"
  have s: "newline \<notin> set (name s)" "newline \<notin> set ?w"
    using assms(1) written_chars(1) by (auto simp: saved_def name_ok_def)
  have "\<exists>l. saved_line prefix (type_of cfg s) (name s) (val s) = l @ [newline] \<and> newline \<notin> set l"
    using s assms(2)
    by (intro exI [of _ "butlast (saved_line prefix (type_of cfg s) (name s) (val s))"])
      (auto simp: saved_line_def kconfig_print_symbol_def butlast_append dest: in_set_butlastD; auto simp: newline_def)
  then obtain l where "saved_line prefix (type_of cfg s) (name s) (val s) = l @ [newline]" "newline \<notin> set l" by blast
  then show "config_lines (saved_line prefix (type_of cfg s) (name s) (val s)) = [saved_line prefix (type_of cfg s) (name s) (val s)]"
    and "ends_line (saved_line prefix (type_of cfg s) (name s) (val s))"
    using config_lines_line [of l "[]"] by (simp_all add: ends_line_def)
qed

definition saved_name :: "config \<Rightarrow> symbol \<Rightarrow> string" where
  "saved_name cfg s = the (name_of cfg s)"

definition saved_value :: "config \<Rightarrow> state \<Rightarrow> symbol \<Rightarrow> string" where
  "saved_value cfg st = sym_get_string_value (symbols_of cfg st)"

lemma read_pieces:
  assumes p: "prefix_ok prefix" and h: "\<forall>cs. Comment cs \<in> set ps \<longrightarrow> harmless prefix cs"
    and s: "\<forall>s \<in> set (saved_symbols ps). saved cfg tab (saved_name cfg) (saved_value cfg st0) s" "distinct (saved_symbols ps)"
  shows "\<exists>st'. read_lines prefix cfg tab st (config_lines (concat (map (piece_text prefix cfg st0) ps))) = Some st' \<and>
    (\<forall>s \<in> set (saved_symbols ps). restored cfg s (saved_value cfg st0 s) (node st' s)) \<and>
    (\<forall>t. \<not> choice_flag cfg t \<and> t \<notin> set (saved_symbols ps) \<longrightarrow> node st' t = node st t)"
  using h s
proof (induction ps arbitrary: st)
  case (Cons q ps)
  show ?case
  proof (cases q)
    case (Comment cs)
    then have cs: "harmless prefix cs" using Cons.prems(1) by simp
    then have "ends_line cs" by (simp add: harmless_def)
    then show ?thesis
      using Comment Cons cs by (simp add: config_lines_append read_lines_append read_harmless)
  next
    case (Saved s)
    let ?l = "saved_line prefix (type_of cfg s) (saved_name cfg s) (saved_value cfg st0 s)"
    have s: "saved cfg tab (saved_name cfg) (saved_value cfg st0) s" "s \<notin> set (saved_symbols ps)"
      using Saved Cons.prems by simp_all
    have pr: "prefix \<noteq> []" "hd prefix \<noteq> CHR ''#''" "newline \<notin> set prefix" using p by (simp_all add: prefix_ok_def)
    obtain st1 where st1: "read_line prefix cfg tab st ?l = Some st1"
        "same_but_choices cfg (restore cfg s (saved_value cfg st0 s) st) st1"
      using read_saved_line [OF pr(1,2) s(1)] by blast
    obtain st2 where st2: "read_lines prefix cfg tab st1 (config_lines (concat (map (piece_text prefix cfg st0) ps))) = Some st2"
        "\<forall>s \<in> set (saved_symbols ps). restored cfg s (saved_value cfg st0 s) (node st2 s)"
        "\<forall>t. \<not> choice_flag cfg t \<and> t \<notin> set (saved_symbols ps) \<longrightarrow> node st2 t = node st1 t"
      using Cons.IH [of st1] Cons.prems Saved by auto
    have plain: "\<not> choice_flag cfg s" using s(1) by (simp add: saved_def)
    then have "node st2 s = node (restore cfg s (saved_value cfg st0 s) st) s"
      using st2(3) s(2) st1(2) by (simp add: same_but_choices_def)
    moreover have "\<forall>t. \<not> choice_flag cfg t \<and> t \<notin> insert s (set (saved_symbols ps)) \<longrightarrow> node st2 t = node st t"
      using st2(3) st1(2) node_restore(2) by (simp add: same_but_choices_def)
    moreover have "read_lines prefix cfg tab st (config_lines (?l @ concat (map (piece_text prefix cfg st0) ps))) = Some st2"
      using saved_line_lines [OF s(1) pr(3)] st1(1) st2(1) by (simp add: config_lines_append)
    ultimately show ?thesis
      using Saved st2(2) node_restore(1) [of cfg s "saved_value cfg st0 s" st]
      by (simp add: saved_name_def saved_value_def)
  qed
qed simp

lemma node_reset:
  "node (fold (\<lambda>s st. reset_user cfg st s) ss st) t =
    (if t \<in> set ss then (node st t)\<lparr>user_flag := choice_flag cfg t, valid_flag := False, user_val := Null, user_tri := No\<rparr>
     else node st t)"
  by (induction ss arbitrary: st) (auto simp: reset_user_def)

lemma menus_within:
  "menu_ok prefix U m \<Longrightarrow> set (menu_symbols m) \<subseteq> U"
  "\<forall>m \<in> set ms. menu_ok prefix U m \<Longrightarrow> set (menus_symbols ms) \<subseteq> U"
  by (induction m and ms rule: menu_symbols_menus_symbols.induct) (auto simp: entry_ok_def split: option.splits)

subsection \<open>Properties\<close>


text \<open>The example, calculated: \<open>FOO\<close> is a module and \<open>NUM\<close> has its least value.\<close>

definition example_table :: table where
  "example_table = (let (_, t) = sym_lookup empty_table (Some ''MODULES'') 0;
     (_, t) = sym_lookup t (Some ''FOO'') 0; (_, t) = sym_lookup t (Some ''NUM'') 0 in t)"

definition example_saved :: state where
  "example_saved =
     \<lparr>node = (\<lambda>s. (if s = Symbol 0 then constant_node Yes ''n'' else if s = Symbol 1 then constant_node Mod ''n''
        else constant_node No ''2'')\<lparr>write_flag := True\<rparr>), modules_val = Yes, change_count = 1\<rparr>"

definition example_menus :: "menu list" where
  "example_menus =
     [Menu (Some (Symbol 0)) None None [], Menu None (Some (prompt ''Drivers'')) (Some (E_SYMBOL (Symbol 0)))
        [Menu (Some (Symbol 1)) None None [], Menu (Some (Symbol 2)) None None []]]"

lemma example_buckets:
  "bucket ''MODULES'' = 3918" "bucket ''FOO'' = 2102" "bucket ''NUM'' = 3765"
  by (simp_all add: bucket_def strhash_def SYMBOL_HASHSIZE_def)

lemma example_find:
  "sym_find example_table (Some ''MODULES'') = Some (Symbol 0)" "sym_find example_table (Some ''FOO'') = Some (Symbol 1)"
  "sym_find example_table (Some ''NUM'') = Some (Symbol 2)"
  by (simp_all add: example_table_def sym_lookup_def sym_find_def constant_symbol_def alloc_symbol_def empty_table_def
      example_buckets wanted_def Let_def)

lemma example_saveable: "saveable ''CONFIG_'' example_config example_table {Symbol 0, Symbol 1, Symbol 2} example_saved"
proof -
  have "sym_get_string_value (symbols_of example_config example_saved) (Symbol 0) = ''y''"
    "sym_get_string_value (symbols_of example_config example_saved) (Symbol 1) = ''m''"
    "sym_get_string_value (symbols_of example_config example_saved) (Symbol 2) = ''2''"
    "sym_string_valid example_config (Symbol 2) ''2''" by code_simp+
  then show ?thesis
    by (simp add: saveable_def prefix_ok_def newline_def has_prefix_def written_def saved_def name_ok_def value_ok_def
        example_find example_saved_def constant_node_def example_config_def unset_node_def example_type_def example_name_def)
qed

lemma example_menus_ok: "\<forall>m \<in> set example_menus. menu_ok ''CONFIG_'' {Symbol 0, Symbol 1, Symbol 2} m"
  by (simp add: example_menus_def entry_ok_def expr_within_def prompt_def plain_property_def title_ok_def newline_def has_prefix_def)


end
