(* ===== verification/Kconfig_Build.thy ===== *)
theory Kconfig_Build
  imports Kconfig_Reload
begin

text \<open>
  The files \<open>conf_write_autoconf\<close> makes for the build, for a calculated configuration: one line per
  symbol and file, and what the lines define.
\<close>

definition named_writes :: "config \<Rightarrow> state \<Rightarrow> symbol list \<Rightarrow> symbol list" where
  "named_writes cfg st ss = filter (\<lambda>s. write_flag (node st s) \<and> name_of cfg s \<noteq> None) ss"

definition printed :: "printer \<Rightarrow> config \<Rightarrow> state \<Rightarrow> symbol \<Rightarrow> string" where
  "printed print cfg st s =
     (if type_of cfg s = S_OTHER \<or> type_of cfg s = S_UNKNOWN then []
      else print (type_of cfg s) (saved_name cfg s) (written_text (type_of cfg s) (saved_value cfg st s)))"

lemma conf_write_symbol_valid:
  assumes "depth \<noteq> 0" and "valid_flag (node st (modules_sym cfg))" and "name_of cfg s \<noteq> None"
  shows "conf_write_symbol print (sym_calc_value depth cfg) cfg st s = Some (printed print cfg st s, st)"
  using string_value_after [OF assms(1,2), of "{}" s] assms(3)
  by (cases "type_of cfg s") (auto simp: conf_write_symbol_def printed_def saved_name_def saved_value_def)

lemma write_autoconf_lines:
  assumes "depth \<noteq> 0" and "valid_flag (node st (modules_sym cfg))" and "\<forall>s \<in> set ss. valid_flag (node st s)"
  shows "write_autoconf prefix (sym_calc_value depth cfg) cfg st ss =
    Some (concat (map (printed (kconfig_print_symbol prefix True) cfg st) (named_writes cfg st ss)),
      concat (map (printed (tristate_print_symbol prefix) cfg st) (named_writes cfg st ss)),
      concat (map (printed (header_print_symbol prefix) cfg st) (named_writes cfg st ss)), st)"
  using assms(3)
proof (induction ss)
  case (Cons s ss)
  then show ?case
    using calc_after [OF assms(1), of st s cfg "{}"] conf_write_symbol_valid [OF assms(1,2), of s]
    by (auto simp: named_writes_def)
qed (simp add: named_writes_def)

text \<open>Lines that end where they should.\<close>

definition one_line :: "string \<Rightarrow> bool" where
  "one_line cs \<longleftrightarrow> cs = [] \<or> (\<exists>l. cs = l @ [newline] \<and> newline \<notin> set l)"

lemma config_lines_concat:
  assumes "\<forall>cs \<in> set css. one_line cs"
  shows "config_lines (concat css) = filter (\<lambda>cs. cs \<noteq> []) css"
  using assms
proof (induction css)
  case (Cons cs css)
  then show ?case
    by (auto simp: one_line_def config_lines_line)
qed simp

text \<open>Names and values that fit on a line.\<close>

definition plain_symbol :: "config \<Rightarrow> state \<Rightarrow> symbol \<Rightarrow> bool" where
  "plain_symbol cfg st s \<longleftrightarrow> name_ok (saved_name cfg s) \<and> value_ok cfg s (saved_value cfg st s)"

lemma header_one_line:
  assumes "plain_symbol cfg st s" and "newline \<notin> set prefix"
  shows "one_line (printed (header_print_symbol prefix) cfg st s)"
proof -
  let ?v = "written_text (type_of cfg s) (saved_value cfg st s)" and ?n = "saved_name cfg s"
  have v: "newline \<notin> set ?v" "newline \<notin> set ?n"
    using assms(1) written_chars(1) by (auto simp: plain_symbol_def name_ok_def)
  have line: "one_line (''#define '' @ prefix @ name @ '' '' @ w @ [newline])"
    if "newline \<notin> set name" "newline \<notin> set w" for name w
    using that assms(2) unfolding one_line_def
    by (intro disjI2 exI [of _ "''#define '' @ prefix @ name @ '' '' @ w"]) (simp add: newline_def)
  have none: "one_line []" by (simp add: one_line_def)
  have chars: "newline \<noteq> CHR ''_''" "newline \<notin> set ''_MODULE''" "newline \<notin> set ''1''" "newline \<notin> set ''0x''"
    by (simp_all add: newline_def)
  show ?thesis
    using v chars
    by (cases "type_of cfg s")
      (auto simp: printed_def header_print_symbol_def Let_def simp del: append.simps append_assoc
        intro!: line none split: list.split)
qed


lemma make_one_line:
  assumes "plain_symbol cfg st s" and "newline \<notin> set prefix"
  shows "one_line (printed (kconfig_print_symbol prefix True) cfg st s)"
proof -
  let ?v = "written_text (type_of cfg s) (saved_value cfg st s)" and ?n = "saved_name cfg s"
  have "newline \<notin> set (prefix @ ?n @ ''='' @ ?v)"
    using assms written_chars(1) by (auto simp: plain_symbol_def name_ok_def newline_def)
  then have "one_line (prefix @ ?n @ ''='' @ ?v @ [newline])"
    unfolding one_line_def by (intro disjI2 exI [of _ "prefix @ ?n @ ''='' @ ?v"]) simp
  then show ?thesis by (auto simp: printed_def kconfig_print_symbol_def one_line_def)
qed

text \<open>The lines for a macro with value 1, and for a variable of make.\<close>

definition macro_line :: "string \<Rightarrow> string \<Rightarrow> string" where
  "macro_line prefix name = ''#define '' @ prefix @ name @ '' 1'' @ [newline]"

definition make_line :: "string \<Rightarrow> string \<Rightarrow> string \<Rightarrow> string" where
  "make_line prefix name val = prefix @ name @ ''='' @ val @ [newline]"

definition is_tristate :: "config \<Rightarrow> symbol \<Rightarrow> bool" where
  "is_tristate cfg s \<longleftrightarrow> type_of cfg s = S_BOOLEAN \<or> type_of cfg s = S_TRISTATE"

lemma split_at:
  assumes "c \<notin> set xs" and "c \<notin> set ys" and "xs @ c # us = ys @ c # vs"
  shows "xs = ys \<and> us = vs"
  using assms takeWhile_until [of c xs us] takeWhile_until [of c ys vs] by fastforce

lemma header_line_is:
  assumes "plain_symbol cfg st s" and "is_tristate cfg s"
  shows "printed (header_print_symbol prefix) cfg st s =
    (if saved_value cfg st s = ''y'' then macro_line prefix (saved_name cfg s)
     else if saved_value cfg st s = ''m'' then macro_line prefix (saved_name cfg s @ ''_MODULE'') else [])"
  using assms
  by (auto simp: plain_symbol_def is_tristate_def value_ok_def printed_def header_print_symbol_def macro_line_def
      written_text_def Let_def)

lemma header_line_named:
  assumes "plain_symbol cfg st s" and "CHR '' '' \<notin> set name"
    and "printed (header_print_symbol prefix) cfg st s = macro_line prefix name"
  shows "if is_tristate cfg s then saved_value cfg st s = ''y'' \<and> name = saved_name cfg s \<or>
      saved_value cfg st s = ''m'' \<and> name = saved_name cfg s @ ''_MODULE''
    else name = saved_name cfg s"
proof -
  have sp: "CHR '' '' \<notin> set (saved_name cfg s)" using assms(1) by (simp add: plain_symbol_def name_ok_def)
  have same: "x = name" if "CHR '' '' \<notin> set x" "''#define '' @ prefix @ x @ '' '' @ w @ [newline] = macro_line prefix name" for x w
    using that split_at [of "CHR '' ''" x name "w @ [newline]" "''1'' @ [newline]"] assms(2) by (simp add: macro_line_def)
  show ?thesis
  proof (cases "is_tristate cfg s")
    case True
    have "macro_line prefix name \<noteq> []" by (simp add: macro_line_def)
    then show ?thesis
      using True assms(3) header_line_is [OF assms(1) True, of prefix] same [of "saved_name cfg s" "''1''"]
        same [of "saved_name cfg s @ ''_MODULE''" "''1''"] sp
      by (auto simp: macro_line_def split: if_splits)
  next
    case False
    then obtain w where "printed (header_print_symbol prefix) cfg st s =
        ''#define '' @ prefix @ saved_name cfg s @ '' '' @ w @ [newline]"
      using assms(1)
      by (cases "type_of cfg s") (auto simp: plain_symbol_def value_ok_def is_tristate_def printed_def header_print_symbol_def Let_def)
    then show ?thesis using False same [OF sp, of w] assms(3) by simp
  qed
qed

lemma make_line_named:
  assumes "plain_symbol cfg st s" and "CHR ''='' \<notin> set name"
    and "printed (kconfig_print_symbol prefix True) cfg st s = make_line prefix name w"
  shows "name = saved_name cfg s \<and> w = written_text (type_of cfg s) (saved_value cfg st s) \<and>
    (is_tristate cfg s \<longrightarrow> saved_value cfg st s \<noteq> ''n'')"
proof -
  have "CHR ''='' \<notin> set (saved_name cfg s)" using assms(1) by (simp add: plain_symbol_def name_ok_def)
  moreover have "make_line prefix name w \<noteq> []" by (simp add: make_line_def)
  moreover from this have "printed (kconfig_print_symbol prefix True) cfg st s =
      make_line prefix (saved_name cfg s) (written_text (type_of cfg s) (saved_value cfg st s))"
    "is_tristate cfg s \<longrightarrow> saved_value cfg st s \<noteq> ''n''"
    using assms(3) by (auto simp: printed_def kconfig_print_symbol_def make_line_def is_tristate_def written_text_def split: if_splits)
  ultimately show ?thesis
    using assms(2,3) split_at [of "CHR ''=''" name "saved_name cfg s" "w @ [newline]"
        "written_text (type_of cfg s) (saved_value cfg st s) @ [newline]"]
    by (simp add: make_line_def)
qed

lemma make_line_is:
  assumes "plain_symbol cfg st s" and "is_tristate cfg s" and "saved_value cfg st s \<noteq> ''n''"
  shows "printed (kconfig_print_symbol prefix True) cfg st s = make_line prefix (saved_name cfg s) (saved_value cfg st s)"
  using assms
  by (auto simp: plain_symbol_def is_tristate_def value_ok_def printed_def kconfig_print_symbol_def make_line_def written_text_def)

lemma in_lines:
  assumes "\<forall>s \<in> set ss. one_line (f s)" and "l \<noteq> []"
  shows "l \<in> set (config_lines (concat (map f ss))) \<longleftrightarrow> (\<exists>s \<in> set ss. f s = l)"
proof -
  have "\<forall>cs \<in> set (map f ss). one_line cs" using assms(1) by simp
  then show ?thesis using assms(2) by (simp add: config_lines_concat image_iff) metis
qed

subsection \<open>Properties\<close>

text \<open>
  C18. The files of the build agree: for a boolean or tristate symbol that is written, C code sees
  the macro of its name exactly if the value is \<open>y\<close> and the macro of its name with \<open>_MODULE\<close> exactly
  if it is \<open>m\<close>; make sees its variable with the value \<open>y\<close> or \<open>m\<close>, and no variable if it is \<open>n\<close>.
  The names of other symbols must not differ just by \<open>_MODULE\<close>.
\<close>

theorem build_files_agree:
  assumes "depth \<noteq> 0" and "valid_flag (node st (modules_sym cfg))" and "\<forall>t \<in> set ss. valid_flag (node st t)"
    and "newline \<notin> set prefix" and "\<forall>t \<in> set (named_writes cfg st ss). plain_symbol cfg st t"
    and "inj_on (saved_name cfg) (set (named_writes cfg st ss))"
    and "\<forall>t \<in> set (named_writes cfg st ss). \<forall>u \<in> set (named_writes cfg st ss).
      saved_name cfg t \<noteq> saved_name cfg u @ ''_MODULE''"
    and "s \<in> set (named_writes cfg st ss)" and "is_tristate cfg s"
  shows "\<exists>out tri out_h. write_autoconf prefix (sym_calc_value depth cfg) cfg st ss = Some (out, tri, out_h, st) \<and>
    (macro_line prefix (saved_name cfg s) \<in> set (config_lines out_h) \<longleftrightarrow> saved_value cfg st s = ''y'') \<and>
    (macro_line prefix (saved_name cfg s @ ''_MODULE'') \<in> set (config_lines out_h) \<longleftrightarrow> saved_value cfg st s = ''m'') \<and>
    (\<forall>w. make_line prefix (saved_name cfg s) w \<in> set (config_lines out) \<longleftrightarrow>
       w = saved_value cfg st s \<and> saved_value cfg st s \<noteq> ''n'')"
proof -
  let ?ws = "named_writes cfg st ss" and ?h = "printed (header_print_symbol prefix) cfg st"
    and ?k = "printed (kconfig_print_symbol prefix True) cfg st" and ?n = "saved_name cfg s" and ?v = "saved_value cfg st s"
  have plain: "\<And>t. t \<in> set ?ws \<Longrightarrow> plain_symbol cfg st t" using assms(5) by blast
  have s: "plain_symbol cfg st s" using plain assms(8) by blast
  have other: "\<And>t. t \<in> set ?ws \<Longrightarrow> saved_name cfg t = ?n \<Longrightarrow> t = s" using assms(6,8) by (meson inj_onD)
  have module: "\<And>t. t \<in> set ?ws \<Longrightarrow> saved_name cfg t \<noteq> ?n @ ''_MODULE'' \<and> ?n \<noteq> saved_name cfg t @ ''_MODULE''"
    using assms(7,8) by blast
  have chars: "CHR '' '' \<notin> set ?n" "CHR '' '' \<notin> set (?n @ ''_MODULE'')" "CHR ''='' \<notin> set ?n"
    using s by (simp_all add: plain_symbol_def name_ok_def)
  have yes: "?v = ''y''" if t: "t \<in> set ?ws" "?h t = macro_line prefix ?n" for t
  proof -
    have "saved_name cfg t = ?n"
      using header_line_named [OF plain [OF t(1)] chars(1) t(2)] module [OF t(1)] by (metis (full_types))
    then have "t = s" by (rule other [OF t(1)])
    then show ?thesis using header_line_named [OF s chars(1), of prefix] t(2) assms(9) by simp
  qed
  have mod: "?v = ''m''" if t: "t \<in> set ?ws" "?h t = macro_line prefix (?n @ ''_MODULE'')" for t
  proof -
    have "saved_name cfg t = ?n"
      using header_line_named [OF plain [OF t(1)] chars(2) t(2)] module [OF t(1)] by (metis (full_types) append_same_eq)
    then have "t = s" by (rule other [OF t(1)])
    then show ?thesis using header_line_named [OF s chars(2), of prefix] t(2) assms(9) by simp
  qed
  have make: "w = ?v \<and> ?v \<noteq> ''n''" if t: "t \<in> set ?ws" "?k t = make_line prefix ?n w" for t w
  proof -
    have "saved_name cfg t = ?n" using make_line_named [OF plain [OF t(1)] chars(3) t(2)] by simp
    then have "t = s" by (rule other [OF t(1)])
    then show ?thesis
      using make_line_named [OF s chars(3), of prefix w] t(2) assms(9) by (auto simp: is_tristate_def written_text_def)
  qed
  have line: "?v = ''y'' \<Longrightarrow> ?h s = macro_line prefix ?n" "?v = ''m'' \<Longrightarrow> ?h s = macro_line prefix (?n @ ''_MODULE'')"
    using header_line_is [OF s assms(9), of prefix] by simp_all
  have "macro_line prefix name \<in> set (config_lines (concat (map ?h ?ws))) \<longleftrightarrow> (\<exists>t \<in> set ?ws. ?h t = macro_line prefix name)" for name
    using in_lines [of ?ws ?h] header_one_line plain assms(4) by (simp add: macro_line_def)
  moreover have "(\<exists>t \<in> set ?ws. ?h t = macro_line prefix ?n) \<longleftrightarrow> ?v = ''y''"
    using yes line(1) assms(8) by blast
  moreover have "(\<exists>t \<in> set ?ws. ?h t = macro_line prefix (?n @ ''_MODULE'')) \<longleftrightarrow> ?v = ''m''"
    using mod line(2) assms(8) by blast
  moreover have "make_line prefix ?n w \<in> set (config_lines (concat (map ?k ?ws))) \<longleftrightarrow> (\<exists>t \<in> set ?ws. ?k t = make_line prefix ?n w)" for w
    using in_lines [of ?ws ?k] make_one_line plain assms(4) by (simp add: make_line_def)
  moreover have "(\<exists>t \<in> set ?ws. ?k t = make_line prefix ?n w) \<longleftrightarrow> w = ?v \<and> ?v \<noteq> ''n''" for w
    using make make_line_is [OF s assms(9), of prefix] assms(8) by blast
  ultimately show ?thesis
    using write_autoconf_lines [OF assms(1-3), of prefix] by auto
qed

theorem build_files_agree_witness:
  "\<exists>out tri out_h. write_autoconf ''CONFIG_'' (sym_calc_value 1 example_config) example_config example_saved [Symbol 0, Symbol 1, Symbol 2] =
      Some (out, tri, out_h, example_saved) \<and>
    macro_line ''CONFIG_'' ''FOO_MODULE'' \<in> set (config_lines out_h) \<and> macro_line ''CONFIG_'' ''FOO'' \<notin> set (config_lines out_h)"
proof -
  let ?ws = "named_writes example_config example_saved [Symbol 0, Symbol 1, Symbol 2]"
  have ws: "?ws = [Symbol 0, Symbol 1, Symbol 2]" by code_simp
  have names: "saved_name example_config (Symbol 0) = ''MODULES''" "saved_name example_config (Symbol 1) = ''FOO''"
    "saved_name example_config (Symbol 2) = ''NUM''" "saved_value example_config example_saved (Symbol 1) = ''m''" by code_simp+
  have plain: "\<forall>t \<in> set ?ws. plain_symbol example_config example_saved t"
    unfolding ws list.set ball_simps by code_simp
  have valid: "1 \<noteq> (0::nat)" "valid_flag (node example_saved (modules_sym example_config))"
    "\<forall>t \<in> set [Symbol 0, Symbol 1, Symbol 2]. valid_flag (node example_saved t)" "newline \<notin> set ''CONFIG_''"
    "is_tristate example_config (Symbol 1)" by code_simp+
  have inj: "inj_on (saved_name example_config) (set ?ws)"
    "\<forall>t \<in> set ?ws. \<forall>u \<in> set ?ws. saved_name example_config t \<noteq> saved_name example_config u @ ''_MODULE''"
    "Symbol 1 \<in> set ?ws"
    unfolding ws by (simp_all add: names names(2) [unfolded One_nat_def])
  have "(''m'' = ''y'') = False" "(''m'' = ''m'') = True" by simp_all
  note result = build_files_agree [OF valid(1-4) plain inj valid(5), unfolded names append.simps this]
  then obtain out tri out_h where r:
      "write_autoconf ''CONFIG_'' (sym_calc_value 1 example_config) example_config example_saved [Symbol 0, Symbol 1, Symbol 2] =
        Some (out, tri, out_h, example_saved)"
      "(macro_line ''CONFIG_'' ''FOO'' \<in> set (config_lines out_h)) = False"
      "(macro_line ''CONFIG_'' ''FOO_MODULE'' \<in> set (config_lines out_h)) = True"
    by (elim exE conjE) (rule that)
  show ?thesis by (intro exI conjI, rule r(1)) (simp_all only: r(2,3) not_False_eq_True)
qed

end
