(* ===== verification/Kconfig_Deps.thy ===== *)
theory Kconfig_Deps
  imports Kconfig_Calc
begin

text \<open>
  The check for recursive dependencies (\<open>sym_check_deps\<close> of \<open>scripts/kconfig/symbol.c\<close>, called by
  \<open>conf_parse\<close> for every symbol): a depth-first search with two marks. What is printed about a
  cycle, and the stack kept for it, are left out. A locale states what the search through an
  expression, the properties of a symbol and a choice rely on in the calls they make.
\<close>

subsection \<open>The code\<close>

record dep_marks =
  check_flag :: "symbol set"
  checked_flag :: "symbol set"

type_synonym dep_check = "dep_marks \<Rightarrow> symbol \<Rightarrow> (symbol option \<times> dep_marks) option"

text \<open>A check and, if it found nothing, the next one.\<close>

definition and_then :: "(symbol option \<times> dep_marks) option \<Rightarrow> (dep_marks \<Rightarrow> (symbol option \<times> dep_marks) option) \<Rightarrow>
    (symbol option \<times> dep_marks) option" where
  "and_then first next = do { (r, m) \<leftarrow> first; if r \<noteq> None then Some (r, m) else next m }"

fun sym_check_expr_deps :: "dep_check \<Rightarrow> dep_marks \<Rightarrow> expr \<Rightarrow> (symbol option \<times> dep_marks) option" where
  "sym_check_expr_deps chk m (E_BIN j e1 e2) =
     and_then (sym_check_expr_deps chk m e1) (\<lambda>m. sym_check_expr_deps chk m e2)"
| "sym_check_expr_deps chk m (E_NOT e) = sym_check_expr_deps chk m e"
| "sym_check_expr_deps chk m (E_COMP r s1 s2) = and_then (chk m s1) (\<lambda>m. chk m s2)"
| "sym_check_expr_deps chk m (E_SYMBOL s) = chk m s"
| "sym_check_expr_deps chk m (E_LIST ss) = Some (None, m)"
| "sym_check_expr_deps chk m (E_RANGE s1 s2) = Some (None, m)"

definition check_expr_ptr :: "dep_check \<Rightarrow> dep_marks \<Rightarrow> expr option \<Rightarrow> (symbol option \<times> dep_marks) option" where
  "check_expr_ptr chk m e = (case e of None \<Rightarrow> Some (None, m) | Some e \<Rightarrow> sym_check_expr_deps chk m e)"

text \<open>The expressions the properties of a symbol depend on.\<close>

definition prop_exprs :: "config \<Rightarrow> symbol \<Rightarrow> property \<Rightarrow> expr option list" where
  "prop_exprs cfg s p =
     (if prop_type p = P_CHOICE \<or> prop_type p = P_SELECT \<or> prop_type p = P_IMPLY then []
      else prop_visible p # (if prop_type p \<noteq> P_DEFAULT \<or> choice_flag cfg s then [] else [prop_expr p]))"

fun check_exprs :: "dep_check \<Rightarrow> dep_marks \<Rightarrow> expr option list \<Rightarrow> (symbol option \<times> dep_marks) option" where
  "check_exprs chk m [] = Some (None, m)"
| "check_exprs chk m (e # es) = and_then (check_expr_ptr chk m e) (\<lambda>m. check_exprs chk m es)"

definition sym_exprs :: "config \<Rightarrow> symbol \<Rightarrow> expr option list" where
  "sym_exprs cfg s =
     dir_dep_expr cfg s # rev_dep_expr cfg s # implied_expr cfg s # concat (map (prop_exprs cfg s) (props cfg s))"

definition sym_check_sym_deps :: "dep_check \<Rightarrow> config \<Rightarrow> dep_marks \<Rightarrow> symbol \<Rightarrow> (symbol option \<times> dep_marks) option" where
  "sym_check_sym_deps chk cfg m s = check_exprs chk m (sym_exprs cfg s)"

definition start_check :: "symbol set \<Rightarrow> dep_marks \<Rightarrow> dep_marks" where
  "start_check S m = \<lparr>check_flag = check_flag m \<union> S, checked_flag = checked_flag m \<union> S\<rparr>"

definition end_check :: "symbol set \<Rightarrow> dep_marks \<Rightarrow> dep_marks" where
  "end_check S m = m\<lparr>check_flag := check_flag m - S\<rparr>"

fun check_syms :: "dep_check \<Rightarrow> config \<Rightarrow> dep_marks \<Rightarrow> symbol list \<Rightarrow> (symbol option \<times> dep_marks) option" where
  "check_syms chk cfg m [] = Some (None, m)"
| "check_syms chk cfg m (s # ss) = and_then (sym_check_sym_deps chk cfg m s) (\<lambda>m. check_syms chk cfg m ss)"

definition sym_check_choice_deps :: "dep_check \<Rightarrow> config \<Rightarrow> dep_marks \<Rightarrow> symbol \<Rightarrow> (symbol option \<times> dep_marks) option" where
  "sym_check_choice_deps chk cfg m choice = do {
     ss \<leftarrow> choice_values cfg choice;
     (r, m) \<leftarrow> sym_check_sym_deps chk cfg (start_check {choice} (start_check (set ss) m)) choice;
     (r, m) \<leftarrow> and_then (Some (r, end_check {choice} m)) (\<lambda>m. check_syms chk cfg m ss);
     r \<leftarrow> (case r of
         Some v \<Rightarrow> if choiceval_flag cfg v then do { c \<leftarrow> choice_of cfg v; Some (Some (if c = choice then choice else v)) }
           else Some (Some v)
       | None \<Rightarrow> Some None);
     Some (r, end_check (set ss) m) }"

fun sym_check_deps :: "nat \<Rightarrow> config \<Rightarrow> dep_marks \<Rightarrow> symbol \<Rightarrow> (symbol option \<times> dep_marks) option" where
  "sym_check_deps 0 cfg m s = None"
| "sym_check_deps (Suc depth) cfg m s =
     (if s \<in> check_flag m then Some (Some s, m)
      else if s \<in> checked_flag m then Some (None, m)
      else if choiceval_flag cfg s then do { c \<leftarrow> choice_of cfg s; sym_check_deps depth cfg m c }
      else if choice_flag cfg s then sym_check_choice_deps (sym_check_deps depth cfg) cfg m s
      else do {
        (r, m) \<leftarrow> sym_check_sym_deps (sym_check_deps depth cfg) cfg (start_check {s} m) s;
        Some (r, end_check {s} m) })"

text \<open>The check of all symbols, with the number of errors.\<close>

fun check_all :: "nat \<Rightarrow> config \<Rightarrow> dep_marks \<Rightarrow> symbol list \<Rightarrow> (nat \<times> dep_marks) option" where
  "check_all depth cfg m [] = Some (0, m)"
| "check_all depth cfg m (s # ss) = do {
     (r, m) \<leftarrow> sym_check_deps depth cfg m s;
     (nerrs, m) \<leftarrow> check_all depth cfg m ss;
     Some (if r \<noteq> None then nerrs + 1 else nerrs, m) }"

definition no_dep_marks :: dep_marks where
  "no_dep_marks = \<lparr>check_flag = {}, checked_flag = {}\<rparr>"

subsection \<open>Dependencies\<close>

definition exprs_symbols :: "expr option list \<Rightarrow> symbol set" where
  "exprs_symbols es = (\<Union>e \<in> set es. case e of None \<Rightarrow> {} | Some e \<Rightarrow> expr_symbols e)"

definition deps :: "config \<Rightarrow> symbol \<Rightarrow> symbol set" where
  "deps cfg s = exprs_symbols (sym_exprs cfg s)"

text \<open>A value also depends on its choice.\<close>

definition needs :: "config \<Rightarrow> symbol \<Rightarrow> symbol set" where
  "needs cfg s = deps cfg s \<union> (if choiceval_flag cfg s then {the (choice_of cfg s)} else {})"

text \<open>A choice and its values depend on each other; taken as one they are a node.\<close>

definition node_of :: "config \<Rightarrow> symbol \<Rightarrow> symbol" where
  "node_of cfg s = (if choiceval_flag cfg s then the (choice_of cfg s) else s)"

definition depends :: "config \<Rightarrow> symbol set \<Rightarrow> (symbol \<times> symbol) set" where
  "depends cfg U = {(node_of cfg s, node_of cfg t) |s t. s \<in> U \<and> t \<in> deps cfg s \<and>
     \<not> (choiceval_flag cfg s \<and> choice_of cfg s = Some t)}"

definition choices_ok :: "config \<Rightarrow> symbol set \<Rightarrow> bool" where
  "choices_ok cfg U \<longleftrightarrow>
     (\<forall>c \<in> U. \<forall>ss. choice_flag cfg c \<and> choice_values cfg c = Some ss \<longrightarrow>
        \<not> choiceval_flag cfg c \<and> (\<forall>v. v \<in> set ss \<longleftrightarrow> v \<in> U \<and> choiceval_flag cfg v \<and> choice_of cfg v = Some c)) \<and>
     (\<forall>v \<in> U. choiceval_flag cfg v \<longrightarrow> \<not> choice_flag cfg v)"

lemma exprs_symbols_within: "exprs_symbols es \<subseteq> U \<longleftrightarrow> (\<forall>e \<in> set es. expr_within U e)"
proof -
  have "(case e of None \<Rightarrow> {} | Some e \<Rightarrow> expr_symbols e) \<subseteq> U \<longleftrightarrow> expr_within U e" for e
    by (cases e) (simp_all add: expr_within_def)
  then show ?thesis by (simp only: exprs_symbols_def UN_subset_iff)
qed

lemma deps_within:
  assumes "config_ok cfg U" and "s \<in> U"
  shows "deps cfg s \<subseteq> U"
proof -
  have ok: "symbol_ok cfg U s" using assms by (simp add: config_ok_def)
  have "\<forall>e \<in> set (prop_exprs cfg s p). expr_within U e" if "p \<in> set (props cfg s)" for p
  proof -
    have "prop_ok cfg U s p" using ok that by (simp add: symbol_ok_def)
    then show ?thesis by (simp add: prop_ok_def prop_exprs_def)
  qed
  then show ?thesis
    using ok unfolding deps_def exprs_symbols_within by (simp add: sym_exprs_def symbol_ok_def)
qed

subsection \<open>What a check does\<close>

text \<open>Symbols that are finished, in an order in which each depends on later ones only.\<close>

definition finished :: "dep_marks \<Rightarrow> symbol set" where
  "finished m = checked_flag m - check_flag m"

fun ordered :: "config \<Rightarrow> symbol list \<Rightarrow> bool" where
  "ordered cfg [] \<longleftrightarrow> True"
| "ordered cfg (s # ss) \<longleftrightarrow> needs cfg s \<subseteq> set ss \<and> ordered cfg ss"

definition orderly :: "config \<Rightarrow> dep_marks \<Rightarrow> bool" where
  "orderly cfg m \<longleftrightarrow> (\<exists>ss. ordered cfg ss \<and> set ss = finished m)"

definition marks_wf :: "config \<Rightarrow> symbol set \<Rightarrow> dep_marks \<Rightarrow> bool" where
  "marks_wf cfg U m \<longleftrightarrow> check_flag m \<subseteq> checked_flag m \<and> checked_flag m \<subseteq> U \<and>
     (\<forall>v \<in> U. choiceval_flag cfg v \<longrightarrow> (v \<in> checked_flag m \<longleftrightarrow> the (choice_of cfg v) \<in> checked_flag m))"

text \<open>
  The result of checking what some symbols depend on: without a report they are finished; a report
  is a symbol under way that is reached from them, or there is a cycle elsewhere.
\<close>

definition checked_ok :: "config \<Rightarrow> symbol set \<Rightarrow> dep_marks \<Rightarrow> symbol set \<Rightarrow> symbol option \<Rightarrow> dep_marks \<Rightarrow> bool" where
  "checked_ok cfg U m S r m' \<longleftrightarrow>
     check_flag m' = check_flag m \<and> checked_flag m \<subseteq> checked_flag m' \<and> marks_wf cfg U m' \<and>
     (case r of
        None \<Rightarrow> S \<subseteq> finished m' \<and> (orderly cfg m \<longrightarrow> orderly cfg m')
      | Some x \<Rightarrow> x \<in> U \<and> (\<not> acyclic (depends cfg U) \<or>
          x \<in> check_flag m \<and> (\<exists>t \<in> S - finished m. (node_of cfg t, node_of cfg x) \<in> (depends cfg U)\<^sup>*)))"

lemma finished_mono:
  "check_flag m' = check_flag m \<Longrightarrow> checked_flag m \<subseteq> checked_flag m' \<Longrightarrow> finished m \<subseteq> finished m'"
  by (auto simp: finished_def)

lemma checked_ok_nothing: "marks_wf cfg U m \<Longrightarrow> checked_ok cfg U m {} None m"
  by (simp add: checked_ok_def)

lemma checked_ok_then:
  assumes "checked_ok cfg U m S None m1" and "checked_ok cfg U m1 T r m2"
  shows "checked_ok cfg U m (S \<union> T) r m2"
proof -
  have "finished m \<subseteq> finished m1" "finished m1 \<subseteq> finished m2"
    using assms finished_mono by (auto simp: checked_ok_def)
  then show ?thesis using assms by (cases r) (auto simp: checked_ok_def)
qed

lemma checked_ok_report:
  "checked_ok cfg U m S (Some x) m1 \<Longrightarrow> S \<subseteq> T \<Longrightarrow> checked_ok cfg U m T (Some x) m1"
  by (auto simp: checked_ok_def)

text \<open>A check that returns.\<close>

definition check_returns :: "config \<Rightarrow> symbol set \<Rightarrow> dep_marks \<Rightarrow> symbol set \<Rightarrow> (symbol option \<times> dep_marks) option \<Rightarrow> bool" where
  "check_returns cfg U m S res \<longleftrightarrow> (\<exists>r m'. res = Some (r, m') \<and> checked_ok cfg U m S r m')"

lemma check_returns_then:
  assumes "check_returns cfg U m S first"
    and "\<And>m'. checked_ok cfg U m S None m' \<Longrightarrow> check_returns cfg U m' T (next m')"
  shows "check_returns cfg U m (S \<union> T) (and_then first next)"
proof -
  obtain r m1 where 1: "first = Some (r, m1)" "checked_ok cfg U m S r m1"
    using assms(1) by (auto simp: check_returns_def)
  show ?thesis
  proof (cases r)
    case None
    then obtain r2 m2 where "next m1 = Some (r2, m2)" "checked_ok cfg U m1 T r2 m2"
      using assms(2) [of m1] 1(2) unfolding check_returns_def by blast
    then show ?thesis using checked_ok_then 1 None by (auto simp: check_returns_def and_then_def)
  next
    case (Some x)
    then show ?thesis using 1 checked_ok_report [of cfg U m S x m1 "S \<union> T"] by (auto simp: check_returns_def and_then_def)
  qed
qed


subsection \<open>What the search relies on in its calls\<close>

definition to_check :: "symbol set \<Rightarrow> dep_marks \<Rightarrow> nat" where
  "to_check U m = card (U - checked_flag m)"

locale dependency_check =
  fixes chk :: dep_check and cfg :: config and U :: "symbol set" and n :: nat
  assumes chk_ok: "config_ok cfg U \<Longrightarrow> choices_ok cfg U \<Longrightarrow> marks_wf cfg U m \<Longrightarrow> s \<in> U \<Longrightarrow> 2 * to_check U m + 1 < n \<Longrightarrow>
    check_returns cfg U m {s} (chk m s)"
begin

lemma still_enough:
  assumes "config_ok cfg U" and "checked_ok cfg U m S r m'" and "2 * to_check U m + 1 < n"
  shows "marks_wf cfg U m' \<and> 2 * to_check U m' + 1 < n"
proof -
  have "finite U" using assms(1) by (simp add: config_ok_def)
  then have "to_check U m' \<le> to_check U m"
    using assms(2) unfolding to_check_def checked_ok_def by (intro card_mono) auto
  then show ?thesis using assms(2,3) by (simp add: checked_ok_def)
qed

lemma check_expr_deps_ok:
  assumes U: "config_ok cfg U" "choices_ok cfg U"
  shows "expr_symbols e \<subseteq> U \<Longrightarrow> marks_wf cfg U m \<Longrightarrow> 2 * to_check U m + 1 < n \<Longrightarrow>
    check_returns cfg U m (expr_symbols e) (sym_check_expr_deps chk m e)"
proof (induction e arbitrary: m)
  case (E_BIN j e1 e2)
  then have "check_returns cfg U m (expr_symbols e1) (sym_check_expr_deps chk m e1)" by simp
  then have "check_returns cfg U m (expr_symbols e1 \<union> expr_symbols e2) (sym_check_expr_deps chk m (E_BIN j e1 e2))"
    unfolding sym_check_expr_deps.simps
    by (rule check_returns_then) (use E_BIN still_enough [OF U(1)] in auto)
  then show ?case by simp
next
  case (E_COMP r s1 s2)
  then have "check_returns cfg U m {s1} (chk m s1)" using chk_ok [OF U] by simp
  then have "check_returns cfg U m ({s1} \<union> {s2}) (and_then (chk m s1) (\<lambda>m. chk m s2))"
    by (rule check_returns_then) (use E_COMP chk_ok [OF U] still_enough [OF U(1)] in auto)
  then show ?case by (simp add: insert_commute)
next
  case (E_SYMBOL s)
  then show ?case using chk_ok [OF U] by simp
qed (auto simp: check_returns_def intro: checked_ok_nothing)

lemma check_exprs_ok:
  assumes U: "config_ok cfg U" "choices_ok cfg U"
  shows "exprs_symbols es \<subseteq> U \<Longrightarrow> marks_wf cfg U m \<Longrightarrow> 2 * to_check U m + 1 < n \<Longrightarrow>
    check_returns cfg U m (exprs_symbols es) (check_exprs chk m es)"
proof (induction es arbitrary: m)
  case Nil
  then show ?case by (simp add: check_returns_def exprs_symbols_def checked_ok_nothing)
next
  case (Cons e es)
  let ?S = "case e of None \<Rightarrow> {} | Some e \<Rightarrow> expr_symbols e"
  have S: "exprs_symbols (e # es) = ?S \<union> exprs_symbols es" by (simp add: exprs_symbols_def)
  have "check_returns cfg U m ?S (check_expr_ptr chk m e)"
  proof (cases e)
    case None
    then show ?thesis using Cons.prems(2) by (simp add: check_expr_ptr_def check_returns_def checked_ok_nothing)
  next
    case (Some x)
    then show ?thesis using check_expr_deps_ok [OF U, of x m] Cons.prems S by (simp add: check_expr_ptr_def)
  qed
  then have "check_returns cfg U m (?S \<union> exprs_symbols es)
      (and_then (check_expr_ptr chk m e) (\<lambda>m. check_exprs chk m es))"
    by (rule check_returns_then) (use Cons S still_enough [OF U(1)] in auto)
  then show ?case using S by simp
qed

lemma check_sym_deps_ok:
  assumes "config_ok cfg U" "choices_ok cfg U" and "s \<in> U" and "marks_wf cfg U m" and "2 * to_check U m + 1 < n"
  shows "check_returns cfg U m (deps cfg s) (sym_check_sym_deps chk cfg m s)"
proof -
  show ?thesis
    using check_exprs_ok [OF assms(1,2) _ assms(4,5)] deps_within [OF assms(1,3)]
    by (simp add: sym_check_sym_deps_def deps_def)
qed

lemma check_syms_ok:
  assumes U: "config_ok cfg U" "choices_ok cfg U"
  shows "set ss \<subseteq> U \<Longrightarrow> marks_wf cfg U m \<Longrightarrow> 2 * to_check U m + 1 < n \<Longrightarrow>
    check_returns cfg U m (\<Union>s \<in> set ss. deps cfg s) (check_syms chk cfg m ss)"
proof (induction ss arbitrary: m)
  case Nil
  then show ?case by (simp add: check_returns_def checked_ok_nothing)
next
  case (Cons s ss)
  then have "check_returns cfg U m (deps cfg s) (sym_check_sym_deps chk cfg m s)" using check_sym_deps_ok [OF U] by simp
  then have "check_returns cfg U m (deps cfg s \<union> (\<Union>s \<in> set ss. deps cfg s))
      (and_then (sym_check_sym_deps chk cfg m s) (\<lambda>m. check_syms chk cfg m ss))"
    by (rule check_returns_then) (use Cons still_enough [OF U(1)] in auto)
  then show ?case by simp
qed

end


subsection \<open>A search\<close>

lemma ordered_append:
  "\<forall>s \<in> set vs. needs cfg s \<subseteq> set ss \<Longrightarrow> ordered cfg ss \<Longrightarrow> ordered cfg (vs @ ss)"
  by (induction vs) auto

lemma orderly_insert:
  assumes "orderly cfg m" and "finite S" and "\<forall>s \<in> S. needs cfg s \<subseteq> finished m" and "finished m' = finished m \<union> S"
  shows "orderly cfg m'"
proof -
  obtain vs where vs: "set vs = S" using finite_list [OF assms(2)] by blast
  obtain ss where "ordered cfg ss" "set ss = finished m" using assms(1) by (auto simp: orderly_def)
  then show ?thesis
    using ordered_append [of vs cfg ss] assms(3,4) vs by (auto simp: orderly_def intro!: exI [of _ "vs @ ss"])
qed

lemma orderly_same: "finished m' = finished m \<Longrightarrow> orderly cfg m' \<longleftrightarrow> orderly cfg m"
  by (simp add: orderly_def)

lemma dependsI:
  "s \<in> U \<Longrightarrow> t \<in> deps cfg s \<Longrightarrow> \<not> (choiceval_flag cfg s \<and> choice_of cfg s = Some t) \<Longrightarrow>
    (node_of cfg s, node_of cfg t) \<in> depends cfg U"
  by (auto simp: depends_def)

lemma not_acyclicI: "(a, b) \<in> r \<Longrightarrow> (b, a) \<in> r\<^sup>* \<Longrightarrow> \<not> acyclic r"
  by (auto simp: acyclic_def intro: rtrancl_into_trancl2)

lemma choice_exists:
  "config_ok cfg U \<Longrightarrow> v \<in> U \<Longrightarrow> choiceval_flag cfg v \<Longrightarrow> \<exists>c \<in> U. choice_of cfg v = Some c \<and> choice_flag cfg c"
  by (simp add: config_ok_def symbol_ok_def)

text \<open>The groups: a plain symbol by itself, a choice with its values.\<close>

definition dep_group :: "config \<Rightarrow> symbol \<Rightarrow> symbol set" where
  "dep_group cfg s = insert s (if choice_flag cfg s then set (the (choice_values cfg s)) else {})"

lemma group_facts:
  assumes U: "config_ok cfg U" "choices_ok cfg U" and s: "s \<in> U" "\<not> choiceval_flag cfg s"
  shows "dep_group cfg s \<subseteq> U" and "finite (dep_group cfg s)" and "\<forall>v \<in> dep_group cfg s. node_of cfg v = s"
    and "\<forall>v \<in> U. node_of cfg v = s \<longrightarrow> v \<in> dep_group cfg s"
    and "\<forall>v \<in> dep_group cfg s. v \<noteq> s \<longrightarrow> choiceval_flag cfg v \<and> choice_of cfg v = Some s"
    and "choice_flag cfg s \<Longrightarrow> choice_values cfg s = Some (the (choice_values cfg s))"
proof -
  have ok: "\<And>v. v \<in> U \<Longrightarrow> symbol_ok cfg U v" and fin: "finite U" using U(1) by (auto simp: config_ok_def)
  show vals: "choice_flag cfg s \<Longrightarrow> choice_values cfg s = Some (the (choice_values cfg s))"
    using ok [OF s(1)] by (auto simp: symbol_ok_def)
  have members: "v \<in> dep_group cfg s \<longleftrightarrow> v = s \<or> v \<in> U \<and> choiceval_flag cfg v \<and> choice_of cfg v = Some s" for v
  proof (cases "choice_flag cfg s")
    case True
    then show ?thesis using U(2) s(1) vals by (auto simp: dep_group_def choices_ok_def)
  next
    case False
    have "\<not> (v \<in> U \<and> choiceval_flag cfg v \<and> choice_of cfg v = Some s)"
      using ok [of v] False by (auto simp: symbol_ok_def)
    then show ?thesis using False unfolding dep_group_def by auto
  qed
  show sub: "dep_group cfg s \<subseteq> U" using members s(1) by auto
  show "finite (dep_group cfg s)" using sub fin finite_subset by blast
  show "\<forall>v \<in> dep_group cfg s. node_of cfg v = s" using members s(2) by (auto simp: node_of_def)
  show "\<forall>v \<in> U. node_of cfg v = s \<longrightarrow> v \<in> dep_group cfg s"
  proof (intro ballI impI)
    fix v assume v: "v \<in> U" "node_of cfg v = s"
    show "v \<in> dep_group cfg s"
    proof (cases "choiceval_flag cfg v")
      case True
      then obtain c where "choice_of cfg v = Some c" using ok [OF v(1)] by (auto simp: symbol_ok_def)
      then show ?thesis using members v True by (simp add: node_of_def)
    qed (use members v in \<open>simp add: node_of_def\<close>)
  qed
  show "\<forall>v \<in> dep_group cfg s. v \<noteq> s \<longrightarrow> choiceval_flag cfg v \<and> choice_of cfg v = Some s" using members by auto
qed

lemma marks_wf_node:
  assumes "config_ok cfg U" and "marks_wf cfg U m" and "v \<in> U"
  shows "v \<in> checked_flag m \<longleftrightarrow> node_of cfg v \<in> checked_flag m"
  using assms by (auto simp: marks_wf_def node_of_def)

text \<open>Marking a group that has not been visited.\<close>

lemma start_group:
  assumes U: "config_ok cfg U" "choices_ok cfg U" and s: "s \<in> U" "\<not> choiceval_flag cfg s"
    and m: "marks_wf cfg U m" "s \<notin> checked_flag m" and m1: "m1 = start_check (dep_group cfg s) m"
  shows "marks_wf cfg U m1" and "to_check U m1 < to_check U m" and "finished m1 = finished m"
    and "dep_group cfg s \<inter> checked_flag m = {}"
proof -
  note g = group_facts [OF U s]
  show disj: "dep_group cfg s \<inter> checked_flag m = {}" 
  proof (intro equals0I, elim IntE)
    fix v assume v: "v \<in> dep_group cfg s" "v \<in> checked_flag m"
    then have "v \<in> U" "node_of cfg v = s" using g(1,3) by auto
    then show False using marks_wf_node [OF U(1) m(1), of v] v(2) m(2) by simp
  qed
  have "v \<in> dep_group cfg s \<longleftrightarrow> the (choice_of cfg v) \<in> dep_group cfg s" if v: "v \<in> U" "choiceval_flag cfg v" for v
  proof -
    obtain c where c: "c \<in> U" "choice_of cfg v = Some c" "choice_flag cfg c"
      using U(1) v unfolding config_ok_def symbol_ok_def by blast
    then have "\<not> choiceval_flag cfg c" using U(2) by (auto simp: choices_ok_def)
    then have "c \<in> dep_group cfg s \<longleftrightarrow> c = s" using g(3) by (auto simp: node_of_def dep_group_def)
    then show ?thesis using g(3,4) v c by (auto simp: node_of_def)
  qed
  then show "marks_wf cfg U m1" using m(1) g(1) by (auto simp: marks_wf_def m1 start_check_def)
  have "finite U" using U(1) by (simp add: config_ok_def)
  moreover have "U - checked_flag m1 \<subset> U - checked_flag m" using s(1) m(2) by (auto simp: m1 start_check_def dep_group_def)
  ultimately show "to_check U m1 < to_check U m" unfolding to_check_def by (intro psubset_card_mono) auto
  show "finished m1 = finished m" using disj by (auto simp: finished_def m1 start_check_def)
qed


text \<open>Taking the marks of the group away again.\<close>

lemma end_group:
  assumes "marks_wf cfg U m" and "dep_group cfg s \<inter> checked_flag m = {}"
    and "marks_wf cfg U m2" and "check_flag m \<subseteq> check_flag m2" and "check_flag m2 \<subseteq> check_flag m \<union> dep_group cfg s"
    and "checked_flag m \<union> dep_group cfg s \<subseteq> checked_flag m2" and m': "m' = end_check (dep_group cfg s) m2"
  shows "check_flag m' = check_flag m" and "checked_flag m \<subseteq> checked_flag m'" and "marks_wf cfg U m'"
    and "finished m' = finished m2 \<union> dep_group cfg s"
proof -
  have "check_flag m \<inter> dep_group cfg s = {}" using assms(1,2) by (auto simp: marks_wf_def)
  then show "check_flag m' = check_flag m" "checked_flag m \<subseteq> checked_flag m'" "finished m' = finished m2 \<union> dep_group cfg s"
    using assms(4-6) by (auto simp: m' end_check_def finished_def)
  show "marks_wf cfg U m'" using assms(3) by (auto simp: marks_wf_def m' end_check_def)
qed

lemma group_report:
  assumes "check_flag m' = check_flag m" and "checked_flag m \<subseteq> checked_flag m'" and "marks_wf cfg U m'"
    and "s \<notin> checked_flag m" and "node_of cfg s = s" and "s \<in> U" and "x \<in> U"
    and "\<not> acyclic (depends cfg U) \<or> x \<in> check_flag m \<union> dep_group cfg s \<and> (s, node_of cfg x) \<in> (depends cfg U)\<^sup>+"
    and "\<forall>v \<in> dep_group cfg s. node_of cfg v = s"
  shows "checked_ok cfg U m {s} (Some (if x \<in> dep_group cfg s then s else x)) m'"
proof (cases "x \<in> dep_group cfg s")
  case True
  then have "\<not> acyclic (depends cfg U)" using assms(8,9) by (auto simp: acyclic_def)
  then show ?thesis using assms True by (simp add: checked_ok_def)
next
  case False
  have "s \<notin> finished m" using assms(4) by (simp add: finished_def)
  then show ?thesis using assms False by (auto simp: checked_ok_def dest: trancl_into_rtrancl)
qed

text \<open>A report from what the members of a group depend on.\<close>

lemma report_path:
  assumes "checked_ok cfg U m1 S (Some x) m2" and "\<forall>t \<in> S - finished m1. (s, node_of cfg t) \<in> depends cfg U"
    and "check_flag m1 \<subseteq> C"
  shows "x \<in> U \<and> (\<not> acyclic (depends cfg U) \<or> x \<in> C \<and> (s, node_of cfg x) \<in> (depends cfg U)\<^sup>+)"
  using assms by (auto simp: checked_ok_def intro: rtrancl_into_trancl2)

context dependency_check
begin

lemma plain_check:
  assumes U: "config_ok cfg U" "choices_ok cfg U" and s: "s \<in> U" "\<not> choiceval_flag cfg s" "\<not> choice_flag cfg s"
    and m: "marks_wf cfg U m" "s \<notin> checked_flag m" "2 * to_check U m \<le> n"
  shows "check_returns cfg U m {s}
    (do { (r, m) \<leftarrow> sym_check_sym_deps chk cfg (start_check {s} m) s; Some (r, end_check {s} m) })"
proof -
  define m1 where "m1 = start_check (dep_group cfg s) m"
  have g: "dep_group cfg s = {s}" using s(3) by (simp add: dep_group_def)
  have node: "node_of cfg s = s" using s(2) by (simp add: node_of_def)
  note st = start_group [OF U s(1,2) m(1,2) m1_def]
  have "check_returns cfg U m1 (deps cfg s) (sym_check_sym_deps chk cfg m1 s)"
    using check_sym_deps_ok [OF U s(1) st(1)] st(2) m(3) by simp
  then obtain r m2 where r: "sym_check_sym_deps chk cfg m1 s = Some (r, m2)" "checked_ok cfg U m1 (deps cfg s) r m2"
    by (auto simp: check_returns_def)
  define m' where "m' = end_check (dep_group cfg s) m2"
  have marks: "check_flag m1 = check_flag m \<union> {s}" "checked_flag m1 = checked_flag m \<union> {s}" by (simp_all add: m1_def start_check_def g)
  have e: "check_flag m' = check_flag m" "checked_flag m \<subseteq> checked_flag m'" "marks_wf cfg U m'"
      "finished m' = finished m2 \<union> {s}"
    using end_group [OF m(1) st(4) _ _ _ _ m'_def] r(2) marks g by (auto simp: checked_ok_def)
  have "checked_ok cfg U m {s} r m'"
  proof (cases r)
    case None
    then have "deps cfg s \<subseteq> finished m2" "orderly cfg m1 \<longrightarrow> orderly cfg m2" using r(2) by (simp_all add: checked_ok_def)
    then have "orderly cfg m \<longrightarrow> orderly cfg m'"
      using orderly_insert [of cfg m2 "{s}" m'] orderly_same [OF st(3)] e(4) s(2) by (auto simp: needs_def)
    then show ?thesis using None e by (simp add: checked_ok_def)
  next
    case (Some x)
    have "\<forall>t \<in> deps cfg s - finished m1. (s, node_of cfg t) \<in> depends cfg U"
      using dependsI [OF s(1)] s(2) node by fastforce
    then have "x \<in> U \<and> (\<not> acyclic (depends cfg U) \<or> x \<in> check_flag m \<union> dep_group cfg s \<and> (s, node_of cfg x) \<in> (depends cfg U)\<^sup>+)"
      using report_path [of cfg U m1 "deps cfg s" x m2 s "check_flag m \<union> dep_group cfg s"] r(2) Some marks(1) g by simp
    then have "checked_ok cfg U m {s} (Some (if x \<in> dep_group cfg s then s else x)) m'"
      using group_report [OF e(1-3) m(2) node s(1)] g node by simp
    then show ?thesis using Some g by (simp split: if_splits)
  qed
  then show ?thesis using r(1) g by (auto simp: check_returns_def m1_def m'_def)
qed

lemma choice_check:
  assumes U: "config_ok cfg U" "choices_ok cfg U" and s: "s \<in> U" "\<not> choiceval_flag cfg s" "choice_flag cfg s"
    and m: "marks_wf cfg U m" "s \<notin> checked_flag m" "2 * to_check U m \<le> n"
  shows "check_returns cfg U m {s} (sym_check_choice_deps chk cfg m s)"
proof -
  define ss where "ss = the (choice_values cfg s)"
  note g = group_facts [OF U s(1,2)]
  have vals: "choice_values cfg s = Some ss" unfolding ss_def by (rule g(6) [OF s(3)])
  have grp: "dep_group cfg s = insert s (set ss)" using s(3) by (simp add: ss_def dep_group_def)
  have node: "node_of cfg s = s" using s(2) by (simp add: node_of_def)
  have own: "s \<notin> set ss" using U(2) s vals unfolding choices_ok_def by blast
  define m1 where "m1 = start_check (dep_group cfg s) m"
  have m1: "start_check {s} (start_check (set ss) m) = m1" by (simp add: m1_def start_check_def grp Un_commute)
  note st = start_group [OF U s(1,2) m(1,2) m1_def]
  have n1: "2 * to_check U m1 + 1 < n" using st(2) m(3) by simp
  obtain r1 m2 where r1: "sym_check_sym_deps chk cfg m1 s = Some (r1, m2)" "checked_ok cfg U m1 (deps cfg s) r1 m2"
    using check_sym_deps_ok [OF U s(1) st(1) n1] by (auto simp: check_returns_def)
  define m2' where "m2' = end_check {s} m2"
  have marks: "check_flag m1 = check_flag m \<union> dep_group cfg s" "checked_flag m1 = checked_flag m \<union> dep_group cfg s"
    by (simp_all add: m1_def start_check_def)
  have c2: "check_flag m2 = check_flag m1" "checked_flag m1 \<subseteq> checked_flag m2" "marks_wf cfg U m2"
    using r1(2) by (simp_all add: checked_ok_def)
  have disj: "check_flag m \<inter> dep_group cfg s = {}" using st(4) m(1) by (auto simp: marks_wf_def)
  have c2': "check_flag m2' = check_flag m \<union> set ss" "checked_flag m2' = checked_flag m2" "marks_wf cfg U m2'"
      "finished m2' = finished m2 \<union> {s}"
    using c2 marks own grp disj by (auto simp: m2'_def end_check_def marks_wf_def finished_def)
  define rename where "rename x = (if x \<in> dep_group cfg s then s else x)" for x
  have renames: "(if choiceval_flag cfg x then do { c \<leftarrow> choice_of cfg x; Some (Some (if c = s then s else x)) } else Some (Some x))
      = Some (Some (rename x))" if xU: "x \<in> U" for x
  proof (cases "choiceval_flag cfg x")
    case True
    then obtain c where c: "choice_of cfg x = Some c"
      using choice_exists [OF U(1) xU] by blast
    have "x \<in> dep_group cfg s" if "c = s"
      by (rule g(4) [rule_format, OF xU]) (simp add: node_of_def True c that)
    moreover have "c = s" if "x \<in> dep_group cfg s"
    proof -
      have "x \<noteq> s" using True s(2) by blast
      then have "choice_of cfg x = Some s" using g(5) that by blast
      then show ?thesis using c by simp
    qed
    ultimately have "c = s \<longleftrightarrow> x \<in> dep_group cfg s" by blast
    then show ?thesis using True c by (simp add: rename_def)
  next
    case False
    then have "x \<in> dep_group cfg s \<longleftrightarrow> x = s" using g(5) by (auto simp: grp)
    then show ?thesis using False by (simp add: rename_def)
  qed
  have report: "\<exists>r' m'. r' = Some (Some (rename x)) \<and> checked_ok cfg U m {s} (Some (rename x)) (end_check (set ss) m3)"
    if x: "x \<in> U \<and> (\<not> acyclic (depends cfg U) \<or> x \<in> check_flag m \<union> dep_group cfg s \<and> (s, node_of cfg x) \<in> (depends cfg U)\<^sup>+)"
      and m3: "check_flag m3 = check_flag m2'" "checked_flag m2' \<subseteq> checked_flag m3" "marks_wf cfg U m3" for x m3
  proof -
    define m' where "m' = end_check (set ss) m3"
    have "check_flag m' = check_flag m" "checked_flag m \<subseteq> checked_flag m'" "marks_wf cfg U m'"
      using m3 c2' c2 marks disj grp by (auto simp: m'_def end_check_def marks_wf_def)
    then show ?thesis
      using group_report [of m' m cfg U s x] m(2) node s(1) x g(3) by (simp add: rename_def m'_def)
  qed
  show ?thesis
  proof (cases r1)
    case (Some x)
    have "\<forall>t \<in> deps cfg s - finished m1. (s, node_of cfg t) \<in> depends cfg U"
      using dependsI [OF s(1)] s(2) node by fastforce
    then have x: "x \<in> U \<and> (\<not> acyclic (depends cfg U) \<or> x \<in> check_flag m \<union> dep_group cfg s \<and> (s, node_of cfg x) \<in> (depends cfg U)\<^sup>+)"
      using report_path [of cfg U m1 "deps cfg s" x m2 s "check_flag m \<union> dep_group cfg s"] r1(2) Some marks(1) by simp
    have "sym_check_choice_deps chk cfg m s = Some (Some (rename x), end_check (set ss) m2')"
      using x renames [of x] by (simp add: sym_check_choice_deps_def vals m1 r1(1) Some and_then_def m2'_def)
    then show ?thesis using report [OF x refl order_refl c2'(3)] by (auto simp: check_returns_def)
  next
    case None
    then have done1: "deps cfg s \<subseteq> finished m2" "orderly cfg m1 \<longrightarrow> orderly cfg m2" using r1(2) by (simp_all add: checked_ok_def)
    then have ord2: "orderly cfg m \<longrightarrow> orderly cfg m2'"
      using orderly_insert [of cfg m2 "{s}" m2'] orderly_same [OF st(3)] c2'(4) s(2) by (auto simp: needs_def)
    have n2: "2 * to_check U m2' + 1 < n"
      using still_enough [OF U(1) r1(2) n1] by (simp add: to_check_def c2'(2))
    have "set ss \<subseteq> U" using g(1) grp by simp
    then obtain r m3 where r: "check_syms chk cfg m2' ss = Some (r, m3)" "checked_ok cfg U m2' (\<Union>v \<in> set ss. deps cfg v) r m3"
      using check_syms_ok [OF U _ c2'(3) n2, of ss] by (auto simp: check_returns_def)
    have c3: "check_flag m3 = check_flag m2'" "checked_flag m2' \<subseteq> checked_flag m3" "marks_wf cfg U m3"
      using r(2) by (simp_all add: checked_ok_def)
    show ?thesis
    proof (cases r)
      case (Some x)
      have edge: "(s, node_of cfg t) \<in> depends cfg U" if t: "t \<in> (\<Union>v \<in> set ss. deps cfg v) - finished m2'" for t
      proof -
        obtain v where v: "v \<in> set ss" "t \<in> deps cfg v" using t by blast
        then have "v \<in> U" "node_of cfg v = s" "choice_of cfg v = Some s" using g(1,3,5) grp own by auto
        moreover have "t \<noteq> s" using t c2'(4) by blast
        ultimately show ?thesis using dependsI [of v U t cfg] v(2) by simp
      qed
      have x: "x \<in> U \<and> (\<not> acyclic (depends cfg U) \<or> x \<in> check_flag m \<union> dep_group cfg s \<and> (s, node_of cfg x) \<in> (depends cfg U)\<^sup>+)"
        by (rule report_path [OF r(2) [unfolded Some]]) (use edge c2'(1) grp in auto)
      have "sym_check_choice_deps chk cfg m s = Some (Some (rename x), end_check (set ss) m3)"
        using x renames [of x] r(1) Some None by (simp add: sym_check_choice_deps_def vals m1 r1(1) and_then_def m2'_def)
      then show ?thesis using report [OF x c3] by (auto simp: check_returns_def)
    next
      case none: None
      define m' where "m' = end_check (set ss) m3"
      have e: "check_flag m' = check_flag m" "checked_flag m \<subseteq> checked_flag m'" "marks_wf cfg U m'"
          "finished m' = finished m3 \<union> set ss"
        using c3 c2' c2 marks disj grp by (auto simp: m'_def end_check_def marks_wf_def finished_def)
      have all: "(\<Union>v \<in> set ss. deps cfg v) \<subseteq> finished m3" "orderly cfg m2' \<longrightarrow> orderly cfg m3"
        using r(2) none by (simp_all add: checked_ok_def)
      have s3: "s \<in> finished m3" using finished_mono [OF c3(1,2)] c2'(4) by blast
      have "needs cfg v \<subseteq> finished m3" if "v \<in> set ss" for v
        using all(1) s3 that g(5) grp own by (auto simp: needs_def)
      then have "orderly cfg m \<longrightarrow> orderly cfg m'"
        using orderly_insert [of cfg m3 "set ss" m'] e(4) ord2 all(2) by auto
      then have "checked_ok cfg U m {s} None m'" using e s3 by (simp add: checked_ok_def)
      moreover have "sym_check_choice_deps chk cfg m s = Some (None, m')"
        using r(1) none None by (simp add: sym_check_choice_deps_def vals m1 r1(1) and_then_def m2'_def m'_def)
      ultimately show ?thesis by (auto simp: check_returns_def)
    qed
  qed
qed

end


text \<open>With enough depth the search itself is such a check.\<close>

definition enough_depth :: "config \<Rightarrow> symbol set \<Rightarrow> dep_marks \<Rightarrow> symbol \<Rightarrow> nat \<Rightarrow> bool" where
  "enough_depth cfg U m s depth \<longleftrightarrow> 2 * to_check U m + (if choiceval_flag cfg s then 1 else 0) < depth"

lemma sym_check_deps_returns:
  assumes U: "config_ok cfg U" "choices_ok cfg U"
  shows "marks_wf cfg U m \<Longrightarrow> s \<in> U \<Longrightarrow> enough_depth cfg U m s depth \<Longrightarrow>
    check_returns cfg U m {s} (sym_check_deps depth cfg m s)"
proof (induction depth arbitrary: m s)
  case 0
  then show ?case by (simp add: enough_depth_def)
next
  case (Suc depth)
  have chk: "dependency_check (sym_check_deps depth cfg) cfg U depth"
    by unfold_locales (rule Suc.IH; simp add: enough_depth_def)
  show ?case
  proof (cases "s \<in> checked_flag m")
    case True
    then show ?thesis
      using Suc.prems(1,2) by (auto simp: check_returns_def checked_ok_def finished_def)
  next
    case False
    then have not_yet: "s \<notin> check_flag m" using Suc.prems(1) by (auto simp: marks_wf_def)
    show ?thesis
    proof (cases "choiceval_flag cfg s")
      case True
      obtain c where c: "c \<in> U" "choice_of cfg s = Some c" "choice_flag cfg c"
        using choice_exists [OF U(1) Suc.prems(2) True] by blast
      have plain: "\<not> choiceval_flag cfg c" using U(2) c by (auto simp: choices_ok_def)
      have "check_returns cfg U m {c} (sym_check_deps depth cfg m c)"
        using Suc.IH [OF Suc.prems(1) c(1)] Suc.prems(3) True plain by (simp add: enough_depth_def)
      then obtain r m' where r: "sym_check_deps depth cfg m c = Some (r, m')" "checked_ok cfg U m {c} r m'"
        by (auto simp: check_returns_def)
      have "node_of cfg s = c" "node_of cfg c = c" using True plain c by (simp_all add: node_of_def)
      moreover have "s \<in> checked_flag m' \<longleftrightarrow> c \<in> checked_flag m'"
        using r(2) Suc.prems(2) True c(2) by (auto simp: checked_ok_def marks_wf_def)
      ultimately have "checked_ok cfg U m {s} r m'"
        using r(2) False not_yet by (cases r) (auto simp: checked_ok_def finished_def)
      then show ?thesis using r(1) False not_yet True c(2) by (auto simp: check_returns_def)
    next
      case False2: False
      then have d: "2 * to_check U m \<le> depth" using Suc.prems(3) by (simp add: enough_depth_def)
      show ?thesis
        using False not_yet False2
          dependency_check.choice_check [OF chk U Suc.prems(2) False2 _ Suc.prems(1) False d]
          dependency_check.plain_check [OF chk U Suc.prems(2) False2 _ Suc.prems(1) False d]
        by auto
    qed
  qed
qed

interpretation dep_search: dependency_check "sym_check_deps depth cfg" cfg U depth for depth cfg U
  by unfold_locales (rule sym_check_deps_returns; simp add: enough_depth_def)


subsection \<open>All symbols\<close>

text \<open>An order is as good as no cycle.\<close>

definition needs_relation :: "config \<Rightarrow> symbol set \<Rightarrow> (symbol \<times> symbol) set" where
  "needs_relation cfg U = {(s, t). s \<in> U \<and> t \<in> needs cfg s}"

lemma ordered_rank:
  "ordered cfg ss \<Longrightarrow> \<exists>f :: symbol \<Rightarrow> nat. \<forall>s \<in> set ss. \<forall>t \<in> needs cfg s. t \<in> set ss \<and> f t < f s"
proof (induction ss)
  case (Cons s ss)
  then obtain f :: "symbol \<Rightarrow> nat" where f: "\<forall>s \<in> set ss. \<forall>t \<in> needs cfg s. t \<in> set ss \<and> f t < f s" by auto
  show ?case
  proof (cases "s \<in> set ss")
    case True
    then show ?thesis using f by (intro exI [of _ f]) auto
  next
    case False
    define g where "g = f(s := 1 + sum_list (map f ss))"
    have "g t < g s" if "t \<in> set ss" for t
      using member_le_sum_list [of "f t" "map f ss"] that False by (auto simp: g_def less_Suc_eq_le)
    moreover have "needs cfg s \<subseteq> set ss" using Cons.prems by simp
    moreover have "t \<in> set ss \<and> g t < g u" if "u \<in> set ss" "t \<in> needs cfg u" for u t
      using f that False by (auto simp: g_def)
    ultimately show ?thesis by (intro exI [of _ g]) auto
  qed
qed simp

lemma ordered_acyclic:
  assumes "ordered cfg ss" and "set ss = U"
  shows "acyclic (needs_relation cfg U)"
proof -
  obtain f :: "symbol \<Rightarrow> nat" where "\<forall>s \<in> U. \<forall>t \<in> needs cfg s. f t < f s"
    using ordered_rank [OF assms(1)] assms(2) by blast
  then have "(needs_relation cfg U)\<inverse> \<subseteq> measure f" by (auto simp: needs_relation_def)
  then have "wf ((needs_relation cfg U)\<inverse>)" using wf_measure wf_subset by blast
  then show ?thesis using wf_acyclic acyclic_converse by blast
qed

lemma check_all_ok:
  assumes U: "config_ok cfg U" "choices_ok cfg U" and d: "2 * card U + 1 < depth"
  shows "marks_wf cfg U m \<Longrightarrow> check_flag m = {} \<Longrightarrow> orderly cfg m \<or> \<not> acyclic (depends cfg U) \<Longrightarrow> set ss \<subseteq> U \<Longrightarrow>
    \<exists>nerrs m'. check_all depth cfg m ss = Some (nerrs, m') \<and> marks_wf cfg U m' \<and> check_flag m' = {} \<and>
      (nerrs \<noteq> 0 \<longrightarrow> \<not> acyclic (depends cfg U)) \<and>
      (nerrs = 0 \<longrightarrow> (orderly cfg m \<longrightarrow> orderly cfg m') \<and> set ss \<union> finished m \<subseteq> finished m')"
proof (induction ss arbitrary: m)
  case (Cons s ss)
  have fin: "finite U" using U(1) by (simp add: config_ok_def)
  have "to_check U m \<le> card U" unfolding to_check_def by (intro card_mono fin) auto
  then have "enough_depth cfg U m s depth" using d by (simp add: enough_depth_def)
  then obtain r m1 where r: "sym_check_deps depth cfg m s = Some (r, m1)" "checked_ok cfg U m {s} r m1"
    using sym_check_deps_returns [OF U Cons.prems(1), of s depth] Cons.prems(4) unfolding check_returns_def by auto
  have m1: "marks_wf cfg U m1" "check_flag m1 = {}" "finished m \<subseteq> finished m1"
    using r(2) Cons.prems(2) finished_mono [of m1 m] by (simp_all add: checked_ok_def)
  have cyc: "r \<noteq> None \<Longrightarrow> \<not> acyclic (depends cfg U)" using r(2) Cons.prems(2) by (cases r) (auto simp: checked_ok_def)
  have "orderly cfg m1 \<or> \<not> acyclic (depends cfg U)"
    using r(2) Cons.prems(3) cyc by (cases r) (auto simp: checked_ok_def)
  then obtain nerrs m' where m': "check_all depth cfg m1 ss = Some (nerrs, m')" "marks_wf cfg U m'" "check_flag m' = {}"
    "nerrs \<noteq> 0 \<longrightarrow> \<not> acyclic (depends cfg U)"
    "nerrs = 0 \<longrightarrow> (orderly cfg m1 \<longrightarrow> orderly cfg m') \<and> set ss \<union> finished m1 \<subseteq> finished m'"
    using Cons.IH [OF m1(1,2)] Cons.prems(4) by auto
  show ?case
    using r m' m1 cyc by (cases r) (auto simp: checked_ok_def)
qed simp

lemma needs_within:
  assumes "config_ok cfg U" and "s \<in> U"
  shows "needs cfg s \<subseteq> U"
  using deps_within [OF assms] choice_exists [OF assms] by (auto simp: needs_def)

text \<open>Without values of choices the two relations are the same.\<close>

lemma depends_plain:
  assumes "config_ok cfg U" and "\<forall>s \<in> U. \<not> choiceval_flag cfg s"
  shows "depends cfg U = needs_relation cfg U"
proof -
  have same: "needs cfg s = deps cfg s" if "s \<in> U" for s
    using assms(2) that by (simp add: needs_def)
  have "(node_of cfg s, node_of cfg t) = (s, t)" if "s \<in> U" "t \<in> deps cfg s" for s t
  proof -
    have "t \<in> U" using deps_within [OF assms(1) that(1)] that(2) by blast
    then show ?thesis using assms(2) that(1) by (simp add: node_of_def)
  qed
  then have "depends cfg U = {(s, t) |s t. s \<in> U \<and> t \<in> deps cfg s}"
    using assms(2) unfolding depends_def by (intro Collect_cong) metis
  also have "\<dots> = needs_relation cfg U" using same by (auto simp: needs_relation_def)
  finally show ?thesis .
qed

lemma check_all_symbols:
  assumes U: "config_ok cfg U" "choices_ok cfg U" and d: "2 * card U + 1 < depth"
    and ss: "set ss \<subseteq> U" "\<forall>s \<in> U - set ss. needs cfg s = {}"
  shows "\<exists>nerrs m. check_all depth cfg no_dep_marks ss = Some (nerrs, m) \<and>
    (nerrs = 0 \<longrightarrow> acyclic (needs_relation cfg U)) \<and> (nerrs \<noteq> 0 \<longrightarrow> \<not> acyclic (depends cfg U))"
proof -
  have "finite U" using U(1) by (simp add: config_ok_def)
  then obtain rest where rest: "set rest = U - set ss" using finite_list by blast
  have "marks_wf cfg U no_dep_marks" by (simp add: marks_wf_def no_dep_marks_def)
  moreover have start: "check_flag no_dep_marks = {}" "finished no_dep_marks = {}" by (simp_all add: no_dep_marks_def finished_def)
  moreover have first: "orderly cfg no_dep_marks" unfolding orderly_def by (intro exI [of _ "[]"]) (simp add: start)
  ultimately obtain nerrs m where m: "check_all depth cfg no_dep_marks ss = Some (nerrs, m)" "marks_wf cfg U m"
    "nerrs \<noteq> 0 \<longrightarrow> \<not> acyclic (depends cfg U)" "nerrs = 0 \<longrightarrow> orderly cfg m \<and> set ss \<subseteq> finished m"
    using check_all_ok [OF U d, of no_dep_marks ss] ss(1) unfolding start(2) by blast
  have "acyclic (needs_relation cfg U)" if none: "nerrs = 0"
  proof -
    obtain order where order: "ordered cfg order" "set order = finished m" using m(4) none unfolding orderly_def by blast
    have "finished m \<subseteq> U" using m(2) by (auto simp: marks_wf_def finished_def)
    then have "set (rest @ order) = U" using order(2) rest m(4) none ss(1) by auto
    moreover have "ordered cfg (rest @ order)" using ss(2) rest order(1) by (intro ordered_append) auto
    ultimately show ?thesis by (rule ordered_acyclic [rotated])
  qed
  then show ?thesis using m by blast
qed

subsection \<open>Examples\<close>

text \<open>A named choice with one value; the value depends on a symbol that depends on the choice.\<close>

definition choice_prop :: "expr \<Rightarrow> property" where
  "choice_prop e = \<lparr>prop_type = P_CHOICE, prop_text = None, prop_visible = None, prop_expr = Some e\<rparr>"

definition choice_config :: config where
  "choice_config =
     \<lparr>type_of = (\<lambda>_. S_BOOLEAN), name_of = (\<lambda>_. None), const_flag = (\<lambda>_. False),
      choice_flag = (\<lambda>s. s = Symbol 0), choiceval_flag = (\<lambda>s. s = Symbol 1), no_write_flag = (\<lambda>_. False),
      props = (\<lambda>s. if s = Symbol 0 then [choice_prop (E_LIST [Symbol 1])]
        else if s = Symbol 1 then [choice_prop (E_SYMBOL (Symbol 0))] else []),
      dir_dep_expr = (\<lambda>s. if s = Symbol 1 then Some (E_SYMBOL (Symbol 2))
        else if s = Symbol 2 then Some (E_SYMBOL (Symbol 0)) else None),
      rev_dep_expr = (\<lambda>_. None), implied_expr = (\<lambda>_. None),
      modules_sym = Symbol 2, all_symbols = [Symbol 0, Symbol 1, Symbol 2], text_at = (\<lambda>_. [])\<rparr>"

text \<open>Two symbols that depend on each other.\<close>

definition cycle_config :: config where
  "cycle_config =
     \<lparr>type_of = (\<lambda>_. S_BOOLEAN), name_of = (\<lambda>_. None), const_flag = (\<lambda>_. False),
      choice_flag = (\<lambda>_. False), choiceval_flag = (\<lambda>_. False), no_write_flag = (\<lambda>_. False), props = (\<lambda>_. []),
      dir_dep_expr = (\<lambda>s. if s = Symbol 0 then Some (E_NOT (E_SYMBOL (Symbol 1)))
        else if s = Symbol 1 then Some (E_SYMBOL (Symbol 0)) else None),
      rev_dep_expr = (\<lambda>_. None), implied_expr = (\<lambda>_. None),
      modules_sym = Symbol 0, all_symbols = [Symbol 0, Symbol 1], text_at = (\<lambda>_. [])\<rparr>"

definition cycle_symbols :: "symbol set" where
  "cycle_symbols = {Symbol 0, Symbol 1}"

lemma cycle_config_ok: "config_ok cycle_config cycle_symbols" "choices_ok cycle_config cycle_symbols"
  by (simp_all add: config_ok_def choices_ok_def symbol_ok_def expr_within_def cycle_config_def cycle_symbols_def)

lemmas dep_check_defs = sym_check_choice_deps_def sym_check_sym_deps_def sym_exprs_def prop_exprs_def check_expr_ptr_def
  and_then_def start_check_def end_check_def no_dep_marks_def choice_values_def choice_of_def sym_get_choice_prop_def
  prop_get_symbol_def

subsection \<open>Properties\<close>



text \<open>
  With choices the check depends on the order of the symbols, which is that of their hash
  values: \<open>sym_check_choice_deps\<close> takes its mark from the choice before it checks the values. A cycle
  through a choice is found if the search enters it elsewhere and is missed if it starts with the
  choice.
\<close>

theorem order_decides:
  "map_option fst (check_all 8 choice_config no_dep_marks [Symbol 2, Symbol 0, Symbol 1]) = Some 1 \<and>
   map_option fst (check_all 8 choice_config no_dep_marks [Symbol 0, Symbol 1, Symbol 2]) = Some 0"
  by (simp add: numeral_eq_Suc choice_config_def choice_prop_def dep_check_defs)

end
