(* ===== verification/Kconfig_Dups.thy ===== *)
theory Kconfig_Dups
  imports Kconfig_Properties
begin

text \<open>
  \<open>expr_eliminate_dups\<close> of \<open>scripts/kconfig/expr.c\<close>: the operands of \<open>||\<close> or \<open>&&\<close> are joined in
  pairs until no pair can be. The code walks one tree through two pointers into it and replaces
  nodes under both. Here a pointer is the path to the node it points to, below the node the
  outermost call got; no node is shared. \<open>trans_count\<close> is passed along.
\<close>

subsection \<open>The code\<close>

text \<open>A path leads to the left for \<open>False\<close> and to the right for \<open>True\<close>.\<close>

type_synonym expr_path = "bool list"

fun node_at :: "expr \<Rightarrow> expr_path \<Rightarrow> expr option" where
  "node_at e [] = Some e"
| "node_at (E_BIN j a b) (d # p) = node_at (if d then b else a) p"
| "node_at e (d # p) = None"

fun put_at :: "expr \<Rightarrow> expr_path \<Rightarrow> expr \<Rightarrow> expr" where
  "put_at e [] x = x"
| "put_at (E_BIN j a b) (d # p) x = (if d then E_BIN j a (put_at b p x) else E_BIN j (put_at a p x) b)"
| "put_at e (d # p) x = e"

definition join_operands :: "symbols \<Rightarrow> junction \<Rightarrow> expr \<Rightarrow> expr \<Rightarrow> expr option" where
  "join_operands env type e1 e2 = (if type = JOR then expr_join_or env e1 e2 else expr_join_and env e1 e2)"

fun eliminate_dups1 :: "nat \<Rightarrow> symbols \<Rightarrow> junction \<Rightarrow> expr_path \<Rightarrow> expr_path \<Rightarrow> expr \<times> nat \<Rightarrow> (expr \<times> nat) option" where
  "eliminate_dups1 0 env type p1 p2 (e, trans_count) = None"
| "eliminate_dups1 (Suc n) env type p1 p2 (e, trans_count) = do {
     e1 \<leftarrow> node_at e p1;
     e2 \<leftarrow> node_at e p2;
     if operands type e1 \<noteq> None then do {
       st \<leftarrow> eliminate_dups1 n env type (p1 @ [False]) p2 (e, trans_count);
       eliminate_dups1 n env type (p1 @ [True]) p2 st }
     else if operands type e2 \<noteq> None then do {
       st \<leftarrow> eliminate_dups1 n env type p1 (p2 @ [False]) (e, trans_count);
       eliminate_dups1 n env type p1 (p2 @ [True]) st }
     else if p1 = p2 then Some (e, trans_count)
     else do {
       (e1, trans_count) \<leftarrow> (case top_junction e1 of
           Some j \<Rightarrow> eliminate_dups1 n env j [] [] (e1, trans_count) | None \<Rightarrow> Some (e1, trans_count));
       Some (case join_operands env type e1 e2 of
           None \<Rightarrow> (put_at e p1 e1, trans_count)
         | Some tmp \<Rightarrow> (put_at (put_at e p1 (E_SYMBOL (unit_of type))) p2 tmp, trans_count + 1)) } }"

definition dups_fuel :: "expr \<Rightarrow> nat" where
  "dups_fuel e = nodes e * nodes e + nodes e"

fun dups_loop :: "nat \<Rightarrow> symbols \<Rightarrow> expr \<Rightarrow> expr option" where
  "dups_loop 0 env e = None"
| "dups_loop (Suc n) env e = do {
     (e, trans_count) \<leftarrow> (case top_junction e of
         Some j \<Rightarrow> eliminate_dups1 (dups_fuel e) env j [] [] (e, 0) | None \<Rightarrow> Some (e, 0));
     if trans_count = 0 then Some e else dups_loop n env (expr_eliminate_yn e) }"

definition expr_eliminate_dups :: "symbols \<Rightarrow> expr option \<Rightarrow> expr option option" where
  "expr_eliminate_dups env e =
     (case e of None \<Rightarrow> Some None | Some e \<Rightarrow> map_option Some (dups_loop (nodes e) env e))"

subsection \<open>Operands\<close>

text \<open>A path through nodes of one type, and the operands such paths end at.\<close>

fun through :: "junction \<Rightarrow> expr \<Rightarrow> expr_path \<Rightarrow> bool" where
  "through type e [] \<longleftrightarrow> True"
| "through type (E_BIN j a b) (d # p) \<longleftrightarrow> j = type \<and> through type (if d then b else a) p"
| "through type e (d # p) \<longleftrightarrow> False"

definition operand_at :: "junction \<Rightarrow> expr \<Rightarrow> expr_path \<Rightarrow> expr \<Rightarrow> bool" where
  "operand_at type e p x \<longleftrightarrow> through type e p \<and> node_at e p = Some x \<and> operands type x = None"

lemma operands_None: "operands type e = None \<longleftrightarrow> (\<forall>a b. e \<noteq> E_BIN type a b)"
  by (auto simp: operands_def split: expr.splits)

lemma operand_at_Nil: "operand_at type e [] x \<longleftrightarrow> e = x \<and> operands type x = None"
  by (auto simp: operand_at_def)

lemma operand_at_Cons:
  "operand_at type (E_BIN j a b) (d # p) x \<longleftrightarrow> j = type \<and> operand_at type (if d then b else a) p x"
  by (auto simp: operand_at_def)

lemma operand_at_leaf: "operand_at type e (d # p) x \<Longrightarrow> \<exists>a b. e = E_BIN type a b"
  by (cases e) (auto simp: operand_at_def)

lemma through_node: "through type e p \<Longrightarrow> \<exists>x. node_at e p = Some x"
  by (induction type e p rule: through.induct) auto

lemma through_append:
  "through type e (p @ q) \<longleftrightarrow> through type e p \<and> (\<forall>x. node_at e p = Some x \<longrightarrow> through type x q)"
  by (induction type e p rule: through.induct) auto

lemma node_at_append: "node_at e (p @ q) = do { x \<leftarrow> node_at e p; node_at x q }"
  by (induction e p rule: node_at.induct) auto

lemma through_children:
  assumes "through type e p" and "node_at e p = Some x" and "operands type x \<noteq> None"
  shows "through type e (p @ [d])"
  using assms by (auto simp: through_append operands_Some)

text \<open>The length of a path is less than the number of nodes.\<close>

lemma path_short: "node_at e p = Some x \<Longrightarrow> length p + nodes x \<le> nodes e"
  by (induction e p rule: node_at.induct) (auto split: if_splits)

lemma put_same: "node_at e p = Some x \<Longrightarrow> put_at e p x = e"
  by (induction e p rule: node_at.induct) auto

lemma put_nodes: "node_at e p = Some x \<Longrightarrow> nodes (put_at e p y) + nodes x = nodes e + nodes y"
  by (induction e p rule: node_at.induct) auto

lemma put_through:
  "operand_at type e p x \<Longrightarrow> operands type y = None \<Longrightarrow> through type (put_at e p y) q \<longleftrightarrow> through type e q"
proof (induction e p arbitrary: q rule: node_at.induct)
  case (1 e)
  have "through type z q \<longleftrightarrow> q = []" if "operands type z = None" for z
    using that by (cases z; cases q) (auto simp: operands_None)
  then show ?case using 1 by (simp add: operand_at_Nil)
next
  case (2 j a b d p)
  then show ?case by (cases q) (auto simp: operand_at_Cons)
qed (auto simp: operand_at_def)

lemma put_twice: "node_at e p = Some x \<Longrightarrow> put_at (put_at e p y) p z = put_at e p z"
  by (induction e p rule: node_at.induct) auto

lemma put_node: "node_at e p = Some x \<Longrightarrow> node_at (put_at e p y) p = Some y"
  by (induction e p rule: node_at.induct) auto

lemma put_operand: "operand_at type e p x \<Longrightarrow> operands type y = None \<Longrightarrow> operand_at type (put_at e p y) p y"
  using put_through [of type e p x y p] put_node [of e p x y] by (simp add: operand_at_def)

lemma put_other:
  "operand_at type e p x \<Longrightarrow> operand_at type e q z \<Longrightarrow> p \<noteq> q \<Longrightarrow> operand_at type (put_at e p y) q z"
proof (induction e p arbitrary: q rule: node_at.induct)
  case (1 e)
  then show ?case by (cases q) (auto simp: operand_at_Nil operands_None dest: operand_at_leaf)
next
  case (2 j a b d p)
  then show ?case by (cases q) (auto simp: operand_at_Cons operand_at_Nil operands_None)
qed (auto simp: operand_at_def)

text \<open>A constant that is neutral below a node of its type; \<open>expr_eliminate_yn\<close> takes it away.\<close>

fun reducible :: "expr \<Rightarrow> bool" where
  "reducible (E_BIN j a b) \<longleftrightarrow> a = E_SYMBOL (unit_of j) \<or> b = E_SYMBOL (unit_of j) \<or> reducible a \<or> reducible b"
| "reducible e \<longleftrightarrow> False"

lemma reducible_at: "node_at e p = Some x \<Longrightarrow> reducible x \<Longrightarrow> reducible e"
  by (induction e p rule: node_at.induct) (auto split: if_splits)

lemma unit_reducible:
  "operand_at type e p (E_SYMBOL (unit_of type)) \<Longrightarrow> p \<noteq> [] \<Longrightarrow> reducible e"
proof (induction e p rule: node_at.induct)
  case (2 j a b d p)
  then show ?case by (cases p) (auto simp: operand_at_Cons operand_at_Nil split: if_splits)
qed (auto simp: operand_at_def)

lemma reducible_shrinks: "reducible e \<Longrightarrow> nodes (expr_eliminate_yn e) < nodes e"
proof (induction e)
  case (E_BIN j a b)
  have le: "nodes (expr_eliminate_yn a) \<le> nodes a" "nodes (expr_eliminate_yn b) \<le> nodes b"
    by (rule nodes_eliminate_yn)+
  have unit: "expr_eliminate_yn (E_SYMBOL s) = E_SYMBOL s" for s by simp
  consider "a = E_SYMBOL (unit_of j)" | "b = E_SYMBOL (unit_of j)" | "reducible a" | "reducible b"
    using E_BIN.prems by auto
  then show ?case
  proof cases
    case 1
    then show ?thesis using le unfolding eliminate_yn_bin by (simp add: Let_def)
  next
    case 2
    then show ?thesis using le nodes_pos [of a] unfolding eliminate_yn_bin by (simp add: Let_def del: nodes_pos)
  next
    case 3
    then show ?thesis using E_BIN.IH(1) le unfolding eliminate_yn_bin by (simp add: Let_def)
  next
    case 4
    then show ?thesis using E_BIN.IH(2) le unfolding eliminate_yn_bin by (simp add: Let_def)
  qed
qed simp_all

subsection \<open>Values\<close>

definition junction_value :: "junction \<Rightarrow> tristate \<Rightarrow> tristate \<Rightarrow> tristate" where
  "junction_value j a b = (if j = JAND then min a b else max a b)"

lemma junction_ac:
  "junction_value j a b = junction_value j b a"
  "junction_value j (junction_value j a b) c = junction_value j a (junction_value j b c)"
  "junction_value j a (junction_value j b c) = junction_value j b (junction_value j a c)"
  by (simp_all add: junction_value_def ac_simps)

lemma calc_junction:
  "expr_calc_value env (E_BIN j a b) = junction_value j (expr_calc_value env a) (expr_calc_value env b)"
  by (simp add: calc_bin junction_value_def)

lemma unit_value: "env_ok env \<Longrightarrow> junction_value j (expr_calc_value env (E_SYMBOL (unit_of j))) v = v"
  by (simp add: junction_value_def unit_of_def)

text \<open>An operand is joined with the rest.\<close>

lemma operand_value:
  assumes env: "env_ok env"
  shows "operand_at type e p x \<Longrightarrow> expr_calc_value env e =
    junction_value type (expr_calc_value env x) (expr_calc_value env (put_at e p (E_SYMBOL (unit_of type))))"
proof (induction e p rule: node_at.induct)
  case (1 e)
  then show ?case using unit_value [OF env, of type "expr_calc_value env e"] junction_ac(1) by (simp add: operand_at_Nil)
next
  case (2 j a b d p)
  then show ?case by (auto simp: operand_at_Cons calc_junction junction_ac split: if_splits simp del: expr_calc_value.simps)
qed (auto simp: operand_at_def)

lemma put_value:
  assumes "env_ok env" and "operand_at type e p x" and "operands type y = None"
    and "expr_calc_value env y = expr_calc_value env x"
  shows "expr_calc_value env (put_at e p y) = expr_calc_value env e"
proof -
  have twice: "put_at (put_at e p y) p z = put_at e p z" for z
    using assms(2) put_twice by (simp add: operand_at_def)
  show ?thesis
    using operand_value [OF assms(1) put_operand [OF assms(2,3)]] operand_value [OF assms(1,2)] assms(4) twice by simp
qed

definition small :: "expr \<Rightarrow> bool" where
  "small e \<longleftrightarrow> (case e of E_COMP r s1 s2 \<Rightarrow> True | E_SYMBOL s \<Rightarrow> True | _ \<Rightarrow> False)"

lemma small_simps [simp]: "small (expr_alloc_comp r s1 s2)" "small (expr_alloc_symbol s)"
  by (simp_all add: small_def expr_alloc_comp_def expr_alloc_symbol_def)

lemma small_operand: "small e \<Longrightarrow> operands type e = None \<and> nodes e = 1"
  by (cases e) (simp_all add: small_def operands_def)

lemma join_constants_small: "join_constants env s eq ne = Some x \<Longrightarrow> small x"
  by (auto simp: join_constants_def split: option.splits if_splits)

lemma join_or_shape: "expr_join_or env e1 e2 = Some x \<Longrightarrow> x = e1 \<or> small x"
  using expr_copy_Some [of e1 x] by (auto simp: expr_join_or_def Let_def split: option.splits if_splits)

lemma join_and_shape: "expr_join_and env e1 e2 = Some x \<Longrightarrow> x = e1 \<or> small x"
  using expr_copy_Some [of e1 x]
  by (auto simp: expr_join_and_def Let_def split: option.splits if_splits dest: join_constants_small)

lemma join_shape: "join_operands env type e1 e2 = Some x \<Longrightarrow> x = e1 \<or> small x"
  using join_or_shape join_and_shape by (auto simp: join_operands_def split: if_splits)

lemma join_value:
  "env_ok env \<Longrightarrow> letters_only env \<Longrightarrow> join_operands env type e1 e2 = Some x \<Longrightarrow>
    expr_calc_value env x = junction_value type (expr_calc_value env e1) (expr_calc_value env e2)"
  using join_or_calc join_and_calc by (cases type) (simp_all add: join_operands_def junction_value_def)

lemma joined_value:
  assumes env: "env_ok env" "letters_only env" and p: "operand_at type e p1 e1" "operand_at type e p2 e2" "p1 \<noteq> p2"
    and join: "join_operands env type e1 e2 = Some x" and x: "operands type x = None"
  shows "expr_calc_value env (put_at (put_at e p1 (E_SYMBOL (unit_of type))) p2 x) = expr_calc_value env e"
proof -
  let ?unit = "E_SYMBOL (unit_of type)" and ?v = "expr_calc_value env"
  define e' where "e' = put_at e p1 ?unit"
  have p2: "operand_at type e' p2 e2" unfolding e'_def by (rule put_other [OF p])
  have new: "operand_at type (put_at e' p2 x) p2 x" by (rule put_operand [OF p2 x])
  have twice: "put_at (put_at e' p2 x) p2 ?unit = put_at e' p2 ?unit"
    using p2 put_twice by (simp add: operand_at_def)
  have "?v (put_at e' p2 x) = junction_value type (junction_value type (?v e1) (?v e2)) (?v (put_at e' p2 ?unit))"
    using operand_value [OF env(1) new] join_value [OF env join] twice by simp
  also have "\<dots> = junction_value type (?v e1) (?v e')"
    using operand_value [OF env(1) p2] by (simp only: junction_ac(2))
  also have "\<dots> = ?v e" using operand_value [OF env(1) p(1)] by (simp add: e'_def)
  finally show ?thesis unfolding e'_def .
qed

subsection \<open>A pass\<close>

text \<open>No two operands of any junction can be joined.\<close>

definition joined_out :: "symbols \<Rightarrow> expr \<Rightarrow> bool" where
  "joined_out env e \<longleftrightarrow> (\<forall>p j a b q1 q2 x1 x2. node_at e p = Some (E_BIN j a b) \<and>
     operand_at j (E_BIN j a b) q1 x1 \<and> operand_at j (E_BIN j a b) q2 x2 \<and> q1 \<noteq> q2 \<longrightarrow> join_operands env j x1 x2 = None)"

definition pairs_done :: "symbols \<Rightarrow> junction \<Rightarrow> expr \<Rightarrow> expr_path \<Rightarrow> expr_path \<Rightarrow> bool" where
  "pairs_done env type e p1 p2 \<longleftrightarrow> (\<forall>q1 q2 x1 x2. operand_at type e (p1 @ q1) x1 \<and> operand_at type e (p2 @ q2) x2 \<and>
     p1 @ q1 \<noteq> p2 @ q2 \<longrightarrow> join_operands env type x1 x2 = None \<and> joined_out env x1)"

definition pass_ok :: "symbols \<Rightarrow> junction \<Rightarrow> expr_path \<Rightarrow> expr_path \<Rightarrow> expr \<times> nat \<Rightarrow> expr \<times> nat \<Rightarrow> bool" where
  "pass_ok env type p1 p2 st st' \<longleftrightarrow>
     nodes (fst st') \<le> nodes (fst st) \<and> snd st \<le> snd st' \<and> (\<forall>q. through type (fst st') q \<longleftrightarrow> through type (fst st) q) \<and>
     (snd st' = snd st \<longrightarrow> fst st' = fst st \<and> pairs_done env type (fst st) p1 p2) \<and>
     (snd st < snd st' \<longrightarrow> reducible (fst st')) \<and>
     (env_ok env \<and> letters_only env \<longrightarrow> expr_calc_value env (fst st') = expr_calc_value env (fst st))"

lemma pass_ok_then:
  assumes "pass_ok env type p1 p2 st st1" and "pass_ok env type q1 q2 st1 st2"
    and "pairs_done env type (fst st) p1 p2 \<Longrightarrow> pairs_done env type (fst st) q1 q2 \<Longrightarrow> pairs_done env type (fst st) r1 r2"
  shows "pass_ok env type r1 r2 st st2"
proof (cases "snd st2 = snd st")
  case True
  then show ?thesis using assms by (auto simp: pass_ok_def)
next
  case False
  then show ?thesis using assms(1,2) by (cases "snd st2 = snd st1") (auto simp: pass_ok_def)
qed

lemma pairs_done_left:
  assumes "node_at e p1 = Some x" and "operands type x \<noteq> None"
    and "pairs_done env type e (p1 @ [False]) p2" and "pairs_done env type e (p1 @ [True]) p2"
  shows "pairs_done env type e p1 p2"
  unfolding pairs_done_def
proof (intro allI impI, elim conjE)
  fix q1 q2 x1 x2
  assume q: "operand_at type e (p1 @ q1) x1" "operand_at type e (p2 @ q2) x2" "p1 @ q1 \<noteq> p2 @ q2"
  then obtain d r where "q1 = d # r" using assms(1,2) by (cases q1) (auto simp: operand_at_def)
  then show "join_operands env type x1 x2 = None \<and> joined_out env x1"
    using assms(3,4) q unfolding pairs_done_def by (cases d) (metis append.assoc append_Cons append_Nil)+
qed

lemma pairs_done_right:
  assumes "node_at e p2 = Some x" and "operands type x \<noteq> None"
    and "pairs_done env type e p1 (p2 @ [False])" and "pairs_done env type e p1 (p2 @ [True])"
  shows "pairs_done env type e p1 p2"
  unfolding pairs_done_def
proof (intro allI impI, elim conjE)
  fix q1 q2 x1 x2
  assume q: "operand_at type e (p1 @ q1) x1" "operand_at type e (p2 @ q2) x2" "p1 @ q1 \<noteq> p2 @ q2"
  then obtain d r where "q2 = d # r" using assms(1,2) by (cases q2) (auto simp: operand_at_def)
  then show "join_operands env type x1 x2 = None \<and> joined_out env x1"
    using assms(3,4) q unfolding pairs_done_def by (cases d) (metis append.assoc append_Cons append_Nil)+
qed

text \<open>Two operands.\<close>

lemma operand_end: "operand_at type e p x \<Longrightarrow> operand_at type e (p @ q) y \<Longrightarrow> q = [] \<and> y = x"
  by (cases q; cases x) (auto simp: operand_at_def through_append node_at_append operands_def)

lemma pairs_done_operands:
  assumes "operand_at type e p1 e1" and "operand_at type e p2 e2"
    and "p1 \<noteq> p2 \<Longrightarrow> join_operands env type e1 e2 = None \<and> joined_out env e1"
  shows "pairs_done env type e p1 p2"
  using assms operand_end unfolding pairs_done_def by (metis append_Nil2)

lemma pass_pair:
  assumes p: "operand_at type e p1 e1" "operand_at type e p2 e2" "p1 \<noteq> p2"
    and e1': "nodes e1' \<le> nodes e1" "c \<le> c1" "c1 = c \<Longrightarrow> e1' = e1 \<and> joined_out env e1" "c < c1 \<Longrightarrow> reducible e1'"
      "operands type e1' = None" "env_ok env \<and> letters_only env \<Longrightarrow> expr_calc_value env e1' = expr_calc_value env e1"
  shows "pass_ok env type p1 p2 (e, c) (case join_operands env type e1' e2 of
      None \<Rightarrow> (put_at e p1 e1', c1)
    | Some tmp \<Rightarrow> (put_at (put_at e p1 (E_SYMBOL (unit_of type))) p2 tmp, c1 + 1))"
proof (cases "join_operands env type e1' e2")
  case None
  have n: "node_at e p1 = Some e1" using p(1) by (simp add: operand_at_def)
  have "nodes (put_at e p1 e1') \<le> nodes e" using put_nodes [OF n, of e1'] e1'(1) by simp
  moreover have "c1 = c \<Longrightarrow> put_at e p1 e1' = e \<and> pairs_done env type e p1 p2"
    using e1'(3) put_same [OF n] pairs_done_operands [OF p(1,2)] None by simp
  moreover have "c < c1 \<Longrightarrow> reducible (put_at e p1 e1')"
    using reducible_at [OF put_node [OF n]] e1'(4) by simp
  ultimately show ?thesis
    using None e1'(2) put_through [OF p(1) e1'(5)] put_value [OF _ p(1) e1'(5)] e1'(6) by (auto simp: pass_ok_def)
next
  case (Some tmp)
  let ?unit = "E_SYMBOL (unit_of type)"
  have unit: "operands type ?unit = None" by (simp add: operands_def)
  have tmp: "operands type tmp = None" "nodes tmp + 1 \<le> nodes e1' + nodes e2"
    using join_shape [OF Some] e1'(5) nodes_pos [of e1'] nodes_pos [of e2]
    by (auto simp: Suc_le_eq dest: small_operand simp del: nodes_pos)
  have p2: "operand_at type (put_at e p1 ?unit) p2 e2" by (rule put_other [OF p])
  have n: "node_at e p1 = Some e1" "node_at (put_at e p1 ?unit) p2 = Some e2" using p(1) p2 by (simp_all add: operand_at_def)
  define e' where "e' = put_at (put_at e p1 ?unit) p2 tmp"
  have "nodes e' \<le> nodes e" using put_nodes [OF n(1), of ?unit] put_nodes [OF n(2), of tmp] tmp(2) e1'(1) unfolding e'_def by simp
  moreover have "reducible e'"
  proof (rule unit_reducible)
    show "operand_at type e' p1 ?unit" unfolding e'_def by (rule put_other [OF p2 put_operand [OF p(1) unit]]) (use p(3) in simp)
    show "p1 \<noteq> []"
    proof
      assume "p1 = []"
      then show False using operand_end [of type e "[]" e1 p2 e2] p by simp
    qed
  qed
  moreover have "through type e' q \<longleftrightarrow> through type e q" for q
    unfolding e'_def using put_through [OF p2 tmp(1)] put_through [OF p(1) unit] by simp
  moreover have "expr_calc_value env e' = expr_calc_value env e" if env: "env_ok env" "letters_only env"
  proof -
    define f where "f = put_at e p1 e1'"
    have f: "operand_at type f p1 e1'" "operand_at type f p2 e2" unfolding f_def
      by (rule put_operand [OF p(1) e1'(5)], rule put_other [OF p])
    have "put_at f p1 ?unit = put_at e p1 ?unit" unfolding f_def by (rule put_twice [OF n(1)])
    then have "expr_calc_value env e' = expr_calc_value env f"
      using joined_value [OF env f p(3) Some tmp(1)] by (simp add: e'_def)
    also have "\<dots> = expr_calc_value env e" unfolding f_def using put_value [OF env(1) p(1) e1'(5)] e1'(6) env by simp
    finally show ?thesis .
  qed
  ultimately show ?thesis using Some e1'(2) by (simp add: pass_ok_def e'_def)
qed

text \<open>If all operands of a node are done then so is the node.\<close>

lemma some_operand: "\<exists>q x. operand_at type e q x"
proof (induction e)
  case (E_BIN j a b)
  show ?case
  proof (cases "j = type")
    case True
    obtain q x where "operand_at type a q x" using E_BIN.IH(1) by blast
    then have "operand_at type (E_BIN j a b) (False # q) x" using True by (simp add: operand_at_Cons)
    then show ?thesis by blast
  next
    case False
    then have "operand_at type (E_BIN j a b) [] (E_BIN j a b)" by (simp add: operand_at_Nil operands_None)
    then show ?thesis by blast
  qed
qed (auto simp: operands_None intro!: exI [of _ "[]"] simp: operand_at_Nil)

lemma path_operand:
  "node_at e p = Some y \<Longrightarrow> through type e p \<or> (\<exists>r s x. p = r @ s \<and> operand_at type e r x)"
proof (induction e p rule: node_at.induct)
  case (2 j a b d p)
  show ?case
  proof (cases "j = type")
    case True
    have "through type (if d then b else a) p \<or> (\<exists>r s x. p = r @ s \<and> operand_at type (if d then b else a) r x)"
      using 2 by simp
    then show ?thesis
    proof (elim disjE exE conjE)
      fix r s x assume "p = r @ s" "operand_at type (if d then b else a) r x"
      then have "d # p = (d # r) @ s \<and> operand_at type (E_BIN j a b) (d # r) x" using True by (simp add: operand_at_Cons)
      then show ?thesis by blast
    qed (use True in simp)
  next
    case False
    then have "d # p = [] @ (d # p) \<and> operand_at type (E_BIN j a b) [] (E_BIN j a b)"
      by (simp add: operand_at_Nil operands_None)
    then show ?thesis by blast
  qed
qed auto

lemma pairs_done_node:
  assumes e: "e = E_BIN j a b" and all: "pairs_done env j e [] []"
  shows "joined_out env e"
proof -
  have pairs: "join_operands env j x1 x2 = None \<and> joined_out env x1"
    if "operand_at j e q1 x1" "operand_at j e q2 x2" "q1 \<noteq> q2" for q1 q2 x1 x2
    using all that unfolding pairs_done_def by (metis append_Nil)
  have another: "\<exists>q2 x2. operand_at j e q2 x2 \<and> q2 \<noteq> q1" if q1: "operand_at j e q1 x1" for q1 x1
  proof -
    have "q1 \<noteq> []" using q1 e by (auto simp: operand_at_Nil operands_None)
    then obtain d r where d: "q1 = d # r" by (cases q1) auto
    obtain q x where "operand_at j (if d then a else b) q x" using some_operand by blast
    then have "operand_at j e ((\<not> d) # q) x" using e by (cases d) (simp_all add: operand_at_Cons)
    then show ?thesis using d by blast
  qed
  have "join_operands env i x1 x2 = None"
    if p: "node_at e p = Some (E_BIN i c d)" and q: "operand_at i (E_BIN i c d) q1 x1" "operand_at i (E_BIN i c d) q2 x2" "q1 \<noteq> q2"
    for p i c d q1 q2 x1 x2
  proof (cases "through j e p \<and> i = j")
    case True
    then have "operand_at j e (p @ q1) x1" "operand_at j e (p @ q2) x2"
      using p q by (auto simp: operand_at_def through_append node_at_append)
    then show ?thesis using pairs True q(3) by simp
  next
    case False
    obtain r s x where x: "p = r @ s" "operand_at j e r x"
    proof (cases "through j e p")
      case True
      then have "operand_at j e p (E_BIN i c d)" using p False by (simp add: operand_at_def operands_None)
      then show ?thesis using that [of p "[]"] by simp
    next
      case False2: False
      then show ?thesis using path_operand [OF p, of j] that by blast
    qed
    then have "joined_out env x" using pairs another by blast
    moreover have "node_at x s = Some (E_BIN i c d)" using p x by (auto simp: operand_at_def node_at_append)
    ultimately show ?thesis using q unfolding joined_out_def by blast
  qed
  then show ?thesis unfolding joined_out_def by blast
qed

lemma joined_out_leaf:
  assumes "top_junction e = None"
  shows "joined_out env e"
proof -
  have "node_at e p \<noteq> Some (E_BIN j a b)" for p j a b
    using assms by (cases p; cases e) (auto simp: top_junction_def)
  then show ?thesis by (simp add: joined_out_def)
qed

lemma inner_pass:
  assumes leaf: "operands type e1 = None"
    and run: "\<And>j. \<exists>st'. eliminate_dups1 n env j [] [] (e1, c) = Some st' \<and> pass_ok env j [] [] (e1, c) st'"
  shows "\<exists>e1' c1. (case top_junction e1 of
        Some j \<Rightarrow> eliminate_dups1 n env j [] [] (e1, c) | None \<Rightarrow> Some (e1, c)) = Some (e1', c1) \<and>
      nodes e1' \<le> nodes e1 \<and> c \<le> c1 \<and> (c1 = c \<longrightarrow> e1' = e1 \<and> joined_out env e1) \<and> (c < c1 \<longrightarrow> reducible e1') \<and>
      operands type e1' = None \<and>
      (env_ok env \<and> letters_only env \<longrightarrow> expr_calc_value env e1' = expr_calc_value env e1)"
proof (cases "top_junction e1")
  case None
  then have "joined_out env e1" by (rule joined_out_leaf)
  then show ?thesis using None leaf by simp
next
  case (Some j)
  then obtain a b where e1: "e1 = E_BIN j a b" by (auto simp: top_junction_Some)
  then have j: "j \<noteq> type" using leaf by (simp add: operands_None)
  obtain e1' c1 where st: "eliminate_dups1 n env j [] [] (e1, c) = Some (e1', c1)" "pass_ok env j [] [] (e1, c) (e1', c1)"
    using run [of j] by auto
  have "through j e1' [False]" using st(2) e1 by (simp add: pass_ok_def)
  then have "operands type e1' = None" using j by (cases e1') (simp_all add: operands_None)
  then show ?thesis using st(2) Some st(1) pairs_done_node [OF e1] by (simp add: pass_ok_def)
qed

text \<open>The fuel.\<close>

lemma pass_returns:
  "through type e p1 \<Longrightarrow> through type e p2 \<Longrightarrow> nodes e \<le> k \<Longrightarrow> k * k + k \<le> n + length p1 + length p2 \<Longrightarrow>
    \<exists>st'. eliminate_dups1 n env type p1 p2 (e, c) = Some st' \<and> pass_ok env type p1 p2 (e, c) st'"
proof (induction n arbitrary: k type p1 p2 e c)
  case 0
  obtain x1 x2 where "node_at e p1 = Some x1" "node_at e p2 = Some x2" using through_node 0(1,2) by blast
  then have "length p1 < k" "length p2 < k" using path_short 0(3) nodes_pos by (metis add_less_cancel_left add.right_neutral less_le_trans)+
  moreover have "k \<le> k * k" by (cases k) auto
  ultimately show ?case using 0(4) by simp
next
  case (Suc n)
  obtain e1 e2 where n: "node_at e p1 = Some e1" "node_at e p2 = Some e2" using through_node Suc.prems(1,2) by blast
  show ?case
  proof (cases "operands type e1 = None")
    case typed: False
    have 1: "through type e (p1 @ [d])" for d by (rule through_children [OF Suc.prems(1) n(1) typed])
    obtain e' c' where st: "eliminate_dups1 n env type (p1 @ [False]) p2 (e, c) = Some (e', c')"
        "pass_ok env type (p1 @ [False]) p2 (e, c) (e', c')"
      using Suc.IH [OF 1 Suc.prems(2,3), of False c] Suc.prems(4) by auto
    then have "through type e' (p1 @ [True])" "through type e' p2" "nodes e' \<le> k"
      using 1 Suc.prems(2,3) by (simp_all add: pass_ok_def)
    then obtain st' where st': "eliminate_dups1 n env type (p1 @ [True]) p2 (e', c') = Some st'"
        "pass_ok env type (p1 @ [True]) p2 (e', c') st'"
      using Suc.IH [of type e' "p1 @ [True]" p2 k c'] Suc.prems(4) by auto
    have "pass_ok env type p1 p2 (e, c) st'"
      by (rule pass_ok_then [OF st(2) st'(2)]) (use pairs_done_left [OF n(1) typed] in simp)
    then show ?thesis using n st(1) st'(1) typed by auto
  next
    case leaf1: True
    show ?thesis
    proof (cases "operands type e2 = None")
      case typed: False
      have 1: "through type e (p2 @ [d])" for d by (rule through_children [OF Suc.prems(2) n(2) typed])
      obtain e' c' where st: "eliminate_dups1 n env type p1 (p2 @ [False]) (e, c) = Some (e', c')"
          "pass_ok env type p1 (p2 @ [False]) (e, c) (e', c')"
        using Suc.IH [OF Suc.prems(1) 1 Suc.prems(3), of False c] Suc.prems(4) by auto
      then have "through type e' p1" "through type e' (p2 @ [True])" "nodes e' \<le> k"
        using 1 Suc.prems(1,3) by (simp_all add: pass_ok_def)
      then obtain st' where st': "eliminate_dups1 n env type p1 (p2 @ [True]) (e', c') = Some st'"
          "pass_ok env type p1 (p2 @ [True]) (e', c') st'"
        using Suc.IH [of type e' p1 "p2 @ [True]" k c'] Suc.prems(4) by auto
      have "pass_ok env type p1 p2 (e, c) st'"
        by (rule pass_ok_then [OF st(2) st'(2)]) (use pairs_done_right [OF n(2) typed] in simp)
      then show ?thesis using n st(1) st'(1) leaf1 typed by auto
    next
      case leaf2: True
      have p: "operand_at type e p1 e1" "operand_at type e p2 e2" using Suc.prems(1,2) n leaf1 leaf2 by (simp_all add: operand_at_def)
      show ?thesis
      proof (cases "p1 = p2")
        case True
        then have "pass_ok env type p1 p2 (e, c) (e, c)" using pairs_done_operands [OF p] by (simp add: pass_ok_def)
        then show ?thesis using n leaf1 leaf2 True by simp
      next
        case False
        have "p1 \<noteq> []" using operand_end [of type e "[]" e1 p2 e2] p False by auto
        then have small: "nodes e1 \<le> k - 1" using path_short [OF n(1)] Suc.prems(3) by (cases p1) auto
        have short: "length p1 < k" "length p2 < k"
          using path_short [OF n(1)] path_short [OF n(2)] Suc.prems(3) nodes_pos [of e1] nodes_pos [of e2]
          by (simp_all del: nodes_pos)
        then obtain i where k: "k = Suc i" by (cases k) auto
        have run: "\<exists>st'. eliminate_dups1 n env j [] [] (e1, c) = Some st' \<and> pass_ok env j [] [] (e1, c) st'" for j
          using Suc.IH [of j e1 "[]" "[]" i c] small Suc.prems(4) short by (simp add: k)
        obtain e1' c1 where e1': "(case top_junction e1 of
              Some j \<Rightarrow> eliminate_dups1 n env j [] [] (e1, c) | None \<Rightarrow> Some (e1, c)) = Some (e1', c1)"
            "nodes e1' \<le> nodes e1" "c \<le> c1" "c1 = c \<Longrightarrow> e1' = e1 \<and> joined_out env e1" "c < c1 \<Longrightarrow> reducible e1'"
            "operands type e1' = None" "env_ok env \<and> letters_only env \<Longrightarrow> expr_calc_value env e1' = expr_calc_value env e1"
          using inner_pass [OF leaf1 run] by blast
        show ?thesis
          using pass_pair [OF p False e1'(2-7)] n leaf1 leaf2 False e1'(1) by simp
      qed
    qed
  qed
qed


lemma dups1_returns:
  "\<exists>e' c. eliminate_dups1 (dups_fuel e) env j [] [] (e, 0) = Some (e', c) \<and> pass_ok env j [] [] (e, 0) (e', c)"
  using pass_returns [of j e "[]" "[]" "nodes e" "dups_fuel e" env 0] by (auto simp: dups_fuel_def)

subsection \<open>All passes\<close>

lemma loop_returns:
  "nodes e \<le> n \<Longrightarrow> \<exists>e'. dups_loop n env e = Some e' \<and> nodes e' \<le> nodes e \<and> joined_out env e' \<and>
    (env_ok env \<and> letters_only env \<longrightarrow> expr_calc_value env e' = expr_calc_value env e)"
proof (induction n arbitrary: e)
  case 0
  then show ?case using nodes_pos [of e] by simp
next
  case (Suc n)
  show ?case
  proof (cases "top_junction e")
    case None
    then show ?thesis using joined_out_leaf by simp
  next
    case (Some j)
    then obtain a b where e: "e = E_BIN j a b" by (auto simp: top_junction_Some)
    obtain e1 c where st: "eliminate_dups1 (dups_fuel e) env j [] [] (e, 0) = Some (e1, c)" "pass_ok env j [] [] (e, 0) (e1, c)"
      using dups1_returns by blast
    show ?thesis
    proof (cases "c = 0")
      case True
      then show ?thesis using st Some pairs_done_node [OF e] by (simp add: pass_ok_def)
    next
      case False
      then have "nodes (expr_eliminate_yn e1) < nodes e1" using st(2) reducible_shrinks by (simp add: pass_ok_def)
      then have less: "nodes (expr_eliminate_yn e1) < nodes e" using st(2) by (simp add: pass_ok_def)
      then obtain e' where e': "dups_loop n env (expr_eliminate_yn e1) = Some e'" "nodes e' \<le> nodes (expr_eliminate_yn e1)"
          "joined_out env e'" "env_ok env \<and> letters_only env \<longrightarrow> expr_calc_value env e' = expr_calc_value env (expr_eliminate_yn e1)"
        using Suc.IH [of "expr_eliminate_yn e1"] Suc.prems by auto
      moreover have "env_ok env \<and> letters_only env \<longrightarrow> expr_calc_value env (expr_eliminate_yn e1) = expr_calc_value env e"
        using st(2) eliminate_yn_calc [of env e1] by (simp add: pass_ok_def)
      ultimately show ?thesis using st(1) Some False less by simp
    qed
  qed
qed

subsection \<open>Properties\<close>


text \<open>\<open>(b || a=y) || (b || a=m)\<close> becomes \<open>b || a!=n\<close>.\<close>

definition demo_dups :: expr where
  "demo_dups = E_OR (E_OR (E_SYMBOL (Symbol 3)) (E_COMP E_EQUAL (Symbol 2) symbol_yes))
     (E_OR (E_SYMBOL (Symbol 3)) (E_COMP E_EQUAL (Symbol 2) symbol_mod))"

definition demo_joined :: expr where
  "demo_joined = E_OR (E_SYMBOL (Symbol 3)) (E_COMP E_UNEQUAL (Symbol 2) symbol_no)"


end
