(* ===== verification/Kconfig_Gstr.thy ===== *)
theory Kconfig_Gstr
  imports Kconfig_Properties
begin

text \<open>
  Growable strings (\<open>scripts/kconfig/util.c\<close>) and the printing of expressions to them and to
  files (\<open>scripts/kconfig/expr.c\<close>), with the wrapping of long lines. The buffer of a growable
  string is always made large enough; \<open>len\<close> is left out.
\<close>

subsection \<open>The code\<close>

record gstr =
  gs_text :: string
  max_width :: int

definition str_new :: gstr where
  "str_new = \<lparr>gs_text = [], max_width = 0\<rparr>"

definition str_append :: "gstr \<Rightarrow> string option \<Rightarrow> gstr" where
  "str_append gs s = (case s of None \<Rightarrow> gs | Some s \<Rightarrow> gs\<lparr>gs_text := gs_text gs @ s\<rparr>)"

text \<open>The formatted text is cut to 9999 characters.\<close>

definition str_printf :: "gstr \<Rightarrow> string \<Rightarrow> gstr" where
  "str_printf gs s = str_append gs (Some (take 9999 s))"

definition LF :: char where
  "LF = CHR 0x0A"

text \<open>From the last newline, which is counted, to the end.\<close>

definition last_line_length :: "string \<Rightarrow> nat" where
  "last_line_length s = (if LF \<in> set s then length (takeWhile (\<lambda>c. c \<noteq> LF) (rev s)) + 1 else length s)"

definition line_break :: string where
  "line_break = [CHR 0x5C, LF]"

text \<open>The comparison is one of unsigned integers. \<^term>\<open>None\<close> is the length of a null pointer.\<close>

definition wrap_line :: "gstr \<Rightarrow> string option \<Rightarrow> string option \<Rightarrow> gstr option" where
  "wrap_line gs sym_str str = do {
     str \<leftarrow> str;
     let extra_length = length str + (case sym_str of Some v \<Rightarrow> 4 + length v | None \<Rightarrow> 0);
     Some (if int (last_line_length (gs_text gs) + extra_length) > uint (word_of_int (max_width gs) :: 32 word)
           then str_append gs (Some line_break) else gs) }"

definition expr_print_gstr_helper :: "symbols \<Rightarrow> gstr \<Rightarrow> piece \<Rightarrow> gstr option" where
  "expr_print_gstr_helper env gs piece = (case piece of (s, str) \<Rightarrow> do {
     gs \<leftarrow> (if max_width gs \<noteq> 0 then wrap_line gs (map_option (sym_get_string_value env) s) str else Some gs);
     let gs = str_append gs str;
     Some (case s of
         None \<Rightarrow> gs
       | Some s \<Rightarrow> if sym_type env s \<noteq> S_UNKNOWN then str_printf gs ('' [='' @ sym_get_string_value env s @ '']'') else gs) })"

fun print_pieces :: "symbols \<Rightarrow> gstr \<Rightarrow> piece list \<Rightarrow> gstr option" where
  "print_pieces env gs [] = Some gs"
| "print_pieces env gs (p # ps) = do { gs \<leftarrow> expr_print_gstr_helper env gs p; print_pieces env gs ps }"

definition expr_gstr_print :: "symbols \<Rightarrow> expr option \<Rightarrow> gstr \<Rightarrow> gstr option" where
  "expr_gstr_print env e gs = print_pieces env gs (expr_print_ptr env e T_NONE)"

definition expr_gstr_print_revdep :: "symbols \<Rightarrow> expr \<Rightarrow> gstr \<Rightarrow> tristate \<Rightarrow> string \<Rightarrow> gstr option" where
  "expr_gstr_print_revdep env e gs pr_type title =
     print_pieces env gs (fst (expr_print_revdep env e pr_type (Some title)))"

text \<open>Printing to a file: what is written.\<close>

fun expr_print_file_helper :: "string \<Rightarrow> piece \<Rightarrow> string option" where
  "expr_print_file_helper out (s, str) = map_option (\<lambda>t. out @ t) str"

fun write_pieces :: "string \<Rightarrow> piece list \<Rightarrow> string option" where
  "write_pieces out [] = Some out"
| "write_pieces out (p # ps) = do { out \<leftarrow> expr_print_file_helper out p; write_pieces out ps }"

definition expr_fprint :: "symbols \<Rightarrow> expr option \<Rightarrow> string option" where
  "expr_fprint env e = write_pieces [] (expr_print_ptr env e T_NONE)"

subsection \<open>Widths\<close>

lemma last_line_append:
  "last_line_length (s @ t) = (if LF \<in> set t then last_line_length t else last_line_length s + length t)"
proof -
  have "takeWhile (\<lambda>c. c \<noteq> LF) (rev t @ rev s) =
      (if LF \<in> set t then takeWhile (\<lambda>c. c \<noteq> LF) (rev t) else rev t @ takeWhile (\<lambda>c. c \<noteq> LF) (rev s))"
    by (cases "LF \<in> set t") (simp add: takeWhile_append1, subst takeWhile_append2, auto)
  then show ?thesis by (auto simp: last_line_length_def)
qed

text \<open>No line is wider than \<open>w\<close>; a newline counts for the line it starts.\<close>

definition lines_fit :: "nat \<Rightarrow> string \<Rightarrow> bool" where
  "lines_fit w s \<longleftrightarrow> (\<forall>k. last_line_length (take k s) \<le> w)"

lemma lines_fit_append:
  assumes "lines_fit w s" and "LF \<notin> set t" and "last_line_length s + length t \<le> w"
  shows "lines_fit w (s @ t)"
  unfolding lines_fit_def
proof
  fix k
  have "LF \<notin> set (take (k - length s) t)" using assms(2) in_set_takeD by metis
  moreover have "last_line_length (take k s) \<le> w" using assms(1) by (simp add: lines_fit_def)
  ultimately show "last_line_length (take k (s @ t)) \<le> w"
    using assms(3) by (cases "k \<le> length s") (auto simp: last_line_append)
qed

lemma lines_fit_break:
  assumes "lines_fit (Suc w) s" and "last_line_length s \<le> w"
  shows "lines_fit (Suc w) (s @ line_break)" and "last_line_length (s @ line_break) = 1"
proof -
  show 1: "last_line_length (s @ line_break) = 1"
    unfolding last_line_append by (simp add: line_break_def last_line_length_def)
  have "lines_fit (Suc w) (s @ [CHR 0x5C])"
    by (rule lines_fit_append [OF assms(1)]) (use assms(2) in \<open>simp_all add: LF_def\<close>)
  then have "last_line_length (take k (s @ line_break)) \<le> Suc w" for k
  proof (cases "k \<le> length s + 1")
    case True
    then have "take k (s @ line_break) = take k (s @ [CHR 0x5C])" by (cases "k - length s") (auto simp: line_break_def)
    then show ?thesis using \<open>lines_fit (Suc w) (s @ [CHR 0x5C])\<close> by (simp add: lines_fit_def)
  next
    case False
    then have "take k (s @ line_break) = s @ line_break" by (simp add: line_break_def)
    then show ?thesis using 1 by simp
  qed
  then show "lines_fit (Suc w) (s @ line_break)" by (simp add: lines_fit_def)
qed


text \<open>The text of a call of the output function, and the width it is counted with.\<close>

definition shown_piece :: "symbols \<Rightarrow> piece \<Rightarrow> string" where
  "shown_piece env p = (case p of (s, str) \<Rightarrow> the str @
     (case s of None \<Rightarrow> []
      | Some s \<Rightarrow> if sym_type env s \<noteq> S_UNKNOWN then take 9999 ('' [='' @ sym_get_string_value env s @ '']'') else []))"

definition piece_width :: "symbols \<Rightarrow> piece \<Rightarrow> nat" where
  "piece_width env p = (case p of (s, str) \<Rightarrow> length (the str) +
     (case s of None \<Rightarrow> 0 | Some s \<Rightarrow> 4 + length (sym_get_string_value env s)))"

lemma shown_width: "length (shown_piece env p) \<le> piece_width env p"
proof -
  have "length (take 9999 t) \<le> length t" for t :: string
    unfolding length_take by (rule min.cobounded1)
  from this have "length (take 9999 ('' [='' @ v @ '']'')) \<le> 4 + length v" for v :: string
    by (rule order_trans) simp
  then show ?thesis
    by (cases p; cases "fst p") (simp_all add: shown_piece_def piece_width_def del: length_take take_Cons_numeral append_Cons)
qed

definition piece_fits :: "symbols \<Rightarrow> nat \<Rightarrow> piece \<Rightarrow> bool" where
  "piece_fits env w p \<longleftrightarrow> snd p \<noteq> None \<and> LF \<notin> set (shown_piece env p) \<and> piece_width env p < w"

text \<open>A text with its breaks.\<close>

definition broken :: "symbols \<Rightarrow> bool list \<Rightarrow> piece list \<Rightarrow> string" where
  "broken env bs ps = concat (map2 (\<lambda>b p. (if b then line_break else []) @ shown_piece env p) bs ps)"

lemma helper_breaks:
  assumes p: "piece_fits env w p" and w: "max_width gs = int w" "w < 2 ^ 32"
    and fit: "lines_fit (Suc w) (gs_text gs)" "last_line_length (gs_text gs) \<le> w"
  shows "\<exists>b. expr_print_gstr_helper env gs p =
      Some (gs\<lparr>gs_text := gs_text gs @ (if b then line_break else []) @ shown_piece env p\<rparr>) \<and>
    lines_fit (Suc w) (gs_text gs @ (if b then line_break else []) @ shown_piece env p) \<and>
    last_line_length (gs_text gs @ (if b then line_break else []) @ shown_piece env p) \<le> w"
proof -
  obtain s t where st: "p = (s, Some t)" using p by (cases p) (auto simp: piece_fits_def)
  have w0: "max_width gs \<noteq> 0" using p w(1) by (simp add: piece_fits_def)
  have unsigned: "uint (word_of_int (max_width gs) :: 32 word) = int w"
    using w(2) by (simp add: w(1) unsigned_of_nat take_bit_nat_eq_self)
  define b where "b \<longleftrightarrow> last_line_length (gs_text gs) + piece_width env p > w"
  have "expr_print_gstr_helper env gs p = Some (gs\<lparr>gs_text := gs_text gs @ (if b then line_break else []) @ shown_piece env p\<rparr>)"
    using w0 by (auto simp: expr_print_gstr_helper_def wrap_line_def st unsigned b_def piece_width_def shown_piece_def str_append_def
        str_printf_def Let_def split: option.splits)
  moreover have "lines_fit (Suc w) (gs_text gs @ (if b then line_break else []) @ shown_piece env p) \<and>
      last_line_length (gs_text gs @ (if b then line_break else []) @ shown_piece env p) \<le> w"
  proof (cases b)
    case True
    have "lines_fit (Suc w) ((gs_text gs @ line_break) @ shown_piece env p)"
      by (rule lines_fit_append [OF lines_fit_break(1) [OF fit]])
        (use p shown_width [of env p] lines_fit_break(2) [OF fit] in \<open>simp_all add: piece_fits_def\<close>)
    moreover have "last_line_length ((gs_text gs @ line_break) @ shown_piece env p) \<le> w"
      unfolding last_line_append [of "gs_text gs @ line_break"]
      using p shown_width [of env p] lines_fit_break(2) [OF fit] by (simp add: piece_fits_def)
    ultimately show ?thesis using True by simp
  next
    case False
    then have "last_line_length (gs_text gs) + length (shown_piece env p) \<le> w"
      using shown_width [of env p] by (simp add: b_def)
    then show ?thesis
      using False lines_fit_append [OF fit(1), of "shown_piece env p"] p by (simp add: piece_fits_def last_line_append)
  qed
  ultimately show ?thesis by blast
qed

lemma pieces_break:
  "\<forall>p \<in> set ps. piece_fits env w p \<Longrightarrow> max_width gs = int w \<Longrightarrow> w < 2 ^ 32 \<Longrightarrow>
    lines_fit (Suc w) (gs_text gs) \<Longrightarrow> last_line_length (gs_text gs) \<le> w \<Longrightarrow>
    \<exists>bs. length bs = length ps \<and> print_pieces env gs ps = Some (gs\<lparr>gs_text := gs_text gs @ broken env bs ps\<rparr>) \<and>
      lines_fit (Suc w) (gs_text gs @ broken env bs ps)"
proof (induction ps arbitrary: gs)
  case Nil
  then show ?case by (simp add: broken_def)
next
  case (Cons p ps)
  obtain b where b: "expr_print_gstr_helper env gs p =
      Some (gs\<lparr>gs_text := gs_text gs @ (if b then line_break else []) @ shown_piece env p\<rparr>)"
    "lines_fit (Suc w) (gs_text gs @ (if b then line_break else []) @ shown_piece env p)"
    "last_line_length (gs_text gs @ (if b then line_break else []) @ shown_piece env p) \<le> w"
    using helper_breaks [of env w p gs] Cons.prems by auto
  define gs1 where "gs1 = gs\<lparr>gs_text := gs_text gs @ (if b then line_break else []) @ shown_piece env p\<rparr>"
  obtain bs where bs: "length bs = length ps" "print_pieces env gs1 ps = Some (gs1\<lparr>gs_text := gs_text gs1 @ broken env bs ps\<rparr>)"
      "lines_fit (Suc w) (gs_text gs1 @ broken env bs ps)"
    using Cons.IH [of gs1] Cons.prems b(2,3) by (auto simp: gs1_def)
  have "broken env (b # bs) (p # ps) = (if b then line_break else []) @ shown_piece env p @ broken env bs ps"
    by (simp add: broken_def)
  then show ?case using bs b(1) by (intro exI [of _ "b # bs"]) (simp add: gs1_def)
qed

text \<open>Without a width.\<close>

lemma pieces_unbroken:
  "\<forall>p \<in> set ps. snd p \<noteq> None \<Longrightarrow> max_width gs = 0 \<Longrightarrow>
    print_pieces env gs ps = Some (gs\<lparr>gs_text := gs_text gs @ concat (map (shown_piece env) ps)\<rparr>)"
proof (induction ps arbitrary: gs)
  case (Cons p ps)
  obtain s t where p: "p = (s, Some t)" using Cons.prems(1) by (cases p) auto
  have "expr_print_gstr_helper env gs p = Some (gs\<lparr>gs_text := gs_text gs @ shown_piece env p\<rparr>)"
    using Cons.prems(2) by (auto simp: expr_print_gstr_helper_def p shown_piece_def str_append_def str_printf_def split: option.splits)
  then show ?case using Cons by simp
qed simp

subsection \<open>Properties\<close>

text \<open>
  What \<open>expr_gstr_print\<close> appends: without a maximal width the printed expression, each symbol
  with its value; with a maximal width \<open>w\<close> the same, with a backslash and a newline between pieces
  where the next one would not fit. If no piece is as wide as \<open>w\<close> then no line is wider than \<open>w\<close>, the
  backslash included, except for the first, which can be wider by one.
\<close>

theorem wrapped_lines_fit:
  assumes "ps = expr_print_ptr env e T_NONE" and "\<forall>p \<in> set ps. snd p \<noteq> None"
  shows "(max_width gs = 0 \<longrightarrow>
      expr_gstr_print env e gs = Some (gs\<lparr>gs_text := gs_text gs @ concat (map (shown_piece env) ps)\<rparr>)) \<and>
    (max_width gs = int w \<and> w < 2 ^ 31 \<and> (\<forall>p \<in> set ps. piece_fits env w p) \<and> gs_text gs = [] \<longrightarrow>
      (\<exists>bs. length bs = length ps \<and> expr_gstr_print env e gs = Some (gs\<lparr>gs_text := broken env bs ps\<rparr>) \<and>
        lines_fit (w + 1) (broken env bs ps)))"
proof -
  have "lines_fit (Suc w) []" "last_line_length [] \<le> w" by (simp_all add: lines_fit_def last_line_length_def)
  then show ?thesis
    using pieces_unbroken [OF assms(2), of gs env] pieces_break [of ps env w gs]
    unfolding expr_gstr_print_def assms(1) [symmetric] by auto
qed

definition demo_long :: expr where
  "demo_long = E_AND (E_NOT (E_SYMBOL (Symbol 2))) (E_SYMBOL (Symbol 2))"

text \<open>For a maximal width of 8 the first line has 9 characters.\<close>

theorem wrapped_lines_fit_witness:
  "\<exists>text. expr_gstr_print demo (Some demo_long) \<lparr>gs_text = [], max_width = 8\<rparr> = Some \<lparr>gs_text = text, max_width = 8\<rparr> \<and>
    text = ''!AA [=m]'' @ line_break @ '' && '' @ line_break @ ''AA [=m]'' \<and> lines_fit 9 text"
proof -
  let ?gs = "\<lparr>gs_text = [], max_width = 8\<rparr>" and ?ps = "expr_print_ptr demo (Some demo_long) T_NONE"
  have ps: "?ps = [txt_piece ''!'', (Some (Symbol 2), Some ''AA''), txt_piece '' && '', (Some (Symbol 2), Some ''AA'')]"
    by (simp add: expr_print_ptr_def demo_long_def parens_def expr_compare_type_def left_name_def numeral_eq_Suc
        past_not_def past_and_def past_or_def past_list_def)
  have run: "expr_gstr_print demo (Some demo_long) ?gs =
      Some \<lparr>gs_text = ''!AA [=m]'' @ line_break @ '' && '' @ line_break @ ''AA [=m]'', max_width = 8\<rparr>"
    unfolding expr_gstr_print_def ps
    by (simp add: expr_print_gstr_helper_def wrap_line_def str_append_def str_printf_def last_line_length_def line_break_def LF_def
        sym_get_string_value_def)
  have "\<forall>p \<in> set ?ps. piece_fits demo 8 p \<and> snd p \<noteq> None"
    unfolding ps by (simp add: piece_fits_def shown_piece_def piece_width_def LF_def sym_get_string_value_def)
  then obtain bs where "expr_gstr_print demo (Some demo_long) ?gs = Some (?gs\<lparr>gs_text := broken demo bs ?ps\<rparr>)"
      "lines_fit 9 (broken demo bs ?ps)"
    using wrapped_lines_fit [OF refl, of demo "Some demo_long" ?gs 8] by auto
  then show ?thesis using run by simp
qed

end
