(* ===== verification/Kconfig_Default.thy ===== *)
theory Kconfig_Default
  imports Kconfig_Reload
begin

text \<open>
  The values that need not be saved: the default of a symbol (\<open>sym_get_string_default\<close> of
  \<open>scripts/kconfig/symbol.c\<close>) and the minimal configuration (\<open>conf_write_defconfig\<close> of
  \<open>scripts/kconfig/confdata.c\<close>); and the evaluation of expressions while symbols are calculated
  against that over fixed values in \<open>Kconfig_Expr\<close>.
\<close>

subsection \<open>The code\<close>

definition sym_is_changable :: "state \<Rightarrow> symbol \<Rightarrow> bool" where
  "sym_is_changable st s \<longleftrightarrow> visible (node st s) > rev_dep_tri (node st s)"

text \<open>What the default property gives: a tristate, or the text of a symbol.\<close>

definition property_default :: "calculation \<Rightarrow> config \<Rightarrow> state \<Rightarrow> symbol \<Rightarrow> (property \<times> tristate) option \<Rightarrow>
    ((tristate \<times> string) \<times> state) option" where
  "property_default calc cfg st s prop =
     (case prop of
        None \<Rightarrow> Some ((No, []), st)
      | Some (p, v) \<Rightarrow>
          if type_of cfg s = S_BOOLEAN \<or> type_of cfg s = S_TRISTATE then do {
            (x, st) \<leftarrow> calc_expr_ptr calc cfg st (prop_expr p);
            Some ((EXPR_AND x v, []), st) }
          else (case prop_get_symbol p of
              None \<Rightarrow> Some ((No, []), st)
            | Some ds \<Rightarrow> do {
                st \<leftarrow> calc st ds;
                Some ((No, pointer_text cfg (cur_val (node st ds))), st) }))"

definition default_tri :: "config \<Rightarrow> state \<Rightarrow> symbol \<Rightarrow> tristate \<Rightarrow> tristate" where
  "default_tri cfg st s val =
     (let n = node st s; val = EXPR_OR val (rev_dep_tri n);
          val = mod_to_yes (\<not> choiceval_flag cfg s \<and> cur_tri (node st (modules_sym cfg)) = No) val;
          val = mod_to_yes (type_of cfg s = S_BOOLEAN) val
      in if val < implied_tri n then implied_tri n else val)"

definition sym_get_string_default :: "calculation \<Rightarrow> config \<Rightarrow> state \<Rightarrow> symbol \<Rightarrow> (string \<times> state) option" where
  "sym_get_string_default calc cfg st s = do {
     st \<leftarrow> sym_calc_visibility calc cfg st s;
     st \<leftarrow> calc st (modules_sym cfg);
     (prop, st) \<leftarrow> sym_get_default_prop calc cfg st s;
     ((val, str), st) \<leftarrow> property_default calc cfg st s prop;
     Some (case type_of cfg s of
         S_BOOLEAN \<Rightarrow> string_of_tri (default_tri cfg st s val)
       | S_TRISTATE \<Rightarrow> string_of_tri (default_tri cfg st s val)
       | S_INT \<Rightarrow> str | S_HEX \<Rightarrow> str | S_STRING \<Rightarrow> str
       | _ \<Rightarrow> [], st) }"

text \<open>
  The value of a choice that is the default of its choice, in a choice that is not optional:
  \<open>optional\<close> is the flag of choices that \<^typ>\<open>config\<close> leaves out.
\<close>

definition default_chosen :: "(symbol \<Rightarrow> bool) \<Rightarrow> calculation \<Rightarrow> config \<Rightarrow> state \<Rightarrow> symbol \<Rightarrow> (bool \<times> state) option" where
  "default_chosen optional calc cfg st s =
     (if \<not> choiceval_flag cfg s then Some (False, st)
      else do {
        cs \<leftarrow> choice_of cfg s;
        (ds, st) \<leftarrow> sym_choice_default calc cfg st cs;
        Some (\<not> optional cs \<and> ds = Some s \<and> type_of cfg s = S_BOOLEAN \<and> cur_tri (node st s) = Yes, st) })"

definition defconfig_symbol :: "string \<Rightarrow> (symbol \<Rightarrow> bool) \<Rightarrow> calculation \<Rightarrow> config \<Rightarrow> state \<Rightarrow> symbol \<Rightarrow> (string \<times> state) option" where
  "defconfig_symbol prefix optional calc cfg st s =
     (if choice_flag cfg s then Some ([], st)
      else do {
        st \<leftarrow> calc st s;
        if \<not> write_flag (node st s) then Some ([], st)
        else do {
          let st = set_node s (\<lambda>n. n\<lparr>write_flag := False\<rparr>) st;
          if \<not> sym_is_changable st s then Some ([], st)
          else do {
            (v, st) \<leftarrow> string_value calc cfg st s;
            (d, st) \<leftarrow> sym_get_string_default calc cfg st s;
            if v = d then Some ([], st)
            else do {
              (skip, st) \<leftarrow> default_chosen optional calc cfg st s;
              if skip then Some ([], st) else conf_write_symbol (kconfig_print_symbol prefix False) calc cfg st s } } } })"

text \<open>The walk through the menus. Whether a menu is visible makes no difference.\<close>

fun defconfig_menu :: "string \<Rightarrow> (symbol \<Rightarrow> bool) \<Rightarrow> calculation \<Rightarrow> config \<Rightarrow> state \<Rightarrow> menu \<Rightarrow> (string \<times> state) option"
  and defconfig_menus :: "string \<Rightarrow> (symbol \<Rightarrow> bool) \<Rightarrow> calculation \<Rightarrow> config \<Rightarrow> state \<Rightarrow> menu list \<Rightarrow> (string \<times> state) option" where
  "defconfig_menu prefix optional calc cfg st (Menu entry pr vis ms) = do {
     (out, st) \<leftarrow> (case entry of
         None \<Rightarrow> do { (v, st) \<leftarrow> menu_is_visible calc cfg st pr vis; Some ([], st) }
       | Some s \<Rightarrow> defconfig_symbol prefix optional calc cfg st s);
     (rest, st) \<leftarrow> defconfig_menus prefix optional calc cfg st ms;
     Some (out @ rest, st) }"
| "defconfig_menus prefix optional calc cfg st [] = Some ([], st)"
| "defconfig_menus prefix optional calc cfg st (m # ms) = do {
     (out, st) \<leftarrow> defconfig_menu prefix optional calc cfg st m;
     (rest, st) \<leftarrow> defconfig_menus prefix optional calc cfg st ms;
     Some (out @ rest, st) }"

definition conf_write_defconfig :: "string \<Rightarrow> (symbol \<Rightarrow> bool) \<Rightarrow> nat \<Rightarrow> config \<Rightarrow> state \<Rightarrow> menu list \<Rightarrow> (string \<times> state) option" where
  "conf_write_defconfig prefix optional depth cfg st ms = do {
     st \<leftarrow> sym_clear_all_valid depth cfg st;
     defconfig_menus prefix optional (sym_calc_value depth cfg) cfg st ms }"

subsection \<open>Evaluation\<close>

lemma compare_texts_values:
  "compare_texts (type_of cfg s1) (sym_get_string_value (symbols_of cfg st) s1)
     (type_of cfg s2) (sym_get_string_value (symbols_of cfg st) s2) = compare_values (symbols_of cfg st) s1 s2"
proof -
  have "sym_type (symbols_of cfg st) = type_of cfg" by (simp add: symbols_of_def)
  then show ?thesis by (simp add: compare_texts_def compare_values_def Let_def)
qed

lemma relation_value_calc:
  "relation_value r (compare_values env s1 s2) = expr_calc_value env (E_COMP r s1 s2)"
  by (simp add: relation_value_def split: sum.split)

lemma string_value_modules:
  assumes "calc st (modules_sym cfg) = Some st"
  shows "string_value calc cfg st s = Some (sym_get_string_value (symbols_of cfg st) s, st)"
  using assms by (cases "cur_tri (node st s)") (simp_all add: string_value_def sym_get_string_value_def symbols_of_def)

text \<open>Values that are valid are kept, and so is that of an expression over them.\<close>

lemma expr_value_kept:
  assumes "keeps cfg U {} st st'" and "valid_flag (node st (modules_sym cfg))"
  shows "\<forall>s \<in> expr_symbols e. valid_flag (node st s) \<Longrightarrow>
    expr_calc_value (symbols_of cfg st') e = expr_calc_value (symbols_of cfg st) e"
proof (induction e)
  case (E_BIN j a b)
  then show ?case by (simp add: calc_bin)
next
  case (E_COMP r s1 s2)
  have m: "cur_tri (node st' (modules_sym cfg)) = cur_tri (node st (modules_sym cfg))" using assms by (simp add: keeps_def)
  have "cur_tri (node st' s) = cur_tri (node st s) \<and> cur_val (node st' s) = cur_val (node st s)" if "s = s1 \<or> s = s2" for s
    using assms(1) E_COMP that by (auto simp: keeps_def)
  then have "sym_get_string_value (symbols_of cfg st') s = sym_get_string_value (symbols_of cfg st) s" if "s = s1 \<or> s = s2" for s
    using that m by (simp add: sym_get_string_value_def symbols_of_def)
  then have "compare_values (symbols_of cfg st') s1 s2 = compare_values (symbols_of cfg st) s1 s2"
    unfolding compare_texts_values [symmetric] by simp
  then show ?case by simp
qed (use assms(1) in \<open>simp_all add: keeps_def symbols_of_def\<close>)


text \<open>The depth is enough, and \<open>modules_sym\<close> has been calculated.\<close>

definition evaluable :: "config \<Rightarrow> symbol set \<Rightarrow> nat \<Rightarrow> state \<Rightarrow> bool" where
  "evaluable cfg U depth st \<longleftrightarrow> config_ok cfg U \<and> no_marks st \<and> 3 * card U < depth \<and> valid_flag (node st (modules_sym cfg))"

lemma keeps_evaluable: "keeps cfg U {} st st' \<Longrightarrow> evaluable cfg U depth st \<Longrightarrow> evaluable cfg U depth st'"
  using keeps_no_marks keeps_valid by (auto simp: evaluable_def)

lemma calc_symbol:
  assumes "evaluable cfg U depth st" and "s \<in> U"
  shows "\<exists>st'. sym_calc_value depth cfg st s = Some st' \<and> keeps cfg U {} st st' \<and> valid_flag (node st' s)"
proof -
  have U: "config_ok cfg U" and m: "no_marks st" and d: "3 * card U < depth" using assms(1) by (simp_all add: evaluable_def)
  obtain st' where st': "sym_calc_value depth cfg st s = Some st'" "keeps cfg U {} st st'"
    using sym_calc_value_deep [OF U no_marks_ok [OF m] assms(2) d] by blast
  moreover have "valid_flag (node st' s)"
    by (rule sym_calc_value_valid [OF U ready_deep [OF U no_marks_ok [OF m] d] assms(2) _ st'(1)]) (use m in \<open>simp add: no_marks_def\<close>)
  ultimately show ?thesis by blast
qed

lemma calc_valid: "depth \<noteq> 0 \<Longrightarrow> valid_flag (node st s) \<Longrightarrow> sym_calc_value depth cfg st s = Some st"
  by (cases depth) simp_all

lemma evaluation_lemma:
  "evaluable cfg U depth st \<Longrightarrow> expr_symbols e \<subseteq> U \<Longrightarrow>
    \<exists>st'. calc_expr (sym_calc_value depth cfg) cfg st e = Some (expr_calc_value (symbols_of cfg st') e, st') \<and>
      keeps cfg U {} st st' \<and> (\<forall>s \<in> expr_symbols e. valid_flag (node st' s))"
proof (induction e arbitrary: st)
  case (E_SYMBOL s)
  then show ?case using calc_symbol [of cfg U depth st s] by (auto simp: symbols_of_def)
next
  case (E_NOT e)
  then show ?case by force
next
  case (E_COMP r s1 s2)
  obtain st1 where 1: "sym_calc_value depth cfg st s1 = Some st1" "keeps cfg U {} st st1" "valid_flag (node st1 s1)"
    using calc_symbol [OF E_COMP.prems(1), of s1] E_COMP.prems(2) by auto
  have e1: "evaluable cfg U depth st1" by (rule keeps_evaluable [OF 1(2) E_COMP.prems(1)])
  obtain st2 where 2: "sym_calc_value depth cfg st1 s2 = Some st2" "keeps cfg U {} st1 st2" "valid_flag (node st2 s2)"
    using calc_symbol [OF e1, of s2] E_COMP.prems(2) by auto
  have e2: "evaluable cfg U depth st2" by (rule keeps_evaluable [OF 2(2) e1])
  have "sym_calc_value depth cfg st2 (modules_sym cfg) = Some st2"
    by (rule calc_valid) (use e2 in \<open>auto simp: evaluable_def\<close>)
  then have "string_value (sym_calc_value depth cfg) cfg st2 s = Some (sym_get_string_value (symbols_of cfg st2) s, st2)" for s
    by (rule string_value_modules)
  then have "calc_expr (sym_calc_value depth cfg) cfg st (E_COMP r s1 s2) =
      Some (expr_calc_value (symbols_of cfg st2) (E_COMP r s1 s2), st2)"
    unfolding calc_expr.simps by (simp add: 1(1) 2(1) compare_texts_values relation_value_calc del: expr_calc_value.simps)
  moreover have "valid_flag (node st2 s1)" by (rule keeps_valid [OF 2(2) 1(3)])
  ultimately show ?case using keeps_trans [OF 1(2) 2(2)] 2(3) by auto
next
  case (E_BIN j a b)
  obtain st1 where 1: "calc_expr (sym_calc_value depth cfg) cfg st a = Some (expr_calc_value (symbols_of cfg st1) a, st1)"
      "keeps cfg U {} st st1" "\<forall>s \<in> expr_symbols a. valid_flag (node st1 s)"
    using E_BIN.IH(1) [OF E_BIN.prems(1)] E_BIN.prems(2) by auto
  have e1: "evaluable cfg U depth st1" by (rule keeps_evaluable [OF 1(2) E_BIN.prems(1)])
  obtain st2 where 2: "calc_expr (sym_calc_value depth cfg) cfg st1 b = Some (expr_calc_value (symbols_of cfg st2) b, st2)"
      "keeps cfg U {} st1 st2" "\<forall>s \<in> expr_symbols b. valid_flag (node st2 s)"
    using E_BIN.IH(2) [OF e1] E_BIN.prems(2) by auto
  have "expr_calc_value (symbols_of cfg st2) a = expr_calc_value (symbols_of cfg st1) a"
    by (rule expr_value_kept [OF 2(2) _ 1(3)]) (use e1 in \<open>simp add: evaluable_def\<close>)
  then have "calc_expr (sym_calc_value depth cfg) cfg st (E_BIN j a b) =
      Some (expr_calc_value (symbols_of cfg st2) (E_BIN j a b), st2)"
    using 1(1) 2(1) by (cases j) simp_all
  moreover have "\<forall>s \<in> expr_symbols (E_BIN j a b). valid_flag (node st2 s)" using 1(3) 2(3) keeps_valid [OF 2(2)] by auto
  ultimately show ?case using keeps_trans [OF 1(2) 2(2)] by blast
qed (auto intro: exI [of _ st])

subsection \<open>A calculated configuration\<close>

text \<open>All symbols have been calculated; nothing is calculated again.\<close>

definition calculated :: "config \<Rightarrow> symbol set \<Rightarrow> nat \<Rightarrow> state \<Rightarrow> bool" where
  "calculated cfg U depth st \<longleftrightarrow> evaluable cfg U depth st \<and> (\<forall>s \<in> U. valid_flag (node st s)) \<and> modules_current cfg st"

text \<open>Two states with the same values and flags of validity.\<close>

definition same_values :: "state \<Rightarrow> state \<Rightarrow> bool" where
  "same_values st st' \<longleftrightarrow> modules_val st' = modules_val st \<and> (\<forall>s. cur_tri (node st' s) = cur_tri (node st s) \<and>
     cur_val (node st' s) = cur_val (node st s) \<and> valid_flag (node st' s) = valid_flag (node st s) \<and>
     need_set_flag (node st' s) = need_set_flag (node st s))"

lemma same_values_symbols: "same_values st st' \<Longrightarrow> symbols_of cfg st' = symbols_of cfg st"
  by (simp add: same_values_def symbols_of_def)

lemma same_values_calculated: "same_values st st' \<Longrightarrow> calculated cfg U depth st \<Longrightarrow> calculated cfg U depth st'"
  by (simp add: same_values_def calculated_def evaluable_def no_marks_def modules_current_def)

lemma calc_calculated: "calculated cfg U depth st \<Longrightarrow> s \<in> U \<Longrightarrow> sym_calc_value depth cfg st s = Some st"
  by (rule calc_valid) (auto simp: calculated_def evaluable_def)

lemma modules_calculated_in: "calculated cfg U depth st \<Longrightarrow> modules_sym cfg \<in> U"
  by (simp add: calculated_def evaluable_def config_ok_def)

lemma expr_calculated:
  assumes c: "calculated cfg U depth st" and "expr_symbols e \<subseteq> U"
  shows "calc_expr (sym_calc_value depth cfg) cfg st e = Some (expr_calc_value (symbols_of cfg st) e, st)"
proof -
  obtain st' where st': "calc_expr (sym_calc_value depth cfg) cfg st e = Some (expr_calc_value (symbols_of cfg st') e, st')"
    using evaluation_lemma [of cfg U depth st e] assms by (auto simp: calculated_def)
  have "calc_expr (sym_calc_value depth cfg) cfg st e = Some (v, st) \<Longrightarrow> st' = st" for v using st' by simp
  moreover have "\<exists>v. calc_expr (sym_calc_value depth cfg) cfg st e = Some (v, st)"
    by (rule calc_expr_valid) (use calc_calculated [OF c] modules_calculated_in [OF c] assms(2) in blast)
  ultimately have "st' = st" by blast
  then show ?thesis using st' by simp
qed

lemma expr_ptr_calculated:
  "calculated cfg U depth st \<Longrightarrow> expr_within U e \<Longrightarrow>
    calc_expr_ptr (sym_calc_value depth cfg) cfg st e = Some (expr_calc_value_ptr (symbols_of cfg st) e, st)"
  using expr_calculated by (auto simp: calc_expr_ptr_def expr_calc_value_ptr_def expr_within_def split: option.splits)


definition first_prop :: "symbols \<Rightarrow> prop_type \<Rightarrow> property list \<Rightarrow> (property \<times> tristate) option" where
  "first_prop env kind ps = map_option (\<lambda>p. (p, expr_calc_value_ptr env (prop_visible p)))
     (find (\<lambda>p. prop_type p = kind \<and> expr_calc_value_ptr env (prop_visible p) \<noteq> No) ps)"

lemma first_prop_in:
  assumes "first_prop env kind ps = Some (p, v)"
  shows "p \<in> set ps \<and> prop_type p = kind"
  using assms by (auto simp: first_prop_def find_Some_iff)

lemma first_calculated:
  "calculated cfg U depth st \<Longrightarrow> \<forall>p \<in> set ps. expr_within U (prop_visible p) \<Longrightarrow>
    first_visible (sym_calc_value depth cfg) cfg kind st ps = Some (first_prop (symbols_of cfg st) kind ps, st)"
  by (induction ps) (simp_all add: first_prop_def expr_ptr_calculated)

lemma prompts_calculated:
  "calculated cfg U depth st \<Longrightarrow> \<forall>p \<in> set ps. expr_within U (prop_visible p) \<Longrightarrow>
    \<exists>v. prompts_visible (sym_calc_value depth cfg) cfg s c tri st ps = Some (v, st)"
  by (induction ps arbitrary: tri) (simp_all add: expr_ptr_calculated Let_def)

lemma or_calculated:
  "calculated cfg U depth st \<Longrightarrow> expr_within U e \<Longrightarrow>
    \<exists>v. calc_expr_or d (sym_calc_value depth cfg) cfg st e = Some (v, st)"
  using expr_calculated by (auto simp: calc_expr_or_def expr_within_def split: option.splits)

text \<open>The visibility and the dependencies are calculated from the values alone.\<close>

lemma visibility_calculated:
  assumes c: "calculated cfg U depth st" and s: "s \<in> U" "\<not> choiceval_flag cfg s"
  shows "\<exists>st1. sym_calc_visibility (sym_calc_value depth cfg) cfg st s = Some st1 \<and> same_values st st1 \<and>
    (boolean_now cfg st1 s \<longrightarrow> implied_tri (node st1 s) \<noteq> Mod)"
proof -
  let ?calc = "sym_calc_value depth cfg"
  have ok: "symbol_ok cfg U s" using c s(1) by (simp add: calculated_def evaluable_def config_ok_def)
  then have vis: "\<forall>p \<in> set (props cfg s). expr_within U (prop_visible p)" by (simp add: symbol_ok_def prop_ok_def)
  have deps: "expr_within U (dir_dep_expr cfg s)" "expr_within U (rev_dep_expr cfg s)" "expr_within U (implied_expr cfg s)"
    using ok by (simp_all add: symbol_ok_def)
  obtain v1 where "prompts_visible ?calc cfg s None No st (props cfg s) = Some (v1, st)" using prompts_calculated [OF c vis] by blast
  then obtain t1 where 1: "calc_visible ?calc cfg st s = Some t1" "same_values st t1"
    using s(2) by (simp add: calc_visible_def same_values_def)
  note c1 = same_values_calculated [OF 1(2) c]
  obtain v2 where "calc_expr_or Yes ?calc cfg t1 (dir_dep_expr cfg s) = Some (v2, t1)" using or_calculated [OF c1 deps(1)] by blast
  then obtain t2 where 2: "calc_dir_dep ?calc cfg t1 s = Some t2" "same_values t1 t2"
    by (simp add: calc_dir_dep_def same_values_def)
  note c2 = same_values_calculated [OF 2(2) c1]
  obtain v3 where "calc_expr_or No ?calc cfg t2 (rev_dep_expr cfg s) = Some (v3, t2)" using or_calculated [OF c2 deps(2)] by blast
  then obtain t3 where 3: "calc_rev_dep ?calc cfg t2 s = Some t3" "same_values t2 t3"
    by (simp add: calc_rev_dep_def same_values_def)
  note c3 = same_values_calculated [OF 3(2) c2]
  obtain v4 where "calc_expr_or No ?calc cfg t3 (implied_expr cfg s) = Some (v4, t3)" using or_calculated [OF c3 deps(3)] by blast
  then obtain v where "calc_implied ?calc cfg t3 s = Some (set_node s (\<lambda>n. n\<lparr>implied_tri := mod_to_yes (boolean_now cfg t3 s) v\<rparr>) t3)"
    unfolding calc_implied_def by (cases "dir_dep_tri (node t3 s) = No") auto
  then obtain t4 where 4: "calc_implied ?calc cfg t3 s = Some t4" "same_values t3 t4"
      "t4 = set_node s (\<lambda>n. n\<lparr>implied_tri := mod_to_yes (boolean_now cfg t3 s) v\<rparr>) t3"
    by (simp add: same_values_def)
  have "boolean_now cfg t4 s = boolean_now cfg t3 s" using s(2) 4(3) by (simp add: boolean_now_def sym_get_type_def)
  then have "boolean_now cfg t4 s \<longrightarrow> implied_tri (node t4 s) \<noteq> Mod" using 4(3) by (simp add: mod_to_yes_def)
  moreover have "same_values st t4" using 1(2) 2(2) 3(2) 4(2) by (simp add: same_values_def)
  ultimately show ?thesis using 1(1) 2(1) 3(1) 4(1) s(2) by (simp add: sym_calc_visibility_def)
qed

lemma default_tri_arith:
  "(b \<Longrightarrow> i \<noteq> Mod) \<Longrightarrow> b = (b1 \<or> b2) \<Longrightarrow>
   mod_to_yes (b \<or> i = Yes) (EXPR_OR (if i \<noteq> No then EXPR_OR e i else e) r) =
    (let v = mod_to_yes b2 (mod_to_yes b1 (EXPR_OR e r)) in if v < i then i else v)"
  by (cases e; cases i; cases r; cases b1; cases b2) (simp_all add: mod_to_yes_def EXPR_OR_def tri_order)

lemma same_values_write [simp]: "same_values st (set_write s w st)"
  by (simp add: same_values_def set_write_def)

lemma node_set_write: "implied_tri (node (set_write s w st) t) = implied_tri (node st t)"
    "rev_dep_tri (node (set_write s w st) t) = rev_dep_tri (node st t)"
  by (simp_all add: set_write_def)

lemma boolean_now_write [simp]: "boolean_now cfg (set_write s w st) t = boolean_now cfg st t"
  by (simp add: boolean_now_def sym_get_type_def set_write_def)

text \<open>Without a value of the user, the calculation takes the default.\<close>

lemma tristate_default:
  assumes c: "calculated cfg U depth st" and s: "s \<in> U" "\<not> choiceval_flag cfg s" "\<not> choice_flag cfg s"
    and type: "type_of cfg s \<in> {S_BOOLEAN, S_TRISTATE}"
    and vis: "sym_calc_visibility (sym_calc_value depth cfg) cfg st s = Some st1"
    and user: "visible (node st1 s) = No \<or> \<not> user_flag (node st1 s)"
  shows "\<exists>v st2 st3. calc_tristate (sym_calc_value depth cfg) cfg st1 s = Some (v, st2) \<and>
    sym_get_string_default (sym_calc_value depth cfg) cfg st s = Some (string_of_tri v, st3)"
proof -
  let ?calc = "sym_calc_value depth cfg" and ?env = "symbols_of cfg st1" and ?n = "node st1 s"
  have st1: "same_values st st1" "boolean_now cfg st1 s \<longrightarrow> implied_tri ?n \<noteq> Mod"
    using visibility_calculated [OF c s(1,2)] vis by auto
  note c1 = same_values_calculated [OF st1(1) c]
  have ok: "\<forall>p \<in> set (props cfg s). prop_ok cfg U s p" using c s(1) by (simp add: calculated_def evaluable_def config_ok_def symbol_ok_def)
  then have visible: "\<forall>p \<in> set (props cfg s). expr_within U (prop_visible p)" by (simp add: prop_ok_def)
  define dp where "dp = first_prop ?env P_DEFAULT (props cfg s)"
  have found: "sym_get_default_prop ?calc cfg st' s = Some (dp, st')" if "same_values st1 st'" for st'
    using first_calculated [OF same_values_calculated [OF that c1] visible] same_values_symbols [OF that]
    by (simp add: sym_get_default_prop_def dp_def)
  define e where "e = (case dp of None \<Rightarrow> No | Some (p, v) \<Rightarrow> EXPR_AND (expr_calc_value_ptr ?env (prop_expr p)) v)"
  have within: "expr_within U (prop_expr p)" if "dp = Some (p, v)" for p v
    using first_prop_in [OF that [unfolded dp_def]] ok by (simp add: prop_ok_def)
  have eval: "calc_expr_ptr ?calc cfg st' (prop_expr p) = Some (expr_calc_value_ptr ?env (prop_expr p), st')"
    if "dp = Some (p, v)" "same_values st1 st'" for p v st'
    using expr_ptr_calculated [OF same_values_calculated [OF that(2) c1] within [OF that(1)]] same_values_symbols [OF that(2)] by simp
  have b: "boolean_now cfg st1 s \<longleftrightarrow> cur_tri (node st1 (modules_sym cfg)) = No \<or> type_of cfg s = S_BOOLEAN"
    using type c1 s(2) by (auto simp: boolean_now_def sym_get_type_def calculated_def modules_current_def)
  have "\<exists>st2. default_tristate ?calc cfg st1 s = Some (if implied_tri ?n \<noteq> No then EXPR_OR e (implied_tri ?n) else e, st2) \<and>
      rev_dep_tri (node st2 s) = rev_dep_tri ?n \<and> implied_tri (node st2 s) = implied_tri ?n \<and> boolean_now cfg st2 s = boolean_now cfg st1 s"
    using s(3) eval by (auto simp: default_tristate_def found Let_def e_def node_set_write split: option.splits)
  then obtain st2 where "default_tristate ?calc cfg st1 s = Some (if implied_tri ?n \<noteq> No then EXPR_OR e (implied_tri ?n) else e, st2)"
      "rev_dep_tri (node st2 s) = rev_dep_tri ?n" "implied_tri (node st2 s) = implied_tri ?n" "boolean_now cfg st2 s = boolean_now cfg st1 s"
    by blast
  then have calc: "calc_tristate ?calc cfg st1 s = Some (mod_to_yes (boolean_now cfg st1 s \<or> implied_tri ?n = Yes)
      (EXPR_OR (if implied_tri ?n \<noteq> No then EXPR_OR e (implied_tri ?n) else e) (rev_dep_tri ?n)), st2)"
    using user s(2) by (auto simp: calc_tristate_def)
  have "calc_tristate ?calc cfg st1 s = Some (default_tri cfg st1 s e, st2)"
    unfolding calc default_tri_def using default_tri_arith [OF _ b] st1(2) s(2) by (simp add: Let_def)
  moreover have "property_default ?calc cfg st1 s dp = Some ((e, []), st1)"
  proof (cases dp)
    case (Some pv)
    obtain p v where pv: "pv = (p, v)" by (cases pv)
    have "same_values st1 st1" by (simp add: same_values_def)
    then show ?thesis using type eval [of p v st1] by (auto simp: property_default_def e_def Some pv)
  qed (simp add: property_default_def e_def)
  then have "sym_get_string_default ?calc cfg st s = Some (string_of_tri (default_tri cfg st1 s e), st1)"
    using type vis found [of st1] calc_calculated [OF c1 modules_calculated_in [OF c1]]
    by (auto simp: sym_get_string_default_def same_values_def)
  ultimately show ?thesis by blast
qed


lemma string_default:
  assumes c: "calculated cfg U depth st" and s: "s \<in> U" "\<not> choiceval_flag cfg s"
    and type: "type_of cfg s \<in> {S_INT, S_HEX, S_STRING}"
    and vis: "sym_calc_visibility (sym_calc_value depth cfg) cfg st s = Some st1"
    and user: "visible (node st1 s) = No \<or> \<not> user_flag (node st1 s)"
  shows "\<exists>v st2 st3. calc_string (sym_calc_value depth cfg) cfg st1 s = Some (v, st2) \<and>
    sym_get_string_default (sym_calc_value depth cfg) cfg st s = Some (pointer_text cfg v, st3)"
proof -
  let ?calc = "sym_calc_value depth cfg"
  have st1: "same_values st st1" using visibility_calculated [OF c s] vis by auto
  note c1 = same_values_calculated [OF st1 c]
  have ok: "\<forall>p \<in> set (props cfg s). prop_ok cfg U s p" using c s(1) by (simp add: calculated_def evaluable_def config_ok_def symbol_ok_def)
  then have visible: "\<forall>p \<in> set (props cfg s). expr_within U (prop_visible p)" by (simp add: prop_ok_def)
  define dp where "dp = first_prop (symbols_of cfg st1) P_DEFAULT (props cfg s)"
  have found: "sym_get_default_prop ?calc cfg st1 s = Some (dp, st1)"
    using first_calculated [OF c1 visible] by (simp add: sym_get_default_prop_def dp_def)
  have symbol: "ds \<in> U" if "dp = Some (p, v)" "prop_get_symbol p = Some ds" for p v ds
    using first_prop_in [OF that(1) [unfolded dp_def]] ok prop_get_symbol_within [OF _ that(2)] by (simp add: prop_ok_def)
  have calc: "?calc st' ds = Some st'" if "dp = Some (p, v)" "prop_get_symbol p = Some ds" "same_values st1 st'" for p v ds st'
    using calc_calculated [OF same_values_calculated [OF that(3) c1] symbol [OF that(1,2)]] .
  have start: "sym_get_string_default ?calc cfg st s =
      map_option (\<lambda>((val, str), st). (str, st)) (property_default ?calc cfg st1 s dp)"
    using type vis found calc_calculated [OF c1 modules_calculated_in [OF c1]]
    by (cases "property_default ?calc cfg st1 s dp") (auto simp: sym_get_string_default_def)
  have refl: "same_values st1 st1" by (simp add: same_values_def)
  show ?thesis
  proof (cases dp)
    case None
    have "pointer_text cfg (Text []) = []" by (simp add: pointer_text_def)
    then show ?thesis using user found start None by (auto simp: calc_string_def property_default_def)
  next
    case (Some pv)
    obtain p v where pv: "dp = Some (p, v)" using Some by (cases pv) auto
    have "pointer_text cfg (Text []) = []" by (simp add: pointer_text_def)
    moreover have "cur_val (node (set_write s True st1) ds) = cur_val (node st1 ds)" for ds by (simp add: set_write_def)
    ultimately show ?thesis
      using user found start type pv calc [OF pv _ refl] calc [OF pv _ same_values_write [of st1 s True]]
      by (cases "prop_get_symbol p") (auto simp: calc_string_def property_default_def)
  qed
qed

subsection \<open>Properties\<close>

text \<open>
  C22. The values expressions have while symbols are calculated: once \<open>modules_sym\<close> is calculated,
  evaluating an expression, which calculates its symbols on the way, gives the value the expression
  has for the values of the symbols afterwards, where no valid value has changed. So the
  simplifications of expressions, shown for fixed values, hold for the values computed here.
\<close>

theorem evaluation_agrees:
  assumes "evaluable cfg U depth st" and "expr_symbols e \<subseteq> U"
  shows "\<exists>st'. calc_expr (sym_calc_value depth cfg) cfg st e = Some (expr_calc_value (symbols_of cfg st') e, st') \<and>
    (\<forall>s \<in> expr_symbols e. valid_flag (node st' s)) \<and>
    (\<forall>s. valid_flag (node st s) \<longrightarrow> valid_flag (node st' s) \<and>
       cur_tri (node st' s) = cur_tri (node st s) \<and> cur_val (node st' s) = cur_val (node st s))"
  using evaluation_lemma [OF assms] by (auto simp: keeps_def)

definition example_modules :: state where
  "example_modules = example_state\<lparr>node := (node example_state)(Symbol 0 := constant_node Yes ''n'')\<rparr>"

theorem evaluation_agrees_witness:
  "\<exists>st'. calc_expr (sym_calc_value 16 example_config) example_config example_modules (E_AND (E_SYMBOL (Symbol 0)) (E_SYMBOL (Symbol 1))) =
      Some (expr_calc_value (symbols_of example_config st') (E_AND (E_SYMBOL (Symbol 0)) (E_SYMBOL (Symbol 1))), st') \<and>
    cur_tri (node st' (Symbol 0)) = Yes"
proof -
  have marks: "no_marks example_modules"
    by (simp add: no_marks_def example_modules_def example_state_def constant_node_def unset_node_def)
  have mods: "modules_sym example_config = Symbol 0" by (simp add: example_config_def)
  have valid: "valid_flag (node example_modules (Symbol 0))" "cur_tri (node example_modules (Symbol 0)) = Yes"
    by (simp_all add: example_modules_def constant_node_def)
  have "evaluable example_config example_symbols 16 example_modules"
    using example_config_ok example_small marks mods valid(1) by (simp add: evaluable_def)
  moreover have "expr_symbols (E_AND (E_SYMBOL (Symbol 0)) (E_SYMBOL (Symbol 1))) \<subseteq> example_symbols"
    by (simp add: example_symbols_def)
  ultimately show ?thesis
    using evaluation_agrees [of example_config example_symbols 16 example_modules "E_AND (E_SYMBOL (Symbol 0)) (E_SYMBOL (Symbol 1))"]
      valid by (metis (no_types, lifting))
qed

text \<open>
  C32. What \<open>sym_get_string_default\<close> takes for the default of a symbol, which the minimal
  configuration leaves out, is the value \<open>sym_calc_value\<close> computes without a value of the user: for
  a boolean or tristate symbol that is not the value of a choice, its letter, and for a number or a
  string the text before it is moved into its range.
\<close>

theorem default_is_calculated:
  assumes "calculated cfg U depth st" and "s \<in> U" and "\<not> choiceval_flag cfg s" and "\<not> choice_flag cfg s"
    and "sym_calc_visibility (sym_calc_value depth cfg) cfg st s = Some st1"
    and "visible (node st1 s) = No \<or> \<not> user_flag (node st1 s)"
  shows "(type_of cfg s \<in> {S_BOOLEAN, S_TRISTATE} \<longrightarrow>
      (\<exists>v st2 st3. calc_tristate (sym_calc_value depth cfg) cfg st1 s = Some (v, st2) \<and>
         sym_get_string_default (sym_calc_value depth cfg) cfg st s = Some (string_of_tri v, st3))) \<and>
    (type_of cfg s \<in> {S_INT, S_HEX, S_STRING} \<longrightarrow>
      (\<exists>v st2 st3. calc_string (sym_calc_value depth cfg) cfg st1 s = Some (v, st2) \<and>
         sym_get_string_default (sym_calc_value depth cfg) cfg st s = Some (pointer_text cfg v, st3)))"
  using tristate_default [OF assms(1-4) _ assms(5,6)] string_default [OF assms(1-3) _ assms(5,6)] by blast

text \<open>\<open>FOO\<close> gets the default \<open>MODULES\<close>, which is \<open>y\<close>.\<close>

definition default_config :: config where
  "default_config = example_config\<lparr>props := (\<lambda>s. if s = Symbol 1
     then [prompt ''x'', (plain_property P_DEFAULT)\<lparr>prop_expr := Some (E_SYMBOL (Symbol 0))\<rparr>] else props example_config s)\<rparr>"

theorem default_is_calculated_witness:
  "\<exists>st1 st2 st3. sym_calc_visibility (sym_calc_value 16 default_config) default_config example_saved (Symbol 1) = Some st1 \<and>
    calc_tristate (sym_calc_value 16 default_config) default_config st1 (Symbol 1) = Some (Yes, st2) \<and>
    sym_get_string_default (sym_calc_value 16 default_config) default_config example_saved (Symbol 1) = Some (''y'', st3)"
proof -
  let ?calc = "sym_calc_value 16 default_config"
  have U: "config_ok default_config example_symbols"
    by (simp add: config_ok_def symbol_ok_def prop_ok_def expr_within_def range_bounds_def default_config_def example_defs)
  have c: "calculated default_config example_symbols 16 example_saved"
    using U example_small
    by (simp add: calculated_def evaluable_def no_marks_def modules_current_def example_saved_def constant_node_def unset_node_def
        default_config_def example_config_def)
  have s: "Symbol 1 \<in> example_symbols" "\<not> choiceval_flag default_config (Symbol 1)" "\<not> choice_flag default_config (Symbol 1)"
      "type_of default_config (Symbol 1) = S_TRISTATE"
    by (simp_all add: example_symbols_def default_config_def example_config_def example_type_def)
  obtain st1 where st1: "sym_calc_visibility ?calc default_config example_saved (Symbol 1) = Some st1"
    using visibility_calculated [OF c s(1,2)] by blast
  have "map_option (\<lambda>st. user_flag (node st (Symbol 1))) (sym_calc_visibility ?calc default_config example_saved (Symbol 1)) = Some False"
    by code_simp
  then have "\<not> user_flag (node st1 (Symbol 1))" using st1 by simp
  then obtain v st2 st3 where v: "calc_tristate ?calc default_config st1 (Symbol 1) = Some (v, st2)"
      "sym_get_string_default ?calc default_config example_saved (Symbol 1) = Some (string_of_tri v, st3)"
    using default_is_calculated [OF c s(1-3) st1] s(4) by auto
  have "map_option fst (sym_get_string_default ?calc default_config example_saved (Symbol 1)) = Some ''y''" by code_simp
  moreover have y: "string_of_tri Yes = ''y''" by (simp add: string_of_tri_def)
  ultimately have "string_of_tri v = string_of_tri Yes" using v(2) by simp
  then have "v = Yes" by (simp only: string_of_tri_inject)
  then show ?thesis using st1 v y by simp
qed

end
