(* ===== verification/Kconfig_Update.thy ===== *)
theory Kconfig_Update
  imports Kconfig_Default
begin

text \<open>
  Reading a configuration and telling the build what has changed (\<open>conf_read\<close> and
  \<open>conf_split_config\<close> of \<open>scripts/kconfig/confdata.c\<close>). The old values, which the code reads from
  \<open>auto.conf\<close> into \<open>def[S_DEF_AUTO]\<close>, are an argument, and so are whether a warning was printed and
  whether a file can be created.
\<close>

subsection \<open>Reading a configuration\<close>

text \<open>A symbol whose calculated value is not the one that was read.\<close>

definition unsaved_symbol :: "config \<Rightarrow> state \<Rightarrow> symbol \<Rightarrow> bool" where
  "unsaved_symbol cfg st s =
     (let n = node st s in
      if choice_flag cfg s \<or> no_write_flag cfg s then False
      else if user_flag n \<and> write_flag n then
        (if type_of cfg s = S_BOOLEAN \<or> type_of cfg s = S_TRISTATE then user_tri n \<noteq> cur_tri n
         else pointer_text cfg (cur_val n) \<noteq> pointer_text cfg (user_val n))
      else user_flag n \<or> write_flag n)"

fun count_unsaved :: "nat \<Rightarrow> config \<Rightarrow> nat \<Rightarrow> state \<Rightarrow> symbol list \<Rightarrow> (nat \<times> state) option" where
  "count_unsaved depth cfg conf_unsaved st [] = Some (conf_unsaved, st)"
| "count_unsaved depth cfg conf_unsaved st (s # ss) = do {
     st \<leftarrow> sym_calc_value depth cfg st s;
     count_unsaved depth cfg (if unsaved_symbol cfg st s then conf_unsaved + 1 else conf_unsaved) st ss }"

text \<open>User values of invisible symbols are dropped, and those of strings that are out of range.\<close>

definition reset_value :: "nat \<Rightarrow> config \<Rightarrow> nat \<Rightarrow> state \<Rightarrow> symbol \<Rightarrow> (nat \<times> state) option" where
  "reset_value depth cfg conf_unsaved st s =
     (if \<not> user_flag (node st s) \<or> choiceval_flag cfg s then Some (conf_unsaved, st)
      else
        let st = (if visible (node st s) = No \<and> conf_unsaved = 0 then set_node s (\<lambda>n. n\<lparr>user_flag := False\<rparr>) st else st)
        in if type_of cfg s = S_STRING \<or> type_of cfg s = S_INT \<or> type_of cfg s = S_HEX then do {
             (within, st) \<leftarrow> sym_string_within_range depth cfg st s (pointer_text cfg (user_val (node st s)));
             if within then Some (conf_unsaved, st)
             else Some (conf_unsaved + 1, set_node s (\<lambda>n. n\<lparr>valid_flag := False, user_flag := False\<rparr>) st) }
           else Some (conf_unsaved, st))"

fun reset_values :: "nat \<Rightarrow> config \<Rightarrow> nat \<Rightarrow> state \<Rightarrow> symbol list \<Rightarrow> (nat \<times> state) option" where
  "reset_values depth cfg conf_unsaved st [] = Some (conf_unsaved, st)"
| "reset_values depth cfg conf_unsaved st (s # ss) = do {
     (conf_unsaved, st) \<leftarrow> reset_value depth cfg conf_unsaved st s;
     reset_values depth cfg conf_unsaved st ss }"

text \<open>The file, if it can be opened. The first component is the result of the function.\<close>

definition conf_read :: "string \<Rightarrow> nat \<Rightarrow> config \<Rightarrow> table \<Rightarrow> bool \<Rightarrow> state \<Rightarrow> string option \<Rightarrow> (int \<times> state) option" where
  "conf_read prefix depth cfg tab warned st file =
     (let st = st\<lparr>change_count := 0\<rparr> in
      case file of
        None \<Rightarrow> do { st \<leftarrow> sym_calc_value depth cfg st (modules_sym cfg); Some (1, st) }
      | Some text \<Rightarrow> do {
          st \<leftarrow> conf_read_simple prefix cfg tab st text;
          st \<leftarrow> sym_calc_value depth cfg st (modules_sym cfg);
          (conf_unsaved, st) \<leftarrow> count_unsaved depth cfg 0 st (all_symbols cfg);
          (conf_unsaved, st) \<leftarrow> reset_values depth cfg conf_unsaved st (all_symbols cfg);
          Some (0, st\<lparr>change_count := change_count st + (if warned \<or> conf_unsaved \<noteq> 0 then 1 else 0)\<rparr>) })"

subsection \<open>Telling the build\<close>

text \<open>The old value of a symbol, if it has one.\<close>

record old_value =
  auto_flag :: bool
  auto_tri :: tristate
  auto_val :: string

text \<open>Whether the file of a symbol is touched.\<close>

definition value_changed :: "(symbol \<Rightarrow> old_value) \<Rightarrow> config \<Rightarrow> state \<Rightarrow> symbol \<Rightarrow> bool" where
  "value_changed old cfg st s =
     (let n = node st s; a = old s; type = type_of cfg s; tri = (type = S_BOOLEAN \<or> type = S_TRISTATE) in
      if write_flag n then
        (if auto_flag a then
           (if tri then cur_tri n \<noteq> auto_tri a
            else if type = S_STRING \<or> type = S_HEX \<or> type = S_INT then pointer_text cfg (cur_val n) \<noteq> auto_val a
            else True)
         else \<not> (tri \<and> cur_tri n = No))
      else auto_flag a)"

definition tolower :: "char \<Rightarrow> char" where
  "tolower c = (let n = (of_char c :: nat) in if 65 \<le> n \<and> n \<le> 90 then char_of (n + 32) else c)"

definition symbol_path :: "string \<Rightarrow> string" where
  "symbol_path name = map (\<lambda>c. if tolower c = CHR ''_'' then CHR ''/'' else tolower c) name @ ''.h''"

text \<open>The loop: the files touched, and whether one could not be created, where it stops.\<close>

fun touch_changed :: "(string \<Rightarrow> bool) \<Rightarrow> (symbol \<Rightarrow> old_value) \<Rightarrow> nat \<Rightarrow> config \<Rightarrow> state \<Rightarrow> symbol list \<Rightarrow>
    (string list \<times> bool \<times> state) option" where
  "touch_changed create old depth cfg st [] = Some ([], False, st)"
| "touch_changed create old depth cfg st (s # ss) = do {
     st \<leftarrow> sym_calc_value depth cfg st s;
     case name_of cfg s of
       None \<Rightarrow> touch_changed create old depth cfg st ss
     | Some name \<Rightarrow>
         if no_write_flag cfg s \<or> \<not> value_changed old cfg st s then touch_changed create old depth cfg st ss
         else if \<not> create (symbol_path name) then Some ([], True, st)
         else do {
           (paths, failed, st) \<leftarrow> touch_changed create old depth cfg st ss;
           Some (symbol_path name # paths, failed, st) } }"

text \<open>The rest of \<open>conf_split_config\<close> after the old values have been read.\<close>

definition conf_split_config :: "(string \<Rightarrow> bool) \<Rightarrow> (symbol \<Rightarrow> old_value) \<Rightarrow> nat \<Rightarrow> config \<Rightarrow> state \<Rightarrow>
    (string list \<times> bool \<times> state) option" where
  "conf_split_config create old depth cfg st = do {
     st \<leftarrow> sym_calc_value depth cfg st (modules_sym cfg);
     touch_changed create old depth cfg st (all_symbols cfg) }"

subsection \<open>What is touched\<close>

text \<open>The line of a symbol in \<open>auto.conf\<close>, for its value now and for its old value.\<close>

definition auto_line :: "string \<Rightarrow> config \<Rightarrow> symbol \<Rightarrow> string \<Rightarrow> string" where
  "auto_line prefix cfg s v =
     kconfig_print_symbol prefix True (type_of cfg s) (the (name_of cfg s)) (written_text (type_of cfg s) v)"

definition new_line :: "string \<Rightarrow> config \<Rightarrow> state \<Rightarrow> symbol \<Rightarrow> string" where
  "new_line prefix cfg st s =
     (if write_flag (node st s) then auto_line prefix cfg s (sym_get_string_value (symbols_of cfg st) s) else [])"

definition old_line :: "string \<Rightarrow> (symbol \<Rightarrow> old_value) \<Rightarrow> config \<Rightarrow> symbol \<Rightarrow> string" where
  "old_line prefix old cfg s =
     (if auto_flag (old s) then auto_line prefix cfg s
        (if type_of cfg s = S_BOOLEAN \<or> type_of cfg s = S_TRISTATE then string_of_tri (auto_tri (old s)) else auto_val (old s))
      else [])"

lemma written_text_inject: "written_text type v = written_text type w \<longleftrightarrow> v = w"
proof
  assume eq: "written_text type v = written_text type w"
  show "v = w"
  proof (cases "type = S_STRING")
    case True
    then have "unquote (escaped_chars v @ [CHR 0x22]) = unquote (escaped_chars w @ [CHR 0x22])"
      using eq by (simp add: written_text_def sym_escape_string_value_def)
    then show ?thesis by (simp add: unquote_escaped)
  qed (use eq in \<open>simp add: written_text_def\<close>)
qed simp

lemma auto_line_text:
  assumes "type_of cfg s \<notin> {S_BOOLEAN, S_TRISTATE}"
  shows "auto_line prefix cfg s v \<noteq> []" and "[] \<noteq> auto_line prefix cfg s v" and "auto_line prefix cfg s v = auto_line prefix cfg s w \<longleftrightarrow> v = w"
  using assms by (auto simp: auto_line_def kconfig_print_symbol_def written_text_inject)

lemma auto_line_tri:
  assumes "type_of cfg s \<in> {S_BOOLEAN, S_TRISTATE}"
  shows "auto_line prefix cfg s (string_of_tri t) = [] \<longleftrightarrow> t = No"
    and "[] = auto_line prefix cfg s (string_of_tri t) \<longleftrightarrow> t = No"
    and "auto_line prefix cfg s (string_of_tri t) = auto_line prefix cfg s (string_of_tri u) \<longleftrightarrow> t = u"
  using assms by (cases t; cases u; auto simp: auto_line_def kconfig_print_symbol_def written_text_def string_of_tri_def)+


text \<open>Old values as they are saved: nothing is saved for \<open>n\<close>.\<close>

definition old_ok :: "(symbol \<Rightarrow> old_value) \<Rightarrow> config \<Rightarrow> state \<Rightarrow> symbol \<Rightarrow> bool" where
  "old_ok old cfg st s \<longleftrightarrow>
     (type_of cfg s \<in> {S_BOOLEAN, S_TRISTATE} \<and> auto_flag (old s) \<longrightarrow> auto_tri (old s) \<noteq> No) \<and>
     (type_of cfg s \<notin> {S_BOOLEAN, S_TRISTATE, S_STRING, S_INT, S_HEX} \<longrightarrow> \<not> auto_flag (old s) \<and> \<not> write_flag (node st s))"

lemma changed_line:
  assumes env: "env_ok (symbols_of cfg st)" and old: "old_ok old cfg st s"
  shows "value_changed old cfg st s \<longleftrightarrow> new_line prefix cfg st s \<noteq> old_line prefix old cfg s"
proof (cases "type_of cfg s \<in> {S_BOOLEAN, S_TRISTATE}")
  case True
  have "tri_symbol (symbols_of cfg st) s" using True by (simp add: tri_symbol_def symbols_of_def)
  then have "sym_get_string_value (symbols_of cfg st) s = string_of_tri (cur_tri (node st s))"
    using string_value_tri [OF env] by (simp add: symbols_of_def)
  then show ?thesis
    using True old auto_line_tri [OF True, of prefix]
    by (cases "write_flag (node st s)"; cases "auto_flag (old s)")
      (auto simp: value_changed_def Let_def new_line_def old_line_def old_ok_def)
next
  case False
  then have "sym_get_string_value (symbols_of cfg st) s = pointer_text cfg (cur_val (node st s))"
    by (simp add: sym_get_string_value_def symbols_of_def)
  then show ?thesis
    using False old auto_line_text [OF False, of prefix]
    by (cases "write_flag (node st s)"; cases "auto_flag (old s)")
      (auto simp: value_changed_def Let_def new_line_def old_line_def old_ok_def)
qed

lemma touched_calculated:
  "calculated cfg U depth st \<Longrightarrow> set ss \<subseteq> U \<Longrightarrow> (\<And>p. create p) \<Longrightarrow>
    touch_changed create old depth cfg st ss =
      Some (map (\<lambda>s. symbol_path (the (name_of cfg s)))
        (filter (\<lambda>s. name_of cfg s \<noteq> None \<and> \<not> no_write_flag cfg s \<and> value_changed old cfg st s) ss), False, st)"
proof (induction ss)
  case (Cons s ss)
  have "sym_calc_value depth cfg st s = Some st" by (rule calc_calculated) (use Cons.prems in auto)
  then show ?case using Cons by (cases "name_of cfg s") auto
qed simp

subsection \<open>Reading returns\<close>

text \<open>Enough depth, and no marks.\<close>

definition enough :: "config \<Rightarrow> symbol set \<Rightarrow> nat \<Rightarrow> state \<Rightarrow> bool" where
  "enough cfg U depth st \<longleftrightarrow> config_ok cfg U \<and> no_marks st \<and> 3 * card U < depth"

lemma keeps_enough: "keeps cfg U X st st' \<Longrightarrow> enough cfg U depth st \<Longrightarrow> enough cfg U depth st'"
  using keeps_no_marks by (auto simp: enough_def)

lemma enough_ready: "enough cfg U depth st \<Longrightarrow> config_ok cfg U \<and> ready cfg U depth st"
  using ready_deep no_marks_ok by (auto simp: enough_def)

lemma calc_enough: "enough cfg U depth st \<Longrightarrow> s \<in> U \<Longrightarrow> \<exists>st'. sym_calc_value depth cfg st s = Some st' \<and> enough cfg U depth st'"
  using sym_calc_value_ok [of cfg U depth st s] enough_ready keeps_enough by (fastforce elim: state_okE)

lemma range_enough:
  assumes "enough cfg U depth st" and "s \<in> U"
  shows "\<exists>v st'. sym_get_range_val (sym_calc_value depth cfg) cfg st s base = Some (v, st') \<and> enough cfg U depth st'"
  using calc_enough [OF assms] by (auto simp: sym_get_range_val_def)

lemma number_enough:
  assumes e: "enough cfg U depth st" and s: "s \<in> U"
  shows "\<exists>b st'. number_within_range depth cfg st s base str = Some (b, st') \<and> enough cfg U depth st'"
proof (cases "sym_string_valid cfg s str")
  case True
  have U: "config_ok cfg U" and r: "ready cfg U depth st" using enough_ready [OF e] by simp_all
  then have props: "\<forall>p \<in> set (props cfg s). prop_ok cfg U s p" using s by (simp add: config_ok_def symbol_ok_def)
  obtain pr st1 where 1: "sym_get_range_prop (sym_calc_value depth cfg) cfg st s = Some (pr, st1)" "keeps cfg U {} st st1"
    using sym_calc.first_visible_ok [OF U props r, of P_RANGE] unfolding sym_get_range_prop_def by (auto elim: step_okE)
  have e1: "enough cfg U depth st1" by (rule keeps_enough [OF 1(2) e])
  show ?thesis
  proof (cases pr)
    case None
    then show ?thesis using True 1(1) e1 by (auto simp: number_within_range_def)
  next
    case (Some pt)
    obtain p t where pt: "pr = Some (p, t)" using Some by (cases pt) auto
    then have "p \<in> set (props cfg s)" "prop_type p = P_RANGE"
      using first_visible_in 1(1) unfolding sym_get_range_prop_def by blast+
    then obtain left right where b: "left \<in> U" "right \<in> U" "range_bounds p = Some (left, right)"
      using props unfolding prop_ok_def by blast
    obtain low st2 where 2: "sym_get_range_val (sym_calc_value depth cfg) cfg st1 left base = Some (low, st2)" "enough cfg U depth st2"
      using range_enough [OF e1 b(1)] by blast
    obtain high st3 where 3: "sym_get_range_val (sym_calc_value depth cfg) cfg st2 right base = Some (high, st3)" "enough cfg U depth st3"
      using range_enough [OF 2(2) b(2)] by blast
    show ?thesis using True 1(1) pt b(3) 2 3 by (auto simp: number_within_range_def)
  qed
qed (use e in \<open>auto simp: number_within_range_def\<close>)

lemma string_enough:
  assumes "enough cfg U depth st" and "s \<in> U"
  shows "\<exists>b st'. sym_string_within_range depth cfg st s str = Some (b, st') \<and> enough cfg U depth st'"
  using number_enough [OF assms] assms(1) by (cases "type_of cfg s") (auto simp: sym_string_within_range_def)

lemma count_enough:
  "enough cfg U depth st \<Longrightarrow> set ss \<subseteq> U \<Longrightarrow> \<exists>k st'. count_unsaved depth cfg c st ss = Some (k, st') \<and> enough cfg U depth st'"
proof (induction ss arbitrary: c st)
  case (Cons s ss)
  obtain st1 where 1: "sym_calc_value depth cfg st s = Some st1" "enough cfg U depth st1"
    using calc_enough [OF Cons.prems(1), of s] Cons.prems(2) by auto
  then show ?case using Cons.IH [OF 1(2)] Cons.prems(2) by simp
qed simp

lemma reset_enough:
  assumes e: "enough cfg U depth st" and s: "s \<in> U"
  shows "\<exists>k st'. reset_value depth cfg c st s = Some (k, st') \<and> enough cfg U depth st'"
proof -
  define st1 where "st1 = (if visible (node st s) = No \<and> c = 0 then set_node s (\<lambda>n. n\<lparr>user_flag := False\<rparr>) st else st)"
  have marks: "enough cfg U depth (set_node s f st')" if "enough cfg U depth st'" "need_set_flag (f (node st' s)) = need_set_flag (node st' s)" for f st'
    using that by (simp add: enough_def no_marks_def)
  have e1: "enough cfg U depth st1" using e marks by (simp add: st1_def)
  obtain b st2 where 2: "sym_string_within_range depth cfg st1 s (pointer_text cfg (user_val (node st1 s))) = Some (b, st2)" "enough cfg U depth st2"
    using string_enough [OF e1 s] by blast
  show ?thesis
    using 2 e e1 marks [OF 2(2)] unfolding reset_value_def st1_def [symmetric] by (simp add: Let_def)
qed

lemma resets_enough:
  "enough cfg U depth st \<Longrightarrow> set ss \<subseteq> U \<Longrightarrow> \<exists>k st'. reset_values depth cfg c st ss = Some (k, st') \<and> enough cfg U depth st'"
proof (induction ss arbitrary: c st)
  case (Cons s ss)
  obtain k st1 where 1: "reset_value depth cfg c st s = Some (k, st1)" "enough cfg U depth st1"
    using reset_enough [OF Cons.prems(1), of s c] Cons.prems(2) by auto
  then show ?case using Cons.IH [OF 1(2), of k] Cons.prems(2) by simp
qed simp

text \<open>\<open>conf_read\<close> returns when the lines can be read, and its counter is 0 or 1 more than after that.\<close>

lemma conf_read_returns:
  assumes e: "config_ok cfg U" "3 * card U < depth" "set (all_symbols cfg) \<subseteq> U"
    and read: "conf_read_simple prefix cfg tab (st\<lparr>change_count := 0\<rparr>) text = Some st1" "no_marks st1"
  shows "\<exists>st'. conf_read prefix depth cfg tab warned st (Some text) = Some (0, st')"
proof -
  have e1: "enough cfg U depth st1" using e read(2) by (simp add: enough_def)
  have "modules_sym cfg \<in> U" using e(1) by (simp add: config_ok_def)
  then obtain st2 where 2: "sym_calc_value depth cfg st1 (modules_sym cfg) = Some st2" "enough cfg U depth st2"
    using calc_enough [OF e1] by blast
  obtain k st3 where 3: "count_unsaved depth cfg 0 st2 (all_symbols cfg) = Some (k, st3)" "enough cfg U depth st3"
    using count_enough [OF 2(2) e(3)] by blast
  obtain k' st4 where "reset_values depth cfg k st3 (all_symbols cfg) = Some (k', st4)"
    using resets_enough [OF 3(2) e(3)] by blast
  then show ?thesis using read(1) 2(1) 3(1) by (simp add: conf_read_def)
qed

subsection \<open>Properties\<close>


text \<open>\<open>FOO\<close> was \<open>y\<close> and is \<open>m\<close>, \<open>NUM\<close> keeps its value, \<open>MODULES\<close> is new.\<close>

definition example_old :: "symbol \<Rightarrow> old_value" where
  "example_old s = \<lparr>auto_flag = (s = Symbol 1 \<or> s = Symbol 2), auto_tri = Yes, auto_val = ''2''\<rparr>"

definition example_new :: state where
  "example_new =
     \<lparr>node = (\<lambda>s. if s = symbol_yes then constant_node Yes ''y'' else if s = symbol_mod then constant_node Mod ''m''
        else if s = symbol_no then constant_node No ''n''
        else if s = Symbol 0 then (constant_node Yes ''n'')\<lparr>write_flag := True\<rparr>
        else if s = Symbol 1 then (constant_node Mod ''n'')\<lparr>write_flag := True\<rparr>
        else if s = Symbol 2 then (constant_node No ''2'')\<lparr>write_flag := True\<rparr> else constant_node No []),
      modules_val = Yes, change_count = 0\<rparr>"

lemma example_new_ok:
  "calculated example_config example_symbols 16 example_new" "env_ok (symbols_of example_config example_new)"
  "s \<in> set (all_symbols example_config) \<Longrightarrow> old_ok example_old example_config example_new s"
proof -
  show "calculated example_config example_symbols 16 example_new"
    using example_config_ok example_small
    by (simp add: calculated_def evaluable_def no_marks_def modules_current_def example_new_def constant_node_def unset_node_def
        example_config_def)
  show "env_ok (symbols_of example_config example_new)"
    by (auto simp: env_ok_def symbols_of_def example_new_def example_config_def constant_node_def unset_node_def
        example_type_def pointer_text_def)
  show "s \<in> set (all_symbols example_config) \<Longrightarrow> old_ok example_old example_config example_new s"
    by (auto simp: old_ok_def example_old_def example_config_def example_type_def example_new_def constant_node_def unset_node_def)
qed


end
