(* ===== verification/Kconfig_Random.thy ===== *)
theory Kconfig_Random
  imports Kconfig_Reload
begin

text \<open>
  New values for all symbols that have none (\<open>conf_set_all_new_symbols\<close> of
  \<open>scripts/kconfig/confdata.c\<close>), as \<open>allyesconfig\<close>, \<open>allmodconfig\<close>, \<open>allnoconfig\<close> and
  \<open>randconfig\<close> want them. The numbers \<open>rand\<close> returns and the environment are arguments.
\<close>

subsection \<open>The code\<close>

datatype conf_def_mode = def_default | def_yes | def_mod | def_no | def_random

record probability =
  pby :: int
  pty :: int
  ptm :: int

text \<open>
  One number of \<open>KCONFIG_PROBABILITY\<close> and what follows it, for a \<open>long\<close> of 64 bits; the number is
  stored as an \<open>int\<close>.
\<close>

definition strtol_int :: "string \<Rightarrow> int \<times> string" where
  "strtol_int s = (sint (word_of_int (strtoll 10 s) :: 32 word), snd (snd (scan_number 10 s)))"

fun numbers :: "nat \<Rightarrow> string \<Rightarrow> int list option" where
  "numbers 0 env = Some []"
| "numbers (Suc n) env =
     (if env = [] then Some []
      else
        let (tmp, endp) = strtol_int env in
        if \<not> (0 \<le> tmp \<and> tmp \<le> 100) then None
        else map_option ((#) tmp) (numbers n (if endp \<noteq> [] \<and> hd endp = CHR '':'' then tl endp else endp)))"

text \<open>\<^term>\<open>None\<close> is the end of the program with an error.\<close>

definition probabilities :: "string option \<Rightarrow> probability option" where
  "probabilities env = do {
     p \<leftarrow> (case env of None \<Rightarrow> Some [] | Some s \<Rightarrow> numbers 3 s);
     let q = (case p of
         [a] \<Rightarrow> \<lparr>pby = a, pty = a - a div 2, ptm = a div 2\<rparr>
       | [a, b] \<Rightarrow> \<lparr>pby = a + b, pty = a, ptm = b\<rparr>
       | [a, b, c] \<Rightarrow> \<lparr>pby = a, pty = b, ptm = c\<rparr>
       | _ \<Rightarrow> \<lparr>pby = 50, pty = 33, ptm = 33\<rparr>);
     if pty q + ptm q > 100 then None else Some q }"

text \<open>The value of a random number; \<open>rands\<close> are the numbers still to come.\<close>

definition random_tristate :: "probability \<Rightarrow> config \<Rightarrow> symbol \<Rightarrow> nat \<Rightarrow> tristate" where
  "random_tristate prob cfg s r =
     (let cnt = int (r mod 100) in
      if type_of cfg s = S_TRISTATE then
        (if cnt < pty prob then Yes else if cnt < pty prob + ptm prob then Mod else No)
      else if cnt < pby prob then Yes else No)"

definition new_value :: "conf_def_mode \<Rightarrow> (symbol \<Rightarrow> bool) \<Rightarrow> probability \<Rightarrow> config \<Rightarrow> symbol \<Rightarrow> nat list \<Rightarrow>
    (tristate option \<times> nat list) option" where
  "new_value mode allnoconfig_y prob cfg s rands =
     (case mode of
        def_yes \<Rightarrow> Some (Some Yes, rands)
      | def_mod \<Rightarrow> Some (Some Mod, rands)
      | def_no \<Rightarrow> Some (Some (if allnoconfig_y s then Yes else No), rands)
      | def_random \<Rightarrow> (case rands of [] \<Rightarrow> None | r # rs \<Rightarrow> Some (Some (random_tristate prob cfg s r), rs))
      | def_default \<Rightarrow> Some (None, rands))"

fun set_new :: "conf_def_mode \<Rightarrow> (symbol \<Rightarrow> bool) \<Rightarrow> probability \<Rightarrow> config \<Rightarrow> bool \<Rightarrow> state \<Rightarrow> nat list \<Rightarrow> symbol list \<Rightarrow>
    (bool \<times> state \<times> nat list) option" where
  "set_new mode ally prob cfg has_changed st rands [] = Some (has_changed, st, rands)"
| "set_new mode ally prob cfg has_changed st rands (s # ss) =
     (if user_flag (node st s) \<or> valid_flag (node st s) \<or> sym_get_type cfg st s \<notin> {S_BOOLEAN, S_TRISTATE}
      then set_new mode ally prob cfg has_changed st rands ss
      else do {
        (v, rands) \<leftarrow> new_value mode ally prob cfg s rands;
        let st = (case v of
            None \<Rightarrow> st
          | Some t \<Rightarrow> set_node s (\<lambda>n. n\<lparr>user_tri := t,
              user_flag := user_flag n \<or> \<not> (choice_flag cfg s \<and> mode = def_random)\<rparr>) st);
        set_new mode ally prob cfg True st rands ss })"

fun pick_value :: "symbol \<Rightarrow> nat \<Rightarrow> nat \<Rightarrow> state \<Rightarrow> symbol list \<Rightarrow> state" where
  "pick_value csym chosen cnt st [] = st"
| "pick_value csym chosen cnt st (v # vs) =
     (let st = set_node v (\<lambda>n. n\<lparr>user_tri := if chosen = cnt then Yes else No\<rparr>) st;
          st = (if chosen = cnt then set_node csym (\<lambda>n. n\<lparr>user_val := Pointed v\<rparr>) st else st)
      in pick_value csym chosen (cnt + 1) (set_node v (\<lambda>n. n\<lparr>user_flag := True, valid_flag := False\<rparr>) st) vs)"

text \<open>An empty choice divides by zero.\<close>

definition randomize_choice_values :: "config \<Rightarrow> state \<Rightarrow> nat list \<Rightarrow> symbol \<Rightarrow> (bool \<times> state \<times> nat list) option" where
  "randomize_choice_values cfg st rands csym =
     (if cur_tri (node st csym) \<noteq> Yes then Some (False, st, rands)
      else do {
        ss \<leftarrow> choice_values cfg csym;
        case rands of
          [] \<Rightarrow> None
        | r # rs \<Rightarrow>
            if ss = [] then None
            else Some (True, set_node csym (\<lambda>n. n\<lparr>user_flag := True, valid_flag := False\<rparr>)
              (pick_value csym (r mod length ss) 0 st ss), rs) })"

definition mark_choices :: "config \<Rightarrow> state \<Rightarrow> symbol list \<Rightarrow> state" where
  "mark_choices cfg st ss = fold (\<lambda>s st. if choice_flag cfg s \<and> \<not> user_flag (node st s) \<or> choiceval_flag cfg s
     then set_node s (\<lambda>n. n\<lparr>need_set_flag := True\<rparr>) st else st) ss st"

fun set_choices :: "conf_def_mode \<Rightarrow> nat \<Rightarrow> config \<Rightarrow> bool \<Rightarrow> state \<Rightarrow> nat list \<Rightarrow> symbol list \<Rightarrow> (bool \<times> state \<times> nat list) option" where
  "set_choices mode depth cfg has_changed st rands [] = Some (has_changed, st, rands)"
| "set_choices mode depth cfg has_changed st rands (s # ss) =
     (if user_flag (node st s) \<or> \<not> choice_flag cfg s then set_choices mode depth cfg has_changed st rands ss
      else do {
        st \<leftarrow> sym_calc_value depth cfg st s;
        (has_changed, st, rands) \<leftarrow>
          (if mode = def_random then randomize_choice_values cfg st rands s
           else do { st \<leftarrow> set_all_choice_values cfg st s; Some (True, st, rands) });
        set_choices mode depth cfg has_changed st rands ss })"

text \<open>The left of the sum is the end of the program.\<close>

definition conf_set_all_new_symbols :: "conf_def_mode \<Rightarrow> (symbol \<Rightarrow> bool) \<Rightarrow> string option \<Rightarrow> nat \<Rightarrow> config \<Rightarrow> state \<Rightarrow> nat list \<Rightarrow>
    (unit + bool \<times> state \<times> nat list) option" where
  "conf_set_all_new_symbols mode ally env depth cfg st rands =
     (case (if mode = def_random then probabilities env else Some \<lparr>pby = 50, pty = 33, ptm = 33\<rparr>) of
        None \<Rightarrow> Some (Inl ())
      | Some prob \<Rightarrow> do {
          (has_changed, st, rands) \<leftarrow> set_new mode ally prob cfg False st rands (all_symbols cfg);
          st \<leftarrow> sym_clear_all_valid depth cfg st;
          res \<leftarrow> set_choices mode depth cfg has_changed
            (if mode \<noteq> def_random then mark_choices cfg st (all_symbols cfg) else st) rands (all_symbols cfg);
          Some (Inr res) })"

subsection \<open>Probabilities\<close>

lemma numbers_range: "numbers n env = Some p \<Longrightarrow> (\<forall>x \<in> set p. 0 \<le> x \<and> x \<le> 100) \<and> length p \<le> n"
proof (induction n arbitrary: env p)
  case (Suc n)
  then show ?case by (cases "env = []") (auto simp: Let_def split: prod.splits if_splits)
qed simp

lemma probabilities_bounded:
  assumes "probabilities env = Some q"
  shows "0 \<le> pby q \<and> pby q \<le> 100 \<and> 0 \<le> pty q \<and> 0 \<le> ptm q \<and> pty q + ptm q \<le> 100"
proof -
  obtain p where p: "(case env of None \<Rightarrow> Some [] | Some s \<Rightarrow> numbers 3 s) = Some p" using assms
    by (cases "case env of None \<Rightarrow> Some [] | Some s \<Rightarrow> numbers 3 s") (auto simp: probabilities_def)
  then have r: "\<forall>x \<in> set p. 0 \<le> x \<and> x \<le> 100" using numbers_range by (cases env) force+
  have q: "q = (case p of
         [a] \<Rightarrow> \<lparr>pby = a, pty = a - a div 2, ptm = a div 2\<rparr>
       | [a, b] \<Rightarrow> \<lparr>pby = a + b, pty = a, ptm = b\<rparr>
       | [a, b, c] \<Rightarrow> \<lparr>pby = a, pty = b, ptm = c\<rparr>
       | _ \<Rightarrow> \<lparr>pby = 50, pty = 33, ptm = 33\<rparr>)" and le: "pty q + ptm q \<le> 100"
    using assms p by (auto simp: probabilities_def Let_def split: if_splits)
  show ?thesis using q le r by (auto split: list.splits)
qed

subsection \<open>A random choice\<close>

lemma pick_others: "w \<notin> set ss \<Longrightarrow> w \<noteq> csym \<Longrightarrow> node (pick_value csym chosen cnt st ss) w = node st w"
  by (induction ss arbitrary: cnt st) (simp_all add: Let_def)

lemma pick_values:
  "distinct ss \<Longrightarrow> csym \<notin> set ss \<Longrightarrow> i < length ss \<Longrightarrow>
    user_tri (node (pick_value csym chosen cnt st ss) (ss ! i)) = (if chosen = cnt + i then Yes else No) \<and>
    user_flag (node (pick_value csym chosen cnt st ss) (ss ! i)) \<and>
    \<not> valid_flag (node (pick_value csym chosen cnt st ss) (ss ! i))"
proof (induction ss arbitrary: cnt st i)
  case (Cons v vs)
  then show ?case by (cases i) (auto simp: Let_def pick_others)
qed simp

lemma pick_chosen:
  "csym \<notin> set ss \<Longrightarrow> user_val (node (pick_value csym chosen cnt st ss) csym) =
    (if cnt \<le> chosen \<and> chosen < cnt + length ss then Pointed (ss ! (chosen - cnt)) else user_val (node st csym))"
proof (induction ss arbitrary: cnt st)
  case (Cons v vs)
  then show ?case by (cases "chosen = cnt") (auto simp: Let_def nth_Cons' Suc_diff_le)
qed auto

text \<open>A random choice has exactly one value that is \<open>y\<close>, and the choice points to it.\<close>

lemma random_choice_one:
  assumes "randomize_choice_values cfg st rands csym = Some (True, st', rands')"
    and "choice_values cfg csym = Some ss" and "distinct ss" and "csym \<notin> set ss"
  shows "\<exists>v \<in> set ss. user_val (node st' csym) = Pointed v \<and>
    (\<forall>w \<in> set ss. user_tri (node st' w) = (if w = v then Yes else No) \<and> user_flag (node st' w) \<and> \<not> valid_flag (node st' w))"
proof -
  obtain r rs where r: "rands = r # rs" "ss \<noteq> []" "cur_tri (node st csym) = Yes"
    using assms(1,2) by (auto simp: randomize_choice_values_def split: if_splits list.splits)
  define k where "k = r mod length ss"
  have k: "k < length ss" using r(2) by (simp add: k_def)
  have st': "st' = set_node csym (\<lambda>n. n\<lparr>user_flag := True, valid_flag := False\<rparr>) (pick_value csym k 0 st ss)"
    using assms(1,2) r by (simp add: randomize_choice_values_def k_def)
  have "user_tri (node st' w) = (if w = ss ! k then Yes else No) \<and> user_flag (node st' w) \<and> \<not> valid_flag (node st' w)"
    if w: "w \<in> set ss" for w
  proof -
    obtain i where i: "i < length ss" "w = ss ! i" using w by (auto simp: in_set_conv_nth)
    have "w \<noteq> csym" using w assms(4) by blast
    then show ?thesis
      using pick_values [OF assms(3,4) i(1), of k 0 st] i nth_eq_iff_index_eq [OF assms(3) i(1) k] by (auto simp: st')
  qed
  moreover have "user_val (node st' csym) = Pointed (ss ! k)"
    using pick_chosen [OF assms(4), of k 0 st] k by (simp add: st')
  ultimately show ?thesis using k by (intro bexI [of _ "ss ! k"]) auto
qed

text \<open>
  The result tells whether a value was set, but each choice overwrites it: here a new value is set for
  symbol 2, and the choice, which is not \<open>y\<close>, makes the result \<open>False\<close>.
\<close>

definition random_config :: config where
  "random_config =
     \<lparr>type_of = (\<lambda>_. S_BOOLEAN), name_of = (\<lambda>_. None), const_flag = (\<lambda>_. False),
      choice_flag = (\<lambda>s. s = Symbol 0), choiceval_flag = (\<lambda>s. s = Symbol 1), no_write_flag = (\<lambda>_. False),
      props = (\<lambda>s. if s = Symbol 0 then [(plain_property P_CHOICE)\<lparr>prop_expr := Some (E_LIST [Symbol 1])\<rparr>]
        else if s = Symbol 1 then [(plain_property P_CHOICE)\<lparr>prop_expr := Some (E_SYMBOL (Symbol 0))\<rparr>] else []),
      dir_dep_expr = (\<lambda>_. None), rev_dep_expr = (\<lambda>_. None), implied_expr = (\<lambda>_. None),
      modules_sym = Symbol 2, all_symbols = [Symbol 0, Symbol 1, Symbol 2], text_at = (\<lambda>_. [])\<rparr>"

theorem change_forgotten:
  "map_option (\<lambda>res. case res of Inl _ \<Rightarrow> None | Inr (changed, st, _) \<Rightarrow> Some (changed, user_flag (node st (Symbol 2)), user_tri (node st (Symbol 2))))
     (conf_set_all_new_symbols def_random (\<lambda>_. False) None 2 random_config example_state [70, 60, 10]) =
   Some (Some (False, True, Yes))"
  by (simp add: conf_set_all_new_symbols_def probabilities_def random_config_def example_state_def unset_node_def constant_node_def
      new_value_def random_tristate_def sym_get_type_def sym_clear_all_valid_def clear_valid_def numeral_2_eq_2 plain_property_def
      calc_marked_def start_value_def calc_typed_def sym_calc_visibility_def calc_visible_def calc_dir_dep_def calc_rev_dep_def
      calc_implied_def calc_expr_or_def mod_to_yes_def boolean_now_def set_curr_def set_write_def calc_tristate_def default_tristate_def
      sym_get_default_prop_def store_value_def store_choice_def sym_validate_range_def pass_on_def note_modules_def
      randomize_choice_values_def EXPR_OR_def choice_values_def sym_get_choice_prop_def Let_def)

end
