(* ===== verification/Md4.thy ===== *)
theory Md4
  imports Alias_Format
begin

text \<open>
  The message digest of \<open>scripts/mod/sumversion.c\<close>: contexts with their block as bytes, the
  update with data in pieces, the padding, and its text form. \<open>big\<close> says that the build host is
  big-endian; the conversions of the code depend on it.
\<close>

type_synonym u64 = "64 word"

subsection \<open>Rounds\<close>

definition lshift :: "u32 \<Rightarrow> nat \<Rightarrow> u32" where
  "lshift x s = push_bit s x AND 0xFFFFFFFF OR drop_bit (32 - s) (x AND 0xFFFFFFFF)"

definition F :: "u32 \<Rightarrow> u32 \<Rightarrow> u32 \<Rightarrow> u32" where
  "F x y z = (x AND y) OR (NOT x AND z)"

definition G :: "u32 \<Rightarrow> u32 \<Rightarrow> u32 \<Rightarrow> u32" where
  "G x y z = (x AND y) OR (x AND z) OR (y AND z)"

definition H :: "u32 \<Rightarrow> u32 \<Rightarrow> u32 \<Rightarrow> u32" where
  "H x y z = x XOR y XOR z"

definition ROUND1 :: "u32 \<Rightarrow> u32 \<Rightarrow> u32 \<Rightarrow> u32 \<Rightarrow> u32 \<Rightarrow> nat \<Rightarrow> u32" where
  "ROUND1 a b c d k s = lshift (a + F b c d + k) s"

definition ROUND2 :: "u32 \<Rightarrow> u32 \<Rightarrow> u32 \<Rightarrow> u32 \<Rightarrow> u32 \<Rightarrow> nat \<Rightarrow> u32" where
  "ROUND2 a b c d k s = lshift (a + G b c d + k + 0x5A827999) s"

definition ROUND3 :: "u32 \<Rightarrow> u32 \<Rightarrow> u32 \<Rightarrow> u32 \<Rightarrow> u32 \<Rightarrow> nat \<Rightarrow> u32" where
  "ROUND3 a b c d k s = lshift (a + H b c d + k + 0x6ED9EBA1) s"

definition md4_transform :: "u32 list \<Rightarrow> u32 list \<Rightarrow> u32 list" where
  "md4_transform hash inp =
     (let a = hash ! 0; b = hash ! 1; c = hash ! 2; d = hash ! 3;
          a = ROUND1 a b c d (inp ! 0) 3;
          d = ROUND1 d a b c (inp ! 1) 7;
          c = ROUND1 c d a b (inp ! 2) 11;
          b = ROUND1 b c d a (inp ! 3) 19;
          a = ROUND1 a b c d (inp ! 4) 3;
          d = ROUND1 d a b c (inp ! 5) 7;
          c = ROUND1 c d a b (inp ! 6) 11;
          b = ROUND1 b c d a (inp ! 7) 19;
          a = ROUND1 a b c d (inp ! 8) 3;
          d = ROUND1 d a b c (inp ! 9) 7;
          c = ROUND1 c d a b (inp ! 10) 11;
          b = ROUND1 b c d a (inp ! 11) 19;
          a = ROUND1 a b c d (inp ! 12) 3;
          d = ROUND1 d a b c (inp ! 13) 7;
          c = ROUND1 c d a b (inp ! 14) 11;
          b = ROUND1 b c d a (inp ! 15) 19;
          a = ROUND2 a b c d (inp ! 0) 3;
          d = ROUND2 d a b c (inp ! 4) 5;
          c = ROUND2 c d a b (inp ! 8) 9;
          b = ROUND2 b c d a (inp ! 12) 13;
          a = ROUND2 a b c d (inp ! 1) 3;
          d = ROUND2 d a b c (inp ! 5) 5;
          c = ROUND2 c d a b (inp ! 9) 9;
          b = ROUND2 b c d a (inp ! 13) 13;
          a = ROUND2 a b c d (inp ! 2) 3;
          d = ROUND2 d a b c (inp ! 6) 5;
          c = ROUND2 c d a b (inp ! 10) 9;
          b = ROUND2 b c d a (inp ! 14) 13;
          a = ROUND2 a b c d (inp ! 3) 3;
          d = ROUND2 d a b c (inp ! 7) 5;
          c = ROUND2 c d a b (inp ! 11) 9;
          b = ROUND2 b c d a (inp ! 15) 13;
          a = ROUND3 a b c d (inp ! 0) 3;
          d = ROUND3 d a b c (inp ! 8) 9;
          c = ROUND3 c d a b (inp ! 4) 11;
          b = ROUND3 b c d a (inp ! 12) 15;
          a = ROUND3 a b c d (inp ! 2) 3;
          d = ROUND3 d a b c (inp ! 10) 9;
          c = ROUND3 c d a b (inp ! 6) 11;
          b = ROUND3 b c d a (inp ! 14) 15;
          a = ROUND3 a b c d (inp ! 1) 3;
          d = ROUND3 d a b c (inp ! 9) 9;
          c = ROUND3 c d a b (inp ! 5) 11;
          b = ROUND3 b c d a (inp ! 13) 15;
          a = ROUND3 a b c d (inp ! 3) 3;
          d = ROUND3 d a b c (inp ! 11) 9;
          c = ROUND3 c d a b (inp ! 7) 11;
          b = ROUND3 b c d a (inp ! 15) 15
      in [hash ! 0 + a, hash ! 1 + b, hash ! 2 + c, hash ! 3 + d])"

text \<open>A chain of assignments commutes with what is done to its result.\<close>

lemma let_float: "f (Let e t) = Let e (\<lambda>x. f (t x))"
  by (simp add: Let_def)

lemma let_unused: "Let e (\<lambda>x. t) = t"
  by (simp add: Let_def)

lemma length_md4_transform [simp]: "length (md4_transform hash inp) = 4"
  unfolding md4_transform_def by (simp only: let_float [of length] let_unused list.size)

subsection \<open>Words in memory\<close>

text \<open>A word from its bytes, the most significant first, and back.\<close>

definition be_word :: "u8 list \<Rightarrow> u32" where
  "be_word bs = foldl (\<lambda>w b. push_bit 8 w OR ucast b) 0 bs"

definition be_bytes :: "u32 \<Rightarrow> u8 list" where
  "be_bytes w = [ucast (drop_bit 24 w), ucast (drop_bit 16 w), ucast (drop_bit 8 w), ucast w]"

lemma be_word_4: "be_word [p, q, r, s] =
  push_bit 24 (ucast p) OR push_bit 16 (ucast q) OR push_bit 8 (ucast r) OR ucast s"
  by (rule bit_word_eqI) (auto simp: be_word_def bit_simps)

lemma bit_u8: "8 \<le> n \<Longrightarrow> \<not> bit (b :: u8) n"
  using bit_imp_le_length [of b n] by auto

lemma bit_be_word: "bit (be_word [p, q, r, s]) n \<longleftrightarrow>
  (if n < 8 then bit s n else if n < 16 then bit r (n - 8) else if n < 24 then bit q (n - 16)
   else bit p (n - 24))"
proof -
  consider "n < 8" | "8 \<le> n" "n < 16" | "16 \<le> n" "n < 24" | "24 \<le> n" "n < 32" | "32 \<le> n" by linarith
  then show ?thesis
    by cases (auto simp: be_word_4 bit_simps bit_u8)
qed

lemma be_word_bytes [simp]: "be_word (be_bytes w) = w"
proof (rule bit_word_eqI)
  fix n assume "n < LENGTH(32)"
  then consider "n < 8" | "8 \<le> n" "n < 16" | "16 \<le> n" "n < 24" | "24 \<le> n" "n < 32" by fastforce
  then show "bit (be_word (be_bytes w)) n = bit w n"
    unfolding be_bytes_def bit_be_word by cases (auto simp: bit_simps)
qed

lemma be_bytes_word [simp]: "length bs = 4 \<Longrightarrow> be_bytes (be_word bs) = bs"
proof -
  assume "length bs = 4"
  then obtain p q r s where bs: "bs = [p, q, r, s]"
    by (auto simp: eval_nat_numeral length_Suc_conv)
  have "ucast (drop_bit 24 (be_word bs)) = p" "ucast (drop_bit 16 (be_word bs)) = q"
    "ucast (drop_bit 8 (be_word bs)) = r" "ucast (be_word bs) = s"
    unfolding bs by (rule bit_word_eqI; simp add: bit_simps bit_be_word)+
  then show ?thesis unfolding be_bytes_def by (simp add: bs)
qed

lemma length_be_bytes [simp]: "length (be_bytes w) = 4"
  by (simp add: be_bytes_def)

definition bswap :: "u32 \<Rightarrow> u32" where
  "bswap w = be_word (rev (be_bytes w))"

definition ntohl :: "bool \<Rightarrow> u32 \<Rightarrow> u32" where
  "ntohl big w = (if big then w else bswap w)"

definition host_bytes :: "bool \<Rightarrow> u32 \<Rightarrow> u8 list" where
  "host_bytes big w = (if big then be_bytes w else rev (be_bytes w))"

text \<open>\<open>buf[i]\<close> read and written as a word of the host.\<close>

definition load :: "bool \<Rightarrow> u8 list \<Rightarrow> nat \<Rightarrow> u32" where
  "load big buf i = (let bs = take 4 (drop (4 * i) buf) in be_word (if big then bs else rev bs))"

definition store :: "bool \<Rightarrow> u8 list \<Rightarrow> nat \<Rightarrow> u32 \<Rightarrow> u8 list" where
  "store big buf i w = take (4 * i) buf @ host_bytes big w @ drop (4 * i + 4) buf"

definition le32_to_cpu_array :: "bool \<Rightarrow> u8 list \<Rightarrow> nat \<Rightarrow> u8 list" where
  "le32_to_cpu_array big buf n = foldl (\<lambda>buf i. store big buf i (ntohl big (load big buf i))) buf [0..<n]"

definition words :: "bool \<Rightarrow> u8 list \<Rightarrow> u32 list" where
  "words big buf = map (load big buf) [0..<16]"

text \<open>\<open>memset(&buf[off], v, n)\<close>.\<close>

definition memset_at :: "u8 list \<Rightarrow> nat \<Rightarrow> u8 \<Rightarrow> int \<Rightarrow> u8 list option" where
  "memset_at buf off v n =
     (if 0 \<le> n \<and> off + nat n \<le> length buf
      then Some (take off buf @ replicate (nat n) v @ drop (off + nat n) buf) else None)"

subsection \<open>Contexts\<close>

record md4_ctx =
  hash :: "u32 list"
  block :: "u8 list"
  byte_count :: u64

definition md4_transform_helper :: "bool \<Rightarrow> md4_ctx \<Rightarrow> md4_ctx" where
  "md4_transform_helper big ctx =
     (let b = le32_to_cpu_array big (block ctx) 16
      in ctx\<lparr>block := b, hash := md4_transform (hash ctx) (words big b)\<rparr>)"

definition md4_init :: "md4_ctx \<Rightarrow> md4_ctx" where
  "md4_init mctx = mctx\<lparr>hash := [0x67452301, 0xefcdab89, 0x98badcfe, 0x10325476], byte_count := 0\<rparr>"

text \<open>The loop over whole blocks and the copy of the rest.\<close>

function md4_blocks :: "bool \<Rightarrow> md4_ctx \<Rightarrow> u8 list \<Rightarrow> md4_ctx option" where
  "md4_blocks big mctx data =
     (if length data \<ge> 64 then
        do { b \<leftarrow> memcpy (block mctx) 0 data 0 64;
             md4_blocks big (md4_transform_helper big (mctx\<lparr>block := b\<rparr>)) (drop 64 data) }
      else
        do { b \<leftarrow> memcpy (block mctx) 0 data 0 (int (length data)); Some (mctx\<lparr>block := b\<rparr>) })"
  by pat_completeness auto
termination by (relation "measure (\<lambda>(big, mctx, data). length data)") auto

declare md4_blocks.simps [simp del]

definition md4_update :: "bool \<Rightarrow> md4_ctx \<Rightarrow> u8 list \<Rightarrow> md4_ctx option" where
  "md4_update big mctx data =
     (let avail = 64 - unat (byte_count mctx AND 0x3f);
          len = length data;
          mctx = mctx\<lparr>byte_count := byte_count mctx + of_nat len\<rparr> in
      if avail > len then
        do { b \<leftarrow> memcpy (block mctx) (64 - int avail) data 0 (int len); Some (mctx\<lparr>block := b\<rparr>) }
      else
        do { b \<leftarrow> memcpy (block mctx) (64 - int avail) data 0 (int avail);
             md4_blocks big (md4_transform_helper big (mctx\<lparr>block := b\<rparr>)) (drop avail data) })"

text \<open>The text of four words, and what \<open>snprintf\<close> keeps of it.\<close>

definition hash_text :: "bool \<Rightarrow> u32 list \<Rightarrow> string" where
  "hash_text big ws = concat (map (\<lambda>w. printf_0hex True 8 (unat (ntohl big w))) ws)"

definition md4_final_ascii :: "bool \<Rightarrow> md4_ctx \<Rightarrow> nat \<Rightarrow> string option" where
  "md4_final_ascii big mctx len =
     (let offset = unat (byte_count mctx AND 0x3f);
          padding = 56 - (int offset + 1) in
      do { b \<leftarrow> poke (block mctx) (int offset) 0x80;
           (mctx, p, padding) \<leftarrow>
             (if padding < 0 then
                do { b \<leftarrow> memset_at b (offset + 1) 0 (padding + 8);
                     Some (md4_transform_helper big (mctx\<lparr>block := b\<rparr>), 0, 56) }
              else Some (mctx\<lparr>block := b\<rparr>, offset + 1, padding));
           b \<leftarrow> memset_at (block mctx) p 0 padding;
           let b = store big b 14 (ucast (push_bit 3 (byte_count mctx)));
               b = store big b 15 (ucast (drop_bit 29 (byte_count mctx)));
               b = le32_to_cpu_array big b 14
           in Some (take (len - 1) (hash_text big (md4_transform (hash mctx) (words big b)))) })"

subsection \<open>Conversions\<close>

definition word_at :: "u8 list \<Rightarrow> nat \<Rightarrow> u32" where
  "word_at buf i = be_word (take 4 (drop (4 * i) buf))"

lemma length_store [simp]: "4 * i + 4 \<le> length buf \<Longrightarrow> length (store big buf i w) = length buf"
  by (simp add: store_def host_bytes_def)

lemma bytes_store_same: "4 * i + 4 \<le> length buf \<Longrightarrow> take 4 (drop (4 * i) (store big buf i w)) = host_bytes big w"
  by (simp add: store_def host_bytes_def)

lemma bytes_store_other:
  assumes "4 * i + 4 \<le> length buf" and "i \<noteq> j"
  shows "take 4 (drop (4 * j) (store big buf i w)) = take 4 (drop (4 * j) buf)"
proof (cases "j < i")
  case True
  then have "4 * j + 4 \<le> 4 * i" by simp
  then have "take 4 (drop (4 * j) (take (4 * i) buf)) = take 4 (drop (4 * j) buf)"
    by (simp add: drop_take min_def)
  moreover have "4 \<le> length (drop (4 * j) (take (4 * i) buf))" using \<open>4 * j + 4 \<le> 4 * i\<close> assms(1) by simp
  ultimately show ?thesis using \<open>4 * j + 4 \<le> 4 * i\<close> assms(1) by (simp add: store_def)
next
  case False
  then obtain k where k: "j = i + 1 + k" using assms(2) by (metis add.assoc less_imp_add_positive linorder_neqE_nat
        Suc_eq_plus1_left Suc_pred)
  have "drop (4 * j) (store big buf i w) = drop (4 * k) (drop (4 * i + 4) buf)"
    using assms(1) by (simp add: store_def host_bytes_def k algebra_simps)
  then show ?thesis by (simp add: k algebra_simps)
qed

lemma load_store: "4 * i + 4 \<le> length buf \<Longrightarrow> load big (store big buf i w) j = (if j = i then w else load big buf j)"
  by (auto simp: load_def Let_def bytes_store_same bytes_store_other) (auto simp: host_bytes_def)

lemma word_at_store: "4 * i + 4 \<le> length buf \<Longrightarrow> i \<noteq> j \<Longrightarrow> word_at (store big buf i w) j = word_at buf j"
  by (simp add: word_at_def bytes_store_other)

lemma ntohl_load: "4 * i + 4 \<le> length buf \<Longrightarrow> ntohl big (load big buf i) = word_at buf i"
  by (simp add: ntohl_def load_def word_at_def bswap_def Let_def)

lemma converted:
  "4 * n \<le> length buf \<Longrightarrow> length (le32_to_cpu_array big buf n) = length buf \<and>
    (\<forall>j < n. load big (le32_to_cpu_array big buf n) j = word_at buf j) \<and>
    (\<forall>j \<ge> n. word_at (le32_to_cpu_array big buf n) j = word_at buf j \<and>
       load big (le32_to_cpu_array big buf n) j = load big buf j)"
proof (induction n)
  case 0
  then show ?case by (simp add: le32_to_cpu_array_def)
next
  case (Suc n)
  let ?b = "le32_to_cpu_array big buf n"
  have step: "le32_to_cpu_array big buf (Suc n) = store big ?b n (ntohl big (load big ?b n))"
    by (simp add: le32_to_cpu_array_def)
  have IH: "length ?b = length buf" "\<forall>j < n. load big ?b j = word_at buf j"
    "\<forall>j \<ge> n. word_at ?b j = word_at buf j \<and> load big ?b j = load big buf j"
    using Suc by simp_all
  have len: "4 * n + 4 \<le> length ?b" using Suc.prems IH(1) by simp
  show ?case
    unfolding step using len IH by (auto simp: load_store word_at_store ntohl_load less_Suc_eq)
qed

definition be_words :: "u8 list \<Rightarrow> u32 list" where
  "be_words buf = map (word_at buf) [0..<16]"

lemma words_converted: "length buf = 64 \<Longrightarrow> words big (le32_to_cpu_array big buf 16) = be_words buf"
  using converted [of 16 buf big] by (simp add: words_def be_words_def)

subsection \<open>The digest of a byte sequence\<close>

text \<open>The whole blocks of a sequence, and what is left over.\<close>

function blocks :: "u8 list \<Rightarrow> u8 list list" where
  "blocks bs = (if length bs < 64 then [] else take 64 bs # blocks (drop 64 bs))"
  by pat_completeness auto
termination by (relation "measure length") auto

declare blocks.simps [simp del]

definition tail :: "u8 list \<Rightarrow> u8 list" where
  "tail bs = drop (64 * (length bs div 64)) bs"

definition initial :: "u32 list" where
  "initial = [0x67452301, 0xefcdab89, 0x98badcfe, 0x10325476]"

definition compress :: "u8 list \<Rightarrow> u32 list" where
  "compress bs = foldl (\<lambda>h b. md4_transform h (be_words b)) initial (blocks bs)"

lemma length_foldl_transform: "length h = 4 \<Longrightarrow> length (foldl (\<lambda>h b. md4_transform h (f b)) h bs) = 4"
  by (induction bs arbitrary: h) simp_all

lemma length_compress [simp]: "length (compress bs) = 4"
  unfolding compress_def by (rule length_foldl_transform) (simp add: initial_def)

lemma length_tail: "length (tail bs) = length bs mod 64"
  by (simp add: tail_def minus_mult_div_eq_mod)

lemma blocks_append: "64 dvd length bs \<Longrightarrow> blocks (bs @ xs) = blocks bs @ blocks xs"
proof (induction bs rule: blocks.induct)
  case (1 bs)
  show ?case
  proof (cases "length bs < 64")
    case True
    then have "bs = []" using 1(2) by (auto dest: dvd_imp_le)
    then show ?thesis by (simp add: blocks.simps [of "[]"])
  next
    case False
    then have "blocks (drop 64 bs @ xs) = blocks (drop 64 bs) @ blocks xs"
      using 1 by (simp add: dvd_minus_self)
    then show ?thesis using False by (simp add: blocks.simps [of "bs @ xs"] blocks.simps [of bs])
  qed
qed

lemma blocks_short: "length bs < 64 \<Longrightarrow> blocks bs = []"
  by (simp add: blocks.simps)

lemma split_tail: "\<exists>whole. bs = whole @ tail bs \<and> 64 dvd length whole \<and> blocks whole = blocks bs"
proof -
  define whole where "whole = take (64 * (length bs div 64)) bs"
  have "64 * (length bs div 64) \<le> length bs" by simp
  then have "length whole = 64 * (length bs div 64)" by (simp add: whole_def)
  then have "64 dvd length whole" by simp
  moreover have split: "bs = whole @ tail bs" by (simp add: whole_def tail_def)
  moreover have "blocks (whole @ tail bs) = blocks whole"
    using blocks_append [OF calculation(1), of "tail bs"] blocks_short [of "tail bs"] by (simp add: length_tail)
  ultimately show ?thesis by metis
qed

lemma absorb:
  assumes "length (tail bs @ xs) = 64"
  shows "compress (bs @ xs) = md4_transform (compress bs) (be_words (tail bs @ xs))"
    and "tail (bs @ xs @ ys) = tail ys"
proof -
  obtain whole where w: "bs = whole @ tail bs" "64 dvd length whole" "blocks whole = blocks bs"
    using split_tail by blast
  have "blocks (bs @ xs) = blocks whole @ blocks (tail bs @ xs)"
    using blocks_append [OF w(2), of "tail bs @ xs"] w(1) by (metis append.assoc)
  also have "blocks (tail bs @ xs) = [tail bs @ xs]"
    using assms by (simp add: blocks.simps [of "tail bs @ xs"] blocks_short)
  finally show "compress (bs @ xs) = md4_transform (compress bs) (be_words (tail bs @ xs))"
    by (simp add: compress_def w(3))
  obtain k where k: "length whole = 64 * k" using w(2) by (rule dvdE)
  have "bs @ xs @ ys = (whole @ (tail bs @ xs)) @ ys" using w(1) by (metis append.assoc)
  moreover have "length (whole @ (tail bs @ xs)) = 64 * (k + 1)" using k assms by simp
  ultimately obtain zs where zs: "bs @ xs @ ys = zs @ ys" "length zs = 64 * (k + 1)" by blast
  have "length (zs @ ys) div 64 = k + 1 + length ys div 64" unfolding length_append zs(2) by simp
  then show "tail (bs @ xs @ ys) = tail ys" unfolding zs(1) tail_def by (simp add: zs(2))
qed

lemma absorb_short:
  assumes "length (tail bs @ xs) < 64"
  shows "compress (bs @ xs) = compress bs" and "tail (bs @ xs) = tail bs @ xs"
proof -
  obtain whole where w: "bs = whole @ tail bs" "64 dvd length whole" "blocks whole = blocks bs"
    using split_tail by blast
  have bx: "bs @ xs = whole @ (tail bs @ xs)" using w(1) by (metis append.assoc)
  have "blocks (bs @ xs) = blocks whole"
    unfolding bx blocks_append [OF w(2)] using blocks_short [OF assms] by simp
  then show "compress (bs @ xs) = compress bs" by (simp add: compress_def w(3))
  obtain k where k: "length whole = 64 * k" using w(2) by (rule dvdE)
  have "length (bs @ xs) div 64 = k" unfolding bx using k assms by simp
  then show "tail (bs @ xs) = tail bs @ xs" unfolding tail_def [of "bs @ xs"] by (simp add: bx k del: append_assoc)
qed

subsection \<open>What a context holds\<close>

definition absorbed :: "md4_ctx \<Rightarrow> u8 list \<Rightarrow> bool" where
  "absorbed ctx bs \<longleftrightarrow> length (block ctx) = 64 \<and> hash ctx = compress bs \<and> byte_count ctx = of_nat (length bs) \<and>
     take (length bs mod 64) (block ctx) = tail bs"

lemma absorbed_init: "length (block ctx) = 64 \<Longrightarrow> absorbed (md4_init ctx) []"
  by (simp add: absorbed_def md4_init_def compress_def initial_def blocks_short tail_def)

lemma count_offset: "unat ((of_nat n :: u64) AND 0x3f) = n mod 64"
proof -
  have "(of_nat n :: u64) AND 0x3f = of_nat n mod 64"
    using take_bit_eq_mask [of 6 "of_nat n :: u64"] take_bit_eq_mod [of 6 "of_nat n :: u64"]
    by (simp add: mask_eq_exp_minus_1)
  then have "unat ((of_nat n :: u64) AND 0x3f) = n mod 2 ^ 64 mod 64"
    by (simp add: unat_mod unat_of_nat)
  also have "\<dots> = n mod 64" by (rule mod_mod_cancel) simp
  finally show ?thesis .
qed

text \<open>One full block through the buffer.\<close>

lemma helper_full:
  assumes "length b = 64"
  shows "hash (md4_transform_helper big (ctx\<lparr>block := b\<rparr>)) = md4_transform (hash ctx) (be_words b)"
    and "length (block (md4_transform_helper big (ctx\<lparr>block := b\<rparr>))) = 64"
    and "byte_count (md4_transform_helper big (ctx\<lparr>block := b\<rparr>)) = byte_count ctx"
  using converted [of 16 b big] assms by (simp_all add: md4_transform_helper_def Let_def words_converted)

lemma md4_blocks_absorbs:
  "hash ctx = compress bs \<Longrightarrow> length (block ctx) = 64 \<Longrightarrow> tail bs = [] \<Longrightarrow>
    byte_count ctx = of_nat (length (bs @ data)) \<Longrightarrow>
    \<exists>ctx'. md4_blocks big ctx data = Some ctx' \<and> absorbed ctx' (bs @ data)"
proof (induction big ctx data arbitrary: bs rule: md4_blocks.induct)
  case (1 big ctx data)
  show ?case
  proof (cases "64 \<le> length data")
    case True
    let ?b = "take 64 data"
    let ?ctx = "md4_transform_helper big (ctx\<lparr>block := ?b\<rparr>)"
    have copy: "memcpy (block ctx) 0 data 0 64 = Some ?b" using True 1(3) by (simp add: memcpy_def)
    have len: "length ?b = 64" using True by simp
    have c: "compress (bs @ ?b) = md4_transform (compress bs) (be_words ?b)" "tail (bs @ ?b) = []"
      using absorb [of bs ?b] absorb(2) [of bs ?b "[]"] len 1(4) by (simp_all add: tail_def [of "[]"])
    have "\<exists>ctx'. md4_blocks big ?ctx (drop 64 data) = Some ctx' \<and> absorbed ctx' ((bs @ ?b) @ drop 64 data)"
      by (rule 1(1) [OF True copy]) (use 1(2,5) c helper_full [OF len] in \<open>simp_all add: min_def\<close>)
    then show ?thesis using True copy by (simp add: md4_blocks.simps [of big ctx data])
  next
    case False
    then have short: "length (tail bs @ data) < 64" using 1(4) by simp
    have "length (bs @ data) mod 64 = length data" using length_tail [of "bs @ data"] absorb_short(2) [OF short] 1(4) by simp
    then show ?thesis using False 1 absorb_short [OF short]
      by (simp add: md4_blocks.simps [of big ctx data] memcpy_def absorbed_def)
  qed
qed

lemma md4_update_absorbs:
  assumes "absorbed ctx bs"
  shows "\<exists>ctx'. md4_update big ctx data = Some ctx' \<and> absorbed ctx' (bs @ data)"
proof -
  let ?r = "length bs mod 64"
  have a: "length (block ctx) = 64" "hash ctx = compress bs" "byte_count ctx = of_nat (length bs)"
    "take ?r (block ctx) = tail bs" using assms by (simp_all add: absorbed_def)
  have off: "unat (byte_count ctx AND 0x3f) = ?r" unfolding a(3) by (rule count_offset)
  have r: "?r < 64" by simp
  show ?thesis
  proof (cases "64 - ?r > length data")
    case True
    then have short: "length (tail bs @ data) < 64" by (simp add: length_tail)
    have "memcpy (block ctx) (64 - int (64 - ?r)) data 0 (int (length data)) =
      Some (tail bs @ data @ drop (?r + length data) (block ctx))"
      using True a(1,4) r by (simp add: memcpy_def of_nat_diff nat_add_distrib)
    moreover have "length (bs @ data) mod 64 = ?r + length data"
      using length_tail [of "bs @ data"] absorb_short(2) [OF short] by (simp add: length_tail)
    ultimately show ?thesis
      using True a r absorb_short [OF short]
      unfolding md4_update_def Let_def off by (simp add: absorbed_def length_tail)
  next
    case False
    define avail where "avail = 64 - ?r"
    have sum: "nat (64 - int avail) = ?r" "int ?r + int avail = 64" "avail \<le> length data"
      using False r by (simp_all add: avail_def of_nat_diff)
    let ?b = "tail bs @ take avail data"
    let ?ctx = "md4_transform_helper big (ctx\<lparr>byte_count := byte_count ctx + of_nat (length data), block := ?b\<rparr>)"
    have copy: "memcpy (block ctx) (64 - int avail) data 0 (int avail) = Some ?b"
      using sum a(1,4) by (simp add: memcpy_def)
    have len: "length ?b = 64" using False r by (simp add: length_tail avail_def)
    have "\<exists>ctx'. md4_blocks big ?ctx (drop avail data) = Some ctx' \<and> absorbed ctx' ((bs @ take avail data) @ drop avail data)"
    proof (rule md4_blocks_absorbs)
      show "hash ?ctx = compress (bs @ take avail data)"
        using helper_full(1) [OF len] absorb(1) [OF len] a(2) by simp
      show "length (block ?ctx) = 64" by (rule helper_full(2) [OF len])
      show "tail (bs @ take avail data) = []" using absorb(2) [OF len, of "[]"] by (simp add: tail_def [of "[]"])
      show "byte_count ?ctx = of_nat (length ((bs @ take avail data) @ drop avail data))"
        using helper_full(3) [OF len] a(3) by simp
    qed
    then show ?thesis
      using False copy unfolding md4_update_def Let_def off avail_def by simp
  qed
qed

subsection \<open>The end\<close>

text \<open>The message with its padding: the bit 1, zeros, and the number of bits in two words.\<close>

definition pad :: "u8 list \<Rightarrow> u8 list" where
  "pad bs = bs @ 0x80 # replicate ((119 - length bs mod 64) mod 64) 0 @
     be_bytes (ucast (push_bit 3 (of_nat (length bs) :: u64))) @ be_bytes (ucast (drop_bit 29 (of_nat (length bs) :: u64)))"

definition md4_text :: "bool \<Rightarrow> u8 list \<Rightarrow> string" where
  "md4_text big bs = hash_text big (compress (pad bs))"

lemma word_at_left: "4 * i + 4 \<le> length xs \<Longrightarrow> word_at (xs @ ys) i = word_at xs i"
  by (simp add: word_at_def)

lemma last_words:
  assumes "length pre = 56" and "length suf = 8"
  shows "words big (le32_to_cpu_array big (store big (store big (pre @ suf) 14 w) 15 v) 14) =
    be_words (pre @ be_bytes w @ be_bytes v)"
proof -
  let ?s = "store big (store big (pre @ suf) 14 w) 15 v"
  let ?c = "le32_to_cpu_array big ?s 14"
  have len: "length ?s = 64" using assms by simp
  have "load big ?c j = word_at (pre @ be_bytes w @ be_bytes v) j" if j: "j < 16" for j
  proof -
    consider "j < 14" | "j = 14" | "j = 15" using j by force
    then show ?thesis
    proof cases
      case 1
      then have "load big ?c j = word_at ?s j" using converted [of 14 ?s big] len by simp
      also have "\<dots> = word_at pre j" using 1 assms by (simp add: word_at_store word_at_left)
      finally show ?thesis using 1 assms by (simp add: word_at_left)
    next
      case 2
      then have "load big ?c j = load big ?s j" using converted [of 14 ?s big] len by simp
      then show ?thesis using 2 assms by (simp add: load_store word_at_def)
    next
      case 3
      then have "load big ?c j = load big ?s j" using converted [of 14 ?s big] len by simp
      then show ?thesis using 3 assms by (simp add: load_store word_at_def)
    qed
  qed
  then show ?thesis by (simp add: words_def be_words_def)
qed

lemma md4_final_absorbed:
  assumes "absorbed ctx bs"
  shows "md4_final_ascii big ctx len = Some (take (len - 1) (md4_text big bs))"
proof -
  define r where "r = length bs mod 64"
  define w where "w = (ucast (push_bit 3 (byte_count ctx)) :: u32)"
  define v where "v = (ucast (drop_bit 29 (byte_count ctx)) :: u32)"
  have count: "byte_count ctx = of_nat (length bs)" and hash: "hash ctx = compress bs"
    and len: "length (block ctx) = 64" "take r (block ctx) = tail bs"
    using assms by (simp_all add: absorbed_def r_def)
  have off: "unat (byte_count ctx AND 0x3f) = r" unfolding count r_def by (rule count_offset)
  have r: "r < 64" by (simp add: r_def)
  have tail: "length (tail bs) = r" by (simp add: length_tail r_def)
  let ?b = "tail bs @ 0x80 # drop (Suc r) (block ctx)"
  have poke: "poke (block ctx) (int r) 0x80 = Some ?b"
    using r len by (simp add: poke_def upd_conv_take_nth_drop)
  note pad = pad_def [of bs, folded count, folded w_def v_def r_def]
  show ?thesis
  proof (cases "r \<le> 55")
    case True
    let ?pre = "tail bs @ 0x80 # replicate (55 - r) 0"
    have "56 - r = Suc (55 - r)" using True by simp
    then have set: "memset_at ?b (r + 1) 0 (56 - (int r + 1)) = Some (?pre @ drop 56 (block ctx))"
      using True len(1) tail by (simp add: memset_at_def nat_diff_distrib)
    have z: "(119 - r) mod 64 = 55 - r" using True by (simp add: mod_if)
    have full: "length (tail bs @ 0x80 # replicate (55 - r) 0 @ be_bytes w @ be_bytes v) = 64"
      using True tail by simp
    have "md4_transform (compress bs) (be_words (?pre @ be_bytes w @ be_bytes v)) = compress (pad bs)"
      unfolding pad z absorb(1) [OF full] by simp
    moreover have "words big (le32_to_cpu_array big (store big (store big (?pre @ drop 56 (block ctx)) 14 w) 15 v) 14) =
        be_words (?pre @ be_bytes w @ be_bytes v)"
      by (rule last_words) (use True tail len(1) in simp_all)
    ultimately show ?thesis
      using True unfolding md4_final_ascii_def Let_def off poke Option.bind.bind_lunit w_def [symmetric] v_def [symmetric]
      by (simp add: set [simplified] hash md4_text_def w_def [symmetric] v_def [symmetric])
  next
    case False
    let ?one = "tail bs @ 0x80 # replicate (63 - r) 0"
    let ?ctx = "md4_transform_helper big (ctx\<lparr>block := ?one\<rparr>)"
    have set: "memset_at ?b (r + 1) 0 (56 - (int r + 1) + 8) = Some ?one"
      using False r len(1) tail by (simp add: memset_at_def nat_diff_distrib)
    have one: "length ?one = 64" using False r tail by simp
    let ?bs = "bs @ 0x80 # replicate (63 - r) 0"
    have c: "compress ?bs = md4_transform (compress bs) (be_words ?one)" "tail ?bs = []"
      using absorb [OF one] absorb(2) [OF one, of "[]"] by (simp_all add: tail_def [of "[]"])
    have z: "(119 - r) mod 64 = (63 - r) + 56" using False r by simp
    have full: "length (tail ?bs @ replicate 56 0 @ be_bytes w @ be_bytes v) = 64" using c(2) by simp
    have padded: "pad bs = ?bs @ replicate 56 0 @ be_bytes w @ be_bytes v"
      unfolding pad z replicate_add by simp
    have "md4_transform (hash ?ctx) (be_words (replicate 56 0 @ be_bytes w @ be_bytes v)) = compress (pad bs)"
      unfolding padded absorb(1) [OF full] c helper_full(1) [OF one] hash by simp
    moreover have "words big (le32_to_cpu_array big (store big (store big (replicate 56 0 @ drop 56 (block ?ctx)) 14 w) 15 v) 14) =
        be_words (replicate 56 0 @ be_bytes w @ be_bytes v)"
      by (rule last_words) (use helper_full(2) [OF one, of big ctx] in \<open>simp_all del: replicate_numeral_unfold\<close>)
    moreover have "memset_at (block ?ctx) 0 0 56 = Some (replicate 56 0 @ drop 56 (block ?ctx))"
      using helper_full(2) [OF one, of big ctx] by (simp add: memset_at_def del: replicate_numeral_unfold)
    moreover have "56 - (int r + 1) < 0" using False by simp
    ultimately show ?thesis
      unfolding md4_final_ascii_def Let_def off poke Option.bind.bind_lunit w_def [symmetric] v_def [symmetric]
      by (simp add: set [simplified] helper_full(3) [OF one] md4_text_def w_def [symmetric] v_def [symmetric]
          del: replicate_numeral_unfold)
  qed
qed

subsection \<open>Updates in pieces\<close>

fun md4_updates :: "bool \<Rightarrow> md4_ctx \<Rightarrow> u8 list list \<Rightarrow> md4_ctx option" where
  "md4_updates big ctx [] = Some ctx"
| "md4_updates big ctx (d # ds) = do { ctx \<leftarrow> md4_update big ctx d; md4_updates big ctx ds }"

lemma md4_updates_absorb:
  "absorbed ctx bs \<Longrightarrow> \<exists>ctx'. md4_updates big ctx ds = Some ctx' \<and> absorbed ctx' (bs @ concat ds)"
proof (induction ds arbitrary: ctx bs)
  case (Cons d ds)
  obtain c where "md4_update big ctx d = Some c" "absorbed c (bs @ d)"
    using md4_update_absorbs [OF Cons.prems] by blast
  then show ?case using Cons.IH [of c "bs @ d"] by simp
qed simp

subsection \<open>The rounds of RFC 1320\<close>

text \<open>
  The three rounds as tables: the function and the constant of the round, the order of the
  words and the shifts. A step computes one word and rotates the four.
\<close>

definition rfc_steps :: "((u32 \<Rightarrow> u32 \<Rightarrow> u32 \<Rightarrow> u32) \<times> u32 \<times> nat \<times> nat) list" where
  "rfc_steps =
     map (\<lambda>i. (F, 0, i, [3, 7, 11, 19] ! (i mod 4))) [0..<16] @
     map (\<lambda>i. (G, 0x5A827999, 4 * (i mod 4) + i div 4, [3, 5, 9, 13] ! (i mod 4))) [0..<16] @
     map (\<lambda>i. (H, 0x6ED9EBA1, [0, 8, 4, 12, 2, 10, 6, 14, 1, 9, 5, 13, 3, 11, 7, 15] ! i, [3, 9, 11, 15] ! (i mod 4)))
       [0..<16]"

fun rfc_step :: "u32 list \<Rightarrow> u32 \<times> u32 \<times> u32 \<times> u32 \<Rightarrow> (u32 \<Rightarrow> u32 \<Rightarrow> u32 \<Rightarrow> u32) \<times> u32 \<times> nat \<times> nat \<Rightarrow>
    u32 \<times> u32 \<times> u32 \<times> u32" where
  "rfc_step inp (a, b, c, d) (f, k, i, s) = (d, word_rotl s (a + f b c d + inp ! i + k), b, c)"

fun rfc_sum :: "u32 list \<Rightarrow> u32 \<times> u32 \<times> u32 \<times> u32 \<Rightarrow> u32 list" where
  "rfc_sum h (a, b, c, d) = [h ! 0 + a, h ! 1 + b, h ! 2 + c, h ! 3 + d]"

definition rfc_transform :: "u32 list \<Rightarrow> u32 list \<Rightarrow> u32 list" where
  "rfc_transform h inp =
     rfc_sum h (foldl (rfc_step inp) (h ! 0, h ! 1, h ! 2, h ! 3) rfc_steps)"

lemma and_all_ones: "x AND 0xFFFFFFFF = (x :: u32)"
proof -
  have "(0xFFFFFFFF :: u32) = - 1" by simp
  then show ?thesis by (simp only: and_minus_numerals bit.conj_one_right and.right_neutral)
qed

lemma lshift_rotl: "0 < s \<Longrightarrow> s < 32 \<Longrightarrow> lshift x s = word_rotl s x"
proof (rule bit_word_eqI)
  fix n assume s: "0 < s" "s < 32" and n: "n < LENGTH(32)"
  have e: "32 + n - s = n + 32 - s" by simp
  have "bit (lshift x s) n = (if s \<le> n then bit x (n - s) else bit x (32 - s + n))"
    using s n bit_imp_le_length [of x "32 + n - s"]
    unfolding lshift_def and_all_ones by (auto simp: bit_simps e)
  also have "\<dots> = bit (word_rotl s x) n"
    using s n by (auto simp: bit_word_rotl_iff mod_if e)
  finally show "bit (lshift x s) n = bit (word_rotl s x) n" .
qed

lemma rfc_steps_list: "rfc_steps =
  [(F, 0, 0, 3), (F, 0, 1, 7), (F, 0, 2, 11), (F, 0, 3, 19), (F, 0, 4, 3), (F, 0, 5, 7), (F, 0, 6, 11), (F, 0, 7, 19),
   (F, 0, 8, 3), (F, 0, 9, 7), (F, 0, 10, 11), (F, 0, 11, 19), (F, 0, 12, 3), (F, 0, 13, 7), (F, 0, 14, 11), (F, 0, 15, 19)] @
  map (\<lambda>(i, s). (G, 0x5A827999, i, s))
    [(0, 3), (4, 5), (8, 9), (12, 13), (1, 3), (5, 5), (9, 9), (13, 13), (2, 3), (6, 5), (10, 9), (14, 13),
     (3, 3), (7, 5), (11, 9), (15, 13)] @
  map (\<lambda>(i, s). (H, 0x6ED9EBA1, i, s))
    [(0, 3), (8, 9), (4, 11), (12, 15), (2, 3), (10, 9), (6, 11), (14, 15), (1, 3), (9, 9), (5, 11), (13, 15),
     (3, 3), (11, 9), (7, 11), (15, 15)]"
  by (simp add: rfc_steps_def upt_rec)

lemma rfc_step_let:
  "0 < s \<Longrightarrow> s < 32 \<Longrightarrow> foldl (rfc_step inp) (a, b, c, d) ((f, k, i, s) # xs) =
    (let n = lshift (a + f b c d + inp ! i + k) s in foldl (rfc_step inp) (d, n, b, c) xs)"
  by (simp add: Let_def lshift_rotl)

lemma transform_rfc: "md4_transform h inp = rfc_transform h inp"
proof -
  have "md4_transform h inp =
    (let a = h ! 0; b = h ! 1; c = h ! 2; d = h ! 3 in rfc_sum h (foldl (rfc_step inp) (a, b, c, d) rfc_steps))"
    unfolding md4_transform_def rfc_steps_list ROUND1_def ROUND2_def ROUND3_def
    by (simp only: append.simps list.map prod.case rfc_step_let zero_less_numeral numeral_less_iff
        num.simps le_num_simps less_num_simps foldl_Nil let_float [of "rfc_sum h"] rfc_sum.simps add_0_right if_True simp_thms)
  then show ?thesis by (simp only: Let_def rfc_transform_def)
qed

end
