(* ===== verification/Source_Text.thy ===== *)
theory Source_Text
  imports Md4
begin

text \<open>
  What \<open>scripts/mod/sumversion.c\<close> sums of a source file: the loops of \<open>parse_string\<close>,
  \<open>parse_comment\<close> and \<open>parse_file\<close> by index, as they are written, and the text as a sequence of
  layout, comments, strings and other characters.
\<close>

abbreviation (input) QUOTE :: u8 where "QUOTE \<equiv> 0x22"
abbreviation (input) STAR :: u8 where "STAR \<equiv> 0x2A"
abbreviation (input) SLASH :: u8 where "SLASH \<equiv> 0x2F"
abbreviation (input) BACKSLASH :: u8 where "BACKSLASH \<equiv> 0x5C"

definition is_space_byte :: "u8 \<Rightarrow> bool" where
  "is_space_byte c \<longleftrightarrow> c = SPACE \<or> 9 \<le> c \<and> c \<le> 13"

subsection \<open>The loops\<close>

definition add_char :: "bool \<Rightarrow> u8 \<Rightarrow> md4_ctx \<Rightarrow> md4_ctx option" where
  "add_char big c md = md4_update big md [c]"

text \<open>Both parsers get the rest of the file and return how far they went.\<close>

function string_loop :: "bool \<Rightarrow> u8 list \<Rightarrow> nat \<Rightarrow> md4_ctx \<Rightarrow> (nat \<times> md4_ctx) option" where
  "string_loop big file i md =
     (if i < length file then
        do { md \<leftarrow> add_char big (file ! i) md;
             if file ! i = QUOTE \<and> file ! (i - 1) \<noteq> BACKSLASH then Some (i, md)
             else string_loop big file (i + 1) md }
      else Some (i, md))"
  by pat_completeness auto
termination by (relation "measure (\<lambda>(big, file, i, md). length file - i)") auto

declare string_loop.simps [simp del]

definition parse_string :: "bool \<Rightarrow> u8 list \<Rightarrow> md4_ctx \<Rightarrow> (nat \<times> md4_ctx) option" where
  "parse_string big file md = do { md \<leftarrow> add_char big (file ! 0) md; string_loop big file 1 md }"

function comment_loop :: "u8 list \<Rightarrow> nat \<Rightarrow> nat" where
  "comment_loop file i =
     (if i < length file then
        (if file ! (i - 1) = STAR \<and> file ! i = SLASH then i else comment_loop file (i + 1))
      else i)"
  by pat_completeness auto
termination by (relation "measure (\<lambda>(file, i). length file - i)") auto

declare comment_loop.simps [simp del]

definition parse_comment :: "u8 list \<Rightarrow> nat" where
  "parse_comment file = comment_loop file 2"

text \<open>
  The byte after the last one of a mapped file: zero, unless the file fills its pages of 4096
  bytes; then it is not mapped.
\<close>

definition byte_after :: "u8 list \<Rightarrow> u8 option" where
  "byte_after file = (if length file mod 4096 = 0 then None else Some 0)"

definition file_byte :: "u8 list \<Rightarrow> nat \<Rightarrow> u8 option" where
  "file_byte file i = (if i < length file then Some (file ! i) else if i = length file then byte_after file else None)"

function parse_loop :: "bool \<Rightarrow> u8 list \<Rightarrow> nat \<Rightarrow> md4_ctx \<Rightarrow> md4_ctx option" where
  "parse_loop big file i md =
     (if \<not> i < length file then Some md
      else if file ! i = BACKSLASH \<and> i + 1 < length file \<and> file ! (i + 1) = NEWLINE
      then parse_loop big file (i + 2) md
      else if is_space_byte (file ! i) then parse_loop big file (i + 1) md
      else if file ! i = QUOTE then
        do { (n, md) \<leftarrow> parse_string big (drop i file) md; parse_loop big file (i + n + 1) md }
      else if file ! i = SLASH then
        do { c \<leftarrow> file_byte file (i + 1);
             if c = STAR then parse_loop big file (i + parse_comment (drop i file) + 1) md
             else do { md \<leftarrow> add_char big (file ! i) md; parse_loop big file (i + 1) md } }
      else do { md \<leftarrow> add_char big (file ! i) md; parse_loop big file (i + 1) md })"
  by pat_completeness auto
termination by (relation "measure (\<lambda>(big, file, i, md). length file - i)") auto

declare parse_loop.simps [simp del]

text \<open>The files by name; an empty file cannot be mapped.\<close>

type_synonym files = "u8 list \<Rightarrow> u8 list option"

definition grab_file :: "files \<Rightarrow> u8 list \<Rightarrow> u8 list option" where
  "grab_file fs name = (case fs name of None \<Rightarrow> None | Some file \<Rightarrow> if file = [] then None else Some file)"

definition parse_file :: "bool \<Rightarrow> files \<Rightarrow> u8 list \<Rightarrow> md4_ctx \<Rightarrow> (bool \<times> md4_ctx) option" where
  "parse_file big fs fname md =
     (case grab_file fs fname of
        None \<Rightarrow> Some (False, md)
      | Some file \<Rightarrow> do { md \<leftarrow> parse_loop big file 0 md; Some (True, md) })"

subsection \<open>Source text\<close>

datatype piece = Layout u8 | Continuation | Comment "u8 list" | Quoted "u8 list" | Code u8

fun piece_text :: "piece \<Rightarrow> u8 list" where
  "piece_text (Layout c) = [c]"
| "piece_text Continuation = [BACKSLASH, NEWLINE]"
| "piece_text (Comment t) = [SLASH, STAR] @ t @ [STAR, SLASH]"
| "piece_text (Quoted t) = QUOTE # t @ [QUOTE]"
| "piece_text (Code c) = [c]"

definition text_of :: "piece list \<Rightarrow> u8 list" where
  "text_of ps = concat (map piece_text ps)"

text \<open>What is summed of a piece.\<close>

fun piece_summed :: "piece \<Rightarrow> u8 list" where
  "piece_summed (Quoted t) = QUOTE # t @ [QUOTE]"
| "piece_summed (Code c) = [c]"
| "piece_summed _ = []"

definition summed :: "piece list \<Rightarrow> u8 list" where
  "summed ps = concat (map piece_summed ps)"

text \<open>
  The end of a comment is not inside it (nor right after its opening), and every quote inside a
  string is escaped.
\<close>

fun no_end :: "u8 \<Rightarrow> u8 list \<Rightarrow> bool" where
  "no_end p [] \<longleftrightarrow> True"
| "no_end p (c # t) \<longleftrightarrow> \<not> (p = STAR \<and> c = SLASH) \<and> no_end c t"

fun escaped :: "u8 \<Rightarrow> u8 list \<Rightarrow> bool" where
  "escaped p [] \<longleftrightarrow> p \<noteq> BACKSLASH"
| "escaped p (c # t) \<longleftrightarrow> (c = QUOTE \<longrightarrow> p = BACKSLASH) \<and> escaped c t"

fun source_ok :: "piece list \<Rightarrow> bool" where
  "source_ok [] \<longleftrightarrow> True"
| "source_ok (p # ps) \<longleftrightarrow> source_ok ps \<and>
     (case p of
        Layout c \<Rightarrow> is_space_byte c
      | Continuation \<Rightarrow> True
      | Comment t \<Rightarrow> no_end STAR t
      | Quoted t \<Rightarrow> escaped QUOTE t
      | Code c \<Rightarrow> \<not> is_space_byte c \<and> c \<noteq> QUOTE \<and>
          (case text_of ps of
             [] \<Rightarrow> c \<noteq> SLASH
           | n # _ \<Rightarrow> \<not> (c = SLASH \<and> n = STAR) \<and> \<not> (c = BACKSLASH \<and> n = NEWLINE)))"

lemma text_of_simps [simp]: "text_of [] = []" "text_of (p # ps) = piece_text p @ text_of ps"
  by (simp_all add: text_of_def)

lemma summed_simps [simp]: "summed [] = []" "summed (p # ps) = piece_summed p @ summed ps"
  by (simp_all add: summed_def)

subsection \<open>What the loops do\<close>

text \<open>Characters summed one after the other.\<close>

fun feed :: "bool \<Rightarrow> u8 list \<Rightarrow> md4_ctx \<Rightarrow> md4_ctx option" where
  "feed big [] md = Some md"
| "feed big (c # cs) md = do { md \<leftarrow> add_char big c md; feed big cs md }"

lemma feed_append: "feed big (bs @ cs) md = do { md \<leftarrow> feed big bs md; feed big cs md }"
proof (induction bs arbitrary: md)
  case (Cons b bs)
  then show ?case by (cases "add_char big b md") simp_all
qed simp

lemma add_char_absorbs: "absorbed md bs \<Longrightarrow> \<exists>md'. add_char big c md = Some md' \<and> absorbed md' (bs @ [c])"
  unfolding add_char_def by (rule md4_update_absorbs)

lemma feed_absorbs: "absorbed md bs \<Longrightarrow> \<exists>md'. feed big cs md = Some md' \<and> absorbed md' (bs @ cs)"
proof (induction cs arbitrary: md bs)
  case (Cons c cs)
  obtain md' where md': "add_char big c md = Some md'" "absorbed md' (bs @ [c])"
    using add_char_absorbs [OF Cons.prems] by blast
  then show ?case using Cons.IH [OF md'(2)] by simp
qed simp

lemma string_loop_end:
  "xs \<noteq> [] \<Longrightarrow> last xs = p \<Longrightarrow> escaped p t \<Longrightarrow>
    string_loop big (xs @ t @ QUOTE # rest) (length xs) md =
      map_option (\<lambda>md. (length xs + length t, md)) (feed big (t @ [QUOTE]) md)"
proof (induction t arbitrary: xs p md)
  case Nil
  have "(xs @ QUOTE # rest) ! (length xs - 1) = p" using Nil.prems(1,2) by (simp add: nth_append last_conv_nth)
  then show ?case
    using Nil.prems(3) by (cases "add_char big QUOTE md") (simp_all add: string_loop.simps [of big _ "length xs"])
next
  case (Cons c t)
  have "(xs @ c # t @ QUOTE # rest) ! (length xs - 1) = p" using Cons.prems(1,2) by (simp add: nth_append last_conv_nth)
  then have "string_loop big (xs @ (c # t) @ QUOTE # rest) (length xs) md =
      do { md \<leftarrow> add_char big c md; string_loop big (xs @ c # t @ QUOTE # rest) (length xs + 1) md }"
    using Cons.prems(3)
    by (cases "add_char big c md") (auto simp: string_loop.simps [of big _ "length xs"])
  then show ?case
    using Cons.IH [of "xs @ [c]" c] Cons.prems(3) by (cases "add_char big c md") simp_all
qed

lemma comment_loop_end:
  "xs \<noteq> [] \<Longrightarrow> last xs = p \<Longrightarrow> no_end p t \<Longrightarrow>
    comment_loop (xs @ t @ STAR # SLASH # rest) (length xs) = length xs + length t + 1"
proof (induction t arbitrary: xs p)
  case Nil
  have "comment_loop (xs @ STAR # SLASH # rest) (Suc (length xs)) = Suc (length xs)"
    by (simp add: comment_loop.simps [of _ "Suc (length xs)"] nth_append)
  then show ?case by (simp add: comment_loop.simps [of _ "length xs"])
next
  case (Cons c t)
  have "(xs @ c # t @ STAR # SLASH # rest) ! (length xs - 1) = p"
    using Cons.prems(1,2) by (simp add: nth_append last_conv_nth)
  then have "comment_loop (xs @ (c # t) @ STAR # SLASH # rest) (length xs) =
      comment_loop (xs @ c # t @ STAR # SLASH # rest) (length xs + 1)"
    using Cons.prems(3) by (auto simp: comment_loop.simps [of _ "length xs"])
  then show ?case using Cons.IH [of "xs @ [c]" c] Cons.prems(3) by simp
qed

lemma parse_loop_at:
  "parse_loop big (pre @ c # rest) (length pre) md =
     (if c = BACKSLASH \<and> rest \<noteq> [] \<and> hd rest = NEWLINE then parse_loop big (pre @ c # rest) (length pre + 2) md
      else if is_space_byte c then parse_loop big (pre @ c # rest) (length pre + 1) md
      else if c = QUOTE then
        do { (n, md) \<leftarrow> parse_string big (c # rest) md; parse_loop big (pre @ c # rest) (length pre + n + 1) md }
      else if c = SLASH then
        do { n \<leftarrow> (case rest of [] \<Rightarrow> byte_after (pre @ c # rest) | n # _ \<Rightarrow> Some n);
             if n = STAR then parse_loop big (pre @ c # rest) (length pre + parse_comment (c # rest) + 1) md
             else do { md \<leftarrow> add_char big c md; parse_loop big (pre @ c # rest) (length pre + 1) md } }
      else do { md \<leftarrow> add_char big c md; parse_loop big (pre @ c # rest) (length pre + 1) md })"
proof (cases rest)
  case Nil
  show ?thesis unfolding Nil
    by (cases "c = SLASH"; cases "byte_after (pre @ [c])") (simp_all add: parse_loop.simps [of big _ "length pre"] nth_append file_byte_def)
next
  case (Cons n ns)
  show ?thesis unfolding Cons by (simp add: parse_loop.simps [of big _ "length pre"] nth_append file_byte_def)
qed

lemma parse_loop_end: "parse_loop big file (length file) md = Some md"
  by (simp add: parse_loop.simps [of big "file" "length file"])

lemma parse_loop_sums:
  "source_ok ps \<Longrightarrow> parse_loop big (pre @ text_of ps) (length pre) md = feed big (summed ps) md"
proof (induction ps arbitrary: pre md)
  case Nil
  then show ?case using parse_loop_end [of big pre md] by simp
next
  case (Cons p ps)
  show ?case
  proof (cases p)
    case (Layout c)
    then have "is_space_byte c" "c \<noteq> BACKSLASH" using Cons.prems by (auto simp: is_space_byte_def)
    then show ?thesis
      using Cons.IH [of "pre @ [c]"] Cons.prems Layout by (simp add: parse_loop_at)
  next
    case Continuation
    then show ?thesis
      using Cons.IH [of "pre @ [BACKSLASH, NEWLINE]"] Cons.prems by (simp add: parse_loop_at)
  next
    case (Comment t)
    have pc: "parse_comment (SLASH # STAR # t @ STAR # SLASH # text_of ps) = length t + 3"
      using comment_loop_end [of "[SLASH, STAR]" STAR t "text_of ps"] Cons.prems Comment
      by (simp add: parse_comment_def numeral_2_eq_2 numeral_3_eq_3)
    have i: "4 + (length pre + length t) = Suc (Suc (Suc (Suc (length pre + length t))))" by simp
    show ?thesis
      using pc Cons.IH [of "pre @ piece_text (Comment t)"] Cons.prems Comment
      by (simp add: parse_loop_at is_space_byte_def i [symmetric])
  next
    case (Quoted t)
    have "string_loop big (QUOTE # t @ QUOTE # text_of ps) 1 md1 =
      map_option (\<lambda>md. (1 + length t, md)) (feed big (t @ [QUOTE]) md1)" for md1
      using string_loop_end [of "[QUOTE]" QUOTE t big "text_of ps" md1] Cons.prems Quoted by simp
    then have "parse_string big (QUOTE # t @ QUOTE # text_of ps) md =
      map_option (\<lambda>md. (1 + length t, md)) (feed big (QUOTE # t @ [QUOTE]) md)"
      by (cases "add_char big QUOTE md") (simp_all add: parse_string_def)
    moreover have whole: "feed big (QUOTE # t @ QUOTE # summed ps) md =
        do { md \<leftarrow> feed big (QUOTE # t @ [QUOTE]) md; feed big (summed ps) md }"
      using feed_append [of big "QUOTE # t @ [QUOTE]" "summed ps" md] by (simp only: append_Cons append_assoc append_Nil)
    ultimately show ?thesis
      using Cons.IH [of "pre @ piece_text (Quoted t)"] Cons.prems Quoted
      by (cases "feed big (QUOTE # t @ [QUOTE]) md")
        (simp_all add: parse_loop_at is_space_byte_def whole del: feed.simps)
  next
    case (Code c)
    have c: "\<not> is_space_byte c" "c \<noteq> QUOTE"
      "text_of ps = [] \<Longrightarrow> c \<noteq> SLASH" "c = SLASH \<Longrightarrow> hd (text_of ps) \<noteq> STAR \<or> text_of ps = []"
      "\<not> (c = BACKSLASH \<and> text_of ps \<noteq> [] \<and> hd (text_of ps) = NEWLINE)"
      using Cons.prems Code by (auto split: list.splits)
    have "parse_loop big (pre @ c # text_of ps) (length pre) md =
      do { md \<leftarrow> add_char big c md; parse_loop big (pre @ c # text_of ps) (length pre + 1) md }"
      using c by (auto simp: parse_loop_at split: list.splits)
    then show ?thesis
      using Cons.IH [of "pre @ [c]"] Cons.prems Code by simp
  qed
qed

end
