(* ===== verification/Source_Version.thy ===== *)
theory Source_Version
  imports Source_Text
begin

text \<open>
  The source version of a module (\<open>scripts/mod/sumversion.c\<close>, with \<open>get_next_line\<close> of
  \<open>modpost.c\<close>): which files are summed, and the clean-up of RCS versions. File names are bytes;
  the contents of all files and of the environment are arguments. \<^term>\<open>None\<close> outside is an
  access outside a mapped file or a buffer.
\<close>

subsection \<open>String functions\<close>

definition strrchr :: "u8 list \<Rightarrow> u8 \<Rightarrow> nat option" where
  "strrchr s c = (if c \<in> set s then Some (length s - 1 - length (takeWhile (\<lambda>d. d \<noteq> c) (rev s))) else None)"

fun strstr_at :: "u8 list \<Rightarrow> u8 list \<Rightarrow> nat option" where
  "strstr_at [] sub = (if sub = [] then Some 0 else None)"
| "strstr_at (c # s) sub =
     (if take (length sub) (c # s) = sub then Some 0 else map_option Suc (strstr_at s sub))"

definition starts_with :: "u8 list \<Rightarrow> u8 list \<Rightarrow> bool" where
  "starts_with p s \<longleftrightarrow> take (length p) s = p"

text \<open>\<open>strchr\<close> for a newline on a mapped file: the outer \<^term>\<open>None\<close> if it runs off the file.\<close>

definition newline_in :: "u8 list \<Rightarrow> nat option option" where
  "newline_in s =
     (let before = takeWhile (\<lambda>c. c \<noteq> NEWLINE \<and> c \<noteq> NUL) s in
      if length before < length s
      then Some (if s ! length before = NEWLINE then Some (length before) else None)
      else None)"

subsection \<open>Lines\<close>

text \<open>
  \<open>line_loop\<close> is the loop of \<open>get_next_line\<close>, with the characters copied so far. Nothing is
  returned for a line of 4096 characters or more and for a last line without a newline.
\<close>

function line_loop :: "u8 list \<Rightarrow> nat \<Rightarrow> bool \<Rightarrow> u8 list \<Rightarrow> (u8 list \<times> nat) option" where
  "line_loop file pos skip line =
     (if \<not> pos < length file then None
      else if skip \<and> is_space_byte (file ! pos) then line_loop file (pos + 1) skip line
      else if file ! pos \<noteq> NEWLINE then
        (if length line + 1 > 4095 then None
         else line_loop file (pos + 1) False (line @ [file ! pos]))
      else Some (c_string line, pos))"
  by pat_completeness auto
termination by (relation "measure (\<lambda>(file, pos, skip, line). length file - pos)") auto

declare line_loop.simps [simp del]

definition get_next_line :: "nat \<Rightarrow> u8 list \<Rightarrow> (u8 list \<times> nat) option" where
  "get_next_line pos file = line_loop file pos True []"

lemma line_loop_pos: "line_loop file pos skip line = Some (l, q) \<Longrightarrow> pos \<le> q \<and> q < length file"
proof (induction "file" pos skip line rule: line_loop.induct)
  case (1 "file" pos skip line)
  then show ?case by (subst (asm) (2) line_loop.simps) (auto split: if_splits)
qed

lemma get_next_line_pos:
  assumes "get_next_line pos file = Some (l, q)"
  shows "pos < q" and "q < length file"
proof -
  have "q < length file" and "pos \<le> q" using line_loop_pos assms unfolding get_next_line_def by blast+
  moreover have "pos \<noteq> q"
  proof
    assume "pos = q"
    then have l: "pos < length file" using \<open>q < length file\<close> by simp
    then have "line_loop file (pos + 1) True [] = Some (l, q) \<or> line_loop file (pos + 1) False [file ! pos] = Some (l, q)"
      using assms unfolding get_next_line_def
      by (subst (asm) line_loop.simps) (auto simp: is_space_byte_def split: if_splits)
    then show False using line_loop_pos \<open>pos = q\<close> by fastforce
  qed
  ultimately show "pos < q" and "q < length file" by simp_all
qed

function file_lines :: "u8 list \<Rightarrow> nat \<Rightarrow> u8 list list" where
  "file_lines file pos =
     (case get_next_line pos file of None \<Rightarrow> [] | Some (l, q) \<Rightarrow> l # file_lines file q)"
  by pat_completeness auto
termination
  by (relation "measure (\<lambda>(file, pos). length file - pos)") (use get_next_line_pos in \<open>fastforce+\<close>)

declare file_lines.simps [simp del]

subsection \<open>Source files of an object\<close>

text \<open>
  \<open>strstr(line, dir) + strlen(dir) - 1 == strrchr(line, '/')\<close>: without the substring the left
  side is computed from the null pointer.
\<close>

definition in_dir :: "u8 list \<Rightarrow> u8 list \<Rightarrow> bool" where
  "in_dir dir line =
     (case strstr_at line dir of
        Some i \<Rightarrow> (case strrchr line SLASH of Some j \<Rightarrow> i + length dir = j + 1 | None \<Rightarrow> False)
      | None \<Rightarrow> length dir = 1 \<and> strrchr line SLASH = None)"

text \<open>The loop over the lines of the command file; \<^term>\<open>False\<close> is the way out with an error.\<close>

fun cmd_loop :: "bool \<Rightarrow> files \<Rightarrow> u8 list \<Rightarrow> bool \<Rightarrow> u8 list list \<Rightarrow> md4_ctx \<Rightarrow> (bool \<times> md4_ctx) option" where
  "cmd_loop big fs dir check_files [] md = Some (True, md)"
| "cmd_loop big fs dir check_files (line # ls) md =
     (if starts_with (bytes_of ''source_'') line then
        (case strrchr line SPACE of
           None \<Rightarrow> Some (False, md)
         | Some i \<Rightarrow> do {
             (ok, md) \<leftarrow> parse_file big fs (drop (i + 1) line) md;
             if ok then cmd_loop big fs dir check_files ls md else Some (False, md) })
      else if starts_with (bytes_of ''deps_'') line then cmd_loop big fs dir True ls md
      else if \<not> check_files then cmd_loop big fs dir check_files ls md
      else if line = [] then None
      else if last line \<noteq> BACKSLASH then Some (True, md)
      else
        let line = takeWhile (\<lambda>c. \<not> is_space_byte c) line in
        if in_dir dir line then do {
          (ok, md) \<leftarrow> parse_file big fs line md;
          if ok then cmd_loop big fs dir check_files ls md else Some (False, md) }
        else cmd_loop big fs dir check_files ls md)"

definition dir_of :: "u8 list \<Rightarrow> u8 list" where
  "dir_of objfile = (case strrchr objfile SLASH of Some i \<Rightarrow> take (i + 1) objfile | None \<Rightarrow> [])"

definition base_of :: "u8 list \<Rightarrow> u8 list" where
  "base_of objfile = (case strrchr objfile SLASH of Some i \<Rightarrow> drop (i + 1) objfile | None \<Rightarrow> objfile)"

definition parse_source_files :: "bool \<Rightarrow> files \<Rightarrow> u8 list \<Rightarrow> md4_ctx \<Rightarrow> (bool \<times> md4_ctx) option" where
  "parse_source_files big fs objfile md =
     (case grab_file fs (dir_of objfile @ bytes_of ''.'' @ base_of objfile @ bytes_of ''.cmd'') of
        None \<Rightarrow> Some (False, md)
      | Some file \<Rightarrow> cmd_loop big fs (dir_of objfile) False (file_lines file 0) md)"

subsection \<open>The version of a module\<close>

text \<open>A name of one character is compared with the byte before it, which is never a dot.\<close>

definition is_static_library :: "u8 list \<Rightarrow> bool" where
  "is_static_library objfile \<longleftrightarrow>
     (let len = length objfile in 2 \<le> len \<and> objfile ! (len - 2) = chr CHR ''.'' \<and> objfile ! (len - 1) = chr CHR ''a'')"

text \<open>\<open>strsep\<close> with a space: empty names between two spaces.\<close>

fun strsep :: "u8 list \<Rightarrow> u8 list list" where
  "strsep [] = [[]]"
| "strsep (c # s) =
     (if c = SPACE then [] # strsep s
      else (case strsep s of t # ts \<Rightarrow> (c # t) # ts | [] \<Rightarrow> [[c]]))"

fun objects_loop :: "bool \<Rightarrow> files \<Rightarrow> u8 list list \<Rightarrow> md4_ctx \<Rightarrow> (bool \<times> md4_ctx) option" where
  "objects_loop big fs [] md = Some (True, md)"
| "objects_loop big fs (fname # names) md =
     (if fname = [] then objects_loop big fs names md
      else if is_static_library fname then objects_loop big fs names md
      else do {
        (ok, md) \<leftarrow> parse_source_files big fs fname md;
        if ok then objects_loop big fs names md else Some (False, md) })"

text \<open>The file list of a module; a negative precision of \<open>%.*s\<close> counts as none.\<close>

definition mod_file :: "u8 list option \<Rightarrow> u8 list \<Rightarrow> u8 list" where
  "mod_file modverdir modname =
     (let dir = (case modverdir of Some d \<Rightarrow> d | None \<Rightarrow> bytes_of ''.'');
          name = base_of modname;
          shown = (if length name < 2 then name else take (length name - 2) name)
      in take 4096 (dir @ bytes_of ''/'' @ shown @ bytes_of ''.mod''))"

definition mapped :: "u8 list \<Rightarrow> u8 list" where
  "mapped file = file @ (case byte_after file of Some c \<Rightarrow> [c] | None \<Rightarrow> [])"

text \<open>
  The digits stored in \<open>sum\<close>, or \<^term>\<open>Some None\<close> if it is left as it was. \<open>md\<close> is the
  uninitialised context.
\<close>

definition get_src_version ::
  "bool \<Rightarrow> files \<Rightarrow> u8 list option \<Rightarrow> u8 list \<Rightarrow> nat \<Rightarrow> md4_ctx \<Rightarrow> string option option" where
  "get_src_version big fs modverdir modname sumlen md =
     (case grab_file fs (mod_file modverdir modname) of
        None \<Rightarrow> Some None
      | Some file \<Rightarrow> do {
          first \<leftarrow> newline_in (mapped file);
          case first of
            None \<Rightarrow> Some None
          | Some i \<Rightarrow> do {
              end \<leftarrow> newline_in (drop (i + 1) (mapped file));
              case end of
                None \<Rightarrow> Some None
              | Some j \<Rightarrow> do {
                  (ok, md) \<leftarrow> objects_loop big fs (strsep (take j (drop (i + 1) file))) (md4_init md);
                  if ok then map_option Some (md4_final_ascii big md sumlen) else Some None } } })"

subsection \<open>RCS versions\<close>

definition c_strlen :: "u8 list \<Rightarrow> nat option" where
  "c_strlen s = (if NUL \<in> set s then Some (length (c_string s)) else None)"

text \<open>The buffer holds the version and, after its terminator, a second string.\<close>

definition strip_rcs_crap :: "u8 list \<Rightarrow> (bool \<times> u8 list) option" where
  "strip_rcs_crap version =
     (if \<not> starts_with (bytes_of ''$Revision'') version then Some (False, version)
      else do {
        n \<leftarrow> c_strlen version;
        m \<leftarrow> c_strlen (drop (n + 1) version);
        let full_len = n + m + 2;
            after = drop 9 version;
            len = (if after \<noteq> [] \<and> (hd after = chr CHR '':'' \<or> hd after = chr CHR ''$'') then 10 else 9);
            len = len + length (takeWhile is_space_byte (drop len version));
            full_len' = full_len - len;
            rest = (\<lambda>v. length (takeWhile (\<lambda>c. c \<noteq> NUL \<and> \<not> is_space_byte c) v))
        in do {
          version \<leftarrow> memmove version 0 (int len) (int full_len');
          k \<leftarrow> c_strlen version;
          version \<leftarrow> memmove version (int (rest version)) (int k) (int full_len' - int k);
          Some (True, version) } })"

text \<open>
  The file of a module after \<open>write_version\<close>. Whether it opens and seeks, and how many bytes are
  written, are the answers of the system.
\<close>

record system_answers =
  opens :: bool
  seeks :: bool
  writes :: nat

definition write_at :: "u8 list \<Rightarrow> nat \<Rightarrow> u8 list \<Rightarrow> u8 list" where
  "write_at file offset bs =
     (if bs = [] then file
      else take offset (file @ replicate (offset - length file) NUL) @ bs @ drop (offset + length bs) file)"

definition write_version :: "system_answers \<Rightarrow> u8 list \<Rightarrow> u8 list \<Rightarrow> nat \<Rightarrow> u8 list" where
  "write_version sys file cs offset =
     (if \<not> opens sys then file
      else if \<not> seeks sys then file
      else write_at file offset (take (writes sys) (c_string cs @ [NUL])))"

definition maybe_frob_rcs_version :: "system_answers \<Rightarrow> u8 list \<Rightarrow> u8 list \<Rightarrow> nat \<Rightarrow> u8 list option" where
  "maybe_frob_rcs_version sys file version version_offset =
     do { (stripped, version) \<leftarrow> strip_rcs_crap version;
          Some (if stripped then write_version sys file version version_offset else file) }"

subsection \<open>Layout and comments do not matter\<close>

text \<open>Two files that differ at most in layout and comments.\<close>

definition same_source :: "u8 list option \<Rightarrow> u8 list option \<Rightarrow> bool" where
  "same_source f g \<longleftrightarrow> f = g \<or>
     (\<exists>ps qs. f = Some (text_of ps) \<and> g = Some (text_of qs) \<and> ps \<noteq> [] \<and> qs \<noteq> [] \<and>
        source_ok ps \<and> source_ok qs \<and> summed ps = summed qs)"

lemma piece_text_not_Nil: "piece_text p \<noteq> []"
  by (cases p) simp_all

lemma text_of_Nil_iff [simp]: "text_of ps = [] \<longleftrightarrow> ps = []"
  by (cases ps) (simp_all add: piece_text_not_Nil)

lemma parse_file_text:
  "fs name = Some (text_of ps) \<Longrightarrow> ps \<noteq> [] \<Longrightarrow> source_ok ps \<Longrightarrow>
    parse_file big fs name md = do { md \<leftarrow> feed big (summed ps) md; Some (True, md) }"
  using parse_loop_sums [of ps big "[]" md] by (simp add: parse_file_def grab_file_def)

lemma parse_file_same:
  assumes "same_source (fs name) (fs' name)"
  shows "parse_file big fs name md = parse_file big fs' name md"
  using assms unfolding same_source_def
proof
  assume "fs name = fs' name"
  then show ?thesis by (simp add: parse_file_def grab_file_def)
qed (auto simp: parse_file_text)

lemma parse_file_same_all: "\<forall>name. same_source (fs name) (fs' name) \<Longrightarrow> parse_file big fs = parse_file big fs'"
  using parse_file_same [of fs _ fs' big] by blast

lemma cmd_loop_same:
  assumes "\<forall>name. same_source (fs name) (fs' name)"
  shows "cmd_loop big fs dir check_files ls md = cmd_loop big fs' dir check_files ls md"
proof (induction ls arbitrary: check_files md)
  case (Cons line ls)
  show ?case unfolding cmd_loop.simps parse_file_same_all [OF assms] Cons.IH ..
qed simp

text \<open>The command files, which say what an object is built from.\<close>

definition same_commands :: "files \<Rightarrow> files \<Rightarrow> bool" where
  "same_commands fs fs' \<longleftrightarrow> (\<forall>p. fs (p @ bytes_of ''.cmd'') = fs' (p @ bytes_of ''.cmd''))"

lemma parse_source_files_same:
  assumes "\<forall>name. same_source (fs name) (fs' name)" and "same_commands fs fs'"
  shows "parse_source_files big fs objfile md = parse_source_files big fs' objfile md"
proof -
  have same: "fs (dir_of objfile @ bytes_of ''.'' @ base_of objfile @ bytes_of ''.cmd'') =
      fs' (dir_of objfile @ bytes_of ''.'' @ base_of objfile @ bytes_of ''.cmd'')"
    using assms(2) [unfolded same_commands_def, rule_format, of "dir_of objfile @ bytes_of ''.'' @ base_of objfile"]
    by (simp only: append_assoc)
  show ?thesis
    unfolding parse_source_files_def grab_file_def cmd_loop_same [OF assms(1)] same ..
qed

lemma objects_loop_same:
  assumes "\<forall>name. same_source (fs name) (fs' name)" and "same_commands fs fs'"
  shows "objects_loop big fs names md = objects_loop big fs' names md"
proof (induction names arbitrary: md)
  case (Cons fname names)
  show ?case unfolding objects_loop.simps parse_source_files_same [OF assms] Cons.IH ..
qed simp

lemma get_src_version_same:
  assumes "\<forall>name. same_source (fs name) (fs' name)" and "same_commands fs fs'"
    and "fs (mod_file modverdir modname) = fs' (mod_file modverdir modname)"
  shows "get_src_version big fs modverdir modname sumlen md = get_src_version big fs' modverdir modname sumlen md"
  unfolding get_src_version_def grab_file_def assms(3) objects_loop_same [OF assms(1,2)] ..

subsection \<open>One file after the other\<close>

text \<open>The whole files summed for one line of the command file and for one object.\<close>

lemma feed_context:
  assumes "length (block md) = 64"
  shows "\<exists>md'. feed big bs (md4_init md) = Some md' \<and>
    md4_final_ascii big md' len = Some (take (len - 1) (md4_text big bs))"
proof -
  obtain md' where "feed big bs (md4_init md) = Some md'" "absorbed md' ([] @ bs)"
    using feed_absorbs [OF absorbed_init [OF assms]] by blast
  then show ?thesis using md4_final_absorbed [of md' bs big len] by simp
qed

end
