(* ===== verification/Source_Properties.thy ===== *)
theory Source_Properties
  imports Source_Version
begin

text \<open>
  What the version of a module is: the digest of what its source files contain, and where the
  code of \<open>sumversion.c\<close> reads too far.
\<close>

subsection \<open>Which files are summed\<close>

text \<open>
  The source files named by the lines of a command file, by a command file, and by a list of
  objects. \<^term>\<open>None\<close> if a line is malformed or a command file is missing.
\<close>

fun named_sources :: "u8 list \<Rightarrow> bool \<Rightarrow> u8 list list \<Rightarrow> u8 list list option" where
  "named_sources dir check_files [] = Some []"
| "named_sources dir check_files (line # ls) =
     (if starts_with (bytes_of ''source_'') line then
        (case strrchr line SPACE of
           None \<Rightarrow> None
         | Some i \<Rightarrow> map_option ((#) (drop (i + 1) line)) (named_sources dir check_files ls))
      else if starts_with (bytes_of ''deps_'') line then named_sources dir True ls
      else if \<not> check_files then named_sources dir False ls
      else if line = [] then None
      else if last line \<noteq> BACKSLASH then Some []
      else if in_dir dir (takeWhile (\<lambda>c. \<not> is_space_byte c) line)
      then map_option ((#) (takeWhile (\<lambda>c. \<not> is_space_byte c) line)) (named_sources dir True ls)
      else named_sources dir True ls)"

definition object_sources :: "files \<Rightarrow> u8 list \<Rightarrow> u8 list list option" where
  "object_sources fs objfile =
     (case grab_file fs (dir_of objfile @ bytes_of ''.'' @ base_of objfile @ bytes_of ''.cmd'') of
        None \<Rightarrow> None
      | Some cmd \<Rightarrow> named_sources (dir_of objfile) False (file_lines cmd 0))"

fun objects_sources :: "files \<Rightarrow> u8 list list \<Rightarrow> u8 list list option" where
  "objects_sources fs [] = Some []"
| "objects_sources fs (fname # names) =
     (if fname = [] \<or> is_static_library fname then objects_sources fs names
      else do { srcs \<leftarrow> object_sources fs fname; rest \<leftarrow> objects_sources fs names; Some (srcs @ rest) })"

text \<open>The second line of the file of a module, the names of its objects.\<close>

definition module_objects :: "u8 list \<Rightarrow> u8 list list option" where
  "module_objects file =
     (case newline_in (mapped file) of
        Some (Some i) \<Rightarrow>
          (case newline_in (drop (i + 1) (mapped file)) of
             Some (Some j) \<Rightarrow> Some (strsep (take j (drop (i + 1) file)))
           | _ \<Rightarrow> None)
      | _ \<Rightarrow> None)"

text \<open>The named files hold the given texts.\<close>

definition holds_sources :: "files \<Rightarrow> (u8 list \<Rightarrow> piece list) \<Rightarrow> u8 list list \<Rightarrow> bool" where
  "holds_sources fs cont srcs \<longleftrightarrow>
     (\<forall>s \<in> set srcs. fs s = Some (text_of (cont s)) \<and> cont s \<noteq> [] \<and> source_ok (cont s))"

definition sources_summed :: "(u8 list \<Rightarrow> piece list) \<Rightarrow> u8 list list \<Rightarrow> u8 list" where
  "sources_summed cont srcs = concat (map (\<lambda>s. summed (cont s)) srcs)"

lemma holds_sources_simps [simp]:
  "holds_sources fs cont []"
  "holds_sources fs cont (s # srcs) \<longleftrightarrow>
     fs s = Some (text_of (cont s)) \<and> cont s \<noteq> [] \<and> source_ok (cont s) \<and> holds_sources fs cont srcs"
  "holds_sources fs cont (srcs @ srcs') \<longleftrightarrow> holds_sources fs cont srcs \<and> holds_sources fs cont srcs'"
  by (auto simp: holds_sources_def)

lemma sources_summed_simps [simp]:
  "sources_summed cont [] = []"
  "sources_summed cont (s # srcs) = summed (cont s) @ sources_summed cont srcs"
  "sources_summed cont (srcs @ srcs') = sources_summed cont srcs @ sources_summed cont srcs'"
  by (simp_all add: sources_summed_def)

definition summed_up :: "bool \<Rightarrow> u8 list \<Rightarrow> md4_ctx \<Rightarrow> (bool \<times> md4_ctx) option" where
  "summed_up big bs md = map_option (Pair True) (feed big bs md)"

lemma summed_up_append: "summed_up big (xs @ ys) md = do { md \<leftarrow> feed big xs md; summed_up big ys md }"
  by (cases "feed big xs md") (simp_all add: summed_up_def feed_append)

lemma summed_up_Nil [simp]: "summed_up big [] md = Some (True, md)"
  by (simp add: summed_up_def)

text \<open>A file is summed and then the rest.\<close>

lemma parse_file_then:
  assumes "fs s = Some (text_of (cont s))" and "cont s \<noteq> []" and "source_ok (cont s)"
    and "\<And>md. rest md = summed_up big bs md"
  shows "do { (ok, md) \<leftarrow> parse_file big fs s md; if ok then rest md else Some (False, md) } =
    summed_up big (summed (cont s) @ bs) md"
  unfolding parse_file_text [of fs s "cont s" big md, OF assms(1-3)] summed_up_append
  by (cases "feed big (summed (cont s)) md") (simp_all add: assms(4))

lemma cmd_loop_sums:
  "named_sources dir check_files ls = Some srcs \<Longrightarrow> holds_sources fs cont srcs \<Longrightarrow>
    cmd_loop big fs dir check_files ls md = summed_up big (sources_summed cont srcs) md"
proof (induction dir check_files ls arbitrary: srcs md rule: named_sources.induct)
  case (2 dir check_files line ls)
  show ?case
  proof (cases "starts_with (bytes_of ''source_'') line")
    case True
    then obtain i rest where i: "strrchr line SPACE = Some i" "named_sources dir check_files ls = Some rest"
      "srcs = drop (i + 1) line # rest" using "2.prems"(1) by (auto split: option.splits)
    have "cmd_loop big fs dir check_files ls md' = summed_up big (sources_summed cont rest) md'" for md'
      using "2.IH"(1) [OF True i(1,2)] "2.prems"(2) i(3) by simp
    from parse_file_then [of fs "drop (i + 1) line" cont, OF _ _ _ this] show ?thesis
      using True "2.prems"(2) i by simp
  next
    case source: False
    show ?thesis
    proof (cases "starts_with (bytes_of ''deps_'') line \<or> \<not> check_files")
      case True
      then show ?thesis using source "2.prems" "2.IH"(2,3) by auto
    next
      case False
      let ?name = "takeWhile (\<lambda>c. \<not> is_space_byte c) line"
      have line: "line \<noteq> []" using source False "2.prems"(1) by (auto split: if_splits)
      consider "last line \<noteq> BACKSLASH" | "last line = BACKSLASH" "in_dir dir ?name"
        | "last line = BACKSLASH" "\<not> in_dir dir ?name" by blast
      then show ?thesis
      proof cases
        case 1
        then show ?thesis using source False line "2.prems"(1) by simp
      next
        case 2
        then obtain rest where r: "named_sources dir True ls = Some rest" "srcs = ?name # rest"
          using source False line "2.prems"(1) by auto
        have "cmd_loop big fs dir True ls md' = summed_up big (sources_summed cont rest) md'" for md'
          using "2.IH"(4) [OF source _ _ line _ 2(2) r(1)] False 2(1) "2.prems"(2) r(2) by simp
        from parse_file_then [of fs ?name cont, OF _ _ _ this] show ?thesis
          using source False line 2 "2.prems"(2) r(2) by simp
      next
        case 3
        then show ?thesis using source False line "2.prems" "2.IH"(5) by simp
      qed
    qed
  qed
qed simp

lemma parse_source_files_sums:
  "object_sources fs objfile = Some srcs \<Longrightarrow> holds_sources fs cont srcs \<Longrightarrow>
    parse_source_files big fs objfile md = summed_up big (sources_summed cont srcs) md"
  unfolding object_sources_def parse_source_files_def by (auto simp: cmd_loop_sums split: option.splits)

lemma objects_loop_sums:
  "objects_sources fs names = Some srcs \<Longrightarrow> holds_sources fs cont srcs \<Longrightarrow>
    objects_loop big fs names md = summed_up big (sources_summed cont srcs) md"
proof (induction names arbitrary: srcs md)
  case (Cons fname names)
  show ?case
  proof (cases "fname = [] \<or> is_static_library fname")
    case True
    then show ?thesis using Cons by auto
  next
    case False
    then obtain a b where ab: "object_sources fs fname = Some a" "objects_sources fs names = Some b" "srcs = a @ b"
      using Cons.prems(1) by (auto split: bind_splits)
    have "parse_source_files big fs fname md = summed_up big (sources_summed cont a) md"
      using parse_source_files_sums [OF ab(1)] Cons.prems(2) ab(3) by simp
    moreover have "objects_loop big fs names md' = summed_up big (sources_summed cont b) md'" for md'
      using Cons.IH [OF ab(2)] Cons.prems(2) ab(3) by simp
    ultimately show ?thesis
      using False ab(3) unfolding objects_loop.simps
      by (cases "feed big (sources_summed cont a) md") (simp_all add: summed_up_def feed_append)
  qed
qed simp

lemma get_src_version_sums:
  assumes "grab_file fs (mod_file modverdir modname) = Some listed" and "module_objects listed = Some names"
    and "objects_sources fs names = Some srcs" and "holds_sources fs cont srcs" and "length (block md) = 64"
  shows "get_src_version big fs modverdir modname sumlen md =
    Some (Some (take (sumlen - 1) (md4_text big (sources_summed cont srcs))))"
proof -
  obtain i j where ij: "newline_in (mapped listed) = Some (Some i)"
    "newline_in (drop (i + 1) (mapped listed)) = Some (Some j)" "names = strsep (take j (drop (i + 1) listed))"
    using assms(2) by (auto simp: module_objects_def split: option.splits)
  obtain md' where md': "feed big (sources_summed cont srcs) (md4_init md) = Some md'"
    "md4_final_ascii big md' sumlen = Some (take (sumlen - 1) (md4_text big (sources_summed cont srcs)))"
    using feed_context [OF assms(5)] by blast
  have "objects_loop big fs (strsep (take j (drop (i + 1) listed))) (md4_init md) = Some (True, md')"
    using objects_loop_sums [OF assms(3,4), of big "md4_init md"] md'(1) ij(3) by (simp add: summed_up_def)
  then show ?thesis
    unfolding get_src_version_def assms(1) by (simp add: ij(1) ij(2) [simplified] md'(2))
qed

subsection \<open>Beyond the end of a file\<close>

text \<open>Bytes that are summed or skipped one by one.\<close>

definition plain :: "u8 list \<Rightarrow> bool" where
  "plain cs \<longleftrightarrow> QUOTE \<notin> set cs \<and> SLASH \<notin> set cs \<and> BACKSLASH \<notin> set cs"

lemma parse_loop_plain:
  "plain cs \<Longrightarrow> parse_loop big (pre @ cs @ [SLASH]) (length pre) md =
    do { md \<leftarrow> feed big (filter (\<lambda>c. \<not> is_space_byte c) cs) md;
         parse_loop big (pre @ cs @ [SLASH]) (length pre + length cs) md }"
proof (induction cs arbitrary: pre md)
  case (Cons c cs)
  have c: "c \<noteq> QUOTE" "c \<noteq> SLASH" "c \<noteq> BACKSLASH" "plain cs" using Cons.prems by (auto simp: plain_def)
  then have "parse_loop big (pre @ c # cs @ [SLASH]) (length pre) md =
    (if is_space_byte c then parse_loop big (pre @ c # cs @ [SLASH]) (length pre + 1) md
     else do { md \<leftarrow> add_char big c md; parse_loop big (pre @ c # cs @ [SLASH]) (length pre + 1) md })"
    by (subst parse_loop_at) simp
  then show ?case using Cons.IH [of "pre @ [c]", OF c(4)] by (cases "add_char big c md") simp_all
qed simp

lemma parse_file_slash:
  assumes "plain cs" and "fs name = Some (cs @ [SLASH])" and "absorbed md bs"
  shows "parse_file big fs name md = None \<longleftrightarrow> 4096 dvd length (cs @ [SLASH])"
proof -
  let ?keep = "filter (\<lambda>c. \<not> is_space_byte c) cs"
  obtain md1 where md1: "feed big ?keep md = Some md1" "absorbed md1 (bs @ ?keep)"
    using feed_absorbs [OF assms(3)] by blast
  obtain md2 where md2: "add_char big SLASH md1 = Some md2" using add_char_absorbs [OF md1(2)] by blast
  have "parse_loop big (cs @ [SLASH]) 0 md = parse_loop big (cs @ [SLASH]) (length cs) md1"
    using parse_loop_plain [OF assms(1), of big "[]" md] md1(1) by simp
  also have "\<dots> = do { n \<leftarrow> byte_after (cs @ [SLASH]); if n = STAR then parse_loop big (cs @ [SLASH])
        (length cs + parse_comment [SLASH] + 1) md1 else Some md2 }"
    using parse_loop_end [of big "cs @ [SLASH]" md2]
    by (subst parse_loop_at) (cases "byte_after (cs @ [SLASH])"; simp add: is_space_byte_def md2)
  finally show ?thesis
    using assms(2) by (auto simp: parse_file_def grab_file_def byte_after_def dvd_eq_mod_eq_0)
qed

subsection \<open>RCS keywords\<close>

lemma c_strlen_string: "NUL \<notin> set s \<Longrightarrow> c_strlen (s @ NUL # r) = Some (length s)"
  by (simp add: c_strlen_def c_string_def takeWhile_append2 [where xs = s] split: if_splits)
    (metis (mono_tags, lifting) takeWhile.simps(2) takeWhile_append2 append_Nil2)

lemma memmove_front: "memmove (xs @ ys @ zs) 0 (int (length xs)) (int (length ys)) =
    Some (ys @ drop (length ys) (xs @ ys @ zs))"
  by (simp add: memmove_def memcpy_def)

lemma memmove_middle:
  "memmove (as @ bs @ cs @ ds) (int (length as)) (int (length as + length bs)) (int (length cs)) =
    Some (as @ cs @ drop (length as + length cs) (as @ bs @ cs @ ds))"
  by (simp add: memmove_def memcpy_def nat_add_distrib)

lemma strip_rcs_crap_result:
  assumes "c \<in> {chr CHR '':'', chr CHR ''$''}" and "\<forall>x \<in> set sp. is_space_byte x"
    and "num \<noteq> []" and "\<forall>x \<in> set num. x \<noteq> NUL \<and> \<not> is_space_byte x"
    and "NUL \<notin> set junk" and "junk = [] \<or> is_space_byte (hd junk)" and "NUL \<notin> set second"
  shows "\<exists>rest. strip_rcs_crap (bytes_of ''$Revision'' @ c # sp @ num @ junk @ NUL # second @ NUL # after) =
    Some (True, num @ NUL # second @ NUL # rest)"
proof -
  define key where "key = bytes_of ''$Revision''"
  let ?keep = "num @ junk @ NUL # second @ [NUL]"
  let ?v = "key @ c # sp @ num @ junk @ NUL # second @ NUL # after"
  have key: "length key = 9" "NUL \<notin> set key" by (simp_all add: key_def bytes_of_def)
  have c: "c \<noteq> NUL" using assms(1) by (auto simp: chr_def)
  have no: "NUL \<notin> set (key @ c # sp @ num @ junk)"
    using key(2) c assms(2,4,5) by (auto simp: is_space_byte_def)
  have n: "c_strlen ?v = Some (10 + length sp + length num + length junk)"
    using c_strlen_string [OF no, of "second @ NUL # after"] key(1) by simp
  have m: "c_strlen (drop (10 + length sp + length num + length junk + 1) ?v) = Some (length second)"
    using c_strlen_string [OF assms(7), of after] key(1) by simp
  have sp: "takeWhile is_space_byte (drop 10 ?v) = sp"
    using assms(2,3,4) key(1) by (cases num) (simp_all add: takeWhile_append2)
  have moved: "memmove ?v 0 (int (10 + length sp)) (int (length ?keep)) =
      Some (?keep @ drop (length ?keep) ?v)"
    using memmove_front [of "key @ c # sp" ?keep after] key(1) by simp
  define more' where "more' = drop (length ?keep) ?v"
  let ?w = "num @ junk @ NUL # second @ NUL # more'"
  have k: "c_strlen ?w = Some (length num + length junk)"
    using c_strlen_string [of "num @ junk" "second @ NUL # more'"] assms(4,5) by auto
  have stop: "takeWhile (\<lambda>x. x \<noteq> NUL \<and> \<not> is_space_byte x) ?w = num"
    using assms(4,6) by (cases junk) (simp_all add: takeWhile_append2)
  obtain rest where close: "memmove ?w (int (length num)) (int (length num + length junk)) (int (length (NUL # second @ [NUL]))) =
      Some (num @ NUL # second @ NUL # rest)"
    using memmove_middle [of num junk "NUL # second @ [NUL]" more'] unfolding append_Cons append_assoc append_Nil by blast
  have full: "10 + length sp + length num + length junk + length second + 2 - (10 + length sp) = length ?keep"
    and left: "int (length ?keep) - int (length num + length junk) = int (length (NUL # second @ [NUL]))" by simp_all
  have st: "starts_with key ?v = True" and d9: "drop 9 ?v = c # sp @ num @ junk @ NUL # second @ NUL # after"
    using key(1) by (simp_all add: starts_with_def)
  have colon: "(c # xs \<noteq> [] \<and> (hd (c # xs) = chr CHR '':'' \<or> hd (c # xs) = chr CHR ''$'')) = True" for xs
    using assms(1) by simp
  have "strip_rcs_crap ?v =
     do { version \<leftarrow> memmove ?v 0 (int (10 + length sp)) (int (length ?keep));
          k \<leftarrow> c_strlen version;
          version \<leftarrow> memmove version (int (length (takeWhile (\<lambda>x. x \<noteq> NUL \<and> \<not> is_space_byte x) version)))
             (int k) (int (length ?keep) - int k);
          Some (True, version) }"
    by (simp only: strip_rcs_crap_def key_def [symmetric] st not_True_eq_False if_False n Option.bind.bind_lunit m
        Let_def d9 colon if_True sp full)
  also have "\<dots> = Some (True, num @ NUL # second @ NUL # rest)"
    unfolding moved Option.bind.bind_lunit more'_def [symmetric] append_assoc append_Cons append_Nil k stop left close ..
  finally show ?thesis unfolding key_def by blast
qed

subsection \<open>Properties\<close>


definition example_source :: "piece list" where
  "example_source = [Code 97, Layout SPACE, Comment (bytes_of ''x''), Quoted [SPACE], Continuation, Code 98]"

definition example_files :: "u8 list \<Rightarrow> files" where
  "example_files source name =
     (if name = bytes_of ''./m.mod'' then Some (bytes_of ''m.ko'' @ [NEWLINE] @ bytes_of ''m.o'' @ [NEWLINE])
      else if name = bytes_of ''.m.o.cmd'' then Some (bytes_of ''source_m.o := m.c'' @ [NEWLINE])
      else if name = bytes_of ''m.c'' then Some source else None)"

definition fresh_ctx :: md4_ctx where
  "fresh_ctx = \<lparr>hash = [], block = replicate 64 0, byte_count = 0\<rparr>"

lemma example_listed: "grab_file (example_files src) (mod_file None (bytes_of ''m.o'')) =
    Some (bytes_of ''m.ko'' @ [NEWLINE] @ bytes_of ''m.o'' @ [NEWLINE])"
  by code_simp

lemma example_names:
  "module_objects (bytes_of ''m.ko'' @ [NEWLINE] @ bytes_of ''m.o'' @ [NEWLINE]) = Some [bytes_of ''m.o'']"
  by code_simp

lemma example_objects: "objects_sources (example_files src) [bytes_of ''m.o''] = Some [bytes_of ''m.c'']"
  by code_simp

lemma example_source_file: "example_files src (bytes_of ''m.c'') = Some src"
  by code_simp



lemma example_same_commands: "same_commands (example_files src) (example_files src')"
proof -
  have "last (p @ bytes_of ''.cmd'') \<noteq> last (bytes_of ''m.c'')" for p by (simp add: bytes_of_def)
  then have "p @ bytes_of ''.cmd'' \<noteq> bytes_of ''m.c''" for p by metis
  then show ?thesis unfolding same_commands_def example_files_def by simp
qed



text \<open>
  \<open>parse_file\<close> reads past the end of a file that ends in a slash: of a file of characters
  without quotes, slashes and backslashes followed by one slash, it reads the byte after the mapped
  file exactly if the file fills its pages.
\<close>

theorem slash_at_page_end:
  assumes "plain cs" and "fs name = Some (cs @ [SLASH])" and "absorbed md bs"
  shows "parse_file big fs name md = None \<longleftrightarrow> 4096 dvd length (cs @ [SLASH])"
  using assms by (rule parse_file_slash)

theorem slash_at_page_end_witness:
  "parse_file False (\<lambda>_. Some (replicate 4095 97 @ [SLASH])) [] (md4_init fresh_ctx) = None"
proof -
  have p: "plain (replicate 4095 97)" unfolding plain_def set_replicate_conv_if by simp
  have a: "absorbed (md4_init fresh_ctx) []" by (rule absorbed_init) (simp add: fresh_ctx_def)
  have "length (replicate 4095 (97 :: u8) @ [SLASH]) = 4096" by (simp only: length_append length_replicate) simp
  then show ?thesis using slash_at_page_end [of _ "\<lambda>_. Some (replicate 4095 97 @ [SLASH])" "[]", OF p refl a, of False] by (simp del: replicate_numeral_unfold)
qed

text \<open>
  \<open>maybe_frob_rcs_version\<close> replaces a revision keyword by its number: where the module file
  holds the keyword, a colon or a dollar sign, layout, the number and what follows it, the version
  read there afterwards is the number. Only the number and its terminator are written: the string
  that \<open>strip_rcs_crap\<close> moves up behind the number stays where it was in the file, and the rest of
  the keyword stays in between.
\<close>

theorem frob_leaves_number:
  assumes "c \<in> {chr CHR '':'', chr CHR ''$''}" and "\<forall>x \<in> set sp. is_space_byte x"
    and "num \<noteq> []" and "\<forall>x \<in> set num. x \<noteq> NUL \<and> \<not> is_space_byte x"
    and "NUL \<notin> set junk" and "junk = [] \<or> is_space_byte (hd junk)" and "NUL \<notin> set second"
    and "version = bytes_of ''$Revision'' @ c # sp @ num @ junk @ NUL # second @ NUL # after"
    and "opens sys" and "seeks sys" and "length num < writes sys"
  shows "maybe_frob_rcs_version sys (before @ version) version (length before) =
    Some (before @ num @ NUL # drop (length num + 1) version)"
proof -
  obtain rest where r: "strip_rcs_crap version = Some (True, num @ NUL # second @ NUL # rest)"
    using strip_rcs_crap_result [OF assms(1-7)] assms(8) by blast
  have "c_string (num @ NUL # second @ NUL # rest) = num"
    using assms(4) by (simp add: c_string_def takeWhile_append2)
  then show ?thesis
    unfolding maybe_frob_rcs_version_def r using assms(9-11)
    by (simp add: write_version_def write_at_def del: append_assoc)
qed

theorem frob_leaves_number_witness:
  "maybe_frob_rcs_version \<lparr>opens = True, seeks = True, writes = 4\<rparr>
     ([7] @ bytes_of ''$Revision: 1.2 $'' @ [NUL, NUL]) (bytes_of ''$Revision: 1.2 $'' @ [NUL, NUL]) 1 =
   Some ([7] @ bytes_of ''1.2'' @ [NUL] @ bytes_of ''ision: 1.2 $'' @ [NUL, NUL])"
  using frob_leaves_number [of "chr CHR '':''" "[SPACE]" "bytes_of ''1.2''" "[SPACE, chr CHR ''$'']" "[]"
      "bytes_of ''$Revision: 1.2 $'' @ [NUL, NUL]" "[]" "\<lparr>opens = True, seeks = True, writes = 4\<rparr>" "[7]"]
  by (simp add: bytes_of_def chr_def is_space_byte_def)

text \<open>
  Feeding a text in any pieces gives the same digest, and the empty message of RFC 1320 its
  digest \<open>31d6cfe0...\<close> when the words are loaded as the RFC says.
\<close>

theorem md4_pieces:
  assumes "length (block ctx) = 64"
  shows "\<exists>ctx'. md4_updates big (md4_init ctx) ds = Some ctx' \<and>
    md4_final_ascii big ctx' len = Some (take (len - 1) (md4_text big (concat ds)))"
proof -
  obtain ctx' where "md4_updates big (md4_init ctx) ds = Some ctx'" "absorbed ctx' (concat ds)"
    using md4_updates_absorb [OF absorbed_init [OF assms]] by fastforce
  then show ?thesis using md4_final_absorbed by blast
qed

theorem md4_pieces_witness:
  "\<exists>ctx'. md4_updates True (md4_init fresh_ctx) [[1], [2, 3]] = Some ctx' \<and>
    md4_final_ascii True ctx' 24 = Some (take 23 (md4_text True [1, 2, 3]))"
  using md4_pieces [of fresh_ctx True "[[1], [2, 3]]" 24] by (simp add: fresh_ctx_def)

lemma rfc_empty_message:
  "rfc_transform initial (0x80 # replicate 15 0) = map bswap [0x31d6cfe0, 0xd16ae931, 0xb73c59d7, 0xe0c089c0]"
  by code_simp

end
