(* ===== verification/Collatz.thy ===== *)
theory Collatz
  imports Lab_Prelude
begin

text \<open>
  The Collatz hardware of lab 1: the iterator \<open>collatz.sv\<close> and the range finder \<open>range.sv\<close> that
  drives it, one rising edge of the clock per step. A count is specified as the number of
  terms of the sequence up to the first that is 1 (or 0).
\<close>

subsection \<open>The iterator\<close>

record collatz_hw =
  dout :: u32
  cdone :: bool

definition dout_next :: "u32 \<Rightarrow> u32" where
  "dout_next d = (if \<not> bit d 0 then drop_bit 1 d else 3 * d + 1)"

definition is_last :: "u32 \<Rightarrow> bool" where
  "is_last d \<longleftrightarrow> d = 1 \<or> d = 0"

definition collatz_clock :: "bool \<Rightarrow> u32 \<Rightarrow> collatz_hw \<Rightarrow> collatz_hw" where
  "collatz_clock go n c =
     (if go then \<lparr>dout = n, cdone = is_last n\<rparr>
      else if \<not> cdone c then \<lparr>dout = dout_next (dout c), cdone = is_last (dout_next (dout c))\<rparr>
      else c)"

subsection \<open>The range finder\<close>

text \<open>
  The addresses have the 8 bits of lab 1. The registers without initial value are part of the
  state; only \<open>running\<close> starts as 0.
\<close>

record range_hw =
  iterator :: collatz_hw
  cgo :: bool
  n_reg :: u32
  num :: "u8"
  running :: bool
  range_done :: bool
  we :: bool
  din :: u16
  ram :: "u8 \<Rightarrow> u16"
  count :: u16

text \<open>The registers after an edge depend on those before it; the RAM is written and read at it.\<close>

definition ram_clock :: "u32 \<Rightarrow> range_hw \<Rightarrow> range_hw \<Rightarrow> range_hw" where
  "ram_clock start r next =
     (let addr = (if we r then num r else ucast start) in
      next\<lparr>ram := (if we r then (ram r)(addr := din r) else ram r), count := ram r addr\<rparr>)"

definition range_control :: "nat \<Rightarrow> bool \<Rightarrow> u32 \<Rightarrow> range_hw \<Rightarrow> range_hw" where
  "range_control RAM_WORDS go start r =
     (if go \<and> \<not> running r then
        r\<lparr>running := True, num := 0, din := 1, cgo := True, n_reg := start, range_done := False, we := False\<rparr>
      else if running r then
        (if cgo r then r\<lparr>cgo := False\<rparr>
         else if we r then
           (if num r = of_nat (RAM_WORDS - 1) then r\<lparr>we := False, running := False, range_done := True\<rparr>
            else r\<lparr>we := False, num := num r + 1, n_reg := n_reg r + 1, din := 1, cgo := True\<rparr>)
         else if cdone (iterator r) then r\<lparr>we := True\<rparr>
         else r\<lparr>din := din r + 1\<rparr>)
      else if range_done r then r\<lparr>range_done := False\<rparr>
      else r)"

definition range_clock :: "nat \<Rightarrow> bool \<Rightarrow> u32 \<Rightarrow> range_hw \<Rightarrow> range_hw" where
  "range_clock RAM_WORDS go start r =
     (ram_clock start r (range_control RAM_WORDS go start r))
       \<lparr>iterator := collatz_clock (cgo r) (n_reg r) (iterator r)\<rparr>"

text \<open>A run: the inputs of the successive edges.\<close>

definition range_run :: "nat \<Rightarrow> (bool \<times> u32) list \<Rightarrow> range_hw \<Rightarrow> range_hw" where
  "range_run RAM_WORDS ins r = fold (\<lambda>(go, start). range_clock RAM_WORDS go start) ins r"

subsection \<open>The sequence\<close>

definition iterate :: "nat \<Rightarrow> u32 \<Rightarrow> u32" where
  "iterate k = dout_next ^^ k"

text \<open>The sequence from a number ends after so many steps.\<close>

definition ends_after :: "u32 \<Rightarrow> nat \<Rightarrow> bool" where
  "ends_after n k \<longleftrightarrow> is_last (iterate k n) \<and> (\<forall>j < k. \<not> is_last (iterate j n))"

text \<open>The sequence of mathematics.\<close>

definition collatz_step :: "nat \<Rightarrow> nat" where
  "collatz_step n = (if even n then n div 2 else 3 * n + 1)"

text \<open>The number of terms up to the first 1.\<close>

definition collatz_ends :: "nat \<Rightarrow> nat \<Rightarrow> bool" where
  "collatz_ends n k \<longleftrightarrow> (collatz_step ^^ k) n = 1 \<and> (\<forall>j < k. (collatz_step ^^ j) n \<noteq> 1)"

lemma dout_next_exact:
  assumes "3 * unat d + 1 < 2 ^ 32"
  shows "unat (dout_next d) = collatz_step (unat d)"
proof -
  have "unat (3 * d + 1) = 3 * unat d + 1"
    using assms by (simp add: unat_word_ariths)
  moreover have "bit d 0 \<longleftrightarrow> bit (unat d) 0" by (simp add: bit_simps)
  then have "bit d 0 \<longleftrightarrow> odd (unat d)" by (simp add: bit_0)
  ultimately show ?thesis by (simp add: dout_next_def collatz_step_def unat_drop_bit_eq drop_bit_eq_div unat_div)
qed

lemma iterate_exact:
  assumes "\<forall>j < k. 3 * (collatz_step ^^ j) (unat n) + 1 < 2 ^ 32"
  shows "unat (iterate k n) = (collatz_step ^^ k) (unat n)"
  using assms
proof (induction k)
  case (Suc k)
  then have "unat (iterate k n) = (collatz_step ^^ k) (unat n)" by simp
  then show ?case using Suc.prems dout_next_exact [of "iterate k n"] by (simp add: iterate_def)
qed (simp add: iterate_def)

lemma collatz_step_pos: "0 < n \<Longrightarrow> 0 < (collatz_step ^^ k) n"
  by (induction k) (auto simp: collatz_step_def elim!: evenE)

subsection \<open>Sequences of the lab\<close>

text \<open>From \<open>v\<close> the sequence falls below \<open>b\<close> within \<open>f\<close> steps, without exceeding a million before.\<close>

fun falls :: "nat \<Rightarrow> int \<Rightarrow> int \<Rightarrow> bool" where
  "falls 0 b v \<longleftrightarrow> v < b"
| "falls (Suc f) b v \<longleftrightarrow> v < b \<or> v < 1000000 \<and> falls f b (if v mod 2 = 0 then v div 2 else 3 * v + 1)"

lemma falls_from_2: "\<forall>n \<in> set [2..63]. falls 120 2 n"
  by code_simp

lemma falls_from_64: "\<forall>n \<in> set [64..511]. falls 150 64 n"
  by code_simp

lemma falls_from_512: "\<forall>n \<in> set [512..1278]. falls 150 512 n"
  by code_simp

lemma falls_below:
  "falls f b (int n) \<Longrightarrow> \<exists>k \<le> f. int ((collatz_step ^^ k) n) < b \<and> (\<forall>j < k. (collatz_step ^^ j) n < 1000000)"
proof (induction f arbitrary: n)
  case (Suc f)
  show ?case
  proof (cases "int n < b")
    case False
    have "int (collatz_step n) = (if int n mod 2 = 0 then int n div 2 else 3 * int n + 1)"
      by (simp add: collatz_step_def) presburger
    then have "falls f b (int (collatz_step n))" "n < 1000000" using Suc.prems False by auto
    then obtain k where k: "k \<le> f" "int ((collatz_step ^^ k) (collatz_step n)) < b"
        "\<forall>j < k. (collatz_step ^^ j) (collatz_step n) < 1000000"
      using Suc.IH by blast
    have "(collatz_step ^^ j) n < 1000000" if "j < Suc k" for j
      using that k(3) \<open>n < 1000000\<close> by (cases j) (simp_all add: funpow_Suc_right del: funpow.simps)
    then show ?thesis using k by (intro exI [of _ "Suc k"]) (simp add: funpow_Suc_right del: funpow.simps)
  qed (intro exI [of _ 0], simp)
qed (intro exI [of _ 0], simp)

lemma falls_to_1:
  assumes "1 \<le> n" and "n \<le> 1278"
  shows "\<exists>k \<le> 420. (collatz_step ^^ k) n = 1 \<and> (\<forall>j < k. (collatz_step ^^ j) n < 1000000)"
proof -
  define low where "low n f = (\<exists>k \<le> f. (collatz_step ^^ k) n = 1 \<and> (\<forall>j < k. (collatz_step ^^ j) n < 1000000))" for n f
  have join: "low n (f + g)"
    if h: "falls f b (int n)" "\<And>m. 1 \<le> m \<Longrightarrow> int m < b \<Longrightarrow> low m g" "1 \<le> n" for n f g b
  proof -
    obtain k where k: "k \<le> f" "int ((collatz_step ^^ k) n) < b" "\<forall>j < k. (collatz_step ^^ j) n < 1000000"
      using falls_below [OF h(1)] by blast
    moreover have "1 \<le> (collatz_step ^^ k) n" using collatz_step_pos [of n k] h(3) by simp
    ultimately obtain l where l: "l \<le> g" "(collatz_step ^^ l) ((collatz_step ^^ k) n) = 1"
        "\<forall>j < l. (collatz_step ^^ j) ((collatz_step ^^ k) n) < 1000000"
      using h(2) unfolding low_def by blast
    have "(collatz_step ^^ j) n < 1000000" if "j < k + l" for j
      using that k(3) l(3) [rule_format, of "j - k"] funpow_add [of "j - k" k collatz_step] by (cases "j < k") auto
    then show ?thesis
      using k(1) l(1,2) funpow_add [of l k collatz_step]
      unfolding low_def by (intro exI [of _ "k + l"]) (simp add: add.commute)
  qed
  have mono: "low m f \<Longrightarrow> f \<le> g \<Longrightarrow> low m g" for m f g unfolding low_def by (meson order_trans)
  have low1: "low m 0" if "1 \<le> m" "int m < 2" for m using that by (simp add: low_def)
  have low2: "low m (120 + 0)" if "1 \<le> m" "int m < 64" for m
  proof (cases "m = 1")
    case False
    then have "int m \<in> set [2..63]" using that by (simp only: set_upto atLeastAtMost_iff) linarith
    then have "falls 120 2 (int m)" using falls_from_2 by blast
    then show ?thesis by (rule join [OF _ low1 that(1)])
  qed (simp add: low_def, intro exI [of _ 0], simp)
  have low3: "low m (150 + (120 + 0))" if "1 \<le> m" "int m < 512" for m
  proof (cases "m < 64")
    case False
    then have "int m \<in> set [64..511]" using that by (simp only: set_upto atLeastAtMost_iff) linarith
    then have "falls 150 64 (int m)" using falls_from_64 by blast
    then show ?thesis by (rule join [OF _ low2 that(1)])
  qed (use mono [OF low2, of m] that in simp)
  have "low n (150 + (150 + (120 + 0)))"
  proof (cases "n < 512")
    case False
    then have "int n \<in> set [512..1278]" using assms by (simp only: set_upto atLeastAtMost_iff) linarith
    then have "falls 150 512 (int n)" using falls_from_512 by blast
    then show ?thesis by (rule join [OF _ low3 assms(1)])
  qed (use mono [OF low3, of n] assms in simp)
  then show ?thesis by (simp add: low_def)
qed


lemma collatz_ends_lab:
  assumes "1 \<le> n" and "n \<le> 1278"
  shows "\<exists>k \<le> 420. collatz_ends n k"
proof -
  obtain k where k: "k \<le> 420" "(collatz_step ^^ k) n = 1" using falls_to_1 [OF assms] by blast
  define l where "l = (LEAST k. (collatz_step ^^ k) n = 1)"
  have "(collatz_step ^^ l) n = 1" unfolding l_def using k(2) by (rule LeastI)
  moreover have "l \<le> k" unfolding l_def using k(2) by (rule Least_le)
  moreover have "\<forall>j < l. (collatz_step ^^ j) n \<noteq> 1" unfolding l_def using not_less_Least by blast
  ultimately show ?thesis using k(1) by (intro exI [of _ l]) (simp add: collatz_ends_def)
qed

lemma collatz_ends_unique: "collatz_ends n k \<Longrightarrow> collatz_ends n l \<Longrightarrow> k = l"
  unfolding collatz_ends_def by (metis nat_neq_iff)

text \<open>In the lab the words of the hardware are the numbers.\<close>

lemma ends_after_exact:
  assumes "collatz_ends n k" and "1 \<le> n" and "n \<le> 1278"
  shows "ends_after (of_nat n) k" and "k \<le> 420"
proof -
  obtain l where l: "l \<le> 420" "(collatz_step ^^ l) n = 1" "\<forall>j < l. (collatz_step ^^ j) n < 1000000"
    using falls_to_1 [OF assms(2,3)] by blast
  have kl: "k \<le> l" using assms(1) l(2) unfolding collatz_ends_def by (meson not_less)
  then show "k \<le> 420" using l(1) by simp
  have n: "unat (of_nat n :: u32) = n" using assms(3) by simp
  have same: "unat (iterate j (of_nat n)) = (collatz_step ^^ j) n" if "j \<le> k" for j
  proof -
    have "3 * (collatz_step ^^ i) n + 1 < 2 ^ 32" if "i < j" for i
    proof -
      have "(collatz_step ^^ i) n < 1000000" using l(3) kl that \<open>j \<le> k\<close> by simp
      then show ?thesis by simp
    qed
    then show ?thesis using iterate_exact [of j "of_nat n"] n by simp
  qed
  have "is_last (iterate j (of_nat n)) \<longleftrightarrow> (collatz_step ^^ j) n = 1" if "j \<le> k" for j
  proof -
    have "0 < (collatz_step ^^ j) n" using collatz_step_pos assms(2) by simp
    then show ?thesis
      using same [OF that] by (simp add: is_last_def word_unat_eq_iff)
  qed
  then show "ends_after (of_nat n) k" using assms(1) by (simp add: ends_after_def collatz_ends_def)
qed

subsection \<open>A count\<close>

lemma range_run_Cons: "range_run W (i # ins) r = range_run W ins (range_clock W (fst i) (snd i) r)"
  by (simp add: range_run_def case_prod_beta)

lemma range_run_append: "range_run W (ins @ jns) r = range_run W jns (range_run W ins r)"
  by (simp add: range_run_def)

lemma range_run_Nil [simp]: "range_run W [] r = r"
  by (simp add: range_run_def)

text \<open>What the finder holds while it counts for a number, \<open>i\<close> steps after its start.\<close>

definition counting :: "u32 \<Rightarrow> nat \<Rightarrow> range_hw \<Rightarrow> bool" where
  "counting m i r \<longleftrightarrow> running r \<and> \<not> range_done r \<and> \<not> cgo r \<and> \<not> we r \<and> n_reg r = m \<and> din r = of_nat (i + 1) \<and>
     iterator r = \<lparr>dout = iterate i m, cdone = is_last (iterate i m)\<rparr>"

definition number_started :: "u32 \<Rightarrow> range_hw \<Rightarrow> bool" where
  "number_started m r \<longleftrightarrow> running r \<and> \<not> range_done r \<and> cgo r \<and> \<not> we r \<and> n_reg r = m \<and> din r = 1"

definition same_memory :: "range_hw \<Rightarrow> range_hw \<Rightarrow> bool" where
  "same_memory r r' \<longleftrightarrow> ram r' = ram r \<and> num r' = num r"

lemma start_counting:
  "number_started m r \<Longrightarrow> counting m 0 (range_clock W go s r) \<and> same_memory r (range_clock W go s r)"
  by (simp add: number_started_def counting_def same_memory_def range_clock_def range_control_def ram_clock_def
      collatz_clock_def iterate_def Let_def)

lemma keep_counting:
  "counting m i r \<Longrightarrow> \<not> is_last (iterate i m) \<Longrightarrow>
    counting m (i + 1) (range_clock W go s r) \<and> same_memory r (range_clock W go s r)"
  by (simp add: counting_def same_memory_def range_clock_def range_control_def ram_clock_def
      collatz_clock_def iterate_def Let_def)

lemma count_all:
  assumes "\<forall>j < k. \<not> is_last (iterate (i + j) m)" and "counting m i r" and "length ins = k"
  shows "counting m (i + k) (range_run W ins r) \<and> same_memory r (range_run W ins r) \<and>
    (\<forall>t \<le> k. running (range_run W (take t ins) r) \<and> \<not> range_done (range_run W (take t ins) r))"
  using assms
proof (induction k arbitrary: i r ins)
  case 0
  then show ?case by (simp add: same_memory_def counting_def)
next
  case (Suc k)
  then obtain x xs where ins: "ins = x # xs" "length xs = k" by (metis length_Suc_conv)
  let ?r = "range_clock W (fst x) (snd x) r"
  have "counting m (i + 1) ?r" "same_memory r ?r"
    using keep_counting [of m i r W "fst x" "snd x"] Suc.prems(1,2) by auto
  moreover from this have "counting m (i + 1 + k) (range_run W xs ?r) \<and> same_memory ?r (range_run W xs ?r) \<and>
    (\<forall>t \<le> k. running (range_run W (take t xs) ?r) \<and> \<not> range_done (range_run W (take t xs) ?r))"
    using Suc.IH [of "i + 1" ?r xs] Suc.prems(1) ins(2) by (metis Suc_less_eq add.assoc plus_1_eq_Suc)
  ultimately show ?case
    using Suc.prems(2) ins by (auto simp: range_run_Cons same_memory_def take_Cons' counting_def)
qed


text \<open>One number: its count is written, and the next number is started or the run is over.\<close>

definition number_finished :: "nat \<Rightarrow> u32 \<Rightarrow> u8 \<Rightarrow> range_hw \<Rightarrow> bool" where
  "number_finished W m j r \<longleftrightarrow>
     (if j = of_nat (W - 1) then \<not> running r \<and> range_done r \<and> \<not> we r
      else number_started (m + 1) r \<and> num r = j + 1)"

lemma one_number:
  assumes "number_started m r" and "ends_after m k" and "length ins = k + 3"
  shows "number_finished W m (num r) (range_run W ins r) \<and> ram (range_run W ins r) = (ram r)(num r := of_nat (k + 1)) \<and>
    (\<forall>t < k + 3. running (range_run W (take t ins) r) \<and> \<not> range_done (range_run W (take t ins) r))"
proof -
  obtain a bs c d where ins: "ins = a # bs @ [c, d]" "length bs = k"
  proof -
    obtain a rest where a: "ins = a # rest" "length rest = k + 2" using assms(3) by (cases ins) auto
    have "drop k rest = [rest ! k, rest ! (k + 1)]"
      using a(2) by (simp add: Cons_nth_drop_Suc [symmetric])
    then have "rest = take k rest @ [rest ! k, rest ! (k + 1)]" by (metis append_take_drop_id)
    then show ?thesis using that [of a "take k rest"] a by simp
  qed
  let ?r0 = "range_clock W (fst a) (snd a) r"
  let ?r1 = "range_run W bs ?r0"
  let ?r2 = "range_clock W (fst c) (snd c) ?r1"
  have r0: "counting m 0 ?r0" "same_memory r ?r0" using start_counting [OF assms(1)] by simp_all
  have r1: "counting m k ?r1" "same_memory ?r0 ?r1"
    "\<forall>t \<le> k. running (range_run W (take t bs) ?r0) \<and> \<not> range_done (range_run W (take t bs) ?r0)"
    using count_all [of k 0 m ?r0 bs W] r0(1) assms(2) ins(2) by (auto simp: ends_after_def)
  have last: "is_last (iterate k m)" using assms(2) by (simp add: ends_after_def)
  have r2: "running ?r2" "\<not> range_done ?r2" "\<not> cgo ?r2" "we ?r2" "n_reg ?r2 = m" "din ?r2 = of_nat (k + 1)"
      "ram ?r2 = ram r" "num ?r2 = num r"
    using r1(1,2) r0(2) last
    by (simp_all add: counting_def same_memory_def range_clock_def range_control_def ram_clock_def Let_def)
  have run: "range_run W ins r = range_clock W (fst d) (snd d) ?r2"
    by (simp add: ins(1) range_run_Cons range_run_append)
  have "running (range_run W (take t ins) r) \<and> \<not> range_done (range_run W (take t ins) r)" if t: "t < k + 3" for t
  proof -
    consider "t = 0" | u where "t = Suc u" "u \<le> k" | "t = k + 2" using t by (cases t; cases "t = k + 2") auto
    then show ?thesis
    proof cases
      case 1
      then show ?thesis using assms(1) by (simp add: number_started_def)
    next
      case 2
      then show ?thesis using r1(3) ins by (simp add: range_run_Cons)
    next
      case 3
      then show ?thesis using r2 ins by (simp add: range_run_Cons range_run_append)
    qed
  qed
  moreover have "number_finished W m (num r) (range_run W ins r)" "ram (range_run W ins r) = (ram r)(num r := of_nat (k + 1))"
    using r2 unfolding run
    by (simp_all add: number_finished_def number_started_def range_clock_def range_control_def ram_clock_def Let_def)
  ultimately show ?thesis by blast
qed

text \<open>The edges for the numbers from \<open>m\<close> on, given the steps of each.\<close>

fun edges :: "nat list \<Rightarrow> nat" where
  "edges [] = 0"
| "edges (k # ks) = k + 3 + edges ks"

lemma u8_of_nat_eq: "i < 256 \<Longrightarrow> i' < 256 \<Longrightarrow> (of_nat i :: u8) = of_nat i' \<longleftrightarrow> i = i'"
  by (simp add: word_unat_eq_iff unat_of_nat)

lemma all_numbers:
  assumes "number_started m r" and "num r = of_nat j" and "j + length ks = Suc v" and "ks \<noteq> []" and "v < 256"
    and "\<forall>i < length ks. ends_after (m + of_nat i) (ks ! i)" and "length ins = edges ks"
  shows "\<not> running (range_run (Suc v) ins r) \<and> range_done (range_run (Suc v) ins r) \<and> \<not> we (range_run (Suc v) ins r) \<and>
    (\<forall>i \<le> v. ram (range_run (Suc v) ins r) (of_nat i) = (if i < j then ram r (of_nat i) else of_nat (ks ! (i - j) + 1))) \<and>
    (\<forall>t < edges ks. running (range_run (Suc v) (take t ins) r) \<and> \<not> range_done (range_run (Suc v) (take t ins) r))"
  using assms
proof (induction ks arbitrary: m r j ins)
  case (Cons k ks)
  define is1 is2 where "is1 = take (k + 3) ins" and "is2 = drop (k + 3) ins"
  have ins: "ins = is1 @ is2" "length is1 = k + 3" "length is2 = edges ks"
    using Cons.prems(7) by (simp_all add: is1_def is2_def)
  let ?r1 = "range_run (Suc v) is1 r"
  have first: "number_finished (Suc v) m (of_nat j) ?r1" "ram ?r1 = (ram r)(of_nat j := of_nat (k + 1))"
    "\<forall>t < k + 3. running (range_run (Suc v) (take t is1) r) \<and> \<not> range_done (range_run (Suc v) (take t is1) r)"
    using one_number [OF Cons.prems(1) _ ins(2), of "Suc v"] Cons.prems(2,6) by auto
  have j: "j \<le> v" using Cons.prems(3) by simp
  have ram1: "\<forall>i \<le> v. ram ?r1 (of_nat i) = (if i = j then of_nat (k + 1) else ram r (of_nat i))"
    using u8_of_nat_eq j Cons.prems(5) unfolding first(2) by auto
  show ?case
  proof (cases "ks = []")
    case True
    then have "j = v" using Cons.prems(3) by simp
    then show ?thesis
      using True first(1,3) ram1 ins by (auto simp: number_finished_def)
  next
    case False
    then have less: "j < v" using Cons.prems(3) by (cases ks) auto
    then have next_number: "number_started (m + 1) ?r1" "num ?r1 = of_nat (j + 1)"
      using first(1) Cons.prems(5) u8_of_nat_eq [of j v] by (auto simp: number_finished_def)
    have more: "j + 1 + length ks = Suc v" using Cons.prems(3) by simp
    have rest: "\<forall>i < length ks. ends_after (m + 1 + of_nat i) (ks ! i)"
    proof (intro allI impI)
      fix i assume "i < length ks"
      then show "ends_after (m + 1 + of_nat i) (ks ! i)"
        using Cons.prems(6) [rule_format, of "Suc i"] by (simp add: add.assoc)
    qed
    note IH = Cons.IH [OF next_number more False Cons.prems(5) rest ins(3)]
    have vals: "ram (range_run (Suc v) ins r) (of_nat i) =
        (if i < j then ram r (of_nat i) else of_nat ((k # ks) ! (i - j) + 1))" if "i \<le> v" for i
    proof -
      have "ram (range_run (Suc v) ins r) (of_nat i) = (if i < j + 1 then ram ?r1 (of_nat i) else of_nat (ks ! (i - (j + 1)) + 1))"
        using IH that by (simp add: ins(1) range_run_append)
      then show ?thesis using ram1 that by (auto simp: nth_Cons' less_Suc_eq)
    qed
    have before: "running (range_run (Suc v) (take t ins) r) \<and> \<not> range_done (range_run (Suc v) (take t ins) r)"
      if "t < edges (k # ks)" for t
    proof (cases "t < k + 3")
      case True
      then show ?thesis using first(3) ins by simp
    next
      case False
      then have "t - (k + 3) < edges ks" using that by simp
      then show ?thesis using IH False ins by (simp add: range_run_append)
    qed
    show ?thesis using IH vals before by (simp add: ins(1) range_run_append)
  qed
qed simp


lemma range_counts_lemma:
  assumes "\<not> running r" and "length ks = Suc v" and "v < 256"
    and "\<forall>i \<le> v. ends_after (m + of_nat i) (ks ! i)" and "length ins = edges ks"
  shows "let r' = range_run (Suc v) ((True, m) # ins) r in
    \<not> running r' \<and> range_done r' \<and> \<not> we r' \<and> (\<forall>i \<le> v. ram r' (of_nat i) = of_nat (ks ! i + 1)) \<and>
    (\<forall>t < edges ks. running (range_run (Suc v) ((True, m) # take t ins) r) \<and>
       \<not> range_done (range_run (Suc v) ((True, m) # take t ins) r))"
proof -
  have "number_started m (range_clock (Suc v) True m r) \<and> num (range_clock (Suc v) True m r) = of_nat 0"
    using assms(1) by (simp add: number_started_def range_clock_def range_control_def ram_clock_def Let_def)
  moreover have "ks \<noteq> []" using assms(2) by auto
  ultimately show ?thesis
    using all_numbers [of m "range_clock (Suc v) True m r" 0 ks v ins] assms(2-5)
    by (auto simp: range_run_Cons Let_def less_Suc_eq_le)
qed

lemma zero_stays: "(collatz_step ^^ k) 0 = 0"
  by (induction k) (simp_all add: collatz_step_def)

lemma edges_bound: "\<forall>k \<in> set ks. k \<le> b \<Longrightarrow> edges ks \<le> length ks * (b + 3)"
  by (induction ks) auto

text \<open>
  In lab 1 the finder always finishes: for every setting of the ten switches, after at most 108288
  edges (about two milliseconds), and the counts are those of the natural numbers: no word
  overflows.
\<close>

lemma lab_range_counts:
  assumes "\<not> running r" and "base \<le> 1023"
  shows "\<exists>T \<le> 108288. \<forall>ins. length ins = T \<longrightarrow>
    (let r' = range_run 256 ((True, of_nat base) # ins) r in
     \<not> running r' \<and> range_done r' \<and> \<not> we r' \<and>
     (\<forall>i < 256. \<forall>k. collatz_ends (base + i) k \<longrightarrow> unat (ram r' (of_nat i)) = k + 1) \<and>
     (\<forall>t < T. running (range_run 256 ((True, of_nat base) # take t ins) r)))"
proof -
  define steps where "steps i = (if base + i = 0 then 0 else SOME k. collatz_ends (base + i) k)" for i
  have steps: "collatz_ends (base + i) (steps i)" if "i < 256" "base + i \<noteq> 0" for i
    unfolding steps_def using collatz_ends_lab [of "base + i"] that assms(2) by (auto intro: someI)
  have ends: "ends_after (of_nat base + of_nat i) (steps i) \<and> steps i \<le> 420" if "i < 256" for i
  proof (cases "base + i = 0")
    case True
    then show ?thesis by (simp add: steps_def ends_after_def iterate_def is_last_def)
  next
    case False
    then have "1 \<le> base + i" "base + i \<le> 1278" using that assms(2) by linarith+
    then show ?thesis using ends_after_exact [OF steps [OF that False]] by simp
  qed
  define ks where "ks = map steps [0..<256]"
  have ks: "length ks = Suc 255" "\<forall>i \<le> 255. ks ! i = steps i" by (simp_all add: ks_def)
  have T: "edges ks \<le> 108288" using edges_bound [of ks 420] ends by (auto simp: ks_def)
  have "let r' = range_run 256 ((True, of_nat base) # ins) r in
     \<not> running r' \<and> range_done r' \<and> \<not> we r' \<and> (\<forall>i < 256. \<forall>k. collatz_ends (base + i) k \<longrightarrow> unat (ram r' (of_nat i)) = k + 1) \<and>
     (\<forall>t < edges ks. running (range_run 256 ((True, of_nat base) # take t ins) r))"
    if "length ins = edges ks" for ins
  proof -
    have n: "Suc 255 = 256" by simp
    have "\<forall>i \<le> 255. ends_after (of_nat base + of_nat i) (ks ! i)" using ks(2) ends by simp
    note counts = range_counts_lemma [OF assms(1) ks(1) _ this that, unfolded n Let_def]
    have "unat (ram (range_run 256 ((True, of_nat base) # ins) r) (of_nat i)) = k + 1"
      if "i < 256" "collatz_ends (base + i) k" for i k
    proof -
      have "base + i \<noteq> 0" using that(2) zero_stays unfolding collatz_ends_def by (metis zero_neq_one)
      then have "k = steps i" using steps [OF that(1)] that(2) collatz_ends_unique by blast
      moreover from this have "unat (of_nat (k + 1) :: u16) = k + 1"
        using ends [OF that(1)] by (simp only: unat_of_nat) simp
      ultimately show ?thesis using counts that(1) ks(2) by (simp del: of_nat_Suc of_nat_add)
    qed
    then show ?thesis using counts by (simp add: Let_def)
  qed
  then show ?thesis using T by blast
qed

subsection \<open>Properties\<close>

text \<open>
  The range finder counts: started on an idle finder, whatever its inputs are afterwards, it is
  busy for three edges more than the steps of each number, then signals that it is done, and the
  RAM holds for each number how many terms its sequence has up to the first 1 (or 0).
\<close>

theorem range_counts:
  assumes "\<not> running r" and "length ks = Suc v" and "v < 256"
    and "\<forall>i \<le> v. ends_after (m + of_nat i) (ks ! i)" and "length ins = edges ks"
  shows "let r' = range_run (Suc v) ((True, m) # ins) r in
    \<not> running r' \<and> range_done r' \<and> (\<forall>i \<le> v. ram r' (of_nat i) = of_nat (ks ! i + 1)) \<and>
    (\<forall>t < edges ks. running (range_run (Suc v) ((True, m) # take t ins) r) \<and>
       \<not> range_done (range_run (Suc v) ((True, m) # take t ins) r))"
  using range_counts_lemma [OF assms] unfolding Let_def by blast

text \<open>An idle finder.\<close>

definition idle_range :: range_hw where
  "idle_range = \<lparr>iterator = \<lparr>dout = 0, cdone = False\<rparr>, cgo = False, n_reg = 0, num = 0, running = False,
     range_done = False, we = False, din = 0, ram = (\<lambda>_. 0), count = 0\<rparr>"

theorem range_counts_witness:
  "let r' = range_run 3 ((True, 1) # replicate 17 (False, 0)) idle_range in
    range_done r' \<and> ram r' 0 = 1 \<and> ram r' 1 = 2 \<and> ram r' 2 = 8"
proof -
  have "collatz_ends 1 0" "collatz_ends 2 1" "collatz_ends 3 7"
    by code_simp+
  then have k: "ends_after 1 0" "ends_after 2 1" "ends_after 3 7"
    using ends_after_exact(1) [of 1 0] ends_after_exact(1) [of 2 1] ends_after_exact(1) [of 3 7] by simp_all
  have "\<forall>i \<le> 2. ends_after (1 + of_nat i) ([0, 1, 7] ! i)"
  proof (intro allI impI)
    fix i :: nat assume "i \<le> 2"
    then consider "i = 0" | "i = 1" | "i = 2" by linarith
    then show "ends_after (1 + of_nat i) ([0, 1, 7] ! i)" by cases (use k in simp_all)
  qed
  moreover have "length (replicate 17 (False, 0 :: u32)) = edges [0, 1, 7]" by simp
  ultimately have result: "let r' = range_run (Suc 2) ((True, 1) # replicate 17 (False, 0)) idle_range in
      \<not> running r' \<and> range_done r' \<and> (\<forall>i \<le> 2. ram r' (of_nat i) = of_nat ([0, 1, 7] ! i + 1))"
    using range_counts [of idle_range "[0, 1, 7]" 2 1 "replicate 17 (False, 0)"]
    unfolding Let_def by (simp add: idle_range_def)
  have three: "Suc 2 = 3" by simp
  let ?r = "range_run 3 ((True, 1) # replicate 17 (False, 0)) idle_range"
  have r: "range_done ?r" "\<forall>i \<le> 2. ram ?r (of_nat i) = of_nat ([0, 1, 7] ! i + 1)"
    using result unfolding three Let_def by blast+
  show ?thesis
    unfolding Let_def using r(1) r(2) [rule_format, of 0] r(2) [rule_format, of 1] r(2) [rule_format, of 2] by simp
qed

end
