(* ===== verification/Lab1_Top.thy ===== *)
theory Lab1_Top
  imports Collatz
begin

text \<open>
  The board of lab 1 (\<open>lab1.sv\<close> and \<open>hex7seg.sv\<close>): debounced keys, the offset they change, the
  range finder they start and the six digits. One step is an edge of the 50 MHz clock; the
  inputs are the four keys (low when pressed) and the ten switches.
\<close>

subsection \<open>Keys\<close>

record debounce_hw =
  ff0 :: bool
  ff1 :: bool
  key_db :: bool
  db_cnt :: "6 word"

abbreviation (input) DEBOUNCE_CYCLES :: nat where "DEBOUNCE_CYCLES \<equiv> 50"

definition debounce_clock :: "bool \<Rightarrow> debounce_hw \<Rightarrow> debounce_hw" where
  "debounce_clock key_in d =
     \<lparr>ff0 = key_in, ff1 = ff0 d,
      key_db = (if ff1 d \<noteq> key_db d \<and> db_cnt d = of_nat (DEBOUNCE_CYCLES - 1) then ff1 d else key_db d),
      db_cnt = (if ff1 d = key_db d \<or> db_cnt d = of_nat (DEBOUNCE_CYCLES - 1) then 0 else db_cnt d + 1)\<rparr>"

text \<open>The pulses of a key: one when it goes down, and five a second after it was down for half a second.\<close>

record repeat_hw =
  delay_cnt :: "25 word"
  rep_cnt :: "24 word"
  repeating :: bool
  pulse :: bool

abbreviation (input) INITIAL_DELAY_CYCLES :: nat where "INITIAL_DELAY_CYCLES \<equiv> 25000000"
abbreviation (input) REPEAT_CYCLES :: nat where "REPEAT_CYCLES \<equiv> 10000000"

definition repeat_clock :: "bool \<Rightarrow> bool \<Rightarrow> repeat_hw \<Rightarrow> repeat_hw" where
  "repeat_clock fall pressed r =
     (if fall then \<lparr>delay_cnt = 0, rep_cnt = 0, repeating = False, pulse = True\<rparr>
      else if \<not> pressed then \<lparr>delay_cnt = 0, rep_cnt = 0, repeating = False, pulse = False\<rparr>
      else if \<not> repeating r then
        (if delay_cnt r = of_nat (INITIAL_DELAY_CYCLES - 1) then \<lparr>delay_cnt = 0, rep_cnt = 0, repeating = True, pulse = False\<rparr>
         else r\<lparr>delay_cnt := delay_cnt r + 1, pulse := False\<rparr>)
      else if rep_cnt r = of_nat (REPEAT_CYCLES - 1) then r\<lparr>rep_cnt := 0, pulse := True\<rparr>
      else r\<lparr>rep_cnt := rep_cnt r + 1, pulse := False\<rparr>)"

subsection \<open>Digits\<close>

definition hex7seg :: "4 word \<Rightarrow> 7 word" where
  "hex7seg a =
     [0b1000000, 0b1111001, 0b0100100, 0b0110000, 0b0011001, 0b0010010, 0b0000010, 0b1111000,
      0b0000000, 0b0010000, 0b0001000, 0b0000011, 0b1000110, 0b0100001, 0b0000110, 0b0001110] ! unat a"

definition digit :: "nat \<Rightarrow> 12 word \<Rightarrow> 4 word" where
  "digit i w = ucast (drop_bit (4 * i) w)"

subsection \<open>The board\<close>

record blink_hw =
  blink_active :: bool
  blink_phase :: bool
  blink_tcnt :: "24 word"
  blink_dcnt :: "26 word"

abbreviation (input) BLINK_TOGGLE_CYCLES :: nat where "BLINK_TOGGLE_CYCLES \<equiv> 12500000"
abbreviation (input) BLINK_DURATION_CYCLES :: nat where "BLINK_DURATION_CYCLES \<equiv> 50000000"

definition blink_clock :: "bool \<Rightarrow> bool \<Rightarrow> blink_hw \<Rightarrow> blink_hw" where
  "blink_clock go done b =
     (if go then \<lparr>blink_active = False, blink_phase = True, blink_tcnt = 0, blink_dcnt = 0\<rparr>
      else if done then \<lparr>blink_active = True, blink_phase = True, blink_tcnt = 0, blink_dcnt = 0\<rparr>
      else if \<not> blink_active b then b
      else if blink_dcnt b = of_nat (BLINK_DURATION_CYCLES - 1) then
        \<lparr>blink_active = False, blink_phase = True, blink_tcnt = 0, blink_dcnt = 0\<rparr>
      else b\<lparr>blink_dcnt := blink_dcnt b + 1,
             blink_tcnt := (if blink_tcnt b = of_nat (BLINK_TOGGLE_CYCLES - 1) then 0 else blink_tcnt b + 1),
             blink_phase := (if blink_tcnt b = of_nat (BLINK_TOGGLE_CYCLES - 1) then \<not> blink_phase b else blink_phase b)\<rparr>)"

record lab1_hw =
  finder :: range_hw
  keys :: "nat \<Rightarrow> debounce_hw"
  key_prev :: "nat \<Rightarrow> bool"
  inc :: repeat_hw
  dec :: repeat_hw
  offset :: u8
  range_ready :: bool
  k_display :: "12 word"
  blink :: blink_hw

record lab1_in =
  KEY :: "nat \<Rightarrow> bool"
  SW :: "10 word"

definition key_fall :: "lab1_hw \<Rightarrow> nat \<Rightarrow> bool" where
  "key_fall l i \<longleftrightarrow> key_prev l i \<and> \<not> key_db (keys l i)"

definition lab1_go :: "lab1_hw \<Rightarrow> bool" where
  "lab1_go l \<longleftrightarrow> key_fall l 3"

definition lab1_n :: "lab1_in \<Rightarrow> lab1_hw \<Rightarrow> 12 word" where
  "lab1_n i l = ucast (SW i) + ucast (offset l)"

definition lab1_start :: "lab1_in \<Rightarrow> lab1_hw \<Rightarrow> u32" where
  "lab1_start i l = (if lab1_go l then ucast (SW i) else if range_ready l then ucast (offset l) else 0)"

text \<open>The later of two assignments to the offset in one edge counts.\<close>

definition offset_next :: "lab1_hw \<Rightarrow> u8" where
  "offset_next l =
     (if key_fall l 2 \<or> key_fall l 3 then 0
      else if pulse (dec l) \<and> offset l \<noteq> 0 then offset l - 1
      else if pulse (inc l) \<and> offset l \<noteq> 0xFF then offset l + 1
      else offset l)"

definition lab1_clock :: "lab1_in \<Rightarrow> lab1_hw \<Rightarrow> lab1_hw" where
  "lab1_clock i l =
     \<lparr>finder = range_clock 256 (lab1_go l) (lab1_start i l) (finder l),
      keys = (\<lambda>k. debounce_clock (KEY i k) (keys l k)),
      key_prev = (\<lambda>k. key_db (keys l k)),
      inc = repeat_clock (key_fall l 0) (\<not> key_db (keys l 0)) (inc l),
      dec = repeat_clock (key_fall l 1) (\<not> key_db (keys l 1)) (dec l),
      offset = offset_next l,
      range_ready = (if lab1_go l then False else if range_done (finder l) then True else range_ready l),
      k_display = (if \<not> range_ready l \<or> lab1_n i l = 0 then 0 else ucast (count (finder l))),
      blink = blink_clock (lab1_go l) (range_done (finder l)) (blink l)\<rparr>"

text \<open>The six digits, and the lights above the switches.\<close>

definition HEX :: "lab1_in \<Rightarrow> lab1_hw \<Rightarrow> nat \<Rightarrow> 7 word" where
  "HEX i l d =
     (if 3 \<le> d then hex7seg (digit (d - 3) (lab1_n i l))
      else if blink_active (blink l) \<and> \<not> blink_phase (blink l) then 0b1111111
      else hex7seg (digit d (k_display l)))"

definition LEDR :: "lab1_in \<Rightarrow> 10 word" where
  "LEDR i = SW i"


subsection \<open>Facts\<close>

lemma unat_ucast_mod: "unat (ucast (w :: 'a::len word) :: 'b::len word) = unat w mod 2 ^ LENGTH('b)"
  by (simp add: unsigned_ucast_eq take_bit_eq_mod)

lemma unat_lab1_n: "unat (lab1_n i l) = unat (SW i) + unat (offset l)"
proof -
  have "unat (SW i) < 1024" "unat (offset l) < 256"
    using unsigned_less [of "SW i"] unsigned_less [of "offset l"] by simp_all
  then show ?thesis by (simp add: lab1_n_def unat_word_ariths unat_ucast_mod)
qed

lemma digit_value: "digit d w = of_nat (unat w div 16 ^ d mod 16)"
proof -
  have "unat (digit d w) = unat w div 16 ^ d mod 16"
    unfolding digit_def unat_ucast_mod unat_drop_bit_eq by (simp add: drop_bit_eq_div power_mult)
  then show ?thesis by (simp add: word_unat_eq_iff unat_of_nat)
qed

text \<open>Counts for the numbers from \<open>b\<close> on are in the RAM and on show.\<close>

definition ready :: "nat \<Rightarrow> lab1_hw \<Rightarrow> bool" where
  "ready b l \<longleftrightarrow> range_ready l \<and> \<not> running (finder l) \<and> \<not> we (finder l) \<and>
     (\<forall>i < 256. \<forall>k. collatz_ends (b + i) k \<longrightarrow> unat (ram (finder l) (of_nat i)) = k + 1)"

lemma finder_clock: "finder (lab1_clock i l) = range_clock 256 (lab1_go l) (lab1_start i l) (finder l)"
  by (simp add: lab1_clock_def)

lemma idle_clock:
  assumes "\<not> running r" and "\<not> we r"
  shows "\<not> running (range_clock W False s r) \<and> \<not> we (range_clock W False s r) \<and> ram (range_clock W False s r) = ram r \<and>
    count (range_clock W False s r) = ram r (ucast s)"
  using assms by (simp add: range_clock_def range_control_def ram_clock_def Let_def)

lemma ready_clock:
  assumes "ready b l" and "\<not> lab1_go l"
  shows "ready b (lab1_clock i l)" and "count (finder (lab1_clock i l)) = ram (finder l) (offset l)"
proof -
  have o: "unat (offset l) < 256" using unsigned_less [of "offset l"] by simp
  have s: "ucast (lab1_start i l) = offset l"
    using assms o by (simp add: lab1_start_def ready_def word_unat_eq_iff unat_ucast_mod)
  note c = idle_clock [of "finder l" 256 "lab1_start i l"]
  show "ready b (lab1_clock i l)"
    using assms c by (simp add: ready_def finder_clock) (simp add: lab1_clock_def)
  show "count (finder (lab1_clock i l)) = ram (finder l) (offset l)"
    using assms c s by (simp add: ready_def finder_clock)
qed

lemma k_display_after:
  assumes "ready b l" and "\<not> lab1_go l" and "lab1_n i2 (lab1_clock i1 l) \<noteq> 0"
    and "b \<le> 1023" and "collatz_ends (b + unat (offset l)) k" and "1 \<le> b + unat (offset l)"
  shows "unat (k_display (lab1_clock i2 (lab1_clock i1 l))) = k + 1"
proof -
  let ?l1 = "lab1_clock i1 l"
  have o: "unat (offset l) < 256" using unsigned_less [of "offset l"] by simp
  have "unat (ram (finder l) (of_nat (unat (offset l)))) = k + 1"
    using assms(1,5) o unfolding ready_def by blast
  then have c: "unat (count (finder ?l1)) = k + 1" using ready_clock(2) [OF assms(1,2)] by simp
  have "k \<le> 420" using ends_after_exact(2) [OF assms(5,6)] assms(4) o by simp
  moreover have "range_ready ?l1" using ready_clock(1) [OF assms(1,2)] by (simp add: ready_def)
  ultimately show ?thesis
    using c assms(3) by (simp add: lab1_clock_def [of i2] unat_ucast_mod)
qed

subsection \<open>Runs\<close>

fun lab1_run :: "lab1_in list \<Rightarrow> lab1_hw \<Rightarrow> lab1_hw" where
  "lab1_run [] l = l"
| "lab1_run (i # ins) l = lab1_run ins (lab1_clock i l)"

lemma lab1_run_append: "lab1_run (ins @ jns) l = lab1_run jns (lab1_run ins l)"
  by (induction ins arbitrary: l) simp_all

fun finder_inputs :: "lab1_in list \<Rightarrow> lab1_hw \<Rightarrow> (bool \<times> u32) list" where
  "finder_inputs [] l = []"
| "finder_inputs (i # ins) l = (lab1_go l, lab1_start i l) # finder_inputs ins (lab1_clock i l)"

lemma finder_run: "finder (lab1_run ins l) = range_run 256 (finder_inputs ins l) (finder l)"
  by (induction ins arbitrary: l) (simp_all add: range_run_Cons finder_clock)

lemma length_finder_inputs [simp]: "length (finder_inputs ins l) = length ins"
  by (induction ins arbitrary: l) simp_all


lemma run_gets_ready_lemma:
  assumes "\<not> running (finder l)" and "lab1_go l" and "SW i = of_nat b" and "b \<le> 1023"
  shows "\<exists>T \<le> 108289. \<forall>ins. length ins = T \<and> (\<forall>t \<le> T. \<not> lab1_go (lab1_run (i # take t ins) l)) \<longrightarrow>
    ready b (lab1_run (i # ins) l)"
proof -
  obtain T where T: "T \<le> 108288" "\<And>ins. length ins = T \<Longrightarrow>
    (let r' = range_run 256 ((True, of_nat b) # ins) (finder l) in
     \<not> running r' \<and> range_done r' \<and> \<not> we r' \<and>
     (\<forall>i < 256. \<forall>k. collatz_ends (b + i) k \<longrightarrow> unat (ram r' (of_nat i)) = k + 1))"
    using lab_range_counts [OF assms(1,4)] unfolding Let_def by blast
  have start: "lab1_start i l = of_nat b"
    using assms by (simp add: lab1_start_def word_unat_eq_iff unat_ucast_mod unat_of_nat)
  have "ready b (lab1_run (i # ins) l)"
    if ins: "length ins = T + 1" "\<forall>t \<le> T + 1. \<not> lab1_go (lab1_run (i # take t ins) l)" for ins
  proof -
    obtain jns j where js: "ins = jns @ [j]" "length jns = T" using ins(1) by (cases ins rule: rev_cases) auto
    let ?m = "lab1_run (i # jns) l"
    have go: "\<not> lab1_go ?m" using ins(2) [rule_format, of T] js by simp
    have "finder_inputs (i # jns) l = (True, of_nat b) # finder_inputs jns (lab1_clock i l)"
      using assms(2) start by simp
    then have fin: "\<not> running (finder ?m)" "range_done (finder ?m)" "\<not> we (finder ?m)"
        "\<forall>i < 256. \<forall>k. collatz_ends (b + i) k \<longrightarrow> unat (ram (finder ?m) (of_nat i)) = k + 1"
      using T(2) [of "finder_inputs jns (lab1_clock i l)"] js(2) unfolding finder_run Let_def by simp_all
    have "lab1_run (i # ins) l = lab1_clock j ?m" by (simp add: js(1) lab1_run_append)
    moreover have "range_ready (lab1_clock j ?m)" using go fin(2) by (simp add: lab1_clock_def)
    ultimately show ?thesis
      using go fin idle_clock [of "finder ?m" 256 "lab1_start j ?m"] by (simp only: ready_def finder_clock) simp
  qed
  then show ?thesis using T(1) by (intro exI [of _ "T + 1"]) auto
qed


text \<open>Keys that do not move.\<close>

definition steady :: "(nat \<Rightarrow> bool) \<Rightarrow> lab1_hw \<Rightarrow> bool" where
  "steady key l \<longleftrightarrow> (\<forall>k. ff0 (keys l k) = key k \<and> ff1 (keys l k) = key k \<and> key_db (keys l k) = key k)"

lemma steady_clock:
  assumes "steady (KEY i) l"
  shows "steady (KEY i) (lab1_clock i l) \<and> \<not> lab1_go (lab1_clock i l)"
  using assms by (simp add: steady_def lab1_clock_def debounce_clock_def lab1_go_def key_fall_def)

lemma steady_run:
  assumes "steady (KEY i) l" and "n \<noteq> 0"
  shows "\<not> lab1_go (lab1_run (replicate n i) l)"
proof -
  have "steady (KEY i) (lab1_run (replicate n i) l) \<and> (n \<noteq> 0 \<longrightarrow> \<not> lab1_go (lab1_run (replicate n i) l))"
    if "steady (KEY i) l" for l
    using that
  proof (induction n arbitrary: l)
    case (Suc n)
    then show ?case using steady_clock [of i l] by (cases n) simp_all
  qed simp
  then show ?thesis using assms by blast
qed

text \<open>How long the last values have differed from \<open>v\<close>.\<close>

definition trailing :: "bool \<Rightarrow> bool list \<Rightarrow> nat" where
  "trailing v xs = length (takeWhile (\<lambda>x. x \<noteq> v) (rev xs))"

lemma trailing_snoc: "trailing v (xs @ [x]) = (if x = v then 0 else trailing v xs + 1)"
  by (simp add: trailing_def)

definition debounce_run :: "bool list \<Rightarrow> debounce_hw \<Rightarrow> debounce_hw" where
  "debounce_run ins d = fold debounce_clock ins d"

definition resting :: "bool \<Rightarrow> debounce_hw" where
  "resting v = \<lparr>ff0 = v, ff1 = v, key_db = v, db_cnt = 0\<rparr>"

text \<open>The two flip-flops hold the last two inputs, the counter those before.\<close>

lemma debounce_state:
  assumes "\<forall>n. trailing v (take n ins) < 50"
  shows "debounce_run ins (resting v) =
    \<lparr>ff0 = (if ins = [] then v else last ins), ff1 = (if length ins < 2 then v else ins ! (length ins - 2)), key_db = v,
     db_cnt = of_nat (trailing v (take (length ins - 2) ins))\<rparr>"
  using assms
proof (induction ins rule: rev_induct)
  case Nil
  then show ?case by (simp add: debounce_run_def resting_def trailing_def)
next
  case (snoc x ins)
  have short: "\<forall>n. trailing v (take n ins) < 50"
  proof
    fix n
    show "trailing v (take n ins) < 50" using snoc.prems [rule_format, of "min n (length ins)"] by (simp add: min_def split: if_splits)
  qed
  note IH = snoc.IH [OF short]
  show ?case
  proof (cases "length ins < 2")
    case True
    then consider "ins = []" | y where "ins = [y]" by (cases ins; cases "tl ins") auto
    then show ?thesis
      using IH by cases (simp_all add: debounce_run_def debounce_clock_def trailing_def)
  next
    case False
    then obtain ys y z where ins: "ins = ys @ [y, z]"
      by (metis append_butlast_last_id append_eq_append_conv2 butlast.simps length_0_conv length_butlast less_2_cases_iff
          append.assoc append_Cons append_Nil length_append_singleton Suc_1 not_less_eq)
    let ?c = "trailing v ys"
    have c: "trailing v (ys @ [y]) < 50" "?c < 50" using short [rule_format, of "Suc (length ys)"] short [rule_format, of "length ys"] ins by simp_all
    have cnt: "(of_nat ?c :: 6 word) = of_nat 49 \<longleftrightarrow> ?c = 49"
      using c(2) by (simp add: word_unat_eq_iff unat_of_nat)
    have step: "debounce_run (ins @ [x]) (resting v) = debounce_clock x (debounce_run ins (resting v))"
      by (simp add: debounce_run_def)
    show ?thesis
      unfolding step IH using c cnt by (auto simp: ins debounce_clock_def trailing_snoc nth_append)
  qed
qed


lemma debounce_snoc: "debounce_run (ins @ [x]) d = debounce_clock x (debounce_run ins d)"
  by (simp add: debounce_run_def)

lemma debounce_count:
  "m \<le> 49 \<Longrightarrow> debounce_run (replicate (m + 2) (\<not> v)) (resting v) =
    \<lparr>ff0 = \<not> v, ff1 = \<not> v, key_db = v, db_cnt = of_nat m\<rparr>"
proof (induction m)
  case 0
  have "replicate (0 + 2) (\<not> v) = [\<not> v, \<not> v]" by (simp add: numeral_2_eq_2)
  then show ?case by (simp only: debounce_run_def) (simp add: debounce_clock_def resting_def)
next
  case (Suc m)
  have "replicate (Suc m + 2) (\<not> v) = replicate (m + 2) (\<not> v) @ [\<not> v]" by (simp add: replicate_append_same)
  moreover have "(of_nat m :: 6 word) \<noteq> of_nat 49" using Suc.prems by (simp add: word_unat_eq_iff unat_of_nat)
  ultimately show ?case using Suc by (simp only: debounce_snoc) (simp add: debounce_clock_def)
qed

subsection \<open>An example\<close>

text \<open>An idle board whose key 3 is down, at the edge that notices it.\<close>

definition pressed_board :: lab1_hw where
  "pressed_board =
     \<lparr>finder = idle_range, keys = (\<lambda>k. resting (k \<noteq> 3)), key_prev = (\<lambda>_. True),
      inc = \<lparr>delay_cnt = 0, rep_cnt = 0, repeating = False, pulse = False\<rparr>,
      dec = \<lparr>delay_cnt = 0, rep_cnt = 0, repeating = False, pulse = False\<rparr>,
      offset = 0, range_ready = False, k_display = 0,
      blink = \<lparr>blink_active = False, blink_phase = True, blink_tcnt = 0, blink_dcnt = 0\<rparr>\<rparr>"

definition pressed_in :: lab1_in where
  "pressed_in = \<lparr>KEY = (\<lambda>k. k \<noteq> 3), SW = 27\<rparr>"

lemma pressed_steady: "steady (KEY pressed_in) pressed_board"
  by (simp add: steady_def pressed_in_def pressed_board_def resting_def)

lemma pressed_go: "lab1_go pressed_board"
  by (simp add: lab1_go_def key_fall_def pressed_board_def resting_def)

lemma pressed_idle: "\<not> running (finder pressed_board)"
  by (simp add: pressed_board_def idle_range_def)

subsection \<open>Properties\<close>

text \<open>
  C20. A run on the board: if key 3 goes down while the finder is idle and the switches are set to
  \<open>b\<close>, then after at most 108289 more edges, whatever the other keys and the switches do, the
  counts for \<open>b\<close> and the 255 numbers after it are ready, provided key 3 is not pressed again.
\<close>

theorem run_gets_ready:
  assumes "\<not> running (finder l)" and "lab1_go l" and "SW i = of_nat b" and "b \<le> 1023"
  shows "\<exists>T \<le> 108289. \<forall>ins. length ins = T \<and> (\<forall>t \<le> T. \<not> lab1_go (lab1_run (i # take t ins) l)) \<longrightarrow>
    ready b (lab1_run (i # ins) l)"
  using assms by (rule run_gets_ready_lemma)

theorem run_gets_ready_witness:
  "\<exists>n. ready 27 (lab1_run (replicate n pressed_in) pressed_board)"
proof -
  have "SW pressed_in = of_nat 27" by (simp add: pressed_in_def)
  then obtain T where T: "\<And>ins. length ins = T \<and>
      (\<forall>t \<le> T. \<not> lab1_go (lab1_run (pressed_in # take t ins) pressed_board)) \<Longrightarrow>
      ready 27 (lab1_run (pressed_in # ins) pressed_board)"
    using run_gets_ready [OF pressed_idle pressed_go, of pressed_in 27] by auto
  have "\<not> lab1_go (lab1_run (pressed_in # take t (replicate T pressed_in)) pressed_board)" if "t \<le> T" for t
    using steady_run [OF pressed_steady, of "Suc t"] that by (simp add: min_absorb1)
  then have "ready 27 (lab1_run (pressed_in # replicate T pressed_in) pressed_board)" by (intro T) simp
  then show ?thesis by (intro exI [of _ "Suc T"]) simp
qed



text \<open>
  C23. A key is debounced: as long as the input never differs from the level of the key for 50
  edges (a microsecond) in a row, the level stays; when it does for 52, the level changes.
\<close>

theorem debounce_filters:
  "((\<forall>n. trailing v (take n ins) < 50) \<longrightarrow> key_db (debounce_run ins (resting v)) = v) \<and>
    key_db (debounce_run (replicate 52 (\<not> v)) (resting v)) = (\<not> v)"
proof
  show "(\<forall>n. trailing v (take n ins) < 50) \<longrightarrow> key_db (debounce_run ins (resting v)) = v"
    using debounce_state [of v ins] by simp
  have "replicate 52 (\<not> v) = replicate (49 + 2) (\<not> v) @ [\<not> v]"
    by (metis replicate_append_same replicate_Suc Suc_numeral numeral_plus_numeral semiring_norm(2,3,4,5,8,9,10))
  then show "key_db (debounce_run (replicate 52 (\<not> v)) (resting v)) = (\<not> v)"
    using debounce_count [of 49 v] by (simp only: debounce_snoc) (simp add: debounce_clock_def)
qed

theorem debounce_filters_witness:
  "key_db (debounce_run [True, False, True] (resting True))"
proof -
  have "trailing True (take n [True, False, True]) < 50" for n
    by (cases n; cases "n - 1"; cases "n - 2") (simp_all add: trailing_def)
  then show ?thesis using debounce_filters [of True "[True, False, True]"] by simp
qed

text \<open>
  The digits can be told apart: no two of the sixteen light the same segments, and none of them
  is blank.
\<close>

theorem digits_differ:
  "inj hex7seg \<and> 0b1111111 \<notin> range hex7seg"
proof -
  define t where "t = [0b1000000, 0b1111001, 0b0100100, 0b0110000, 0b0011001, 0b0010010, 0b0000010, 0b1111000,
      0b0000000, 0b0010000, 0b0001000, 0b0000011, 0b1000110, 0b0100001, 0b0000110, 0b0001110 :: 7 word]"
  have t: "distinct t" "0b1111111 \<notin> set t" "length t = 16" by (simp_all add: t_def)
  have hex: "hex7seg a = t ! unat a" for a by (simp only: hex7seg_def t_def)
  have a: "unat (a :: 4 word) < length t" for a using unsigned_less [of a] t(3) by simp
  have "inj hex7seg"
    using nth_eq_iff_index_eq [OF t(1) a a] unfolding inj_def hex by (simp add: word_unat_eq_iff)
  moreover have "hex7seg a \<noteq> 0b1111111" for a using t(2) nth_mem [OF a, of a] unfolding hex by metis
  ultimately show ?thesis by (metis rangeE)
qed

end
