(* ===== verification/Spec2Isabelle.thy ===== *)
theory Spec2Isabelle
  imports Client_Session Client_Race Usb Ball Alias_Table Alias_Limits Kconfig_Properties Kconfig_Build Kconfig_Deps Kconfig_Dups Kconfig_Gstr Kconfig_Update Kconfig_Random Source_Properties Lab1_Top
begin

text \<open>
  A model of the C programs of the CSEE 4840 labs and of the hardware they drive, with proofs,
  and of two of the kernel build tools packaged with lab 3.

  Lab 2 is a chat client on a framebuffer with a USB keyboard. Its files and theories:
  \<^item> \<open>lab2/fbputchar.c\<close>: \<open>Font\<close> holds the font table, \<open>Framebuffer\<close> the state (\<open>fb_state\<close>) and the
    routines (\<open>fbopen\<close>, \<open>fbclear\<close>, \<open>fbputchar\<close>, \<open>fbputs\<close>) down to the bytes they store.
    \<open>Text_Screen\<close> is its abstraction: a grid of characters (\<open>displays\<close>), and the locale
    \<open>text_display\<close> that gives the effect of a string from that of a character.
  \<^item> \<open>lab2/usbkeyboard.c\<close>: \<open>Usb\<close> is the search for a keyboard interface (\<open>openkeyboard\<close>).
  \<^item> \<open>lab2/lab2.c\<close>: \<open>Keyboard\<close> (\<open>hid_to_ascii\<close>, \<open>should_accept_key\<close>), \<open>Editor\<close> (input line and
    \<open>send_input_line\<close>, refined to a text with a cursor by \<open>edits\<close>), \<open>Chat\<close> (the 20 stored lines
    and their wrapping, refined to an unbounded log through the locale \<open>scrollback\<close>),
    \<open>Client_Screen\<close> (what is drawn), \<open>Client\<close> (all globals as one record, the handlers of the
    three threads, the start of \<open>main\<close>, and the invariant \<open>client_ok\<close>), \<open>Client_Session\<close> (runs
    as lists of events) and \<open>Client_Race\<close> (the edits cut into statements, with and without
    \<open>fb_lock\<close>).

  Lab 3 is a ball on a VGA screen:
  \<^item> \<open>lab3-hw/vga_ball.sv\<close>: \<open>Vga_Hw\<close>, registers at their width, one clock edge per step; the
    locale \<open>ball_port\<close> is what software may rely on, interpreted by this hardware.
  \<^item> \<open>lab3-sw/vga_ball.c\<close> and \<open>vga_ball.h\<close>: \<open>Ioctl\<close> (command numbers) and \<open>Vga_Driver\<close> (ioctl,
    probe, remove) over any device with that interface.
  \<^item> \<open>lab3-sw/hello.c\<close>: \<open>Ball\<close>, the movement with its closed form, and the loop on the driver
    on the hardware.

  The headers of Linux 4.19 the driver is built against come with the tools that configure a
  kernel and describe its modules (below \<open>lab3/usr/src/linux-headers-4.19.0\<close>):
  \<^item> \<open>include/linux/mod_devicetable.h\<close> and \<open>scripts/mod/devicetable-offsets.c\<close>:
    \<open>Mod_Devicetable\<close>, a record for each kind of device identifier and the decoding of its
    fields (\<open>pci_at\<close>, \<open>usb_at\<close>, ...) from bytes laid out for the 32-bit target.
  \<^item> \<open>scripts/mod/file2alias.c\<close>: \<open>Alias_Format\<close> (\<open>ADD\<close> and the printing of numbers, and the file
    name patterns an alias is matched with), \<open>Alias_Entries\<close> (a definition for each
    \<open>do_..._entry\<close>), \<open>Alias_Usb\<close> (release ranges cut into patterns), \<open>Alias_Table\<close> (the check of a
    table, its loop, the tables with rules of their own, the dispatch in \<open>handle_moddevtable\<close>),
    with \<open>Alias_Match\<close>, \<open>Alias_Buses\<close> and \<open>Alias_Limits\<close> on what the aliases match and how long they
    get. The alias buffer and the output buffer are strings, what \<open>fatal\<close> prints is the left of a
    sum, and the symbol of the ELF file is a record of what is read of it.
  \<^item> \<open>scripts/kconfig/expr.c\<close>: \<open>Kconfig_Expr\<close> (expressions, evaluation, the simple
    transformations), \<open>Kconfig_Equal\<close> (\<open>expr_eq\<close> and \<open>expr_eliminate_eq\<close>), \<open>Kconfig_Simplify\<close> (joining
    of operands, \<open>expr_transform\<close>), \<open>Kconfig_Print\<close> (printing, against the grammar of \<open>zconf.y\<close>) and
    \<open>Kconfig_Properties\<close>. Expressions are values, the null pointer is \<^term>\<open>None\<close>, and the symbols are
    a record of the functions that give their fields (\<open>symbols\<close>, with \<open>env_ok\<close> for what
    \<open>symbol.c\<close> keeps true of them).

  Conventions. A C array is a list of bytes of its declared length and every access is checked
  (\<open>peek\<close>, \<open>poke\<close>, \<open>memcpy\<close>, \<open>memmove\<close> in \<open>Lab_Prelude\<close>): \<^term>\<open>None\<close> is an access outside an array
  or through an invalid pointer, so \<^term>\<open>Some\<close> in a theorem includes memory safety. \<open>int\<close>
  variables of C whose values stay small are integers; bytes, 16- and 32-bit quantities are
  words. What a system call returns is an argument: the answers of the kernel to \<open>fbopen\<close> and to
  the probe, the counts returned by \<open>write\<close>, the bytes of one \<open>read\<close>, the USB descriptors. The
  contents of uninitialised buffers are arguments too. The loops are structural, with two
  exceptions: the search loops of \<open>Usb\<close>, whose byte counters may wrap, are partial functions with
  \<^term>\<open>None\<close> for a search that never ends; and the recursions of Kconfig that work on what they
  have just built carry fuel: four times the number of nodes for \<open>expr_eq\<close> (\<open>eq_fuel\<close>, enough by
  \<open>expr_eq_returns\<close>) and twice the height for \<open>expr_transform\<close> (enough by \<open>transform_total\<close>).

  What the theorems show. For lab 2: from a successful start no interleaving of keys, blinks
  and ASCII messages makes a handler leave its buffers, and the screen always shows the last 20
  lines received and the text being edited; every character handled has its documented effect
  on the text; every printable text can be typed; what is sent is the text. They also show
  where the program fails: bytes above 127 are drawn from outside the font, the unlocked edits
  can drive the cursor to -1, the cursor hides a character at two positions, and a full line
  costs two rows. For lab 3: the counters scan the screen as designed, the picture is the disc
  around the registers, the probe is all or nothing, the driver survives every ioctl sequence,
  and the program bounces the ball for ever inside the screen; and: the result of
  \<open>misc_register\<close> is lost, the device is visible before it is mapped, coordinates are truncated
  by the hardware only.

  For the build tools: the aliases of PCI, USB, AMBA and PHY entries match exactly the devices
  the entries describe; a table is printed whole or refused, and strings never run past it;
  the simplifications of configuration expressions end and keep their values; what is printed
  reads back with the same value. They also show three faults: a USB range over a whole last digit
  matches nothing, the alias of an input entry can overflow its buffer, and joining compares
  numeric constants wrongly.

  Not modelled: the text the lab programs print, delays, the end of \<open>main\<close> after the escape key,
  the sockets and USB transfers beyond their results, the hardware of lab 1, the generated
  system files of lab 3; of the build tools the reading of ELF files, \<open>expr_eliminate_dups\<close>, the
  computation of symbol values and the menus; and all other packaged kernel headers, except for
  the ioctl encoding.
\<close>

end
